(* ===== verification/BW_Prelude.thy ===== *)
theory BW_Prelude
  imports Main "HOL-Library.Word" "HOL-Library.Char_ord" "HOL-Library.List_Lexorder"
    "HOL-Library.Product_Lexorder"
begin

text \<open>
  The shared part of the development: the result type of a fallible Go function, Go's duration
  arithmetic, and the reading of a PostgreSQL table as a list of rows. A statement
  \<^verbatim>\<open>UPDATE t SET ... WHERE p\<close> is \<open>sql_update p f\<close>; its \<^verbatim>\<open>RowsAffected\<close> is
  \<open>rows_affected p\<close>; \<^verbatim>\<open>SELECT ... LIMIT 1\<close> is \<open>sql_row p\<close>.

  Most writes of the program are conditional updates of one row by its key whose predicate decides
  the write (an owner fence, a state comparison, a generation). The locale \<open>keyed_update\<close> states
  that contract once and derives what a client needs of it: at most one row is written, exactly one
  precisely when the keyed row satisfies the predicate, and every other row is left alone. The
  components interpret it on their own predicates.
\<close>

named_theorems rows_simps \<open>how table reads and writes compose\<close>

section \<open>Results and durations\<close>

text \<open>A Go function answering \<open>(value, error)\<close>: \<open>Inl\<close> is the error, after which the transaction
  the function ran in is rolled back by its caller.\<close>

type_synonym ('e, 'a) res = "'e + 'a"

abbreviation is_ok :: "('e, 'a) res \<Rightarrow> bool" where
  "is_ok r \<equiv> (case r of Inl _ \<Rightarrow> False | Inr _ \<Rightarrow> True)"

text \<open>Go's integer division truncates towards zero; \<open>time.Duration\<close> counts nanoseconds, and
  \<open>Microseconds\<close> is that division by 1000.\<close>

definition go_quot :: "int \<Rightarrow> int \<Rightarrow> int" where
  "go_quot a b = sgn a * sgn b * (\<bar>a\<bar> div \<bar>b\<bar>)"

definition microseconds :: "int \<Rightarrow> int" where
  "microseconds d = go_quot d 1000"

lemma microseconds_nonneg: "0 \<le> d \<Longrightarrow> microseconds d = d div 1000"
  by (cases "d = 0") (auto simp: microseconds_def go_quot_def)

lemma microseconds_pos: "1000 \<le> d \<Longrightarrow> 0 < microseconds d"
  by (simp add: microseconds_nonneg)

lemma microseconds_ge0 [simp]: "0 \<le> d \<Longrightarrow> 0 \<le> microseconds d"
  by (simp add: microseconds_nonneg)

lemma microseconds_mono: "0 \<le> d \<Longrightarrow> d \<le> e \<Longrightarrow> microseconds d \<le> microseconds e"
  by (simp add: microseconds_nonneg zdiv_mono1)

section \<open>Decimal integers\<close>

text \<open>\<^verbatim>\<open>strconv.Itoa\<close> and \<^verbatim>\<open>%d\<close> of a non-negative int, and the value of a string of digits.\<close>

fun dec_nat :: "nat \<Rightarrow> string" where
  "dec_nat n = (if n < 10 then [char_of (48 + n)] else dec_nat (n div 10) @ [char_of (48 + n mod 10)])"

declare dec_nat.simps [simp del]

definition digit :: "char \<Rightarrow> bool" where
  "digit c \<longleftrightarrow> 48 \<le> (of_char c :: nat) \<and> (of_char c :: nat) \<le> 57"

definition dec_val :: "string \<Rightarrow> nat" where
  "dec_val s = foldl (\<lambda>n c. 10 * n + (of_char c - 48)) 0 s"

text \<open>A non-negative decimal with no sign and no leading zero, as \<^verbatim>\<open>Itoa\<close> writes one.\<close>

definition decimal :: "string \<Rightarrow> bool" where
  "decimal s \<longleftrightarrow> \<not> (s = [] \<or> length s > 1 \<and> hd s = CHR ''0'') \<and> list_all digit s"

lemma dec_val_snoc: "dec_val (s @ [c]) = 10 * dec_val s + (of_char c - 48)"
  by (simp add: dec_val_def)

lemma digit_char: "n < 10 \<Longrightarrow> digit (char_of (48 + n :: nat))"
    "n < 10 \<Longrightarrow> of_char (char_of (48 + n) :: char) = (48 + n :: nat)"
  by (simp_all add: digit_def)

lemma dec_nat_nonempty: "dec_nat n \<noteq> []"
  by (subst dec_nat.simps) simp

lemma dec_val_dec_nat: "dec_val (dec_nat n) = n"
proof (induction n rule: dec_nat.induct)
  case (1 n)
  show ?case
  proof (cases "n < 10")
    case True
    then show ?thesis by (subst dec_nat.simps) (simp add: dec_val_def digit_char)
  next
    case False
    with 1 have "dec_val (dec_nat (n div 10)) = n div 10" by simp
    with False show ?thesis by (subst dec_nat.simps) (simp add: dec_val_snoc digit_char)
  qed
qed

lemma dec_nat_digits: "list_all digit (dec_nat n)"
proof (induction n rule: dec_nat.induct)
  case (1 n)
  then show ?case by (subst dec_nat.simps) (auto simp: digit_char)
qed

lemma dec_nat_no_zero: "0 < n \<Longrightarrow> hd (dec_nat n) \<noteq> CHR ''0''"
proof (induction n rule: dec_nat.induct)
  case (1 n)
  show ?case
  proof (cases "n < 10")
    case True
    then have "of_char (hd (dec_nat n)) = 48 + n" by (subst dec_nat.simps) (simp add: digit_char)
    moreover have "of_char (CHR ''0'') = (48 :: nat)" by simp
    ultimately show ?thesis using 1 by auto
  next
    case False
    with 1 have "hd (dec_nat (n div 10)) \<noteq> CHR ''0''" by simp
    with False show ?thesis by (subst dec_nat.simps) (simp add: dec_nat_nonempty)
  qed
qed

lemma decimal_dec_nat: "decimal (dec_nat n)"
proof (cases "n = 0")
  case True
  then show ?thesis by (subst dec_nat.simps) (simp add: decimal_def digit_def)
qed (simp add: decimal_def dec_nat_nonempty dec_nat_no_zero dec_nat_digits)

lemma dec_nat_dec_val: "decimal s \<Longrightarrow> dec_nat (dec_val s) = s"
proof (induction s rule: rev_induct)
  case (snoc c s)
  have c: "digit c" using snoc.prems by (simp add: decimal_def)
  then have cc: "char_of (48 + (of_char c - 48 :: nat)) = c" and lt: "of_char c - 48 < (10 :: nat)"
    by (auto simp: digit_def)
  show ?case
  proof (cases "s = []")
    case True
    then show ?thesis using cc lt by (subst dec_nat.simps) (simp add: dec_val_def)
  next
    case False
    then have s: "decimal s" using snoc.prems by (auto simp: decimal_def)
    then have IH: "dec_nat (dec_val s) = s" by (rule snoc.IH)
    have "dec_val s \<noteq> 0"
    proof
      assume "dec_val s = 0"
      then have "s = [char_of (48 :: nat)]" using IH by (subst (asm) dec_nat.simps) auto
      moreover have "char_of (48 :: nat) = CHR ''0''" by code_simp
      ultimately show False using snoc.prems by (simp add: decimal_def)
    qed
    then show ?thesis using IH lt cc by (subst dec_nat.simps) (simp add: dec_val_snoc)
  qed
qed (simp add: decimal_def)

section \<open>White space\<close>

text \<open>The length of the UTF-8 encoding of one white space character at the head of a string
  (\<^verbatim>\<open>unicode.IsSpace\<close>), 0 when there is none; \<^verbatim>\<open>strings.Fields\<close>; and whether
  \<^verbatim>\<open>strings.TrimSpace\<close> leaves nothing.\<close>

definition space_len :: "string \<Rightarrow> nat" where
  "space_len s =
     (case map of_char (take 3 s) :: nat list of
        [] \<Rightarrow> 0
      | a # r \<Rightarrow>
          if a \<in> {9, 10, 11, 12, 13, 32} then 1
          else (case r of
            [] \<Rightarrow> 0
          | b # r' \<Rightarrow>
              if a = 194 \<and> (b = 133 \<or> b = 160) then 2
              else (case r' of
                [] \<Rightarrow> 0
              | c # _ \<Rightarrow>
                  if a = 225 \<and> b = 154 \<and> c = 128 \<or>
                     a = 226 \<and> b = 128 \<and> (128 \<le> c \<and> c \<le> 138 \<or> c \<in> {168, 169, 175}) \<or>
                     a = 226 \<and> b = 129 \<and> c = 159 \<or> a = 227 \<and> b = 128 \<and> c = 128
                  then 3 else 0)))"

function fields_from :: "string \<Rightarrow> string \<Rightarrow> string list" where
  "fields_from acc s =
     (if s = [] then (if acc = [] then [] else [acc])
      else if space_len s = 0 then fields_from (acc @ [hd s]) (tl s)
      else (if acc = [] then [] else [acc]) @ fields_from [] (drop (space_len s) s))"
  by pat_completeness auto
termination
  by (relation "measure (\<lambda>(acc, s). length s)") auto

declare fields_from.simps [simp del]

definition go_fields :: "string \<Rightarrow> string list" where
  "go_fields s = fields_from [] s"

definition blank :: "string \<Rightarrow> bool" where
  "blank s \<longleftrightarrow> go_fields s = []"

section \<open>Tables as lists of rows\<close>

definition sql_update :: "('r \<Rightarrow> bool) \<Rightarrow> ('r \<Rightarrow> 'r) \<Rightarrow> 'r list \<Rightarrow> 'r list" where
  "sql_update p f rs = map (\<lambda>r. if p r then f r else r) rs"

definition rows_affected :: "('r \<Rightarrow> bool) \<Rightarrow> 'r list \<Rightarrow> nat" where
  "rows_affected p rs = length (filter p rs)"

definition sql_row :: "('r \<Rightarrow> bool) \<Rightarrow> 'r list \<Rightarrow> 'r option" where
  "sql_row p rs = find p rs"

lemma sql_update_simps [simp, rows_simps]:
  "sql_update p f [] = []"
  "sql_update p f (r # rs) = (if p r then f r else r) # sql_update p f rs"
  by (simp_all add: sql_update_def)

lemma set_sql_update [rows_simps]:
  "set (sql_update p f rs) = {if p r then f r else r | r. r \<in> set rs}"
  by (auto simp: sql_update_def)

lemma in_sql_updateE:
  assumes "x \<in> set (sql_update p f rs)"
  obtains r where "r \<in> set rs" and "p r" and "x = f r"
    | r where "r \<in> set rs" and "\<not> p r" and "x = r"
  using assms by (auto simp: set_sql_update split: if_splits)

lemma in_sql_updateI: "r \<in> set rs \<Longrightarrow> (if p r then f r else r) \<in> set (sql_update p f rs)"
  by (auto simp: set_sql_update)

lemma length_sql_update [simp]: "length (sql_update p f rs) = length rs"
  by (simp add: sql_update_def)

lemma sql_update_none: "(\<And>r. r \<in> set rs \<Longrightarrow> \<not> p r) \<Longrightarrow> sql_update p f rs = rs"
  by (simp add: sql_update_def map_idI)

lemma map_key_sql_update:
  "(\<And>r. p r \<Longrightarrow> k (f r) = k r) \<Longrightarrow> map k (sql_update p f rs) = map k rs"
  by (simp add: sql_update_def)

lemma rows_affected_0_iff: "rows_affected p rs = 0 \<longleftrightarrow> (\<forall>r \<in> set rs. \<not> p r)"
  by (simp add: rows_affected_def filter_empty_conv)

lemma sql_update_unaffected: "rows_affected p rs = 0 \<Longrightarrow> sql_update p f rs = rs"
  by (rule sql_update_none) (simp add: rows_affected_0_iff)

lemma sql_row_Some: "sql_row p rs = Some r \<Longrightarrow> r \<in> set rs \<and> p r"
  by (auto simp: sql_row_def find_Some_iff)

lemma sql_row_None: "sql_row p rs = None \<longleftrightarrow> (\<forall>r \<in> set rs. \<not> p r)"
  by (auto simp: sql_row_def find_None_iff)

text \<open>The row a table holds under a key.\<close>

definition keyed :: "('r \<Rightarrow> 'k) \<Rightarrow> 'k \<Rightarrow> 'r list \<Rightarrow> 'r option" where
  "keyed key k rs = sql_row (\<lambda>r. key r = k) rs"

lemma keyed_Some: "keyed key k rs = Some r \<Longrightarrow> r \<in> set rs \<and> key r = k"
  by (auto simp: keyed_def dest: sql_row_Some)

lemma keyed_None: "keyed key k rs = None \<longleftrightarrow> k \<notin> key ` set rs"
  by (auto simp: keyed_def sql_row_None)

lemma keyed_Cons: "keyed key k (r # rs) = (if key r = k then Some r else keyed key k rs)"
  by (simp add: keyed_def sql_row_def)

lemma keyed_unique:
  assumes "distinct (map key rs)" and "r \<in> set rs" and "key r = k"
  shows "keyed key k rs = Some r"
  using assms by (induction rs) (auto simp: keyed_Cons keyed_def sql_row_def)

lemma keyed_append:
  "keyed key k (rs @ ss) = (case keyed key k rs of None \<Rightarrow> keyed key k ss | Some r \<Rightarrow> Some r)"
  by (induction rs) (simp_all add: keyed_Cons keyed_def sql_row_def)

lemma keyed_sql_update:
  assumes "\<And>r. p r \<Longrightarrow> key (f r) = key r"
  shows "keyed key k (sql_update p f rs) = map_option (\<lambda>r. if p r then f r else r) (keyed key k rs)"
  using assms by (induction rs) (auto simp: keyed_Cons keyed_def sql_row_def)

text \<open>The row a one-row \<^verbatim>\<open>UPDATE ... RETURNING\<close> writes: the statement is taken only when its
  predicate selects exactly one row.\<close>

definition hit :: "('r \<Rightarrow> bool) \<Rightarrow> 'r list \<Rightarrow> 'r option" where
  "hit p rs = (case filter p rs of [r] \<Rightarrow> Some r | _ \<Rightarrow> None)"

lemma hit_Some: "hit p rs = Some r \<Longrightarrow> r \<in> set rs \<and> p r"
proof -
  assume "hit p rs = Some r"
  then have "filter p rs = [r]" by (simp add: hit_def split: list.splits)
  then have "r \<in> set (filter p rs)" by simp
  then show ?thesis by simp
qed

section \<open>The conditional update of one keyed row\<close>

locale keyed_update =
  fixes key :: "'r \<Rightarrow> 'k"
    and k :: 'k
    and p :: "'r \<Rightarrow> bool"
    and f :: "'r \<Rightarrow> 'r"
  assumes p_key: "p r \<Longrightarrow> key r = k"
    and f_key: "p r \<Longrightarrow> key (f r) = key r"
begin

lemma keys_kept: "map key (sql_update p f rs) = map key rs"
  by (rule map_key_sql_update) (rule f_key)

lemma distinct_kept: "distinct (map key (sql_update p f rs)) = distinct (map key rs)"
  by (simp only: keys_kept)

lemma other_row: "j \<noteq> k \<Longrightarrow> keyed key j (sql_update p f rs) = keyed key j rs"
  by (induction rs) (auto simp: keyed_Cons keyed_def sql_row_def f_key dest: p_key)

lemma own_row:
  "keyed key k (sql_update p f rs) = map_option (\<lambda>r. if p r then f r else r) (keyed key k rs)"
  by (rule keyed_sql_update) (rule f_key)

lemma affected_le1: "distinct (map key rs) \<Longrightarrow> rows_affected p rs \<le> 1"
proof (induction rs)
  case (Cons r rs)
  show ?case
  proof (cases "p r")
    case True
    have "\<not> p x" if "x \<in> set rs" for x
    proof -
      have "key r \<noteq> key x" using Cons.prems that by auto
      then show ?thesis using True p_key by metis
    qed
    then show ?thesis by (simp add: rows_affected_def True filter_False)
  next
    case False
    then show ?thesis using Cons by (simp add: rows_affected_def)
  qed
qed (simp add: rows_affected_def)

lemma affected_1_iff:
  assumes "distinct (map key rs)"
  shows "rows_affected p rs = 1 \<longleftrightarrow> (\<exists>r. keyed key k rs = Some r \<and> p r)"
proof
  assume "rows_affected p rs = 1"
  then obtain r where "r \<in> set rs" and "p r"
    using rows_affected_0_iff [of p rs] by fastforce
  then show "\<exists>r. keyed key k rs = Some r \<and> p r"
    using assms by (auto dest: p_key intro: keyed_unique)
next
  assume "\<exists>r. keyed key k rs = Some r \<and> p r"
  then have "rows_affected p rs \<noteq> 0"
    using rows_affected_0_iff [of p rs] by (auto dest: keyed_Some)
  with affected_le1 [OF assms] show "rows_affected p rs = 1" by simp
qed

lemma hit_iff:
  assumes "distinct (map key rs)"
  shows "hit p rs = Some r \<longleftrightarrow> keyed key k rs = Some r \<and> p r"
proof
  assume "hit p rs = Some r"
  then show "keyed key k rs = Some r \<and> p r"
    using assms p_key by (auto dest!: hit_Some intro: keyed_unique)
next
  assume r: "keyed key k rs = Some r \<and> p r"
  then have "length (filter p rs) = 1"
    using affected_1_iff [OF assms] by (auto simp: rows_affected_def)
  then obtain x where x: "filter p rs = [x]"
    by (auto simp: length_Suc_conv)
  moreover have "r \<in> set (filter p rs)" using r by (auto dest: keyed_Some)
  ultimately show "hit p rs = Some r" by (simp add: hit_def)
qed

lemma hit_None:
  assumes "distinct (map key rs)"
  shows "hit p rs = None \<longleftrightarrow> (\<forall>r. keyed key k rs = Some r \<longrightarrow> \<not> p r)"
  using hit_iff [OF assms] by (metis not_None_eq)

lemma not_affected:
  assumes "distinct (map key rs)" and "rows_affected p rs \<noteq> 1"
  shows "sql_update p f rs = rs"
  using affected_le1 [OF assms(1)] assms(2) by (intro sql_update_unaffected) simp

end

section \<open>Simulation\<close>

text \<open>A component's steps against the abstract machine it implements: every step from a state of the
  invariant keeps the invariant and is a stutter or a step of the abstract machine. What holds of
  one step holds of every run.\<close>

locale forward_sim =
  fixes step :: "'s \<Rightarrow> 's \<Rightarrow> bool"
    and inv :: "'s \<Rightarrow> bool"
    and astep :: "'a \<Rightarrow> 'a \<Rightarrow> bool"
    and abs :: "'s \<Rightarrow> 'a"
  assumes inv_step: "inv s \<Longrightarrow> step s t \<Longrightarrow> inv t"
    and sim_step: "inv s \<Longrightarrow> step s t \<Longrightarrow> abs t = abs s \<or> astep (abs s) (abs t)"
begin

lemma inv_run: "step\<^sup>*\<^sup>* s t \<Longrightarrow> inv s \<Longrightarrow> inv t"
  by (induction rule: rtranclp_induct) (auto intro: inv_step)

lemma sim_run: "step\<^sup>*\<^sup>* s t \<Longrightarrow> inv s \<Longrightarrow> astep\<^sup>*\<^sup>* (abs s) (abs t)"
proof (induction rule: rtranclp_induct)
  case (step t u)
  then have "abs u = abs t \<or> astep (abs t) (abs u)"
    using sim_step inv_run by blast
  with step show ?case by (auto intro: rtranclp.rtrancl_into_rtrancl)
qed simp

lemma abstract_invariant:
  assumes run: "step\<^sup>*\<^sup>* s t" and "inv s"
    and kept: "\<And>a b. astep a b \<Longrightarrow> P a \<Longrightarrow> P b" and "P (abs s)"
  shows "P (abs t)"
  using sim_run [OF run \<open>inv s\<close>] \<open>P (abs s)\<close>
  by (induction rule: rtranclp_induct) (auto intro: kept)

end

end
