(* ===== verification/Staging_Claim.thy ===== *)
theory Staging_Claim
  imports BW_Prelude
begin

text \<open>
  The staging claim (\<^verbatim>\<open>internal/staging\<close>): the record under which one process ingests an input,
  with an owner, an owner generation, the epoch that generation was issued in, a lease and an
  absolute expiry. Every statement of the package is a definition: \<open>create\<close>, \<open>heartbeat\<close>,
  \<open>restart\<close>, \<open>store_payload\<close>, \<open>pause\<close>, \<open>hold\<close>, \<open>release\<close>, \<open>abandon\<close>, \<open>mark\<close>, \<open>continue_claim\<close>,
  \<open>take_over\<close>, \<open>abandon_due\<close> and \<open>sweep\<close>.

  A statement runs with the claim's row and the installation state locked, so it is a function of
  the tables. A write reads the database's clock for its predicate (\<open>t\<close>) and again for the values
  it stores (\<open>t'\<close>); a read after a refused write has a reading of its own. An \<open>Inl\<close> result rolls
  the caller's transaction back. Failures of the connection are not modelled.
\<close>

section \<open>The tables\<close>

type_synonym bytes = "8 word list"

datatype mode = Transient | Encrypted
datatype cstate = Held | Paused | Resumed | Released | Abandoned
datatype ckind = Import | DriftAdoption | DraftUpdate
datatype review = Pending | Continued

record claim_row =
  c_id :: string
  c_mode :: mode
  c_state :: cstate
  c_owner :: string
  c_gen :: int
  c_epoch :: string
  c_lease :: int
  c_expires :: int
  c_payload :: "bytes option"
  c_principal :: "string option"
  c_key :: "string option"
  c_created :: int
  c_cluster :: string
  c_machine :: "string option"
  c_kind :: ckind
  c_digest :: "bytes option"
  c_draft :: "string option"
  c_review :: "review option"

datatype jstate = Queued | Running | Succeeded | Failed

text \<open>The columns of an ingest operation the package writes.\<close>

record op_row =
  o_id :: string
  o_ingestion :: string
  o_state :: jstate
  o_owner :: "string option"
  o_gen :: int
  o_epoch :: "string option"
  o_lease :: "int option"
  o_last :: int
  o_error :: "string option"

record op_event =
  e_op :: string
  e_number :: int
  e_epoch :: string
  e_entry :: string
  e_at :: int

record staging_db =
  epoch :: string
  claims :: "claim_row list"
  ops :: "op_row list"
  events :: "op_event list"

abbreviation live_state :: "cstate \<Rightarrow> bool" where
  "live_state s \<equiv> s = Held \<or> s = Paused \<or> s = Resumed"

abbreviation owned_state :: "cstate \<Rightarrow> bool" where
  "owned_state s \<equiv> s = Held \<or> s = Resumed"

text \<open>The CHECK constraints of the table. \<open>kind\<close>, \<open>mode\<close>, \<open>state\<close> and \<open>review\<close> are enumerations of
  the schema and so of the model.\<close>

definition base32_char :: "char \<Rightarrow> bool" where
  "base32_char c \<longleftrightarrow> (CHR ''a'' \<le> c \<and> c \<le> CHR ''z'') \<or> (CHR ''2'' \<le> c \<and> c \<le> CHR ''7'')"

definition key_char :: "char \<Rightarrow> bool" where
  "key_char c \<longleftrightarrow> (CHR ''a'' \<le> c \<and> c \<le> CHR ''z'') \<or> (CHR ''A'' \<le> c \<and> c \<le> CHR ''Z'') \<or>
     (CHR ''0'' \<le> c \<and> c \<le> CHR ''9'') \<or> c = CHR ''_'' \<or> c = CHR ''-''"

definition claim_check :: "claim_row \<Rightarrow> bool" where
  "claim_check r \<longleftrightarrow>
     take 4 (c_id r) = ''ing_'' \<and> length (c_id r) = 30 \<and> list_all base32_char (drop 4 (c_id r)) \<and>
     list_ex (\<lambda>c. c \<noteq> CHR '' '') (c_owner r) \<and> length (c_owner r) \<le> 512 \<and>
     c_gen r \<ge> 1 \<and>
     (case c_key r of None \<Rightarrow> True
      | Some k \<Rightarrow> list_all key_char k \<and> 16 \<le> length k \<and> length k \<le> 128) \<and>
     (case c_digest r of None \<Rightarrow> True | Some d \<Rightarrow> length d = 32) \<and>
     (c_payload r = None \<or> c_mode r = Encrypted \<and> live_state (c_state r)) \<and>
     (c_review r = None \<or> c_mode r = Encrypted) \<and>
     (c_state r \<noteq> Paused \<or> c_review r = Some Pending \<and> c_payload r \<noteq> None) \<and>
     (c_state r \<noteq> Resumed \<or> c_mode r = Encrypted) \<and>
     (c_principal r = None \<longleftrightarrow> c_key r = None) \<and>
     (c_payload r = None \<longleftrightarrow> c_digest r = None) \<and>
     ((c_kind r = Import \<or> c_kind r = DriftAdoption) \<longleftrightarrow> c_machine r \<noteq> None) \<and>
     (c_kind r = DraftUpdate \<longleftrightarrow> c_draft r \<noteq> None) \<and>
     (c_kind r \<noteq> DraftUpdate \<or> c_mode r = Transient)"

section \<open>Owners, claims and errors\<close>

record owner =
  w_id :: string
  w_epoch :: string
  noEpochTerm :: bool
  noProcessEpoch :: bool

definition without_process_epoch :: "owner \<Rightarrow> owner" where
  "without_process_epoch w = w\<lparr>noProcessEpoch := True\<rparr>"

text \<open>\<open>time.Duration\<close> values, in nanoseconds.\<close>

record timers =
  lease_dur :: int
  absolute_expiry :: int

record go_claim =
  g_id :: string
  g_kind :: ckind
  g_mode :: mode
  g_cluster :: string
  g_machine :: string
  g_draft :: string
  g_review :: "review option"
  g_gen :: int

datatype staging_error =
    ErrFenced | ErrEpochSuperseded | ErrNoClaim | ErrNotEncrypted | ErrEnded | ErrLeaseLive
  | ErrClaimEpoch | ErrPaused | ErrNotPaused
  | ErrArgument \<comment> \<open>an argument the function refuses before any statement\<close>
  | ErrSchema \<comment> \<open>a constraint of the schema refused the statement\<close>
  | ErrOperation \<comment> \<open>the running operation is not at the generation taken\<close>
  | ErrDigest \<comment> \<open>the stored digest is not a SHA-256\<close>
  | ErrScan \<comment> \<open>a NULL read into a string\<close>
  | ErrMarkable \<comment> \<open>a mark refused on a claim the read after it finds markable\<close>

definition nullif :: "string \<Rightarrow> string option" where
  "nullif s = (if s = '''' then None else Some s)"

section \<open>The owner fence and one-row writes\<close>

definition fence :: "owner \<Rightarrow> go_claim \<Rightarrow> int \<Rightarrow> string \<Rightarrow> claim_row \<Rightarrow> bool" where
  "fence w c t current r \<longleftrightarrow>
     c_id r = g_id c \<and> c_owner r = w_id w \<and> c_gen r = g_gen c \<and>
     (noEpochTerm w \<or> c_epoch r = w_epoch w) \<and>
     (noProcessEpoch w \<or> w_epoch w = current) \<and>
     owned_state (c_state r) \<and> t < c_lease r \<and> t < c_expires r"

definition refused :: "owner \<Rightarrow> staging_db \<Rightarrow> staging_error" where
  "refused w db = (if epoch db \<noteq> w_epoch w then ErrEpochSuperseded else ErrFenced)"

text \<open>One conditional UPDATE of the claim: \<open>Inr None\<close> when no row is written, \<open>Inr (Some (r, db))\<close>
  with the written row, and the schema's refusal.\<close>

definition write_claim ::
  "(claim_row \<Rightarrow> bool) \<Rightarrow> (claim_row \<Rightarrow> claim_row) \<Rightarrow> staging_db
    \<Rightarrow> (staging_error, (claim_row \<times> staging_db) option) res" where
  "write_claim p f db =
     (case hit p (claims db) of
        None \<Rightarrow> Inr None
      | Some r \<Rightarrow>
          if claim_check (f r)
          then Inr (Some (f r, db\<lparr>claims := sql_update p f (claims db)\<rparr>))
          else Inl ErrSchema)"

text \<open>An owner statement: the fenced write, its refusal named by a read after it.\<close>

definition fenced_write ::
  "owner \<Rightarrow> (claim_row \<Rightarrow> bool) \<Rightarrow> (claim_row \<Rightarrow> claim_row) \<Rightarrow> staging_db
    \<Rightarrow> (staging_error, claim_row \<times> staging_db) res" where
  "fenced_write w p f db =
     (case write_claim p f db of
        Inl e \<Rightarrow> Inl e
      | Inr None \<Rightarrow> Inl (refused w db)
      | Inr (Some x) \<Rightarrow> Inr x)"

definition set_op_lease :: "(op_row \<Rightarrow> bool) \<Rightarrow> int \<Rightarrow> staging_db \<Rightarrow> staging_db" where
  "set_op_lease p until db = db\<lparr>ops := sql_update p (\<lambda>x. x\<lparr>o_lease := Some until\<rparr>) (ops db)\<rparr>"

definition running_of :: "string \<Rightarrow> op_row \<Rightarrow> bool" where
  "running_of claim x \<longleftrightarrow> o_ingestion x = claim \<and> o_state x = Running"

section \<open>Creation, heartbeat and restart\<close>

definition new_claim :: "owner \<Rightarrow> timers \<Rightarrow> go_claim \<Rightarrow> string \<Rightarrow> string \<Rightarrow> int \<Rightarrow> claim_row" where
  "new_claim w tm c prin key t =
     \<lparr>c_id = g_id c, c_mode = g_mode c, c_state = Held, c_owner = w_id w, c_gen = 1,
      c_epoch = w_epoch w, c_lease = t + microseconds (lease_dur tm),
      c_expires = t + microseconds (absolute_expiry tm), c_payload = None,
      c_principal = Some prin, c_key = Some key, c_created = t, c_cluster = g_cluster c,
      c_machine = nullif (g_machine c), c_kind = g_kind c, c_digest = None,
      c_draft = nullif (g_draft c), c_review = g_review c\<rparr>"

text \<open>The partial unique index over the live claims of one principal and key; NULLs never collide.\<close>

definition same_live_key :: "claim_row \<Rightarrow> claim_row \<Rightarrow> bool" where
  "same_live_key r s \<longleftrightarrow> live_state (c_state r) \<and> live_state (c_state s) \<and>
     c_principal r \<noteq> None \<and> c_key r \<noteq> None \<and> c_principal r = c_principal s \<and> c_key r = c_key s"

definition insert_ok :: "claim_row list \<Rightarrow> claim_row \<Rightarrow> bool" where
  "insert_ok rs r \<longleftrightarrow> claim_check r \<and> list_all (\<lambda>s. c_id s \<noteq> c_id r \<and> \<not> same_live_key s r) rs"

text \<open>\<open>fk\<close> stands for the foreign keys of the row (epoch, principal, cluster, machine, draft),
  which other tables of the schema decide.\<close>

definition create ::
  "(claim_row \<Rightarrow> bool) \<Rightarrow> owner \<Rightarrow> timers \<Rightarrow> go_claim \<Rightarrow> string \<Rightarrow> string \<Rightarrow> int \<Rightarrow> staging_db
    \<Rightarrow> (staging_error, staging_db) res" where
  "create fk w tm c prin key t db =
     (if w_id w = '''' \<or> w_epoch w = '''' \<or> g_gen c \<noteq> 1 then Inl ErrArgument
      else if lease_dur tm \<le> 0 \<or> lease_dur tm \<ge> absolute_expiry tm then Inl ErrArgument
      else if \<not> (noProcessEpoch w \<or> epoch db = w_epoch w) then Inl ErrEpochSuperseded
      else let r = new_claim w tm c prin key t in
        if insert_ok (claims db) r \<and> fk r then Inr (db\<lparr>claims := claims db @ [r]\<rparr>)
        else Inl ErrSchema)"

definition heartbeat :: "owner \<Rightarrow> go_claim \<Rightarrow> int \<Rightarrow> int \<Rightarrow> int \<Rightarrow> staging_db
    \<Rightarrow> (staging_error, staging_db) res" where
  "heartbeat w c lease t t' db =
     (if lease \<le> 0 then Inl ErrArgument
      else case fenced_write w (fence w c t (epoch db))
          (\<lambda>r. r\<lparr>c_lease := min (t' + microseconds lease) (c_expires r)\<rparr>) db of
        Inl e \<Rightarrow> Inl e
      | Inr (r, db') \<Rightarrow>
          Inr (set_op_lease (\<lambda>x. running_of (c_id r) x \<and> o_owner x = Some (w_id w)) (c_lease r) db'))"

definition restart :: "string \<Rightarrow> timers \<Rightarrow> bool \<Rightarrow> int \<Rightarrow> staging_db
    \<Rightarrow> (staging_error, staging_db) res" where
  "restart claim tm fresh t db =
     (case (if fresh
        then write_claim (\<lambda>r. c_id r = claim \<and> c_state r = Held)
          (\<lambda>r. r\<lparr>c_created := t, c_lease := t + microseconds (lease_dur tm),
                 c_expires := t + microseconds (absolute_expiry tm)\<rparr>) db
        else write_claim (\<lambda>r. c_id r = claim \<and> owned_state (c_state r) \<and> t < c_expires r)
          (\<lambda>r. r\<lparr>c_lease := min (t + microseconds (lease_dur tm)) (c_expires r)\<rparr>) db) of
        Inl e \<Rightarrow> Inl e
      | Inr None \<Rightarrow> Inl ErrEnded
      | Inr (Some (r, db')) \<Rightarrow> Inr (set_op_lease (running_of claim) (c_lease r) db'))"

section \<open>The payload, the pause and the end\<close>

definition store_payload :: "owner \<Rightarrow> go_claim \<Rightarrow> bytes \<Rightarrow> bytes \<Rightarrow> int \<Rightarrow> staging_db
    \<Rightarrow> (staging_error, staging_db) res" where
  "store_payload w c ct dig t db =
     (if g_mode c \<noteq> Encrypted \<or> ct = [] then Inl ErrArgument
      else case fenced_write w (fence w c t (epoch db))
          (\<lambda>r. r\<lparr>c_payload := Some ct, c_digest := Some dig\<rparr>) db of
        Inl e \<Rightarrow> Inl e | Inr (_, db') \<Rightarrow> Inr db')"

definition coalesce :: "'a option \<Rightarrow> 'a option \<Rightarrow> 'a option" where
  "coalesce a b = (case a of None \<Rightarrow> b | Some x \<Rightarrow> Some x)"

definition paused_row :: "int \<Rightarrow> bytes option \<Rightarrow> bytes option \<Rightarrow> claim_row \<Rightarrow> claim_row" where
  "paused_row t' ct digest r = r\<lparr>c_state := Paused, c_lease := t',
     c_payload := coalesce ct (c_payload r), c_digest := coalesce digest (c_digest r)\<rparr>"

definition pause :: "owner \<Rightarrow> go_claim \<Rightarrow> bytes option \<Rightarrow> bytes \<Rightarrow> int \<Rightarrow> int \<Rightarrow> staging_db
    \<Rightarrow> (staging_error, staging_db) res" where
  "pause w c ct dig t t' db =
     (if ct \<noteq> None \<and> (g_mode c \<noteq> Encrypted \<or> ct = Some []) then Inl ErrArgument
      else case fenced_write w (\<lambda>r. fence w c t (epoch db) r \<and> c_review r = Some Pending)
          (paused_row t' ct (if ct = None then None else Some dig)) db of
        Inl e \<Rightarrow> Inl e
      | Inr (r, db') \<Rightarrow>
          Inr (set_op_lease (\<lambda>x. running_of (c_id r) x \<and> o_owner x = Some (w_id w)) (c_lease r) db'))"

definition held_row :: "claim_row \<Rightarrow> claim_row" where
  "held_row r = r\<lparr>c_lease := c_lease r\<rparr>"

definition hold :: "owner \<Rightarrow> go_claim \<Rightarrow> int \<Rightarrow> staging_db \<Rightarrow> (staging_error, staging_db) res" where
  "hold w c t db =
     (case fenced_write w (fence w c t (epoch db)) held_row db of
        Inl e \<Rightarrow> Inl e | Inr (_, db') \<Rightarrow> Inr db')"

definition end_claim :: "owner \<Rightarrow> go_claim \<Rightarrow> cstate \<Rightarrow> int \<Rightarrow> staging_db
    \<Rightarrow> (staging_error, staging_db) res" where
  "end_claim w c st t db =
     (case fenced_write w (fence w c t (epoch db))
        (\<lambda>r. r\<lparr>c_state := st, c_payload := None, c_digest := None\<rparr>) db of
        Inl e \<Rightarrow> Inl e | Inr (_, db') \<Rightarrow> Inr db')"

definition release :: "owner \<Rightarrow> go_claim \<Rightarrow> int \<Rightarrow> staging_db \<Rightarrow> (staging_error, staging_db) res" where
  "release w c t db = end_claim w c Released t db"

definition abandon :: "owner \<Rightarrow> go_claim \<Rightarrow> int \<Rightarrow> staging_db \<Rightarrow> (staging_error, staging_db) res" where
  "abandon w c t db = end_claim w c Abandoned t db"

section \<open>Taking a claim: takeover, mark and continuation\<close>

record taken =
  tk_claim :: go_claim
  tk_payload :: "bytes option"
  tk_digest :: bytes

definition move_operation :: "owner \<Rightarrow> go_claim \<Rightarrow> int \<Rightarrow> staging_db
    \<Rightarrow> (staging_error, staging_db) res" where
  "move_operation w c until db =
     (let p = (\<lambda>x. running_of (g_id c) x \<and> o_gen x = g_gen c - 1) in
      if rows_affected p (ops db) \<noteq> 1 then Inl ErrOperation
      else Inr (db\<lparr>ops := sql_update p (\<lambda>x. x\<lparr>o_owner := Some (w_id w), o_gen := g_gen c,
             o_epoch := Some (w_epoch w), o_lease := Some until\<rparr>) (ops db)\<rparr>))"

definition set_digest :: "taken \<Rightarrow> bytes option \<Rightarrow> (staging_error, taken) res" where
  "set_digest tk d =
     (case d of None \<Rightarrow> Inl ErrDigest
      | Some b \<Rightarrow> if length b \<noteq> 32 then Inl ErrDigest else Inr (tk\<lparr>tk_digest := b\<rparr>))"

definition eligible :: "string \<Rightarrow> int \<Rightarrow> claim_row \<Rightarrow> bool" where
  "eligible current t r \<longleftrightarrow> c_mode r = Encrypted \<and> owned_state (c_state r) \<and>
     c_lease r \<le> t \<and> t < c_expires r \<and> c_epoch r = current"

definition not_eligible :: "owner \<Rightarrow> string \<Rightarrow> int \<Rightarrow> staging_db \<Rightarrow> staging_error option" where
  "not_eligible w claim t db =
     (case keyed c_id claim (claims db) of
        None \<Rightarrow> Some ErrNoClaim
      | Some r \<Rightarrow>
          if epoch db \<noteq> w_epoch w then Some ErrEpochSuperseded
          else if c_mode r \<noteq> Encrypted then Some ErrNotEncrypted
          else if c_state r = Paused \<and> \<not> c_expires r \<le> t then Some ErrPaused
          else if \<not> owned_state (c_state r) \<or> c_expires r \<le> t then Some ErrEnded
          else if c_epoch r \<noteq> epoch db then Some ErrClaimEpoch
          else if \<not> c_lease r \<le> t then Some ErrLeaseLive
          else None)"

definition taken_claim :: "claim_row \<Rightarrow> string \<Rightarrow> go_claim" where
  "taken_claim r m =
     \<lparr>g_id = c_id r, g_kind = c_kind r, g_mode = Encrypted, g_cluster = c_cluster r, g_machine = m,
      g_draft = '''', g_review = c_review r, g_gen = c_gen r\<rparr>"

definition taken_over :: "owner \<Rightarrow> int \<Rightarrow> int \<Rightarrow> claim_row \<Rightarrow> claim_row" where
  "taken_over w lease t' r = r\<lparr>c_owner := w_id w, c_gen := c_gen r + 1, c_epoch := w_epoch w,
     c_state := (if c_payload r = None then Abandoned else Resumed),
     c_lease := min (t' + microseconds lease) (c_expires r)\<rparr>"

definition take_over :: "owner \<Rightarrow> int \<Rightarrow> string \<Rightarrow> int \<Rightarrow> int \<Rightarrow> int \<Rightarrow> staging_db
    \<Rightarrow> (staging_error, taken \<times> staging_db) res" where
  "take_over w lease claim t t' t2 db =
     (if w_id w = '''' \<or> w_epoch w = '''' \<or> lease \<le> 0 then Inl ErrArgument
      else case write_claim
          (\<lambda>r. c_id r = claim \<and> w_epoch w = epoch db \<and> eligible (epoch db) t r)
          (taken_over w lease t') db of
        Inl e \<Rightarrow> Inl e
      | Inr None \<Rightarrow> Inl (case not_eligible w claim t2 db of Some e \<Rightarrow> e | None \<Rightarrow> ErrLeaseLive)
      | Inr (Some (r, db1)) \<Rightarrow>
          (case c_machine r of
             None \<Rightarrow> Inl ErrScan
           | Some m \<Rightarrow>
               let tk = \<lparr>tk_claim = taken_claim r m, tk_payload = c_payload r, tk_digest = replicate 32 0\<rparr> in
               (case move_operation w (tk_claim tk) (c_lease r) db1 of
                  Inl e \<Rightarrow> Inl e
                | Inr db2 \<Rightarrow>
                    if tk_payload tk = None then Inr (tk, db2)
                    else (case set_digest tk (c_digest r) of Inl e \<Rightarrow> Inl e | Inr tk' \<Rightarrow> Inr (tk', db2)))))"

definition markable :: "string \<Rightarrow> int \<Rightarrow> int \<Rightarrow> claim_row \<Rightarrow> bool" where
  "markable current gen t r \<longleftrightarrow>
     c_state r = Paused \<and> c_gen r = gen \<and> t < c_expires r \<and> c_epoch r = current"

definition not_markable :: "owner \<Rightarrow> string \<Rightarrow> int \<Rightarrow> staging_db \<Rightarrow> staging_error" where
  "not_markable w claim t db =
     (case keyed c_id claim (claims db) of
        None \<Rightarrow> ErrNoClaim
      | Some r \<Rightarrow>
          if epoch db \<noteq> w_epoch w then ErrEpochSuperseded
          else if c_state r = Released \<or> c_state r = Abandoned \<or> c_state r = Paused \<and> c_expires r \<le> t then ErrEnded
          else if c_state r \<noteq> Paused then ErrNotPaused
          else if c_epoch r \<noteq> epoch db then ErrClaimEpoch
          else ErrMarkable)"

definition marked_row :: "owner \<Rightarrow> int \<Rightarrow> review \<Rightarrow> int \<Rightarrow> claim_row \<Rightarrow> claim_row" where
  "marked_row w lease rv t' r = r\<lparr>c_owner := w_id w, c_gen := c_gen r + 1, c_epoch := w_epoch w,
     c_state := Held, c_review := Some rv, c_lease := min (t' + microseconds lease) (c_expires r)\<rparr>"

definition mark_as :: "review \<Rightarrow> owner \<Rightarrow> int \<Rightarrow> string \<Rightarrow> int \<Rightarrow> int \<Rightarrow> int \<Rightarrow> staging_db
    \<Rightarrow> (staging_error, taken \<times> staging_db) res" where
  "mark_as rv w lease claim t t' t2 db =
     (if w_id w = '''' \<or> w_epoch w = '''' \<or> lease \<le> 0 then Inl ErrArgument
      else case keyed c_id claim (claims db) of
        None \<Rightarrow> Inl ErrNoClaim
      | Some r0 \<Rightarrow>
          (case write_claim
              (\<lambda>r. c_id r = claim \<and> w_epoch w = epoch db \<and> markable (epoch db) (c_gen r0) t r)
              (marked_row w lease rv t') db of
             Inl e \<Rightarrow> Inl e
           | Inr None \<Rightarrow> Inl (not_markable w claim t2 db)
           | Inr (Some (r, db1)) \<Rightarrow>
               (case c_machine r of
                  None \<Rightarrow> Inl ErrScan
                | Some m \<Rightarrow>
                    let tk = \<lparr>tk_claim = taken_claim r m, tk_payload = c_payload r, tk_digest = replicate 32 0\<rparr> in
                    (case move_operation w (tk_claim tk) (c_lease r) db1 of
                       Inl e \<Rightarrow> Inl e
                     | Inr db2 \<Rightarrow>
                         (case set_digest tk (c_digest r) of Inl e \<Rightarrow> Inl e | Inr tk' \<Rightarrow> Inr (tk', db2))))))"

definition mark :: "owner \<Rightarrow> int \<Rightarrow> string \<Rightarrow> int \<Rightarrow> int \<Rightarrow> int \<Rightarrow> staging_db
    \<Rightarrow> (staging_error, taken \<times> staging_db) res" where
  "mark = mark_as Pending"

definition continue_claim :: "owner \<Rightarrow> int \<Rightarrow> string \<Rightarrow> int \<Rightarrow> int \<Rightarrow> int \<Rightarrow> staging_db
    \<Rightarrow> (staging_error, taken \<times> staging_db) res" where
  "continue_claim = mark_as Continued"

section \<open>The sweep\<close>

definition due :: "int \<Rightarrow> claim_row \<Rightarrow> bool" where
  "due t r \<longleftrightarrow> live_state (c_state r) \<and>
     (c_expires r \<le> t \<or> c_mode r = Transient \<and> c_lease r \<le> t)"

definition effective_state :: "int \<Rightarrow> claim_row \<Rightarrow> cstate" where
  "effective_state t r = (if due t r then Abandoned else c_state r)"

definition abandoned_row :: "claim_row \<Rightarrow> claim_row" where
  "abandoned_row r = r\<lparr>c_state := Abandoned, c_payload := None, c_digest := None\<rparr>"

definition failed_op :: "op_row \<Rightarrow> op_row" where
  "failed_op x = x\<lparr>o_state := Failed, o_error := Some ''urn:bronzeward:problem:ingestion-abandoned'',
     o_owner := None, o_epoch := None, o_lease := None, o_last := o_last x + 1\<rparr>"

definition abandoned_entry :: string where
  "abandoned_entry = ''{\"type\":\"failed\",\"code\":\"ingestion-abandoned\"}''"

text \<open>\<open>AbandonDue\<close>: \<open>tx\<close> is the transaction's start, which the terminal event carries.\<close>

definition abandon_due :: "string \<Rightarrow> string \<Rightarrow> int \<Rightarrow> int \<Rightarrow> staging_db
    \<Rightarrow> (staging_error, bool \<times> staging_db) res" where
  "abandon_due claim ep t tx db =
     (case write_claim (\<lambda>r. c_id r = claim \<and> due t r) abandoned_row db of
        Inl e \<Rightarrow> Inl e
      | Inr None \<Rightarrow> Inr (False, db)
      | Inr (Some (r, db1)) \<Rightarrow>
          (case hit (running_of claim) (ops db1) of
             None \<Rightarrow> Inr (True, db1)
           | Some x \<Rightarrow>
               let ev = \<lparr>e_op = o_id x, e_number = o_last x + 1, e_epoch = ep, e_entry = abandoned_entry, e_at = tx\<rparr> in
               if list_ex (\<lambda>v. e_op v = e_op ev \<and> e_number v = e_number ev) (events db1) then Inl ErrSchema
               else Inr (True, db1\<lparr>ops := sql_update (running_of claim) failed_op (ops db1),
                                    events := events db1 @ [ev]\<rparr>)))"

text \<open>\<open>AbandonDueNoWait\<close>: \<open>locked\<close> says whether another transaction holds the claim's row, which
  \<^verbatim>\<open>SKIP LOCKED\<close> passes over.\<close>

definition abandon_due_no_wait :: "bool \<Rightarrow> string \<Rightarrow> string \<Rightarrow> int \<Rightarrow> int \<Rightarrow> int \<Rightarrow> staging_db
    \<Rightarrow> (staging_error, bool \<times> staging_db) res" where
  "abandon_due_no_wait locked claim ep t0 t tx db =
     (case sql_row (\<lambda>r. c_id r = claim \<and> due t0 r \<and> \<not> locked) (claims db) of
        None \<Rightarrow> Inr (False, db)
      | Some _ \<Rightarrow> abandon_due claim ep t tx db)"

definition candidates :: "int \<Rightarrow> staging_db \<Rightarrow> string list" where
  "candidates t db = map c_id (sort_key (\<lambda>r. (c_expires r, c_id r)) (filter (due t) (claims db)))"

text \<open>One claim of the sweep in a transaction of its own: an error leaves the tables as they were.\<close>

definition abandon_one :: "string \<Rightarrow> int \<Rightarrow> int \<Rightarrow> staging_db
    \<Rightarrow> (staging_error, bool \<times> staging_db) res" where
  "abandon_one claim t tx db = abandon_due claim (epoch db) t tx db"

text \<open>The loop over the candidates; \<open>clk i\<close> is the clock at the i-th transaction. It answers the
  claims abandoned, the errors it passed over, and the tables.\<close>

fun sweep_loop :: "(nat \<Rightarrow> int) \<Rightarrow> nat \<Rightarrow> string list \<Rightarrow> staging_db \<Rightarrow> nat \<times> staging_error list \<times> staging_db" where
  "sweep_loop clk i [] db = (0, [], db)"
| "sweep_loop clk i (k # ks) db =
     (case abandon_one k (clk i) (clk i) db of
        Inl e \<Rightarrow> (case sweep_loop clk (Suc i) ks db of (n, es, db') \<Rightarrow> (n, e # es, db'))
      | Inr (ok, db1) \<Rightarrow>
          (case sweep_loop clk (Suc i) ks db1 of (n, es, db') \<Rightarrow> (if ok then Suc n else n, es, db')))"

definition sweep :: "int \<Rightarrow> (nat \<Rightarrow> int) \<Rightarrow> staging_db \<Rightarrow> nat \<times> staging_error list \<times> staging_db" where
  "sweep t clk db = sweep_loop clk 0 (candidates t db) db"

section \<open>Steps, invariant and abstract machine\<close>

text \<open>One committed statement of the package, or a change other components make: the installation
  moves to another epoch, or the operations and their events are rewritten.\<close>

inductive staging_step :: "staging_db \<Rightarrow> staging_db \<Rightarrow> bool" where
  s_create: "create fk w tm c prin key t db = Inr db' \<Longrightarrow> staging_step db db'"
| s_heartbeat: "heartbeat w c lease t t' db = Inr db' \<Longrightarrow> staging_step db db'"
| s_restart: "restart claim tm fresh t db = Inr db' \<Longrightarrow> staging_step db db'"
| s_store: "store_payload w c ct dig t db = Inr db' \<Longrightarrow> staging_step db db'"
| s_pause: "pause w c cto dig t t' db = Inr db' \<Longrightarrow> staging_step db db'"
| s_hold: "hold w c t db = Inr db' \<Longrightarrow> staging_step db db'"
| s_release: "release w c t db = Inr db' \<Longrightarrow> staging_step db db'"
| s_abandon: "abandon w c t db = Inr db' \<Longrightarrow> staging_step db db'"
| s_mark: "mark_as rv w lease claim t t' t2 db = Inr (tk, db') \<Longrightarrow> staging_step db db'"
| s_take_over: "take_over w lease claim t t' t2 db = Inr (tk, db') \<Longrightarrow> staging_step db db'"
| s_abandon_due: "abandon_due claim ep t tx db = Inr (b, db') \<Longrightarrow> staging_step db db'"
| s_epoch: "staging_step db (db\<lparr>epoch := e\<rparr>)"
| s_operations: "staging_step db (db\<lparr>ops := xs, events := es\<rparr>)"

definition live_keys_ok :: "claim_row list \<Rightarrow> bool" where
  "live_keys_ok rs \<longleftrightarrow> (\<forall>r \<in> set rs. \<forall>s \<in> set rs. same_live_key r s \<longrightarrow> c_id r = c_id s)"

definition staging_inv :: "staging_db \<Rightarrow> bool" where
  "staging_inv db \<longleftrightarrow> distinct (map c_id (claims db)) \<and> list_all claim_check (claims db) \<and>
     live_keys_ok (claims db)"

text \<open>What the package promises of one claim, whatever the statements: a phase and a generation.
  An owned claim has one owning generation; taking it moves to the next generation; an ended claim
  never moves again.\<close>

datatype phase = Owned | Waiting | Done

fun phase_of :: "cstate \<Rightarrow> phase" where
  "phase_of Held = Owned"
| "phase_of Resumed = Owned"
| "phase_of Paused = Waiting"
| "phase_of Released = Done"
| "phase_of Abandoned = Done"

type_synonym aclaim = "int \<times> phase"

definition abs_claim :: "claim_row \<Rightarrow> aclaim" where
  "abs_claim r = (c_gen r, phase_of (c_state r))"

inductive claim_step :: "aclaim \<Rightarrow> aclaim \<Rightarrow> bool" where
  pauses: "claim_step (g, Owned) (g, Waiting)"
| ends: "ph \<noteq> Done \<Longrightarrow> claim_step (g, ph) (g, Done)"
| taken: "claim_step (g, Owned) (g + 1, Owned)"
| taken_empty: "claim_step (g, Owned) (g + 1, Done)"
| marked: "claim_step (g, Waiting) (g + 1, Owned)"

inductive_simps claim_step_simps: "claim_step (g, ph) (g', ph')"
inductive_cases claim_step_from_Done: "claim_step (g, Done) b"

text \<open>The abstract table: a claim comes into being owned at generation 1, and then steps.\<close>

inductive claim_opt_step :: "aclaim option \<Rightarrow> aclaim option \<Rightarrow> bool" where
  created: "claim_opt_step None (Some (1, Owned))"
| steps: "claim_step a b \<Longrightarrow> claim_opt_step (Some a) (Some b)"

definition claim_of :: "string \<Rightarrow> staging_db \<Rightarrow> aclaim option" where
  "claim_of k db = map_option abs_claim (keyed c_id k (claims db))"

text \<open>How one row may change: its identity columns stay, it satisfies the schema, its generation and
  phase stutter or take one abstract step, and only a live row changes at all.\<close>

definition row_ok :: "claim_row \<Rightarrow> claim_row \<Rightarrow> bool" where
  "row_ok r r' \<longleftrightarrow> c_id r' = c_id r \<and> c_principal r' = c_principal r \<and> c_key r' = c_key r \<and>
     c_mode r' = c_mode r \<and> c_kind r' = c_kind r \<and> c_cluster r' = c_cluster r \<and>
     c_machine r' = c_machine r \<and> c_draft r' = c_draft r \<and> claim_check r' \<and>
     live_state (c_state r) \<and>
     (abs_claim r' = abs_claim r \<or> claim_step (abs_claim r) (abs_claim r'))"

definition rows_update :: "staging_db \<Rightarrow> staging_db \<Rightarrow> bool" where
  "rows_update db db' \<longleftrightarrow> (\<exists>p f. claims db' = sql_update p f (claims db) \<and>
     (\<forall>r \<in> set (claims db). p r \<longrightarrow> row_ok r (f r)))"

text \<open>The operations beside the claims: one per claim, their events numbered up to the last.\<close>

definition ops_ok :: "staging_db \<Rightarrow> bool" where
  "ops_ok db \<longleftrightarrow> distinct (map o_ingestion (ops db)) \<and> distinct (map o_id (ops db)) \<and>
     (\<forall>x \<in> set (ops db). \<forall>v \<in> set (events db). e_op v = o_id x \<longrightarrow> e_number v \<le> o_last x)"

text \<open>A claim statement an owner makes for claim \<open>c\<close>: every statement of the package but creation,
  the takes and the sweep.\<close>

definition owner_statement :: "owner \<Rightarrow> go_claim \<Rightarrow> int \<Rightarrow> (staging_db \<Rightarrow> (staging_error, staging_db) res) \<Rightarrow> bool" where
  "owner_statement w c t s \<longleftrightarrow>
     (\<exists>lease t'. s = heartbeat w c lease t t') \<or> (\<exists>ct dig. s = store_payload w c ct dig t) \<or>
     (\<exists>ct dig t'. s = pause w c ct dig t t') \<or> s = hold w c t \<or> s = release w c t \<or> s = abandon w c t"

section \<open>Concrete tables\<close>

text \<open>Small tables on which the properties are applied.\<close>

definition ex_id :: string where
  "ex_id = ''ing_'' @ replicate 26 CHR ''a''"

definition ex_row :: claim_row where
  "ex_row = \<lparr>c_id = ex_id, c_mode = Encrypted, c_state = Held, c_owner = ''a/1/x'', c_gen = 1,
     c_epoch = ''ep'', c_lease = 50, c_expires = 100, c_payload = Some [1], c_principal = Some ''idn'',
     c_key = Some (replicate 16 CHR ''k''), c_created = 0, c_cluster = ''cl'', c_machine = Some ''mch'',
     c_kind = Import, c_digest = Some (replicate 32 0), c_draft = None, c_review = Some Pending\<rparr>"

definition ex_op :: op_row where
  "ex_op = \<lparr>o_id = ''op'', o_ingestion = ex_id, o_state = Running, o_owner = Some ''a/1/x'', o_gen = 1,
     o_epoch = Some ''ep'', o_lease = Some 50, o_last = 0, o_error = None\<rparr>"

definition ex_db :: staging_db where
  "ex_db = \<lparr>epoch = ''ep'', claims = [ex_row], ops = [ex_op], events = []\<rparr>"

definition ex_owner :: "string \<Rightarrow> owner" where
  "ex_owner w = \<lparr>w_id = w, w_epoch = ''ep'', noEpochTerm = False, noProcessEpoch = False\<rparr>"

definition ex_claim :: go_claim where
  "ex_claim = \<lparr>g_id = ex_id, g_kind = Import, g_mode = Encrypted, g_cluster = ''cl'', g_machine = ''mch'',
     g_draft = '''', g_review = Some Pending, g_gen = 1\<rparr>"

definition empty_db :: "string \<Rightarrow> staging_db" where
  "empty_db e = \<lparr>epoch = e, claims = [], ops = [], events = []\<rparr>"

text \<open>After another process took the lapsed claim over, and with the claim abandoned.\<close>

definition ex_taken :: taken where
  "ex_taken = fst (projr (take_over (ex_owner ''b/2/y'') 20000 ex_id 60 61 61 ex_db))"

definition ex_db2 :: staging_db where
  "ex_db2 = snd (projr (take_over (ex_owner ''b/2/y'') 20000 ex_id 60 61 61 ex_db))"

definition ex_db3 :: staging_db where
  "ex_db3 = ex_db\<lparr>claims := [abandoned_row ex_row]\<rparr>"

section \<open>One-row statements\<close>

locale claim_statement = keyed_update c_id k p f
  for k :: string and p :: "claim_row \<Rightarrow> bool" and f :: "claim_row \<Rightarrow> claim_row" +
  assumes f_row: "p r \<Longrightarrow> claim_check (f r) \<Longrightarrow> row_ok r (f r)"
begin

lemma write_claim_Some:
  assumes "write_claim p f db = Inr (Some (r', db'))" and "distinct (map c_id (claims db))"
  obtains r where "keyed c_id k (claims db) = Some r" and "p r" and "r' = f r" and "claim_check r'"
    and "db' = db\<lparr>claims := sql_update p f (claims db)\<rparr>"
  using assms hit_iff [OF assms(2)]
  by (auto simp: write_claim_def split: option.splits if_splits)

lemma write_claim_None:
  assumes "distinct (map c_id (claims db))"
  shows "write_claim p f db = Inr None \<longleftrightarrow> (\<forall>r. keyed c_id k (claims db) = Some r \<longrightarrow> \<not> p r)"
  using hit_None [OF assms] by (auto simp: write_claim_def split: option.splits)

lemma write_claim_row:
  assumes "write_claim p f db = Inr (Some (r', db'))" and "distinct (map c_id (claims db))"
  shows "keyed c_id k (claims db') = Some r'"
proof -
  from assms obtain r where "keyed c_id k (claims db) = Some r" "p r" "r' = f r"
    "db' = db\<lparr>claims := sql_update p f (claims db)\<rparr>"
    by (rule write_claim_Some)
  then show ?thesis by (simp add: own_row)
qed

lemma write_claim_update:
  assumes "write_claim p f db = Inr (Some (r', db'))" and d: "distinct (map c_id (claims db))"
  shows "rows_update db db'"
proof -
  from assms obtain r where r: "keyed c_id k (claims db) = Some r" "p r" "r' = f r" "claim_check r'"
    and db': "db' = db\<lparr>claims := sql_update p f (claims db)\<rparr>"
    by (rule write_claim_Some)
  have "row_ok x (f x)" if "x \<in> set (claims db)" "p x" for x
  proof -
    have "x = r" using keyed_unique [OF d that(1) p_key [OF that(2)]] r(1) by simp
    with r show ?thesis by (simp add: f_row)
  qed
  with db' show ?thesis by (auto simp: rows_update_def)
qed

lemma fenced_write_ok:
  assumes "fenced_write w p f db = Inr (r', db')" and "distinct (map c_id (claims db))"
  obtains "write_claim p f db = Inr (Some (r', db'))"
  using assms by (auto simp: fenced_write_def split: sum.splits option.splits)

lemma fenced_write_update:
  assumes "fenced_write w p f db = Inr (r', db')" and "distinct (map c_id (claims db))"
  shows "rows_update db db'"
  using assms fenced_write_ok write_claim_update by metis

lemma fenced_write_refused:
  assumes "distinct (map c_id (claims db))" and "\<And>r. keyed c_id k (claims db) = Some r \<Longrightarrow> \<not> p r"
  shows "fenced_write w p f db = Inl (refused w db)"
  using write_claim_None [OF assms(1)] assms(2) by (simp add: fenced_write_def)

lemma fenced_write_done:
  assumes "distinct (map c_id (claims db))" and "keyed c_id k (claims db) = Some r" and "p r"
    and "claim_check (f r)"
  shows "fenced_write w p f db = Inr (f r, db\<lparr>claims := sql_update p f (claims db)\<rparr>)"
  using assms hit_iff [OF assms(1), of r] by (simp add: fenced_write_def write_claim_def)

end

lemmas row_ok_simps = row_ok_def abs_claim_def claim_step_simps

interpretation heartbeat_stmt: claim_statement "g_id c" "fence w c t e"
  "\<lambda>r. r\<lparr>c_lease := min (t' + microseconds lease) (c_expires r)\<rparr>" for c w t e t' lease
  by unfold_locales (auto simp: fence_def row_ok_simps)

interpretation store_stmt: claim_statement "g_id c" "fence w c t e"
  "\<lambda>r. r\<lparr>c_payload := Some ct, c_digest := Some dig\<rparr>" for c w t e ct dig
  by unfold_locales (auto simp: fence_def row_ok_simps)

interpretation pause_stmt: claim_statement "g_id c" "\<lambda>r. fence w c t e r \<and> c_review r = Some Pending"
  "paused_row t' ct dg" for c w t e t' ct dg
  by unfold_locales (auto simp: fence_def paused_row_def row_ok_simps)

interpretation hold_stmt: claim_statement "g_id c" "fence w c t e"
  held_row for c w t e
  by unfold_locales (auto simp: fence_def held_row_def row_ok_simps)

interpretation release_stmt: claim_statement "g_id c" "fence w c t e"
  "\<lambda>r. r\<lparr>c_state := Released, c_payload := None, c_digest := None\<rparr>" for c w t e
  by unfold_locales (auto simp: fence_def row_ok_simps)

interpretation abandon_stmt: claim_statement "g_id c" "fence w c t e"
  "\<lambda>r. r\<lparr>c_state := Abandoned, c_payload := None, c_digest := None\<rparr>" for c w t e
  by unfold_locales (auto simp: fence_def row_ok_simps)

interpretation fresh_stmt: claim_statement k "\<lambda>r. c_id r = k \<and> c_state r = Held"
  "\<lambda>r. r\<lparr>c_created := t, c_lease := l, c_expires := x\<rparr>" for k t l x
  by unfold_locales (auto simp: row_ok_simps)

interpretation restart_stmt: claim_statement k
  "\<lambda>r. c_id r = k \<and> owned_state (c_state r) \<and> t < c_expires r"
  "\<lambda>r. r\<lparr>c_lease := min l (c_expires r)\<rparr>" for k t l
  by unfold_locales (auto simp: row_ok_simps)

interpretation take_stmt: claim_statement k
  "\<lambda>r. c_id r = k \<and> we = e \<and> eligible e t r" "taken_over w lease t'" for k we e t w lease t'
  by unfold_locales (auto simp: eligible_def taken_over_def row_ok_simps)

interpretation mark_stmt: claim_statement k
  "\<lambda>r. c_id r = k \<and> we = e \<and> markable e g t r" "marked_row w lease rv t'" for k we e g t w lease rv t'
  by unfold_locales (auto simp: markable_def marked_row_def row_ok_simps)

interpretation due_stmt: claim_statement k "\<lambda>r. c_id r = k \<and> due t r" abandoned_row for k t
  by unfold_locales (auto simp: due_def abandoned_row_def row_ok_simps)

section \<open>Every statement steps rows as allowed\<close>

lemma set_op_lease_tables [simp]:
  "claims (set_op_lease p u db) = claims db" "epoch (set_op_lease p u db) = epoch db"
  "events (set_op_lease p u db) = events db"
  by (simp_all add: set_op_lease_def)

lemma move_operation_tables:
  "move_operation w c u db = Inr db' \<Longrightarrow> claims db' = claims db \<and> epoch db' = epoch db \<and> events db' = events db"
  by (auto simp: move_operation_def Let_def split: if_splits)

lemma rows_update_same: "claims db' = claims db \<Longrightarrow> rows_update db db'"
  by (auto simp: rows_update_def intro!: exI [of _ "\<lambda>_. False"] sql_update_none [symmetric])

lemma rows_update_env [simp]:
  "rows_update db (db\<lparr>epoch := e\<rparr>)" "rows_update db (db\<lparr>ops := xs, events := es\<rparr>)"
  by (simp_all add: rows_update_same)

lemma rows_update_op_lease [simp]: "rows_update db (set_op_lease p u db') = rows_update db db'"
  by (simp add: rows_update_def)

lemma rows_update_cong: "rows_update db db1 \<Longrightarrow> claims db2 = claims db1 \<Longrightarrow> rows_update db db2"
  by (simp add: rows_update_def)

lemma heartbeat_rows:
  "heartbeat w c lease t t' db = Inr db' \<Longrightarrow> distinct (map c_id (claims db)) \<Longrightarrow> rows_update db db'"
  by (auto simp: heartbeat_def split: if_splits sum.splits prod.splits
      dest!: heartbeat_stmt.fenced_write_update elim: rows_update_cong)

lemma store_payload_rows:
  "store_payload w c ct dig t db = Inr db' \<Longrightarrow> distinct (map c_id (claims db)) \<Longrightarrow> rows_update db db'"
  by (auto simp: store_payload_def split: if_splits sum.splits prod.splits
      dest!: store_stmt.fenced_write_update)

lemma pause_rows:
  "pause w c ct dig t t' db = Inr db' \<Longrightarrow> distinct (map c_id (claims db)) \<Longrightarrow> rows_update db db'"
  by (auto simp: pause_def split: if_splits sum.splits prod.splits dest!: pause_stmt.fenced_write_update)

lemma hold_rows:
  "hold w c t db = Inr db' \<Longrightarrow> distinct (map c_id (claims db)) \<Longrightarrow> rows_update db db'"
  unfolding hold_def
  by (auto simp only: split: sum.splits prod.splits dest!: hold_stmt.fenced_write_update)

lemma release_rows:
  "release w c t db = Inr db' \<Longrightarrow> distinct (map c_id (claims db)) \<Longrightarrow> rows_update db db'"
  by (auto simp: release_def end_claim_def split: sum.splits prod.splits
      dest!: release_stmt.fenced_write_update)

lemma abandon_rows:
  "abandon w c t db = Inr db' \<Longrightarrow> distinct (map c_id (claims db)) \<Longrightarrow> rows_update db db'"
  by (auto simp: abandon_def end_claim_def split: sum.splits prod.splits
      dest!: abandon_stmt.fenced_write_update)

lemma restart_rows:
  assumes "restart claim tm fresh t db = Inr db'" and "distinct (map c_id (claims db))"
  shows "rows_update db db'"
  using assms
  by (cases fresh) (auto simp: restart_def split: sum.splits option.splits prod.splits
      dest!: fresh_stmt.write_claim_update restart_stmt.write_claim_update elim: rows_update_cong)

lemma take_over_rows:
  assumes "take_over w lease claim t t' t2 db = Inr (tk, db')" and "distinct (map c_id (claims db))"
  shows "rows_update db db'"
proof -
  from assms(1) obtain r db1 c where
    "write_claim (\<lambda>r. c_id r = claim \<and> w_epoch w = epoch db \<and> eligible (epoch db) t r)
       (taken_over w lease t') db = Inr (Some (r, db1))"
    and mv: "move_operation w c (c_lease r) db1 = Inr db'"
    by (auto simp: take_over_def Let_def split: if_splits sum.splits option.splits prod.splits)
  then have "rows_update db db1"
    using take_stmt.write_claim_update assms(2) by blast
  then show ?thesis using move_operation_tables [OF mv] rows_update_cong by blast
qed

lemma mark_rows:
  assumes "mark_as rv w lease claim t t' t2 db = Inr (tk, db')" and "distinct (map c_id (claims db))"
  shows "rows_update db db'"
proof -
  from assms(1) obtain g r db1 c where
    "write_claim (\<lambda>r. c_id r = claim \<and> w_epoch w = epoch db \<and> markable (epoch db) g t r)
       (marked_row w lease rv t') db = Inr (Some (r, db1))"
    and mv: "move_operation w c (c_lease r) db1 = Inr db'"
    by (auto simp: mark_as_def Let_def split: if_splits sum.splits option.splits prod.splits)
  then have "rows_update db db1"
    using mark_stmt.write_claim_update assms(2) by blast
  then show ?thesis using move_operation_tables [OF mv] rows_update_cong by blast
qed

lemma abandon_due_claims:
  assumes "abandon_due claim ep t tx db = Inr (b, db')"
  obtains "\<not> b" and "db' = db"
    and "write_claim (\<lambda>r. c_id r = claim \<and> due t r) abandoned_row db = Inr None"
  | r db1 where "b" and "write_claim (\<lambda>r. c_id r = claim \<and> due t r) abandoned_row db = Inr (Some (r, db1))"
    and "claims db' = claims db1" and "epoch db' = epoch db1"
  using assms
  by (auto simp: abandon_due_def Let_def split: sum.splits option.splits prod.splits if_splits)

lemma abandon_due_rows:
  assumes "abandon_due claim ep t tx db = Inr (b, db')" and "distinct (map c_id (claims db))"
  shows "rows_update db db'"
  using assms(1)
proof (cases rule: abandon_due_claims)
  case 1
  then show ?thesis by (simp add: rows_update_same)
next
  case (2 r db1)
  then show ?thesis using due_stmt.write_claim_update [OF 2(2) assms(2)] rows_update_cong by blast
qed

lemma create_rows:
  assumes "create fk w tm c prin key t db = Inr db'"
  shows "claims db' = claims db @ [new_claim w tm c prin key t] \<and>
    insert_ok (claims db) (new_claim w tm c prin key t) \<and> epoch db' = epoch db"
  using assms by (auto simp: create_def Let_def split: if_splits)

lemmas statement_rows = heartbeat_rows store_payload_rows pause_rows hold_rows release_rows abandon_rows
  restart_rows take_over_rows mark_rows abandon_due_rows

lemma staging_step_rows:
  assumes "staging_step db db'" and "distinct (map c_id (claims db))"
  obtains "rows_update db db'"
  | r where "claims db' = claims db @ [r]" and "insert_ok (claims db) r" and "abs_claim r = (1, Owned)"
  using assms
  by (cases rule: staging_step.cases)
    (auto simp: new_claim_def abs_claim_def dest!: create_rows dest: statement_rows)

section \<open>The invariant and the simulation\<close>

lemma rows_update_keyed:
  assumes "rows_update db db'"
  shows "keyed c_id k (claims db) = None \<and> keyed c_id k (claims db') = None \<or>
    (\<exists>r r'. keyed c_id k (claims db) = Some r \<and> keyed c_id k (claims db') = Some r' \<and>
      (r' = r \<or> row_ok r r'))"
proof -
  obtain p f where eq: "claims db' = sql_update p f (claims db)"
    and ok: "\<forall>r \<in> set (claims db). p r \<longrightarrow> row_ok r (f r)"
    using assms by (auto simp: rows_update_def)
  let ?p = "\<lambda>r. p r \<and> r \<in> set (claims db)"
  have "claims db' = sql_update ?p f (claims db)"
    by (simp add: eq sql_update_def)
  then have key: "keyed c_id k (claims db') = map_option (\<lambda>r. if ?p r then f r else r) (keyed c_id k (claims db))"
    using ok by (auto simp: row_ok_def intro!: keyed_sql_update)
  show ?thesis
  proof (cases "keyed c_id k (claims db)")
    case (Some r)
    then have "r \<in> set (claims db)" by (blast dest: keyed_Some)
    with Some key ok show ?thesis by auto
  qed (use key in simp)
qed

lemma same_live_key_back:
  assumes "r' = r \<or> row_ok r r'" and "s' = s \<or> row_ok s s'" and same: "same_live_key r' s'"
  shows "same_live_key r s"
proof -
  have kp: "c_principal x = c_principal x' \<and> c_key x = c_key x' \<and>
      (live_state (c_state x') \<longrightarrow> live_state (c_state x))" if "x' = x \<or> row_ok x x'" for x x'
    using that unfolding row_ok_def by presburger
  show ?thesis
    using same kp [OF assms(1)] kp [OF assms(2)] unfolding same_live_key_def by metis
qed

lemma rows_update_inv:
  assumes "rows_update db db'" and inv: "staging_inv db"
  shows "staging_inv db'"
proof -
  obtain p f where eq: "claims db' = sql_update p f (claims db)"
    and ok: "\<And>r. r \<in> set (claims db) \<Longrightarrow> p r \<Longrightarrow> row_ok r (f r)"
    using assms by (auto simp: rows_update_def)
  let ?g = "\<lambda>r. if p r then f r else r"
  have g: "set (claims db') = ?g ` set (claims db)"
    by (auto simp: eq sql_update_def)
  have id: "c_id (?g r) = c_id r" if "r \<in> set (claims db)" for r
    using ok [OF that] by (simp add: row_ok_def)
  have "map c_id (claims db') = map c_id (claims db)"
    using id by (simp add: eq sql_update_def)
  moreover have "list_all claim_check (claims db')"
    using inv ok by (auto simp: staging_inv_def list_all_iff g row_ok_def)
  moreover have "live_keys_ok (claims db')"
  proof -
    have "same_live_key (?g r) (?g s) \<Longrightarrow> same_live_key r s"
      if "r \<in> set (claims db)" "s \<in> set (claims db)" for r s
      using ok [OF that(1)] ok [OF that(2)] by (intro same_live_key_back [of "?g r" r "?g s" s]) auto
    then have "c_id (?g r) = c_id (?g s)"
      if "r \<in> set (claims db)" "s \<in> set (claims db)" "same_live_key (?g r) (?g s)" for r s
      using that inv id unfolding live_keys_ok_def staging_inv_def by metis
    then show ?thesis unfolding live_keys_ok_def g by blast
  qed
  ultimately show ?thesis using inv by (simp add: staging_inv_def)
qed

lemma insert_inv:
  assumes "claims db' = claims db @ [r]" and "insert_ok (claims db) r" and "staging_inv db"
  shows "staging_inv db'"
proof -
  have sym: "same_live_key a b = same_live_key b a" for a b
    by (auto simp: same_live_key_def)
  have new: "\<not> same_live_key s r" "\<not> same_live_key r s" if "s \<in> set (claims db)" for s
    using assms(2) that sym by (auto simp: insert_ok_def list_all_iff)
  have "c_id r \<notin> c_id ` set (claims db)"
    using assms(2) by (auto simp: insert_ok_def list_all_iff)
  then show ?thesis
    using assms new by (simp add: staging_inv_def insert_ok_def live_keys_ok_def)
qed

lemma staging_inv_distinct: "staging_inv db \<Longrightarrow> distinct (map c_id (claims db))"
  by (simp add: staging_inv_def)

lemma staging_inv_step: "staging_inv db \<Longrightarrow> staging_step db db' \<Longrightarrow> staging_inv db'"
  by (metis staging_step_rows rows_update_inv insert_inv staging_inv_distinct)

lemma row_ok_claim_of:
  assumes "rows_update db db'"
  shows "claim_of k db' = claim_of k db \<or> claim_opt_step (claim_of k db) (claim_of k db')"
  using rows_update_keyed [OF assms, of k]
  by (auto simp: claim_of_def row_ok_def intro: claim_opt_step.intros)

lemma insert_claim_of:
  assumes "claims db' = claims db @ [r]" and "insert_ok (claims db) r" and "abs_claim r = (1, Owned)"
  shows "claim_of k db' = claim_of k db \<or> claim_opt_step (claim_of k db) (claim_of k db')"
proof (cases "keyed c_id k (claims db)")
  case None
  then show ?thesis using assms(1,3)
    by (cases "c_id r = k")
      (simp_all add: claim_of_def keyed_append keyed_Cons claim_opt_step.created, simp_all add: keyed_def sql_row_def)
next
  case (Some s)
  then show ?thesis by (simp add: claim_of_def assms(1) keyed_append)
qed

interpretation claim_sim: forward_sim staging_step staging_inv claim_opt_step "claim_of k" for k
proof unfold_locales
  fix db db'
  assume "staging_inv db" and "staging_step db db'"
  then show "staging_inv db'" by (rule staging_inv_step)
next
  fix db db'
  assume "staging_inv db" and st: "staging_step db db'"
  then have d: "distinct (map c_id (claims db))" by (simp add: staging_inv_distinct)
  from st d show "claim_of k db' = claim_of k db \<or> claim_opt_step (claim_of k db) (claim_of k db')"
    by (cases rule: staging_step_rows) (blast dest: row_ok_claim_of insert_claim_of)+
qed

section \<open>What fences a claim\<close>

lemma fence_phase: "fence w c t e r \<Longrightarrow> abs_claim r = (g_gen c, Owned) \<and> effective_state t r = c_state r"
  by (auto simp: fence_def abs_claim_def effective_state_def due_def)

lemma owner_statement_needs_fence:
  assumes "owner_statement w c t s" and "s db = Inr db'" and d: "distinct (map c_id (claims db))"
  obtains r where "keyed c_id (g_id c) (claims db) = Some r" and "fence w c t (epoch db) r"
proof -
  have "\<not> (\<forall>r. keyed c_id (g_id c) (claims db) = Some r \<longrightarrow> \<not> fence w c t (epoch db) r)"
  proof
    assume no: "\<forall>r. keyed c_id (g_id c) (claims db) = Some r \<longrightarrow> \<not> fence w c t (epoch db) r"
    note refused = heartbeat_stmt.fenced_write_refused store_stmt.fenced_write_refused
      pause_stmt.fenced_write_refused hold_stmt.fenced_write_refused release_stmt.fenced_write_refused
      abandon_stmt.fenced_write_refused
    have "s db \<noteq> Inr db'"
      using assms(1) no d unfolding owner_statement_def
      by (elim disjE exE)
        (simp_all add: heartbeat_def store_payload_def pause_def hold_def release_def abandon_def
          end_claim_def refused)
    with assms(2) show False by contradiction
  qed
  then show thesis using that by blast
qed

lemma claim_step_gen_mono: "claim_opt_step a b \<Longrightarrow> (\<exists>h ph. a = Some (h, ph) \<and> g \<le> h) \<Longrightarrow> (\<exists>h ph. b = Some (h, ph) \<and> g \<le> h)"
  by (erule claim_opt_step.cases) (auto elim!: claim_step.cases)

lemma staging_run_gen:
  assumes "staging_step\<^sup>*\<^sup>* db db'" and "staging_inv db" and "keyed c_id k (claims db) = Some r"
  obtains r' where "keyed c_id k (claims db') = Some r'" and "c_gen r \<le> c_gen r'"
proof -
  have "\<exists>h ph. claim_of k db' = Some (h, ph) \<and> c_gen r \<le> h"
    by (rule claim_sim.abstract_invariant [OF assms(1,2), where P = "\<lambda>a. \<exists>h ph. a = Some (h, ph) \<and> c_gen r \<le> h"])
      (auto simp: claim_of_def assms(3) abs_claim_def dest: claim_step_gen_mono [where g = "c_gen r"])
  then show thesis using that by (auto simp: claim_of_def abs_claim_def)
qed

lemma rows_update_ended:
  assumes "rows_update db db'" and "keyed c_id k (claims db) = Some r" and "\<not> live_state (c_state r)"
  shows "keyed c_id k (claims db') = Some r"
  using rows_update_keyed [OF assms(1), of k] assms(2,3) unfolding row_ok_def by auto

lemma staging_step_ended:
  assumes st: "staging_step db db'" and inv: "staging_inv db"
    and r: "keyed c_id k (claims db) = Some r" "\<not> live_state (c_state r)"
  shows "keyed c_id k (claims db') = Some r"
  using st staging_inv_distinct [OF inv]
proof (cases rule: staging_step_rows)
  case 1
  then show ?thesis using r by (rule rows_update_ended)
next
  case (2 n)
  then show ?thesis using r(1) by (simp add: keyed_append)
qed

section \<open>Taking a claim\<close>

lemma take_over_Inr:
  assumes "take_over w lease claim t t' t2 db = Inr (tk, db')" and d: "distinct (map c_id (claims db))"
  obtains r where "keyed c_id claim (claims db) = Some r" and "w_epoch w = epoch db"
    and "eligible (epoch db) t r" and "keyed c_id claim (claims db') = Some (taken_over w lease t' r)"
    and "epoch db' = epoch db" and "claim_check (taken_over w lease t' r)" and "0 < lease"
    and "distinct (map c_id (claims db'))" and "tk_payload tk = c_payload r"
proof -
  let ?p = "\<lambda>r. c_id r = claim \<and> w_epoch w = epoch db \<and> eligible (epoch db) t r"
  from assms(1) obtain r1 db1 c where w: "write_claim ?p (taken_over w lease t') db = Inr (Some (r1, db1))"
    and mv: "move_operation w c (c_lease r1) db1 = Inr db'" and l: "0 < lease"
    and pay: "tk_payload tk = c_payload r1"
    by (auto simp: take_over_def Let_def set_digest_def split: if_splits sum.splits option.splits prod.splits)
  from w d obtain r where r: "keyed c_id claim (claims db) = Some r" "?p r" "r1 = taken_over w lease t' r"
    "claim_check r1" "db1 = db\<lparr>claims := sql_update ?p (taken_over w lease t') (claims db)\<rparr>"
    by (rule take_stmt.write_claim_Some)
  have "keyed c_id claim (claims db1) = Some r1"
    using take_stmt.write_claim_row [OF w d] .
  moreover have "distinct (map c_id (claims db1))"
    using d r(5) by (simp add: take_stmt.keys_kept)
  moreover have "tk_payload tk = c_payload r"
    using pay r(3) by (simp add: taken_over_def)
  ultimately show thesis using that r l move_operation_tables [OF mv] by auto
qed

lemma not_eligible_None:
  "not_eligible w claim t db = None \<longleftrightarrow>
     (\<exists>r. keyed c_id claim (claims db) = Some r \<and> w_epoch w = epoch db \<and> eligible (epoch db) t r)"
  by (auto simp: not_eligible_def eligible_def split: option.splits)

lemma not_eligible_live:
  assumes "keyed c_id claim (claims db) = Some r" and "w_epoch w = epoch db" and "c_epoch r = epoch db"
    and "c_mode r = Encrypted" and "owned_state (c_state r)" and "t < c_lease r" and "c_lease r \<le> c_expires r"
  shows "not_eligible w claim t db = Some ErrLeaseLive"
  using assms by (auto simp: not_eligible_def)

lemma take_over_refused:
  assumes "distinct (map c_id (claims db))"
    and "\<not> (\<exists>r. keyed c_id claim (claims db) = Some r \<and> w_epoch w = epoch db \<and> eligible (epoch db) t r)"
    and "w_id w \<noteq> []" and "w_epoch w \<noteq> []" and "0 < lease"
  shows "take_over w lease claim t t' t2 db =
    Inl (case not_eligible w claim t2 db of Some e \<Rightarrow> e | None \<Rightarrow> ErrLeaseLive)"
proof -
  have "write_claim (\<lambda>r. c_id r = claim \<and> w_epoch w = epoch db \<and> eligible (epoch db) t r)
      (taken_over w lease t') db = Inr None"
    using take_stmt.write_claim_None [OF assms(1)] assms(2) by blast
  with assms(3-5) show ?thesis by (simp add: take_over_def)
qed

lemma not_markable_is_markable:
  assumes "not_markable w claim t2 db = ErrMarkable" and "keyed c_id claim (claims db) = Some r0"
  shows "w_epoch w = epoch db \<and> markable (epoch db) (c_gen r0) t2 r0"
  using assms by (auto simp: not_markable_def markable_def split: if_splits)

section \<open>The sweep\<close>

lemma running_key: "distinct (map o_ingestion xs) \<Longrightarrow> x \<in> set xs \<Longrightarrow> running_of k x \<Longrightarrow> y \<in> set xs
    \<Longrightarrow> running_of k y \<Longrightarrow> x = y"
  by (simp add: running_of_def distinct_map inj_on_def)

interpretation fail_stmt: keyed_update o_ingestion k "running_of k" failed_op for k
  by unfold_locales (auto simp: running_of_def failed_op_def)

lemma fail_op_ok:
  assumes ok: "ops_ok db" and x: "x \<in> set (ops db)" "running_of k x"
    and ev: "e_op ev = o_id x" "e_number ev = o_last x + 1"
  shows "ops_ok (db\<lparr>ops := sql_update (running_of k) failed_op (ops db), events := events db @ [ev]\<rparr>)"
proof -
  have ids: "map o_id (sql_update (running_of k) failed_op (ops db)) = map o_id (ops db)"
    by (rule map_key_sql_update) (simp add: failed_op_def)
  have "e_number v \<le> o_last y"
    if y: "y \<in> set (sql_update (running_of k) failed_op (ops db))"
      and v: "v \<in> set (events db @ [ev])" "e_op v = o_id y" for y v
    using y
  proof (cases rule: in_sql_updateE)
    case (1 z)
    then have "z = x" using running_key [of "ops db" z k x] ok x by (simp add: ops_ok_def)
    then have "v \<in> set (events db) \<Longrightarrow> e_number v \<le> o_last x"
      using 1 v ok x by (auto simp: ops_ok_def failed_op_def)
    then show ?thesis using 1 v ev \<open>z = x\<close> by (auto simp: failed_op_def)
  next
    case (2 z)
    then have "o_id z \<noteq> o_id x"
      using ok x by (auto simp: ops_ok_def distinct_map dest: inj_onD)
    then show ?thesis using 2 v ok ev by (auto simp: ops_ok_def)
  qed
  then show ?thesis
    using ok by (simp add: ops_ok_def fail_stmt.keys_kept ids)
qed

lemma abandon_due_ok:
  assumes inv: "staging_inv db" and ok: "ops_ok db"
  obtains b db' where "abandon_due claim ep t tx db = Inr (b, db')" and "staging_inv db'" and "ops_ok db'"
    and "b \<longleftrightarrow> (\<exists>r. keyed c_id claim (claims db) = Some r \<and> due t r)"
    and "claims db' = sql_update (\<lambda>r. c_id r = claim \<and> due t r) abandoned_row (claims db)"
    and "epoch db' = epoch db"
proof -
  let ?p = "\<lambda>r. c_id r = claim \<and> due t r"
  have d: "distinct (map c_id (claims db))" using inv by (rule staging_inv_distinct)
  note outer = that
  have fin: thesis if "abandon_due claim ep t tx db = Inr (b, db')" and "ops_ok db'"
    and "b \<longleftrightarrow> (\<exists>r. keyed c_id claim (claims db) = Some r \<and> due t r)"
    and "claims db' = sql_update ?p abandoned_row (claims db)" and "epoch db' = epoch db" for b db'
    using that staging_inv_step [OF inv s_abandon_due [OF that(1)]] by (intro outer)
  show thesis
  proof (cases "hit ?p (claims db)")
    case None
    then have "\<forall>r \<in> set (claims db). \<not> ?p r"
      using due_stmt.hit_None [OF d] keyed_unique [OF d] by blast
    then show thesis
      using None ok by (intro fin [of False db])
        (auto simp: abandon_due_def write_claim_def sql_update_none dest: keyed_Some)
  next
    case (Some r)
    then have r: "r \<in> set (claims db)" "c_id r = claim" "due t r" by (auto dest: hit_Some)
    have chk: "claim_check (abandoned_row r)"
      using inv r by (auto simp: staging_inv_def list_all_iff claim_check_def abandoned_row_def)
    let ?db1 = "db\<lparr>claims := sql_update ?p abandoned_row (claims db)\<rparr>"
    have w: "write_claim ?p abandoned_row db = Inr (Some (abandoned_row r, ?db1))"
      using Some chk by (simp add: write_claim_def)
    have b: "\<exists>r. keyed c_id claim (claims db) = Some r \<and> due t r"
      using r keyed_unique [OF d] by blast
    show thesis
    proof (cases "hit (running_of claim) (ops db)")
      case None
      with w b ok show thesis
        by (intro fin [of True ?db1]) (auto simp: abandon_due_def ops_ok_def)
    next
      case (Some x)
      then have x: "x \<in> set (ops db)" "running_of claim x" by (auto dest: hit_Some)
      let ?ev = "\<lparr>e_op = o_id x, e_number = o_last x + 1, e_epoch = ep, e_entry = abandoned_entry, e_at = tx\<rparr>"
      let ?db2 = "?db1\<lparr>ops := sql_update (running_of claim) failed_op (ops db), events := events db @ [?ev]\<rparr>"
      have fresh: "\<not> list_ex (\<lambda>v. e_op v = e_op ?ev \<and> e_number v = e_number ?ev) (events db)"
        using ok x by (force simp: ops_ok_def list_ex_iff)
      have "ops_ok ?db2"
        using fail_op_ok [of ?db1 x claim ?ev] ok x by (simp add: ops_ok_def)
      with w b fresh Some show thesis
        by (intro fin [of True ?db2]) (simp_all add: abandon_due_def)
    qed
  qed
qed

lemma sweep_loop_ok:
  assumes "staging_inv db" and "ops_ok db" and "\<And>i. t \<le> clk i"
  shows "\<exists>n db'. sweep_loop clk i ks db = (n, [], db') \<and> staging_inv db' \<and> ops_ok db' \<and>
    (\<forall>r' \<in> set (claims db'). due t r' \<longrightarrow> r' \<in> set (claims db) \<and> c_id r' \<notin> set ks)"
  using assms(1,2)
proof (induction ks arbitrary: i db)
  case (Cons k ks)
  obtain b db1 where st: "abandon_due k (epoch db) (clk i) (clk i) db = Inr (b, db1)"
    and inv1: "staging_inv db1" "ops_ok db1"
    and eq: "claims db1 = sql_update (\<lambda>r. c_id r = k \<and> due (clk i) r) abandoned_row (claims db)"
    using abandon_due_ok [OF Cons.prems] by metis
  obtain n db' where loop: "sweep_loop clk (Suc i) ks db1 = (n, [], db')"
    and rest: "staging_inv db'" "ops_ok db'"
      "\<forall>r' \<in> set (claims db'). due t r' \<longrightarrow> r' \<in> set (claims db1) \<and> c_id r' \<notin> set ks"
    using Cons.IH [OF inv1] by blast
  have late: "due (clk i) r" if "due t r" for r
    using that assms(3) [of i] by (auto simp: due_def)
  have "r' \<in> set (claims db) \<and> c_id r' \<noteq> k" if "r' \<in> set (claims db1)" "due t r'" for r'
    using that(1) unfolding eq
    by (rule in_sql_updateE) (use that(2) late in \<open>auto simp: abandoned_row_def due_def\<close>)
  then show ?case using st loop rest by (auto simp: abandon_one_def)
qed simp

section \<open>Properties\<close>

text \<open>C38. Refinement: over any run of committed statements of the package, interleaved with epoch
  changes and rewritten operations, each claim moves only as the abstract machine allows: created
  owned at generation 1, paused, taken at the next generation, ended, and after its end not at all.\<close>

theorem staging_refines_claim_machine:
  assumes "staging_step\<^sup>*\<^sup>* db db'" and "staging_inv db"
  shows "claim_opt_step\<^sup>*\<^sup>* (claim_of k db) (claim_of k db') \<and> staging_inv db'"
  using claim_sim.sim_run [OF assms] claim_sim.inv_run [OF assms] by simp

text \<open>Fencing: once a claim is at a later owner generation, no later statement of an owner of an
  earlier generation is taken, whatever ran in between: heartbeat, payload, pause, hold, release and
  abandonment all answer an error.\<close>

theorem stale_owner_is_fenced:
  assumes "staging_step\<^sup>*\<^sup>* db db'" and "staging_inv db"
    and "keyed c_id (g_id c) (claims db) = Some r" and "g_gen c < c_gen r"
    and "owner_statement w c t s"
  shows "\<exists>e. s db' = Inl e"
proof (cases "s db'")
  case (Inr db2)
  obtain r' where r': "keyed c_id (g_id c) (claims db') = Some r'" "c_gen r \<le> c_gen r'"
    using staging_run_gen [OF assms(1-3)] by blast
  have "distinct (map c_id (claims db'))"
    using claim_sim.inv_run [OF assms(1,2)] by (rule staging_inv_distinct)
  then obtain r2 where "keyed c_id (g_id c) (claims db') = Some r2" "fence w c t (epoch db') r2"
    using owner_statement_needs_fence [OF assms(5) Inr] by blast
  then have False using r' assms(4) by (simp add: fence_def)
  then show ?thesis ..
qed simp

text \<open>Exclusion: a takeover that commits leaves its taker the owner at the next generation with a
  lease no longer than the absolute expiry, and every other takeover of the claim while that lease
  runs, in that epoch, is refused: \<open>ErrLeaseLive\<close> for a resumed claim, \<open>ErrEnded\<close> when the claim had
  nothing to decrypt and was abandoned by the same write.\<close>

theorem take_over_elects_one_winner:
  assumes "staging_inv db" and "take_over w lease claim t t' t2 db = Inr (tk, db')"
    and "\<exists>r. keyed c_id claim (claims db') = Some r \<and> u < c_lease r"
    and "w_epoch v = epoch db" and "w_id v \<noteq> []" and "w_epoch v \<noteq> []" and "0 < l"
  shows "(\<exists>r r'. keyed c_id claim (claims db) = Some r \<and> keyed c_id claim (claims db') = Some r' \<and>
      c_owner r' = w_id w \<and> c_gen r' = c_gen r + 1 \<and> c_lease r' \<le> c_expires r \<and> c_expires r' = c_expires r)
    \<and> take_over v l claim u u' u db' = Inl (if tk_payload tk = None then ErrEnded else ErrLeaseLive)"
proof -
  obtain r where r: "keyed c_id claim (claims db) = Some r" "eligible (epoch db) t r"
    and r': "keyed c_id claim (claims db') = Some (taken_over w lease t' r)"
    and ep: "epoch db' = epoch db" "w_epoch w = epoch db" and d: "distinct (map c_id (claims db'))"
    and pay: "tk_payload tk = c_payload r"
    using take_over_Inr [OF assms(2) staging_inv_distinct [OF assms(1)]] by metis
  have u: "u < c_lease (taken_over w lease t' r)" using assms(3) r' by auto
  have "take_over v l claim u u' u db' =
      Inl (case not_eligible v claim u db' of Some e \<Rightarrow> e | None \<Rightarrow> ErrLeaseLive)"
    using d r' u assms(5-7) by (intro take_over_refused) (auto simp: eligible_def)
  also have "not_eligible v claim u db' = Some (if tk_payload tk = None then ErrEnded else ErrLeaseLive)"
    using r r' u ep assms(4) pay
    by (auto simp: not_eligible_def eligible_def taken_over_def)
  finally show ?thesis using r r' by (simp add: taken_over_def)
qed

text \<open>A claim that ended, released or abandoned, is never changed again by any statement, and
  holds no payload and no digest.\<close>

theorem ended_claim_is_final:
  assumes "staging_step\<^sup>*\<^sup>* db db'" and "staging_inv db" and "keyed c_id k (claims db) = Some r"
    and "c_state r = Released \<or> c_state r = Abandoned"
  shows "keyed c_id k (claims db') = Some r \<and> c_payload r = None \<and> c_digest r = None"
proof -
  have "keyed c_id k (claims db') = Some r"
    using assms(1,2,3)
  proof (induction rule: rtranclp_induct)
    case (step x y)
    then have "staging_inv x" using claim_sim.inv_run by blast
    then show ?case using step assms(4) by (intro staging_step_ended [of x y]) auto
  qed
  moreover have "claim_check r"
    using assms(2,3) by (auto simp: staging_inv_def list_all_iff dest: keyed_Some)
  ultimately show ?thesis using assms(4) by (auto simp: claim_check_def)
qed

text \<open>The read that names a refusal agrees with the write it explains. A takeover is taken exactly
  on the claims \<open>notEligible\<close> finds nothing against, and a mark is never refused with the answer that
  its claim is markable while the clock does not run backwards.\<close>

theorem refusals_name_their_reason:
  assumes "t \<le> t2" and "staging_inv db"
  shows "(not_eligible w claim t db = None \<longleftrightarrow>
      (\<exists>r. keyed c_id claim (claims db) = Some r \<and> w_epoch w = epoch db \<and> eligible (epoch db) t r))
    \<and> mark_as rv w lease claim t t' t2 db \<noteq> Inl ErrMarkable"
proof
  show "mark_as rv w lease claim t t' t2 db \<noteq> Inl ErrMarkable"
  proof
    assume m: "mark_as rv w lease claim t t' t2 db = Inl ErrMarkable"
    then obtain r0 where r0: "keyed c_id claim (claims db) = Some r0"
      and none: "write_claim (\<lambda>r. c_id r = claim \<and> w_epoch w = epoch db \<and> markable (epoch db) (c_gen r0) t r)
          (marked_row w lease rv t') db = Inr None"
      and nm: "not_markable w claim t2 db = ErrMarkable"
      by (auto simp: mark_as_def write_claim_def move_operation_def set_digest_def Let_def
          split: if_splits sum.splits option.splits prod.splits)
    have "w_epoch w = epoch db \<and> markable (epoch db) (c_gen r0) t2 r0"
      using not_markable_is_markable [OF nm r0] .
    then have "w_epoch w = epoch db \<and> markable (epoch db) (c_gen r0) t r0"
      using assms(1) by (auto simp: markable_def)
    moreover have "c_id r0 = claim" using r0 by (auto dest: keyed_Some)
    ultimately show False
      using none r0 mark_stmt.write_claim_None [OF staging_inv_distinct [OF assms(2)]] by blast
  qed
qed (rule not_eligible_None)

text \<open>The sweep: on well-formed tables it meets no error and leaves no claim that was due when it
  scanned, its well-formedness and the operations' intact.\<close>

theorem sweep_clears_due_claims:
  assumes "staging_inv db" and "ops_ok db" and "\<And>i. t \<le> clk i"
  shows "\<exists>n db'. sweep t clk db = (n, [], db') \<and> staging_inv db' \<and> ops_ok db' \<and>
    (\<forall>r \<in> set (claims db'). \<not> due t r)"
proof -
  obtain n db' where "sweep_loop clk 0 (candidates t db) db = (n, [], db')"
    and "staging_inv db'" and "ops_ok db'"
    and left: "\<forall>r' \<in> set (claims db'). due t r' \<longrightarrow> r' \<in> set (claims db) \<and> c_id r' \<notin> set (candidates t db)"
    using sweep_loop_ok [of db t clk 0 "candidates t db"] assms by blast
  moreover have "\<not> due t r" if "r \<in> set (claims db')" for r
    using left that by (auto simp: candidates_def)
  ultimately show ?thesis unfolding sweep_def by blast
qed

text \<open>An owner statement is taken only while the claim is, at the instant its fence is read,
  effectively live: a claim past its absolute expiry, or a transient one past its lease, counts as
  abandoned before any sweep has written it.\<close>

theorem owner_statements_need_an_effective_claim:
  assumes "owner_statement w c t s" and "s db = Inr db'" and "staging_inv db"
  shows "\<exists>r. keyed c_id (g_id c) (claims db) = Some r \<and> owned_state (effective_state t r) \<and>
    c_owner r = w_id w \<and> c_gen r = g_gen c \<and> t < c_lease r \<and> t < c_expires r"
proof -
  obtain r where r: "keyed c_id (g_id c) (claims db) = Some r" "fence w c t (epoch db) r"
    using owner_statement_needs_fence [OF assms(1,2) staging_inv_distinct [OF assms(3)]] by blast
  then show ?thesis using fence_phase [OF r(2)] by (auto simp: fence_def)
qed

section \<open>The properties at concrete tables\<close>

lemma ex_inv: "staging_inv ex_db" "ops_ok ex_db"
  by (simp_all add: staging_inv_def ops_ok_def ex_db_def live_keys_ok_def) code_simp

lemma ex_take: "take_over (ex_owner ''b/2/y'') 20000 ex_id 60 61 61 ex_db = Inr (ex_taken, ex_db2)"
proof -
  have "is_ok (take_over (ex_owner ''b/2/y'') 20000 ex_id 60 61 61 ex_db)" by code_simp
  then show ?thesis by (auto simp: ex_taken_def ex_db2_def split: sum.splits)
qed

lemma ex_run: "staging_step\<^sup>*\<^sup>* ex_db ex_db2"
  using s_take_over [OF ex_take] by (rule r_into_rtranclp)

theorem staging_refines_claim_machine_witness:
  "claim_opt_step\<^sup>*\<^sup>* (Some (1, Owned)) (Some (2, Owned))"
proof -
  have "claim_of ex_id ex_db = Some (1, Owned)" and "claim_of ex_id ex_db2 = Some (2, Owned)"
    by code_simp+
  then show ?thesis
    using staging_refines_claim_machine [OF ex_run ex_inv(1), of ex_id] by simp
qed

theorem stale_owner_is_fenced_witness:
  "\<exists>e. release (ex_owner ''a/1/x'') ex_claim 62 ex_db2 = Inl e"
proof -
  have "map_option c_gen (keyed c_id ex_id (claims ex_db2)) = Some 2" by code_simp
  then obtain r where r: "keyed c_id (g_id ex_claim) (claims ex_db2) = Some r" "c_gen r = 2"
    by (auto simp: ex_claim_def)
  have "staging_inv ex_db2" using claim_sim.inv_run [OF ex_run ex_inv(1)] .
  then show ?thesis
    using stale_owner_is_fenced [OF rtranclp.rtrancl_refl _ r(1), of "ex_owner ''a/1/x''" 62
        "release (ex_owner ''a/1/x'') ex_claim 62"] r(2)
    by (simp add: ex_claim_def owner_statement_def)
qed

theorem take_over_elects_one_winner_witness:
  "take_over (ex_owner ''c/3/z'') 20000 ex_id 70 70 70 ex_db2 = Inl ErrLeaseLive"
proof -
  have l: "\<exists>r. keyed c_id ex_id (claims ex_db2) = Some r \<and> 70 < c_lease r"
  proof -
    have "map_option c_lease (keyed c_id ex_id (claims ex_db2)) = Some 81" by code_simp
    then show ?thesis by auto
  qed
  have "tk_payload ex_taken = Some [1]" by code_simp
  then show ?thesis
    using take_over_elects_one_winner [OF ex_inv(1) ex_take l, of "ex_owner ''c/3/z''" 20000 70]
    by (simp add: ex_owner_def ex_db_def)
qed

theorem ended_claim_is_final_witness:
  "keyed c_id ex_id (claims ex_db3) = Some (abandoned_row ex_row) \<and> c_payload (abandoned_row ex_row) = None"
proof -
  have inv: "staging_inv ex_db3"
    by (simp add: staging_inv_def ex_db3_def ex_db_def live_keys_ok_def) code_simp
  have "keyed c_id ex_id (claims ex_db3) = Some (abandoned_row ex_row)"
    by (simp add: ex_db3_def ex_db_def ex_row_def abandoned_row_def keyed_def sql_row_def)
  then show ?thesis
    using ended_claim_is_final [OF rtranclp.rtrancl_refl inv, of ex_id "abandoned_row ex_row"]
    by (simp add: abandoned_row_def)
qed

theorem refusals_name_their_reason_witness:
  "not_eligible (ex_owner ''b/2/y'') ex_id 60 ex_db = None
    \<and> mark (ex_owner ''b/2/y'') 20000 ex_id 60 60 61 ex_db \<noteq> Inl ErrMarkable"
proof -
  have "eligible (epoch ex_db) 60 ex_row" and "keyed c_id ex_id (claims ex_db) = Some ex_row"
    by (simp_all add: ex_db_def ex_row_def eligible_def keyed_def sql_row_def)
  then show ?thesis
    using refusals_name_their_reason [OF _ ex_inv(1), of 60 61 "ex_owner ''b/2/y''" ex_id Pending 20000 60]
    by (simp add: mark_def ex_owner_def ex_db_def)
qed

theorem sweep_clears_due_claims_witness:
  "\<exists>n db'. sweep 100 (\<lambda>_. 100) ex_db = (n, [], db') \<and> (\<forall>r \<in> set (claims db'). \<not> due 100 r)"
  using sweep_clears_due_claims [OF ex_inv, of 100 "\<lambda>_. 100"] by auto

theorem owner_statements_need_an_effective_claim_witness:
  "\<exists>r. keyed c_id ex_id (claims ex_db) = Some r \<and> owned_state (effective_state 10 r) \<and> 10 < c_lease r"
proof -
  have "is_ok (release (ex_owner ''a/1/x'') ex_claim 10 ex_db)" by code_simp
  then obtain db' where "release (ex_owner ''a/1/x'') ex_claim 10 ex_db = Inr db'"
    by (auto split: sum.splits)
  then have "\<exists>r. keyed c_id (g_id ex_claim) (claims ex_db) = Some r \<and> owned_state (effective_state 10 r) \<and>
      c_owner r = w_id (ex_owner ''a/1/x'') \<and> c_gen r = g_gen ex_claim \<and> 10 < c_lease r \<and> 10 < c_expires r"
    by (intro owner_statements_need_an_effective_claim [where s = "release (ex_owner ''a/1/x'') ex_claim 10",
          OF _ _ ex_inv(1)]) (auto simp: owner_statement_def)
  then show ?thesis by (auto simp: ex_claim_def)
qed

end
