(* ===== verification/Text_Diff.thy ===== *)
theory Text_Diff
  imports BW_Prelude "HOL-Library.Monad_Syntax"
begin

text \<open>
  The unified line diff of a plan's evidence (\<^verbatim>\<open>internal/textdiff\<close>): Myers' search \<open>edits\<close> with its
  trace and \<open>backtrack\<close>, the line splitter \<open>split_lines\<close>, and the hunk writer \<open>unified\<close>.

  Go's slices panic on an index out of range: every index and slice expression of the search is an
  \<open>option\<close>, \<open>None\<close> being the panic, so a result \<open>Some es\<close> also says that no access of the run was
  out of range. The theorems: the search never panics, its script turns the first text into the
  second, and no script with fewer changes does; past the bound the replacement is still exact; and
  the diff is empty exactly when the texts are equal.
\<close>

section \<open>Lines\<close>

definition newline :: char where
  "newline = CHR 10"

text \<open>\<open>strings.SplitAfter\<close> for the newline: each piece keeps it; the last piece is what follows the
  last newline.\<close>

fun split_after :: "string \<Rightarrow> string list" where
  "split_after [] = [[]]"
| "split_after (c # s) =
     (if c = newline then [c] # split_after s
      else (case split_after s of [] \<Rightarrow> [[c]] | l # ls \<Rightarrow> (c # l) # ls))"

definition split_lines :: "string \<Rightarrow> string list" where
  "split_lines s =
     (if s = [] then []
      else let ls = split_after s in if last ls = [] then butlast ls else ls)"

section \<open>The search\<close>

datatype edit_op = Keep | Del | Ins

type_synonym edit = "edit_op \<times> string"

definition at :: "'a list \<Rightarrow> int \<Rightarrow> 'a option" where
  "at xs i = (if 0 \<le> i \<and> i < int (length xs) then Some (xs ! nat i) else None)"

definition set_at :: "'a list \<Rightarrow> int \<Rightarrow> 'a \<Rightarrow> 'a list option" where
  "set_at xs i v = (if 0 \<le> i \<and> i < int (length xs) then Some (xs[nat i := v]) else None)"

definition slice :: "'a list \<Rightarrow> int \<Rightarrow> int \<Rightarrow> 'a list option" where
  "slice xs i j = (if 0 \<le> i \<and> i \<le> j \<and> j \<le> int (length xs)
     then Some (take (nat (j - i)) (drop (nat i) xs)) else None)"

text \<open>The run of equal lines from \<open>(x, y)\<close>.\<close>

function snake :: "string list \<Rightarrow> string list \<Rightarrow> int \<Rightarrow> int \<Rightarrow> (int \<times> int) option" where
  "snake a b x y =
     (if x < int (length a) \<and> y < int (length b)
      then do {
        l \<leftarrow> at a x;
        r \<leftarrow> at b y;
        (if l = r then snake a b (x + 1) (y + 1) else Some (x, y))
      }
      else Some (x, y))"
  by pat_completeness auto
termination
  by (relation "measure (\<lambda>(a, b, x, y). nat (int (length a) - x))") auto

text \<open>The point the search extends on diagonal \<open>k\<close> in round \<open>d\<close>.\<close>

definition choose_x :: "int list \<Rightarrow> int \<Rightarrow> int \<Rightarrow> int \<Rightarrow> int option" where
  "choose_x v off d k =
     (if k = - d then at v (off + k + 1)
      else if k \<noteq> d
      then do {
        l \<leftarrow> at v (off + k - 1);
        r \<leftarrow> at v (off + k + 1);
        Some (if l < r then r else l + 1)
      }
      else do { l \<leftarrow> at v (off + k - 1); Some (l + 1) })"

text \<open>The loop over the diagonals of round \<open>d\<close>, from \<open>k\<close> on: whether the end was reached, and the
  furthest points.\<close>

function k_loop :: "string list \<Rightarrow> string list \<Rightarrow> int \<Rightarrow> int \<Rightarrow> int \<Rightarrow> int list \<Rightarrow> (bool \<times> int list) option" where
  "k_loop a b off d k v =
     (if k > d then Some (False, v)
      else do {
        x0 \<leftarrow> choose_x v off d k;
        (x, y) \<leftarrow> snake a b x0 (x0 - k);
        v' \<leftarrow> set_at v (off + k) x;
        (if x \<ge> int (length a) \<and> y \<ge> int (length b) then Some (True, v')
         else k_loop a b off d (k + 2) v')
      })"
  by pat_completeness auto
termination
  by (relation "measure (\<lambda>(a, b, off, d, k, v). nat (d + 1 - k))") auto

text \<open>The lines kept between \<open>(px, py)\<close> and \<open>(x, y)\<close>, written before \<open>es\<close>: the script is built from
  its end, as \<open>backtrack\<close> does before it reverses.\<close>

function keep_back :: "string list \<Rightarrow> int \<Rightarrow> int \<Rightarrow> int \<Rightarrow> int \<Rightarrow> edit list \<Rightarrow> (int \<times> int \<times> edit list) option" where
  "keep_back a px py x y es =
     (if x > px \<and> y > py
      then do { l \<leftarrow> at a (x - 1); keep_back a px py (x - 1) (y - 1) ((Keep, l) # es) }
      else Some (x, y, es))"
  by pat_completeness auto
termination
  by (relation "measure (\<lambda>(a, px, py, x, y, es). nat (x - px))") auto

fun back_loop :: "string list \<Rightarrow> string list \<Rightarrow> int list list \<Rightarrow> nat \<Rightarrow> int \<Rightarrow> int \<Rightarrow> edit list
    \<Rightarrow> (int \<times> int \<times> edit list) option" where
  "back_loop a b trace 0 x y es = Some (x, y, es)"
| "back_loop a b trace (Suc e) x y es =
     (let d = int (Suc e); k = x - y in
      do {
        prev \<leftarrow> at trace d;
        down \<leftarrow> (if k = - d then Some True
                 else if k \<noteq> d
                 then do { l \<leftarrow> at prev (k - 1 + d); r \<leftarrow> at prev (k + 1 + d); Some (l < r) }
                 else Some False);
        let pk = (if down then k + 1 else k - 1);
        px \<leftarrow> at prev (pk + d);
        let py = px - pk;
        (x1, y1, es1) \<leftarrow> keep_back a px py x y es;
        es2 \<leftarrow> (if x1 = px then do { l \<leftarrow> at b (y1 - 1); Some ((Ins, l) # es1) }
                else do { l \<leftarrow> at a (x1 - 1); Some ((Del, l) # es1) });
        back_loop a b trace e px py es2
      })"

definition backtrack :: "int list list \<Rightarrow> string list \<Rightarrow> string list \<Rightarrow> edit list option" where
  "backtrack trace a b =
     do {
       (x, y, es) \<leftarrow> back_loop a b trace (length trace - 1) (int (length a)) (int (length b)) [];
       (x, y, es) \<leftarrow> keep_back a 0 0 x y es;
       Some es
     }"

definition replacement :: "string list \<Rightarrow> string list \<Rightarrow> edit list" where
  "replacement a b = map (\<lambda>l. (Del, l)) a @ map (\<lambda>l. (Ins, l)) b"

function d_loop :: "string list \<Rightarrow> string list \<Rightarrow> int \<Rightarrow> int \<Rightarrow> int \<Rightarrow> int list \<Rightarrow> int list list \<Rightarrow> edit list option" where
  "d_loop a b off bound d v trace =
     (if d > min (int (length a) + int (length b)) bound then Some (replacement a b)
      else do {
        s \<leftarrow> slice v (off - d) (off + d + 1);
        (reached, v') \<leftarrow> k_loop a b off d (- d) v;
        (if reached then backtrack (trace @ [s]) a b
         else d_loop a b off bound (d + 1) v' (trace @ [s]))
      })"
  by pat_completeness auto
termination
  by (relation "measure (\<lambda>(a, b, off, bound, d, v, trace). nat (int (length a) + int (length b) + 1 - d))") auto

definition edits :: "string list \<Rightarrow> string list \<Rightarrow> int \<Rightarrow> edit list option" where
  "edits a b bound =
     (let off = int (length a) + int (length b) + 1 in
      d_loop a b off bound 0 (replicate (nat (2 * off + 1)) 0) [])"

section \<open>The hunks\<close>

definition max_edits :: int where
  "max_edits = 2000"

definition context_lines :: int where
  "context_lines = 3"

definition op_char :: "edit_op \<Rightarrow> char" where
  "op_char p = (case p of Keep \<Rightarrow> CHR '' '' | Del \<Rightarrow> CHR ''-'' | Ins \<Rightarrow> CHR ''+'')"

definition span :: "nat \<Rightarrow> nat \<Rightarrow> string" where
  "span bef n =
     (if n = 0 then dec_nat bef @ '',0''
      else if n = 1 then dec_nat (bef + 1)
      else dec_nat (bef + 1) @ '','' @ dec_nat n)"

text \<open>The lines of each text before each edit, and the indices of the changes.\<close>

definition lines_before :: "edit_op \<Rightarrow> edit list \<Rightarrow> nat \<Rightarrow> nat" where
  "lines_before other es k = length (filter (\<lambda>e. fst e \<noteq> other) (take k es))"

definition changed :: "edit list \<Rightarrow> nat list" where
  "changed es = filter (\<lambda>k. fst (es ! k) \<noteq> Keep) [0..<length es]"

definition edit_text :: "edit \<Rightarrow> string" where
  "edit_text e = op_char (fst e) # snd e @
     (if snd e \<noteq> [] \<and> last (snd e) = newline then []
      else [newline] @ [CHR 92] @ '' No newline at end of file'' @ [newline])"

text \<open>The group of changes from index \<open>i\<close> whose gaps are at most twice the context.\<close>

function group_end :: "nat list \<Rightarrow> nat \<Rightarrow> nat" where
  "group_end cs j =
     (if j + 1 < length cs \<and> int (cs ! (j + 1)) - int (cs ! j) - 1 \<le> 2 * context_lines
      then group_end cs (j + 1) else j)"
  by pat_completeness auto
termination
  by (relation "measure (\<lambda>(cs, j). length cs - j)") auto

declare snake.simps [simp del] k_loop.simps [simp del] keep_back.simps [simp del] d_loop.simps [simp del]
  group_end.simps [simp del]

lemma group_end_ge: "j \<le> group_end cs j"
proof (induction cs j rule: group_end.induct)
  case (1 cs j)
  then show ?case by (subst group_end.simps) auto
qed

definition hunk :: "edit list \<Rightarrow> nat \<Rightarrow> nat \<Rightarrow> string" where
  "hunk es ci cj =
     (let s = nat (max (int ci - context_lines) 0);
          e = nat (min (int cj + context_lines + 1) (int (length es))) in
      ''@@ -'' @ span (lines_before Ins es s) (lines_before Ins es e - lines_before Ins es s)
      @ '' +'' @ span (lines_before Del es s) (lines_before Del es e - lines_before Del es s)
      @ '' @@'' @ [newline] @ concat (map edit_text (take (e - s) (drop s es))))"

function hunks :: "edit list \<Rightarrow> nat list \<Rightarrow> nat \<Rightarrow> string" where
  "hunks es cs i =
     (if i < length cs
      then let j = group_end cs i in hunk es (cs ! i) (cs ! j) @ hunks es cs (j + 1)
      else [])"
  by pat_completeness auto
termination
  by (relation "measure (\<lambda>(es, cs, i). length cs - i)")
    (auto simp: group_end_ge less_Suc_eq_le diff_less_mono2)

definition unified :: "string \<Rightarrow> string \<Rightarrow> string option" where
  "unified a b =
     do { es \<leftarrow> edits (split_lines a) (split_lines b) max_edits; Some (hunks es (changed es) 0) }"

declare hunks.simps [simp del]

section \<open>Scripts\<close>

definition source :: "edit list \<Rightarrow> string list" where
  "source es = map snd (filter (\<lambda>e. fst e \<noteq> Ins) es)"

definition target :: "edit list \<Rightarrow> string list" where
  "target es = map snd (filter (\<lambda>e. fst e \<noteq> Del) es)"

definition changes :: "edit list \<Rightarrow> nat" where
  "changes es = length (filter (\<lambda>e. fst e \<noteq> Keep) es)"

text \<open>The edit graph, unbounded to the right and below: the points reached with \<open>d\<close> changes.\<close>

inductive reach :: "string list \<Rightarrow> string list \<Rightarrow> nat \<Rightarrow> int \<Rightarrow> int \<Rightarrow> bool" for a b where
  origin: "reach a b 0 0 0"
| diag: "reach a b d x y \<Longrightarrow> x < int (length a) \<Longrightarrow> y < int (length b) \<Longrightarrow> a ! nat x = b ! nat y
    \<Longrightarrow> reach a b d (x + 1) (y + 1)"
| right: "reach a b d x y \<Longrightarrow> reach a b (Suc d) (x + 1) y"
| down: "reach a b d x y \<Longrightarrow> reach a b (Suc d) x (y + 1)"

text \<open>Where the run of equal lines from \<open>(x, y)\<close> ends, and the furthest point of round \<open>d\<close> on
  diagonal \<open>k\<close>.\<close>

function run_end :: "string list \<Rightarrow> string list \<Rightarrow> int \<Rightarrow> int \<Rightarrow> int" where
  "run_end a b x y =
     (if x < int (length a) \<and> y < int (length b) \<and> a ! nat x = b ! nat y
      then run_end a b (x + 1) (y + 1) else x)"
  by pat_completeness auto
termination
  by (relation "measure (\<lambda>(a, b, x, y). nat (int (length a) - x))") auto

declare run_end.simps [simp del]

definition pick :: "(int \<Rightarrow> int) \<Rightarrow> int \<Rightarrow> int \<Rightarrow> int" where
  "pick f d k = (if k = - d \<or> k \<noteq> d \<and> f (k - 1) < f (k + 1) then f (k + 1) else f (k - 1) + 1)"

fun furthest :: "string list \<Rightarrow> string list \<Rightarrow> nat \<Rightarrow> int \<Rightarrow> int" where
  "furthest a b 0 k = run_end a b 0 0"
| "furthest a b (Suc d) k =
     (let x = pick (furthest a b d) (int (Suc d)) k in run_end a b x (x - k))"

text \<open>The diagonals of round \<open>d\<close>.\<close>

definition diagonal :: "nat \<Rightarrow> int \<Rightarrow> bool" where
  "diagonal d k \<longleftrightarrow> - int d \<le> k \<and> k \<le> int d \<and> even (int d + k)"

section \<open>Runs of equal lines\<close>

lemma run_end_ge: "x \<le> run_end a b x y"
proof (induction a b x y rule: run_end.induct)
  case (1 a b x y)
  then show ?case by (subst run_end.simps) force
qed

lemma run_end_stuck:
  "\<not> (run_end a b x y < int (length a) \<and> y + run_end a b x y - x < int (length b) \<and>
      a ! nat (run_end a b x y) = b ! nat (y + run_end a b x y - x))"
proof (induction a b x y rule: run_end.induct)
  case (1 a b x y)
  show ?case
  proof (cases "x < int (length a) \<and> y < int (length b) \<and> a ! nat x = b ! nat y")
    case True
    then have "run_end a b x y = run_end a b (x + 1) (y + 1)" by (subst run_end.simps) simp
    with 1 [OF True] show ?thesis by (simp add: algebra_simps)
  next
    case False
    then have "run_end a b x y = x" by (subst run_end.simps) auto
    with False show ?thesis by simp
  qed
qed

lemma run_end_equal:
  assumes "x \<le> i" and "i < run_end a b x y"
  shows "i < int (length a) \<and> y + i - x < int (length b) \<and> a ! nat i = b ! nat (y + i - x)"
  using assms
proof (induction a b x y rule: run_end.induct)
  case (1 a b x y)
  show ?case
  proof (cases "x < int (length a) \<and> y < int (length b) \<and> a ! nat x = b ! nat y")
    case True
    then have eq: "run_end a b x y = run_end a b (x + 1) (y + 1)" by (subst run_end.simps) simp
    show ?thesis
    proof (cases "i = x")
      case False
      with 1 True eq have "i < int (length a) \<and> (y + 1) + i - (x + 1) < int (length b) \<and>
          a ! nat i = b ! nat ((y + 1) + i - (x + 1))" by (intro "1.IH") auto
      then show ?thesis by (simp add: algebra_simps)
    qed (use True in simp)
  next
    case False
    then have "run_end a b x y = x" by (subst run_end.simps) auto
    with 1 show ?thesis by simp
  qed
qed

text \<open>On one diagonal, a run that starts further ends no earlier.\<close>

lemma run_end_mono: "x \<le> x' \<Longrightarrow> run_end a b x (x - k) \<le> run_end a b x' (x' - k)"
proof (rule ccontr)
  assume le: "x \<le> x'" and "\<not> run_end a b x (x - k) \<le> run_end a b x' (x' - k)"
  then have lt: "run_end a b x' (x' - k) < run_end a b x (x - k)" by simp
  moreover have "x \<le> run_end a b x' (x' - k)" using le run_end_ge [of x' a b "x' - k"] by simp
  ultimately show False
    using run_end_equal [of x "run_end a b x' (x' - k)" a b "x - k"] run_end_stuck [of a b x' "x' - k"]
    by (simp add: algebra_simps)
qed

lemma snake_run_end:
  assumes "0 \<le> x" and "0 \<le> y"
  shows "snake a b x y = Some (run_end a b x y, y + run_end a b x y - x)"
  using assms
proof (induction a b x y rule: run_end.induct)
  case (1 a b x y)
  then show ?case by (subst snake.simps, subst (1 2) run_end.simps) (auto simp: at_def)
qed

section \<open>The furthest points of a round\<close>

lemma reach_nonneg: "reach a b d x y \<Longrightarrow> 0 \<le> x \<and> 0 \<le> y"
  by (induction rule: reach.induct) auto

lemma reach_diagonal: "reach a b d x y \<Longrightarrow> diagonal d (x - y)"
proof (induction rule: reach.induct)
  case (right d x y)
  have "int (Suc d) + (x + 1 - y) = (int d + (x - y)) + 2" by simp
  with right show ?case by (auto simp: diagonal_def)
next
  case (down d x y)
  have "int (Suc d) + (x - (y + 1)) = int d + (x - y)" by simp
  with down show ?case by (auto simp: diagonal_def)
qed (auto simp: diagonal_def)

lemma reach_run: "reach a b d x y \<Longrightarrow> reach a b d (run_end a b x y) (y + run_end a b x y - x)"
proof (induction a b x y rule: run_end.induct)
  case (1 a b x y)
  show ?case
  proof (cases "x < int (length a) \<and> y < int (length b) \<and> a ! nat x = b ! nat y")
    case True
    then have eq: "run_end a b x y = run_end a b (x + 1) (y + 1)" by (subst run_end.simps) simp
    have "reach a b d (x + 1) (y + 1)" using True "1.prems" by (auto intro: reach.diag)
    from "1.IH" [OF True this] show ?thesis by (simp add: eq algebra_simps)
  next
    case False
    then have "run_end a b x y = x" by (subst run_end.simps) auto
    with 1 show ?thesis by simp
  qed
qed

lemma diagonal_down: "diagonal (Suc d) k \<Longrightarrow> k \<noteq> int (Suc d) \<Longrightarrow> diagonal d (k + 1)"
  by (auto simp: diagonal_def) presburger+

lemma diagonal_right: "diagonal (Suc d) k \<Longrightarrow> k \<noteq> - int (Suc d) \<Longrightarrow> diagonal d (k - 1)"
  by (auto simp: diagonal_def) presburger+

lemma diagonal_0: "diagonal 0 k \<longleftrightarrow> k = 0"
  by (auto simp: diagonal_def)

text \<open>The point a round starts a diagonal's run from.\<close>

definition start :: "string list \<Rightarrow> string list \<Rightarrow> nat \<Rightarrow> int \<Rightarrow> int" where
  "start a b d k = (if d = 0 then 0 else pick (furthest a b (d - 1)) (int d) k)"

lemma furthest_start: "diagonal d k \<Longrightarrow> furthest a b d k = run_end a b (start a b d k) (start a b d k - k)"
  by (cases d) (auto simp: start_def diagonal_0 Let_def)

lemma start_furthest_reach:
  "diagonal d k \<Longrightarrow> reach a b d (start a b d k) (start a b d k - k) \<and>
     reach a b d (furthest a b d k) (furthest a b d k - k)"
proof (induction d arbitrary: k)
  case 0
  then show ?case using reach_run [OF reach.origin, of a b] by (simp add: diagonal_0 start_def reach.origin)
next
  case (Suc d)
  let ?f = "furthest a b d"
  have "reach a b (Suc d) (start a b (Suc d) k) (start a b (Suc d) k - k)"
  proof (cases "k = - int (Suc d) \<or> k \<noteq> int (Suc d) \<and> ?f (k - 1) < ?f (k + 1)")
    case True
    then have "diagonal d (k + 1)" using Suc.prems by (intro diagonal_down) auto
    then have "reach a b d (?f (k + 1)) (?f (k + 1) - (k + 1))" using Suc.IH by blast
    from reach.down [OF this] show ?thesis using True by (auto simp: start_def pick_def algebra_simps)
  next
    case False
    then have "diagonal d (k - 1)" using Suc.prems by (intro diagonal_right) auto
    then have "reach a b d (?f (k - 1)) (?f (k - 1) - (k - 1))" using Suc.IH by blast
    from reach.right [OF this] show ?thesis using False by (auto simp: start_def pick_def algebra_simps)
  qed
  then show ?case
    using reach_run furthest_start [OF Suc.prems] by (force simp: algebra_simps)
qed

lemma furthest_stuck:
  assumes "diagonal d k"
  shows "\<not> (furthest a b d k < int (length a) \<and> furthest a b d k - k < int (length b) \<and>
    a ! nat (furthest a b d k) = b ! nat (furthest a b d k - k))"
  using run_end_stuck [of a b "start a b d k" "start a b d k - k"] furthest_start [OF assms, of a b]
  by (simp add: algebra_simps)

lemma start_le_furthest: "diagonal d k \<Longrightarrow> start a b d k \<le> furthest a b d k"
  by (simp add: furthest_start run_end_ge)

text \<open>No point of a round is further on its diagonal.\<close>

lemma furthest_max: "reach a b d x y \<Longrightarrow> x \<le> furthest a b d (x - y)"
proof (induction rule: reach.induct)
  case origin
  then show ?case by (simp add: run_end_ge)
next
  case (diag d x y)
  have "furthest a b d (x - y) \<noteq> x"
    using furthest_stuck [OF reach_diagonal [OF diag(1)]] diag(2-4) by (metis diff_diff_eq2 add_diff_cancel_left')
  with diag(5) show ?case by simp
next
  case (right d x y)
  have "diagonal d (x - y)" using right(1) by (rule reach_diagonal)
  then have k: "x + 1 - y \<noteq> - int (Suc d)" and "diagonal (Suc d) (x + 1 - y)"
    using reach_diagonal [OF reach.right [OF right(1)]] by (auto simp: diagonal_def)
  have "x + 1 \<le> start a b (Suc d) (x + 1 - y)"
    using right(2) k by (auto simp: start_def pick_def algebra_simps)
  also have "\<dots> \<le> furthest a b (Suc d) (x + 1 - y)" using start_le_furthest \<open>diagonal (Suc d) _\<close> by blast
  finally show ?case .
next
  case (down d x y)
  have "diagonal d (x - y)" using down(1) by (rule reach_diagonal)
  then have k: "x - (y + 1) \<noteq> int (Suc d)" and "diagonal (Suc d) (x - (y + 1))"
    using reach_diagonal [OF reach.down [OF down(1)]] by (auto simp: diagonal_def)
  have "x \<le> start a b (Suc d) (x - (y + 1))"
    using down(2) k by (auto simp: start_def pick_def algebra_simps)
  also have "\<dots> \<le> furthest a b (Suc d) (x - (y + 1))" using start_le_furthest \<open>diagonal (Suc d) _\<close> by blast
  finally show ?case .
qed

text \<open>A point outside the grid is its projection onto the grid and the steps outside it.\<close>

lemma reach_clip:
  assumes "reach a b d x y"
  shows "nat (x - int (length a)) + nat (y - int (length b)) \<le> d \<and>
    reach a b (d - nat (x - int (length a)) - nat (y - int (length b))) (min x (int (length a))) (min y (int (length b)))"
  using assms
proof (induction rule: reach.induct)
  case origin
  then show ?case by (simp add: reach.origin)
next
  case (diag d x y)
  then show ?case using reach.diag [OF diag(1-4)] by (simp add: min_def)
next
  case (right d x y)
  let ?n = "int (length a)" and ?m = "int (length b)"
  show ?case
  proof (cases "x < ?n")
    case True
    then have "reach a b (Suc (d - nat (y - ?m))) (x + 1) (min y ?m)"
      using right.IH by (intro reach.right) (simp add: min_def)
    then show ?thesis using True right.IH by (simp add: min_def Suc_diff_le)
  next
    case False
    then have "nat (x + 1 - ?n) = Suc (nat (x - ?n))" by simp
    with False right.IH show ?thesis by (simp add: min_def split: if_splits)
  qed
next
  case (down d x y)
  let ?n = "int (length a)" and ?m = "int (length b)"
  show ?case
  proof (cases "y < ?m")
    case True
    then have "reach a b (Suc (d - nat (x - ?n))) (min x ?n) (y + 1)"
      using down.IH by (intro reach.down) (simp add: min_def)
    then show ?thesis using True down.IH by (simp add: min_def Suc_diff_le)
  next
    case False
    then have "nat (y + 1 - ?m) = Suc (nat (y - ?m))" by simp
    with False down.IH show ?thesis by (simp add: min_def diff_right_commute split: if_splits)
  qed
qed

section \<open>The search finds the first round that ends\<close>

definition ended :: "string list \<Rightarrow> string list \<Rightarrow> nat \<Rightarrow> int \<Rightarrow> bool" where
  "ended a b d k \<longleftrightarrow> int (length a) \<le> furthest a b d k \<and> int (length b) \<le> furthest a b d k - k"

lemma reach_end_ended: "reach a b d (int (length a)) (int (length b)) \<Longrightarrow>
    diagonal d (int (length a) - int (length b)) \<and> ended a b d (int (length a) - int (length b))"
  using furthest_max [of a b d "int (length a)" "int (length b)"] reach_diagonal by (auto simp: ended_def)

lemma first_ended:
  assumes k: "diagonal d k" "ended a b d k" and first: "\<And>e j. e < d \<Longrightarrow> diagonal e j \<Longrightarrow> \<not> ended a b e j"
  shows "furthest a b d k = int (length a) \<and> k = int (length a) - int (length b)"
proof -
  let ?n = "int (length a)" and ?m = "int (length b)" and ?x = "furthest a b d k"
  have r: "reach a b d ?x (?x - k)" using start_furthest_reach [OF k(1)] by blast
  let ?e = "d - nat (?x - ?n) - nat (?x - k - ?m)"
  have le: "nat (?x - ?n) + nat (?x - k - ?m) \<le> d" and clip: "reach a b ?e ?n ?m"
    using reach_clip [OF r] k(2) by (auto simp: ended_def min_def split: if_splits)
  have "\<not> ?e < d" using first reach_end_ended [OF clip] by blast
  then have "nat (?x - ?n) = 0" "nat (?x - k - ?m) = 0" using le by auto
  then show ?thesis using k(2) by (auto simp: ended_def)
qed

lemma at_eq: "0 \<le> i \<Longrightarrow> i < int (length xs) \<Longrightarrow> at xs i = Some (xs ! nat i)"
  by (simp add: at_def)

lemma at_SomeD: "at xs i = Some x \<Longrightarrow> 0 \<le> i \<and> i < int (length xs) \<and> xs ! nat i = x"
  by (auto simp: at_def split: if_splits)

lemma at_set_at:
  "set_at xs i v = Some ys \<Longrightarrow> length ys = length xs \<and> at ys j = (if j = i then Some v else at xs j)"
  by (auto simp: set_at_def at_def nth_list_update eq_nat_nat_iff split: if_splits)

lemma at_slice: "slice xs i j = Some ys \<Longrightarrow> 0 \<le> t \<Longrightarrow> t < j - i \<Longrightarrow> at ys t = at xs (i + t)"
  by (auto simp: slice_def at_def nth_append nat_add_distrib split: if_splits)

text \<open>The furthest points at the start of round \<open>d\<close>: those of the round before.\<close>

definition round_start :: "string list \<Rightarrow> string list \<Rightarrow> nat \<Rightarrow> int list \<Rightarrow> bool" where
  "round_start a b d v \<longleftrightarrow> (let off = int (length a) + int (length b) + 1 in
     int (length v) = 2 * off + 1 \<and>
     (if d = 0 then at v (off + 1) = Some 0
      else \<forall>j. diagonal (d - 1) j \<longrightarrow> at v (off + j) = Some (furthest a b (d - 1) j)))"

lemma choose_x_start:
  assumes v: "round_start a b d v" and k: "diagonal d k"
  shows "choose_x v (int (length a) + int (length b) + 1) (int d) k = Some (start a b d k)"
proof (cases d)
  case 0
  then show ?thesis using v k by (simp add: choose_x_def start_def round_start_def diagonal_0 Let_def)
next
  case (Suc e)
  let ?off = "int (length a) + int (length b) + 1"
  have get: "at v (?off + j) = Some (furthest a b e j)" if "diagonal e j" for j
    using v Suc that by (simp add: round_start_def Let_def)
  have l: "at v (?off + k - 1) = Some (furthest a b e (k - 1))" if "k \<noteq> - int d"
    using get [OF diagonal_right] k Suc that by (metis add_diff_eq)
  have r: "at v (?off + k + 1) = Some (furthest a b e (k + 1))" if "k \<noteq> int d"
    using get [OF diagonal_down] k Suc that by (metis add.assoc)
  have st: "start a b d k = pick (furthest a b e) (int d) k" using Suc by (simp add: start_def)
  show ?thesis
  proof (cases "k = - int d")
    case True
    then have "k \<noteq> int d" using Suc by simp
    then show ?thesis
      unfolding choose_x_def st pick_def if_P [OF True] r [OF \<open>k \<noteq> int d\<close>] using True by simp
  next
    case False
    then show ?thesis
      unfolding choose_x_def st pick_def if_not_P [OF False] l [OF False] using r False by simp
  qed
qed

text \<open>Within round \<open>d\<close>, the diagonals below \<open>k\<close> are written and the others are as at its start.\<close>

definition round_at :: "string list \<Rightarrow> string list \<Rightarrow> nat \<Rightarrow> int \<Rightarrow> int list \<Rightarrow> bool" where
  "round_at a b d k v \<longleftrightarrow> round_start a b d v \<and>
     (\<forall>j. diagonal d j \<longrightarrow> j < k \<longrightarrow>
        at v (int (length a) + int (length b) + 1 + j) = Some (furthest a b d j) \<and> \<not> ended a b d j)"

lemma round_at_next:
  assumes v: "round_at a b d k v" and k: "diagonal d k" and d: "int d \<le> int (length a) + int (length b)"
    and v': "set_at v (int (length a) + int (length b) + 1 + k) (furthest a b d k) = Some v'"
    and ne: "\<not> ended a b d k"
  shows "round_at a b d (k + 2) v'"
proof -
  let ?off = "int (length a) + int (length b) + 1"
  note get = at_set_at [OF v']
  have other: "at v' (?off + j) = at v (?off + j)" if "j \<noteq> k" for j
    using get that by simp
  have "odd (int d + j)" if "diagonal (d - 1) j" "d \<noteq> 0" for j
    using that by (auto simp: diagonal_def)
  then have "diagonal (d - 1) j \<Longrightarrow> d \<noteq> 0 \<Longrightarrow> j \<noteq> k" for j using k by (auto simp: diagonal_def)
  moreover have "d = 0 \<Longrightarrow> k \<noteq> 1" using k by (simp add: diagonal_0)
  ultimately have "round_start a b d v'"
    using v get other by (auto simp: round_at_def round_start_def Let_def)
  moreover have "at v' (?off + j) = Some (furthest a b d j) \<and> \<not> ended a b d j"
    if j: "diagonal d j" "j < k + 2" for j
  proof (cases "j = k")
    case False
    have "even (j - k)" using j k by (auto simp: diagonal_def)
    then have "j \<noteq> k + 1" by auto
    with False j have "j < k" by simp
    then show ?thesis using v j other False by (simp add: round_at_def)
  qed (use get ne in simp)
  ultimately show ?thesis by (simp add: round_at_def)
qed

lemma k_loop_round:
  assumes "round_at a b d k v" and "diagonal d k \<or> int d < k" and "int d \<le> int (length a) + int (length b)"
  shows "\<exists>r v'. k_loop a b (int (length a) + int (length b) + 1) (int d) k v = Some (r, v') \<and>
    (if r then \<exists>j. diagonal d j \<and> ended a b d j else round_at a b d (int d + 1) v')"
  using assms(1,2)
proof (induction "nat (int d + 2 - k)" arbitrary: k v rule: less_induct)
  case less
  let ?off = "int (length a) + int (length b) + 1"
  show ?case
  proof (cases "int d < k")
    case True
    then have "round_at a b d (int d + 1) v"
      using less.prems by (auto simp: round_at_def)
    with True show ?thesis by (subst k_loop.simps) auto
  next
    case False
    with less.prems have k: "diagonal d k" by simp
    let ?s = "start a b d k" and ?x = "furthest a b d k"
    have ch: "choose_x v ?off (int d) k = Some ?s"
      using less.prems k by (intro choose_x_start) (auto simp: round_at_def)
    have "0 \<le> ?s" "0 \<le> ?s - k" using start_furthest_reach [OF k] reach_nonneg by blast+
    then have sn: "snake a b ?s (?s - k) = Some (?x, ?x - k)"
      using snake_run_end [of ?s "?s - k" a b] furthest_start [OF k, of a b] by (simp add: algebra_simps)
    have "int (length v) = 2 * ?off + 1" using less.prems by (simp add: round_at_def round_start_def Let_def)
    moreover have "- int d \<le> k" "k \<le> int d" using k by (auto simp: diagonal_def)
    ultimately obtain v' where v': "set_at v (?off + k) ?x = Some v'"
      using assms(3) by (simp add: set_at_def)
    have step: "k_loop a b ?off (int d) k v =
        (if ended a b d k then Some (True, v') else k_loop a b ?off (int d) (k + 2) v')"
      using False ch sn v' by (subst k_loop.simps) (simp add: ended_def)
    show ?thesis
    proof (cases "ended a b d k")
      case True
      then show ?thesis using step k by auto
    next
      case ne: False
      have "round_at a b d (k + 2) v'" using less.prems(1) k assms(3) v' ne by (rule round_at_next)
      moreover have "diagonal d (k + 2) \<or> int d < k + 2" using k by (auto simp: diagonal_def)
      moreover have "nat (int d + 2 - (k + 2)) < nat (int d + 2 - k)" using False by simp
      ultimately show ?thesis using less.hyps [of "k + 2" v'] step ne by simp
    qed
  qed
qed

section \<open>The script is read back from the trace\<close>

lemma script_simps [simp]:
  "source ((Keep, l) # es) = l # source es" "source ((Del, l) # es) = l # source es"
  "source ((Ins, l) # es) = source es" "source [] = []"
  "target ((Keep, l) # es) = l # target es" "target ((Ins, l) # es) = l # target es"
  "target ((Del, l) # es) = target es" "target [] = []"
  "changes ((Keep, l) # es) = changes es" "changes ((Del, l) # es) = Suc (changes es)"
  "changes ((Ins, l) # es) = Suc (changes es)" "changes [] = 0"
  by (simp_all add: source_def target_def changes_def)

lemma script_append [simp]:
  "source (es @ fs) = source es @ source fs" "target (es @ fs) = target es @ target fs"
  "changes (es @ fs) = changes es + changes fs"
  by (simp_all add: source_def target_def changes_def)

lemma drop_before: "0 < x \<Longrightarrow> x \<le> int (length a) \<Longrightarrow> drop (nat (x - 1)) a = a ! nat (x - 1) # drop (nat x) a"
  using Cons_nth_drop_Suc [of "nat (x - 1)" a] by (simp add: Suc_nat_eq_nat_zadd1)

lemma keep_back_spec:
  assumes "0 \<le> px" and "0 \<le> py" and "px \<le> x" and "py \<le> y" and "x \<le> int (length a)" and "y \<le> int (length b)"
    and "\<And>i. 0 < i \<Longrightarrow> i \<le> x - px \<Longrightarrow> i \<le> y - py \<Longrightarrow> a ! nat (x - i) = b ! nat (y - i)"
    and "source es = drop (nat x) a" and "target es = drop (nat y) b"
  shows "\<exists>es'. keep_back a px py x y es = Some (x - min (x - px) (y - py), y - min (x - px) (y - py), es') \<and>
    source es' = drop (nat (x - min (x - px) (y - py))) a \<and>
    target es' = drop (nat (y - min (x - px) (y - py))) b \<and> changes es' = changes es"
  using assms
proof (induction "nat (x - px)" arbitrary: x y es rule: less_induct)
  case less
  show ?case
  proof (cases "px < x \<and> py < y")
    case True
    then have x: "0 < x" "0 < y" using less.prems by auto
    have l: "at a (x - 1) = Some (a ! nat (x - 1))" using x less.prems by (simp add: at_def)
    have eq: "a ! nat (x - 1) = b ! nat (y - 1)" using less.prems(7) [of 1] True by simp
    have step: "keep_back a px py x y es = keep_back a px py (x - 1) (y - 1) ((Keep, a ! nat (x - 1)) # es)"
      using True l by (subst keep_back.simps) simp
    have "\<exists>es'. keep_back a px py (x - 1) (y - 1) ((Keep, a ! nat (x - 1)) # es)
        = Some (x - 1 - min (x - 1 - px) (y - 1 - py), y - 1 - min (x - 1 - px) (y - 1 - py), es') \<and>
      source es' = drop (nat (x - 1 - min (x - 1 - px) (y - 1 - py))) a \<and>
      target es' = drop (nat (y - 1 - min (x - 1 - px) (y - 1 - py))) b \<and>
      changes es' = changes ((Keep, a ! nat (x - 1)) # es)"
    proof (rule less.hyps)
      fix i assume "0 < i" "i \<le> x - 1 - px" "i \<le> y - 1 - py"
      then show "a ! nat (x - 1 - i) = b ! nat (y - 1 - i)"
        using less.prems(7) [of "i + 1"] by (simp add: algebra_simps)
    qed (use True x less.prems eq in \<open>simp_all add: drop_before\<close>)
    moreover have "min (x - px) (y - py) = min (x - 1 - px) (y - 1 - py) + 1" by auto
    ultimately show ?thesis using step by (simp add: algebra_simps)
  next
    case False
    then have "min (x - px) (y - py) = 0" using less.prems by auto
    with False less.prems show ?thesis by (subst keep_back.simps) auto
  qed
qed

definition trace_ok :: "string list \<Rightarrow> string list \<Rightarrow> int list list \<Rightarrow> bool" where
  "trace_ok a b trace \<longleftrightarrow> (\<forall>d j. Suc d < length trace \<longrightarrow> diagonal d j \<longrightarrow>
     at (trace ! Suc d) (j + int (Suc d)) = Some (furthest a b d j))"

text \<open>A point of the script: the furthest of its round, inside the grid, the rest already written.\<close>

definition at_round :: "string list \<Rightarrow> string list \<Rightarrow> nat \<Rightarrow> int \<Rightarrow> int \<Rightarrow> edit list \<Rightarrow> bool" where
  "at_round a b d x y es \<longleftrightarrow> diagonal d (x - y) \<and> x = furthest a b d (x - y) \<and>
     x \<le> int (length a) \<and> y \<le> int (length b) \<and> source es = drop (nat x) a \<and> target es = drop (nat y) b"

lemma at_round_nonneg: "at_round a b d x y es \<Longrightarrow> 0 \<le> x \<and> 0 \<le> y"
  using start_furthest_reach [of d "x - y" a b] reach_nonneg [of a b d] by (auto simp: at_round_def)

lemma round_run_equal:
  assumes "at_round a b d x y es" and "0 < i" and "i \<le> x - start a b d (x - y)"
  shows "a ! nat (x - i) = b ! nat (y - i)"
proof -
  let ?s = "start a b d (x - y)"
  have "x = run_end a b ?s (?s - (x - y))" using assms(1) by (metis at_round_def furthest_start)
  then show ?thesis
    using run_end_equal [of ?s "x - i" a b "?s - (x - y)"] assms(2,3) by (simp add: algebra_simps)
qed

lemma back_step:
  assumes now: "at_round a b (Suc e) x y es" and tr: "trace_ok a b trace" "Suc e < length trace"
  obtains px py es' where "back_loop a b trace (Suc e) x y es = back_loop a b trace e px py es'"
    and "at_round a b e px py es'" and "changes es' = Suc (changes es)"
proof -
  let ?d = "int (Suc e)" and ?k = "x - y" and ?f = "furthest a b e"
  let ?down = "?k = - ?d \<or> ?k \<noteq> ?d \<and> ?f (?k - 1) < ?f (?k + 1)"
  define pk where "pk = (if ?down then ?k + 1 else ?k - 1)"
  define px where "px = ?f pk"
  define py where "py = px - pk"
  have dk: "diagonal (Suc e) ?k" using now by (simp add: at_round_def)
  have dl: "?k \<noteq> - ?d \<Longrightarrow> diagonal e (?k - 1)" and dr: "?k \<noteq> ?d \<Longrightarrow> diagonal e (?k + 1)"
    using diagonal_right [OF dk] diagonal_down [OF dk] by auto
  have pk: "diagonal e pk" using dl dr by (auto simp: pk_def)
  have prev: "at trace ?d = Some (trace ! Suc e)"
    using tr(2) by (simp add: at_def nat_add_distrib)
  have get: "at (trace ! Suc e) (j + ?d) = Some (?f j)" if "diagonal e j" for j
    using tr that by (simp add: trace_ok_def)
  have "reach a b e px py" using start_furthest_reach [OF pk, of a b] by (simp add: px_def py_def)
  then have "0 \<le> px" "0 \<le> py" using reach_nonneg by blast+
  define sx where "sx = start a b (Suc e) ?k"
  have sx: "sx = (if ?down then px else px + 1)" by (simp add: sx_def start_def pick_def px_def pk_def)
  have xy: "x \<le> int (length a)" "y \<le> int (length b)" "sx \<le> x"
    using now start_le_furthest [OF dk, of a b] by (auto simp: at_round_def sx_def)
  have m: "min (x - px) (y - py) = x - sx" by (auto simp: sx py_def pk_def)
  have "\<exists>es1. keep_back a px py x y es = Some (x - (x - sx), y - (x - sx), es1) \<and>
      source es1 = drop (nat (x - (x - sx))) a \<and> target es1 = drop (nat (y - (x - sx))) b \<and> changes es1 = changes es"
    unfolding m [symmetric]
  proof (rule keep_back_spec)
    fix i assume "0 < i" "i \<le> x - px" "i \<le> y - py"
    then have "i \<le> x - sx" using m by auto
    then show "a ! nat (x - i) = b ! nat (y - i)" using round_run_equal [OF now \<open>0 < i\<close>] by (simp add: sx_def)
  qed (use \<open>0 \<le> px\<close> \<open>0 \<le> py\<close> xy now m sx in \<open>auto simp: at_round_def py_def pk_def split: if_splits\<close>)
  then obtain es1 where kb: "keep_back a px py x y es = Some (sx, y - (x - sx), es1)"
    and es1: "source es1 = drop (nat sx) a" "target es1 = drop (nat (y - (x - sx))) b" "changes es1 = changes es"
    by auto
  define es' where "es' = (if ?down then (Ins, b ! nat py) else (Del, a ! nat px)) # es1"
  have y1: "y - (x - sx) = (if ?down then py + 1 else py)" by (auto simp: sx py_def pk_def)
  have inside: "if ?down then py < int (length b) else px < int (length a)"
    using xy sx y1 by (auto split: if_splits)
  have last: "(if sx = px then do { l \<leftarrow> at b (y - (x - sx) - 1); Some ((Ins, l) # es1) }
      else do { l \<leftarrow> at a (sx - 1); Some ((Del, l) # es1) }) = Some es'"
    using inside \<open>0 \<le> px\<close> \<open>0 \<le> py\<close> unfolding y1 by (auto simp: sx es'_def at_def)
  have down: "(if ?k = - ?d then Some True
      else if ?k \<noteq> ?d then do { l \<leftarrow> at (trace ! Suc e) (?k - 1 + ?d); r \<leftarrow> at (trace ! Suc e) (?k + 1 + ?d); Some (l < r) }
      else Some False) = Some ?down"
    using get [OF dl] get [OF dr] by simp
  have "back_loop a b trace (Suc e) x y es = back_loop a b trace e px py es'"
    unfolding back_loop.simps Let_def
    by (simp only: prev down get [OF pk] kb last bind.bind_lunit pk_def [symmetric] px_def [symmetric]
        py_def [symmetric] prod.case)
  moreover have "at_round a b e px py es'"
    using pk inside es1 \<open>0 \<le> px\<close> \<open>0 \<le> py\<close> xy y1 sx drop_before [of "py + 1" b] drop_before [of "px + 1" a]
    by (auto simp: at_round_def es'_def px_def [symmetric] py_def split: if_splits)
  moreover have "changes es' = Suc (changes es)" by (simp add: es'_def es1)
  ultimately show thesis by (rule that)
qed

lemma back_loop_spec:
  assumes "at_round a b e x y es" and "trace_ok a b trace" and "e < length trace"
  shows "\<exists>x' y' es'. back_loop a b trace e x y es = Some (x', y', es') \<and> at_round a b 0 x' y' es' \<and>
    changes es' = e + changes es"
  using assms(1,3)
proof (induction e arbitrary: x y es)
  case (Suc e)
  obtain px py es1 where "back_loop a b trace (Suc e) x y es = back_loop a b trace e px py es1"
    and "at_round a b e px py es1" and "changes es1 = Suc (changes es)"
    using back_step [OF Suc.prems(1) assms(2) Suc.prems(2)] .
  then show ?case using Suc.IH [of px py es1] Suc.prems(2) by simp
qed simp

lemma backtrack_spec:
  assumes tr: "trace_ok a b trace" "length trace = Suc d" and e: "diagonal d k" "ended a b d k"
    and first: "\<And>e j. e < d \<Longrightarrow> diagonal e j \<Longrightarrow> \<not> ended a b e j"
  shows "\<exists>es. backtrack trace a b = Some es \<and> source es = a \<and> target es = b \<and> changes es = d"
proof -
  have "at_round a b d (int (length a)) (int (length b)) []"
    using first_ended [OF e first] e(1) by (auto simp: at_round_def)
  then obtain x y es where bl: "back_loop a b trace d (int (length a)) (int (length b)) [] = Some (x, y, es)"
    and r: "at_round a b 0 x y es" and ch: "changes es = d"
    using back_loop_spec [of a b d "int (length a)" "int (length b)" "[]" trace] tr by auto
  have xy: "x = y" "0 \<le> x" using r at_round_nonneg [OF r] by (auto simp: at_round_def diagonal_0)
  have "\<exists>es'. keep_back a 0 0 x y es = Some (x - min (x - 0) (y - 0), y - min (x - 0) (y - 0), es') \<and>
    source es' = drop (nat (x - min (x - 0) (y - 0))) a \<and>
    target es' = drop (nat (y - min (x - 0) (y - 0))) b \<and> changes es' = changes es"
  proof (rule keep_back_spec)
    fix i assume "0 < i" "i \<le> x - 0" "i \<le> y - 0"
    then show "a ! nat (x - i) = b ! nat (y - i)" using round_run_equal [OF r] by (simp add: start_def)
  qed (use r xy in \<open>auto simp: at_round_def\<close>)
  then show ?thesis using bl ch tr(2) xy(1) by (auto simp: backtrack_def)
qed

section \<open>Every script is a path\<close>

lemma script_reach:
  "a = source es @ u \<Longrightarrow> b = target es @ w \<Longrightarrow>
    reach a b (changes es) (int (length (source es))) (int (length (target es)))"
proof (induction es arbitrary: u w rule: rev_induct)
  case Nil
  then show ?case by (simp add: reach.origin)
next
  case (snoc e es)
  obtain p l where e: "e = (p, l)" by (cases e)
  show ?case
  proof (cases p)
    case Keep
    have "reach a b (changes es) (int (length (source es))) (int (length (target es)))"
      using snoc.IH [of "l # u" "l # w"] snoc.prems e Keep by simp
    then have "reach a b (changes es) (int (length (source es)) + 1) (int (length (target es)) + 1)"
      by (rule reach.diag) (use snoc.prems e Keep in \<open>auto simp: nth_append\<close>)
    then show ?thesis using e Keep by (simp add: add.commute)
  next
    case Del
    have "reach a b (changes es) (int (length (source es))) (int (length (target es)))"
      using snoc.IH [of "l # u" w] snoc.prems e Del by simp
    from reach.right [OF this] show ?thesis using e Del by (simp add: add.commute)
  next
    case Ins
    have "reach a b (changes es) (int (length (source es))) (int (length (target es)))"
      using snoc.IH [of u "l # w"] snoc.prems e Ins by simp
    from reach.down [OF this] show ?thesis using e Ins by (simp add: add.commute)
  qed
qed

lemma script_ended:
  assumes "source es = a" and "target es = b"
  shows "\<exists>k. diagonal (changes es) k \<and> ended a b (changes es) k"
  using script_reach [of a es "[]" b "[]"] assms reach_end_ended by fastforce

lemma replacement_script: "source (replacement a b) = a" "target (replacement a b) = b"
    "changes (replacement a b) = length a + length b"
  by (simp_all add: source_def target_def changes_def replacement_def filter_map o_def)

section \<open>The search as a whole\<close>

lemma round_start_next:
  "round_at a b d (int d + 1) v \<Longrightarrow> round_start a b (Suc d) v"
  by (auto simp: round_at_def round_start_def Let_def diagonal_def)

lemma trace_ok_snoc:
  assumes tr: "trace_ok a b trace" "length trace = d" and v: "round_start a b d v"
    and s: "slice v (int (length a) + int (length b) + 1 - int d) (int (length a) + int (length b) + 1 + int d + 1) = Some s"
  shows "trace_ok a b (trace @ [s])"
  unfolding trace_ok_def
proof (intro allI impI)
  fix e j assume e: "Suc e < length (trace @ [s])" and j: "diagonal e j"
  show "at ((trace @ [s]) ! Suc e) (j + int (Suc e)) = Some (furthest a b e j)"
  proof (cases "Suc e < length trace")
    case True
    then show ?thesis using tr j by (simp add: trace_ok_def nth_append)
  next
    case False
    then have d: "d = Suc e" using e tr(2) by simp
    have "at s (j + int d) = at v (int (length a) + int (length b) + 1 + j)"
      using at_slice [OF s, of "j + int d"] j d by (simp add: diagonal_def algebra_simps)
    then show ?thesis using v j d tr(2) by (simp add: round_start_def Let_def nth_append)
  qed
qed

lemma d_loop_spec:
  assumes "round_start a b d v" and "trace_ok a b trace" and "length trace = d"
    and "\<And>e j. e < d \<Longrightarrow> diagonal e j \<Longrightarrow> \<not> ended a b e j"
  shows "\<exists>es. d_loop a b (int (length a) + int (length b) + 1) bound (int d) v trace = Some es \<and>
    source es = a \<and> target es = b \<and>
    (\<forall>fs. source fs = a \<longrightarrow> target fs = b \<longrightarrow> changes es \<le> changes fs \<or> bound < int (changes fs))"
  using assms
proof (induction "nat (int (length a) + int (length b) + 1 - int d)" arbitrary: d v trace rule: less_induct)
  case less
  let ?off = "int (length a) + int (length b) + 1"
  have later: "d \<le> changes fs" if "source fs = a" "target fs = b" for fs
    using script_ended [OF that] less.prems(4) not_less by blast
  show ?case
  proof (cases "int d > min (int (length a) + int (length b)) bound")
    case True
    have "changes (replacement a b) \<le> changes fs \<or> bound < int (changes fs)"
      if "source fs = a" "target fs = b" for fs
      using True later [OF that] later [OF replacement_script(1,2)] by (auto simp: replacement_script)
    then show ?thesis using True by (subst d_loop.simps) (auto simp: replacement_script)
  next
    case False
    have dle: "int d \<le> int (length a) + int (length b)" using False by simp
    have len: "int (length v) = 2 * ?off + 1" using less.prems(1) by (simp add: round_start_def Let_def)
    then have "\<exists>s. slice v (?off - int d) (?off + int d + 1) = Some s"
      using False by (auto simp: slice_def)
    then obtain s where s: "slice v (?off - int d) (?off + int d + 1) = Some s" ..
    have tr: "trace_ok a b (trace @ [s])" using less.prems(2,3,1) s by (rule trace_ok_snoc)
    have "round_at a b d (- int d) v" using less.prems(1) by (auto simp: round_at_def diagonal_def)
    moreover have "diagonal d (- int d)" by (simp add: diagonal_def)
    ultimately obtain r v' where kl: "k_loop a b ?off (int d) (- int d) v = Some (r, v')"
      and res: "if r then \<exists>j. diagonal d j \<and> ended a b d j else round_at a b d (int d + 1) v'"
      using k_loop_round [of a b d "- int d" v] dle by blast
    have step: "d_loop a b ?off bound (int d) v trace = (if r then backtrack (trace @ [s]) a b
        else d_loop a b ?off bound (int (Suc d)) v' (trace @ [s]))"
      using False s kl by (subst d_loop.simps) (simp add: add.commute)
    show ?thesis
    proof (cases r)
      case True
      then obtain j where "diagonal d j" "ended a b d j" using res by auto
      then obtain es where "backtrack (trace @ [s]) a b = Some es" "source es = a" "target es = b" "changes es = d"
        using backtrack_spec [of a b "trace @ [s]" d j] tr less.prems(3,4) by auto
      then show ?thesis using step True later by auto
    next
      case no: False
      then have v': "round_at a b d (int d + 1) v'" using res by simp
      have "\<not> ended a b e j" if "e < Suc d" "diagonal e j" for e j
      proof (cases "e < d")
        case False
        then have "e = d" using that by simp
        then show ?thesis using v' that by (auto simp: round_at_def diagonal_def)
      qed (use less.prems(4) that in blast)
      moreover have "nat (?off - int (Suc d)) < nat (?off - int d)" using False by simp
      ultimately show ?thesis
        using less.hyps [of "Suc d" v' "trace @ [s]"] step no tr less.prems(3) round_start_next [OF v'] by simp
    qed
  qed
qed

lemma edits_spec:
  "\<exists>es. edits a b bound = Some es \<and> source es = a \<and> target es = b \<and>
    (\<forall>fs. source fs = a \<longrightarrow> target fs = b \<longrightarrow> changes es \<le> changes fs \<or> bound < int (changes fs))"
proof -
  have "round_start a b 0 (replicate (nat (2 * (int (length a) + int (length b) + 1) + 1)) 0)"
    by (simp add: round_start_def Let_def at_def)
  then show ?thesis
    using d_loop_spec [of a b 0 _ "[]" bound] by (simp add: edits_def Let_def trace_ok_def)
qed

section \<open>Lines and hunks\<close>

lemma split_after_nonempty: "split_after s \<noteq> []"
  by (induction s) (auto split: list.splits)

lemma concat_split_after: "concat (split_after s) = s"
  by (induction s) (auto simp: split_after_nonempty split: list.splits)

lemma concat_split_lines: "concat (split_lines s) = s"
proof (cases "s = [] \<or> last (split_after s) \<noteq> []")
  case True
  then show ?thesis by (auto simp: split_lines_def concat_split_after Let_def)
next
  case False
  have "split_after s = butlast (split_after s) @ [last (split_after s)]"
    by (simp add: split_after_nonempty)
  then have "concat (butlast (split_after s)) = s"
    using False concat_split_after [of s] by (metis append_Nil2 concat.simps concat_append)
  with False show ?thesis by (simp add: split_lines_def Let_def)
qed

text \<open>Every line but the last ends in its only newline.\<close>

lemma split_after_lines: "\<forall>l \<in> set (butlast (split_after s)). l \<noteq> [] \<and> last l = newline \<and> newline \<notin> set (butlast l)"
proof (induction s)
  case (Cons c s)
  then show ?case
    by (auto simp: split_after_nonempty split: list.splits)
qed simp

lemma changed_empty: "changed es = [] \<longleftrightarrow> changes es = 0"
proof -
  have "changed es = [] \<longleftrightarrow> (\<forall>k < length es. fst (es ! k) = Keep)"
    by (auto simp: changed_def filter_empty_conv)
  also have "\<dots> \<longleftrightarrow> (\<forall>e \<in> set es. fst e = Keep)" by (auto simp: all_set_conv_all_nth)
  finally show ?thesis by (auto simp: changes_def filter_empty_conv)
qed

lemma hunks_empty: "hunks es cs 0 = [] \<longleftrightarrow> cs = []"
  by (subst hunks.simps) (auto simp: Let_def hunk_def)

lemma no_changes_same: "changes es = 0 \<Longrightarrow> source es = target es"
proof (induction es)
  case (Cons e es)
  then show ?case by (cases e; cases "fst e") auto
qed simp

lemma keep_all: "source (map (\<lambda>l. (Keep, l)) a) = a" "target (map (\<lambda>l. (Keep, l)) a) = a"
    "changes (map (\<lambda>l. (Keep, l)) a) = 0"
  by (induction a) simp_all

section \<open>Properties\<close>

text \<open>C39. The search never indexes out of range and always returns a script that turns the first text
  into the second, and the script is a shortest one: no script with at most \<open>bound\<close> changes has
  fewer changes than it.\<close>

theorem edits_is_shortest_script:
  "\<exists>es. edits a b bound = Some es \<and> source es = a \<and> target es = b \<and>
    (\<forall>fs. source fs = a \<and> target fs = b \<longrightarrow> changes es \<le> changes fs \<or> bound < int (changes fs))"
  using edits_spec [of a b bound] by auto

text \<open>The diff of two texts is always written, and it is empty exactly when the texts are equal.\<close>

theorem unified_empty_iff_equal:
  "\<exists>d. unified a b = Some d \<and> (d = [] \<longleftrightarrow> a = b)"
proof -
  obtain es where es: "edits (split_lines a) (split_lines b) max_edits = Some es"
      "source es = split_lines a" "target es = split_lines b"
    and short: "\<And>fs. source fs = split_lines a \<Longrightarrow> target fs = split_lines b \<Longrightarrow>
      changes es \<le> changes fs \<or> max_edits < int (changes fs)"
    using edits_spec [of "split_lines a" "split_lines b" max_edits] by auto
  have "changes es = 0 \<longleftrightarrow> a = b"
  proof
    assume "changes es = 0"
    then have "split_lines a = split_lines b" using no_changes_same es by metis
    then show "a = b" using concat_split_lines by metis
  next
    assume "a = b"
    then show "changes es = 0"
      using short [of "map (\<lambda>l. (Keep, l)) (split_lines a)"] by (simp add: keep_all max_edits_def)
  qed
  then show ?thesis using es(1) by (auto simp: unified_def hunks_empty changed_empty)
qed

text \<open>Splitting keeps the text: the lines joined are the text again, and every line but possibly
  the last is non-empty and holds exactly one newline, at its end.\<close>

theorem split_lines_roundtrip:
  "concat (split_lines s) = s \<and>
    list_all (\<lambda>l. l \<noteq> [] \<and> last l = newline \<and> newline \<notin> set (butlast l)) (butlast (split_lines s))"
proof -
  have "set (butlast (split_lines s)) \<subseteq> set (butlast (split_after s))"
    by (auto simp: split_lines_def Let_def dest: in_set_butlastD)
  then show ?thesis using concat_split_lines split_after_lines by (auto simp: list_all_iff)
qed

section \<open>The properties at concrete texts\<close>

theorem edits_is_shortest_script_witness:
  "edits [''a'', ''b''] [''b'', ''c''] 2000 = Some [(Del, ''a''), (Keep, ''b''), (Ins, ''c'')] \<and>
    \<not> (\<exists>fs. source fs = [''a'', ''b''] \<and> target fs = [''b'', ''c''] \<and> changes fs < 2)"
proof -
  have e: "edits [''a'', ''b''] [''b'', ''c''] 2000 = Some [(Del, ''a''), (Keep, ''b''), (Ins, ''c'')]"
    by code_simp
  then show ?thesis
    using edits_is_shortest_script [of "[''a'', ''b'']" "[''b'', ''c'']" 2000] by fastforce
qed

end
