(* ===== verification/Ident.thy ===== *)
theory Ident
  imports BW_Prelude
begin

text \<open>
  The identifiers that leave the database (\<^verbatim>\<open>internal/id\<close>): a prefix of the table \<open>all_prefixes\<close>,
  an underscore and 128 bits in lower-case unpadded base32. \<open>new_id\<close> takes the sixteen random bytes
  as its argument; a panic is \<open>Inl\<close>. Base32 is modelled positionally: the bytes are one big-endian
  number, its characters the base-32 digits of that number shifted left to a whole number of digits.
  The main theorem is that \<open>parse_id\<close> accepts exactly the strings \<open>new_id\<close> can produce.
\<close>

section \<open>Positional notation\<close>

fun of_digits :: "nat \<Rightarrow> nat list \<Rightarrow> nat" where
  "of_digits b [] = 0"
| "of_digits b (d # ds) = d * b ^ length ds + of_digits b ds"

fun to_digits :: "nat \<Rightarrow> nat \<Rightarrow> nat \<Rightarrow> nat list" where
  "to_digits b 0 v = []"
| "to_digits b (Suc n) v = (v div b ^ n) mod b # to_digits b n v"

section \<open>Base32 without padding\<close>

type_synonym bytes = "8 word list"

definition alphabet :: string where
  "alphabet = ''abcdefghijklmnopqrstuvwxyz234567''"

definition index_of :: "char \<Rightarrow> nat option" where
  "index_of c = find (\<lambda>i. alphabet ! i = c) [0..<32]"

definition bytes_value :: "bytes \<Rightarrow> nat" where
  "bytes_value bs = of_digits 256 (map unat bs)"

definition encode32 :: "bytes \<Rightarrow> string" where
  "encode32 bs =
     (let n = 8 * length bs; c = (n + 4) div 5 in
      map (\<lambda>d. alphabet ! d) (to_digits 32 c (bytes_value bs * 2 ^ (5 * c - n))))"

text \<open>\<open>DecodeString\<close>: newlines are dropped first, a character outside the alphabet is an error, and a
  last quantum of 2, 4, 5 or 7 characters gives 1, 2, 3 or 4 bytes; one of another length gives none.\<close>

definition decoded_length :: "nat \<Rightarrow> nat" where
  "decoded_length c = 5 * (c div 8) +
     (let r = c mod 8 in if r = 2 then 1 else if r = 4 then 2 else if r = 5 then 3 else if r = 7 then 4 else 0)"

definition decode32 :: "string \<Rightarrow> bytes option" where
  "decode32 s =
     (let cs = filter (\<lambda>c. c \<noteq> CHR 10 \<and> c \<noteq> CHR 13) s in
      case those (map index_of cs) of
        None \<Rightarrow> None
      | Some ds \<Rightarrow>
          let n = decoded_length (length ds) in
          Some (map of_nat (to_digits 256 n (of_digits 32 ds div 2 ^ (5 * length ds - 8 * n)))))"

section \<open>Identifiers\<close>

definition all_prefixes :: "string list" where
  "all_prefixes = [''cl'', ''mch'', ''frg'', ''frv'', ''prf'', ''prv'', ''asg'', ''asr'', ''ibr'', ''drf'',
     ''rel'', ''ep'', ''req'', ''pln'', ''apr'', ''op'', ''att'', ''obs'', ''idn'', ''tok'', ''ing'', ''act'',
     ''dep'', ''dal'']"

definition all_copy :: "string list" where
  "all_copy = all_prefixes"

definition known :: "string \<Rightarrow> bool" where
  "known p \<longleftrightarrow> p \<in> set all_prefixes"

definition body_len :: nat where
  "body_len = 26"

datatype id_error = UnknownPrefix | BadLength | NotBase32 | WrongPrefix | Panic

definition new_id :: "string \<Rightarrow> bytes \<Rightarrow> (id_error, string) res" where
  "new_id p b = (if \<not> known p then Inl Panic else Inr (p @ ''_'' @ encode32 b))"

text \<open>\<open>strings.Cut\<close> at the first underscore.\<close>

fun cut :: "char \<Rightarrow> string \<Rightarrow> string \<times> string \<times> bool" where
  "cut c [] = ([], [], False)"
| "cut c (x # s) = (if x = c then ([], s, True) else (case cut c s of (p, r, ok) \<Rightarrow> (x # p, r, ok)))"

definition parse_id :: "string \<Rightarrow> (id_error, string) res" where
  "parse_id s =
     (case cut (CHR ''_'') s of (p, body, ok) \<Rightarrow>
        if \<not> ok \<or> \<not> known p then Inl UnknownPrefix
        else if length body \<noteq> body_len then Inl BadLength
        else (case decode32 body of
                None \<Rightarrow> Inl NotBase32
              | Some b \<Rightarrow> if length b \<noteq> 16 \<or> encode32 b \<noteq> body then Inl NotBase32 else Inr p))"

definition must_have :: "string \<Rightarrow> string \<Rightarrow> id_error option" where
  "must_have s want =
     (case parse_id s of Inl e \<Rightarrow> Some e | Inr got \<Rightarrow> if got \<noteq> want then Some WrongPrefix else None)"

section \<open>Positional notation\<close>

lemma of_digits_less: "(\<And>d. d \<in> set ds \<Longrightarrow> d < b) \<Longrightarrow> of_digits b ds < b ^ length ds"
proof (induction ds)
  case (Cons d ds)
  then have "of_digits b ds < b ^ length ds" and "d < b" by auto
  then have "d * b ^ length ds + of_digits b ds < (d + 1) * b ^ length ds" by simp
  also have "\<dots> \<le> b * b ^ length ds" using \<open>d < b\<close> by (intro mult_right_mono) auto
  finally show ?case by simp
qed simp

lemma length_to_digits [simp]: "length (to_digits b n v) = n"
  by (induction n) auto

lemma to_digits_less: "0 < b \<Longrightarrow> d \<in> set (to_digits b n v) \<Longrightarrow> d < b"
  by (induction n) auto

lemma to_digits_mod: "m \<le> n \<Longrightarrow> 0 < b \<Longrightarrow> to_digits b m (v + w * b ^ n) = to_digits b m v"
proof (induction m)
  case (Suc m)
  have "w * b ^ n = (w * b ^ (n - Suc m) * b) * b ^ m"
    using Suc.prems(1) by (metis (no_types, lifting) diff_Suc_diff_eq1 le_add_diff_inverse2 mult.assoc power_Suc power_add)
  then have "(v + w * b ^ n) div b ^ m = v div b ^ m + w * b ^ (n - Suc m) * b"
    using Suc.prems(2) by (simp only: div_mult_self1 [of "b ^ m" v]) simp
  with Suc show ?case by simp
qed simp

lemma to_of_digits: "(\<And>d. d \<in> set ds \<Longrightarrow> d < b) \<Longrightarrow> 0 < b \<Longrightarrow> to_digits b (length ds) (of_digits b ds) = ds"
proof (induction ds)
  case (Cons d ds)
  have less: "of_digits b ds < b ^ length ds" using Cons.prems by (intro of_digits_less) auto
  have "to_digits b (length ds) (of_digits b ds + d * b ^ length ds) = to_digits b (length ds) (of_digits b ds)"
    using Cons.prems by (intro to_digits_mod) auto
  with Cons less show ?case by (simp add: add.commute)
qed simp

lemma of_to_digits: "0 < b \<Longrightarrow> of_digits b (to_digits b n v) = v mod b ^ n"
proof (induction n)
  case (Suc n)
  have "v mod b ^ Suc n = v div b ^ n mod b * b ^ n + v mod b ^ n"
    by (metis mod_mult2_eq mult.commute power_Suc2 add.commute)
  with Suc show ?case by simp
qed simp

section \<open>Base32\<close>

lemma alphabet_facts: "length alphabet = 32" "distinct alphabet"
  by (simp_all add: alphabet_def)

lemma index_of_alphabet: "d < 32 \<Longrightarrow> index_of (alphabet ! d) = Some d"
  unfolding index_of_def
  by (rule find_Some_iff [THEN iffD2]) (use alphabet_facts in \<open>auto simp: nth_eq_iff_index_eq\<close>)

lemma alphabet_no_newline: "d < 32 \<Longrightarrow> alphabet ! d \<noteq> CHR 10 \<and> alphabet ! d \<noteq> CHR 13"
proof -
  assume "d < 32"
  then have "alphabet ! d \<in> set alphabet" using alphabet_facts by simp
  moreover have "CHR 10 \<notin> set alphabet" "CHR 13 \<notin> set alphabet" by (simp_all add: alphabet_def)
  ultimately show ?thesis by metis
qed

lemma those_index_of: "(\<And>d. d \<in> set ds \<Longrightarrow> d < 32) \<Longrightarrow> those (map index_of (map (\<lambda>d. alphabet ! d) ds)) = Some ds"
  by (induction ds) (auto simp: index_of_alphabet)

lemma decode32_chars:
  assumes "\<And>d. d \<in> set ds \<Longrightarrow> d < 32"
  shows "decode32 (map (\<lambda>d. alphabet ! d) ds) =
    Some (map of_nat (to_digits 256 (decoded_length (length ds))
      (of_digits 32 ds div 2 ^ (5 * length ds - 8 * decoded_length (length ds)))))"
proof -
  have "filter (\<lambda>c. c \<noteq> CHR 10 \<and> c \<noteq> CHR 13) (map (\<lambda>d. alphabet ! d) ds) = map (\<lambda>d. alphabet ! d) ds"
    using assms alphabet_no_newline by (auto simp: filter_id_conv)
  then show ?thesis using those_index_of [OF assms] by (simp add: decode32_def Let_def)
qed

text \<open>Decoding reverses encoding for any number of bytes.\<close>

lemma decoded_length_encoded: "decoded_length ((8 * n + 4) div 5) = n"
proof -
  obtain q r where n: "n = 5 * q + r" "r < 5"
    by (metis div_mult_mod_eq mult.commute mod_less_divisor zero_less_numeral)
  have "(8 * n + 4) div 5 = 8 * q + (8 * r + 4) div 5" using n by simp
  moreover have "r = 0 \<or> r = 1 \<or> r = 2 \<or> r = 3 \<or> r = 4" using n by auto
  ultimately show ?thesis using n by (auto simp: decoded_length_def Let_def)
qed

lemma unat_byte: "unat (w :: 8 word) < 256"
  using unsigned_less [of w] by simp

lemma decode_encode: "decode32 (encode32 bs) = Some bs"
proof -
  let ?n = "length bs" let ?c = "(8 * ?n + 4) div 5" let ?v = "bytes_value bs" let ?s = "5 * ?c - 8 * ?n"
  let ?ds = "to_digits 32 ?c (?v * 2 ^ ?s)"
  have b: "d < 256" if "d \<in> set (map unat bs)" for d using that unat_byte by auto
  have v: "?v < 256 ^ ?n"
    unfolding bytes_value_def using of_digits_less [of "map unat bs" 256, OF b] by simp
  have le: "8 * ?n \<le> 5 * ?c" by presburger
  have "?v * 2 ^ ?s < 256 ^ ?n * 2 ^ ?s" using v by simp
  also have "\<dots> = 2 ^ (8 * ?n) * 2 ^ ?s" by (simp add: power_mult)
  also have "\<dots> = 2 ^ (5 * ?c)" using le by (simp add: power_add [symmetric])
  also have "\<dots> = 32 ^ ?c" by (simp add: power_mult)
  finally have "of_digits 32 ?ds = ?v * 2 ^ ?s" by (simp add: of_to_digits)
  then have "decode32 (map (\<lambda>d. alphabet ! d) ?ds) = Some (map of_nat (to_digits 256 ?n ?v))"
    using decode32_chars [of ?ds] to_digits_less [of 32] by (simp add: decoded_length_encoded)
  moreover have "to_digits 256 ?n ?v = map unat bs"
    unfolding bytes_value_def using to_of_digits [of "map unat bs" 256, OF b] by simp
  ultimately show ?thesis by (simp add: encode32_def Let_def o_def)
qed

lemma length_encode32: "length (encode32 bs) = (8 * length bs + 4) div 5"
  by (simp add: encode32_def Let_def)

section \<open>Identifiers\<close>

lemma known_no_underscore: "known p \<Longrightarrow> CHR ''_'' \<notin> set p"
  by (auto simp: known_def all_prefixes_def)

lemma cut_append: "c \<notin> set p \<Longrightarrow> cut c (p @ c # r) = (p, r, True)"
  by (induction p) auto

lemma cut_True: "cut c s = (p, r, True) \<Longrightarrow> s = p @ c # r"
  by (induction s arbitrary: p) (auto split: if_splits prod.splits)

lemma parse_new:
  assumes "length b = 16" and "known p"
  shows "parse_id (p @ ''_'' @ encode32 b) = Inr p"
  using assms known_no_underscore [OF assms(2)]
  by (simp add: parse_id_def cut_append length_encode32 body_len_def decode_encode)

lemma parse_Inr:
  assumes "parse_id s = Inr p"
  obtains b where "length b = 16" and "known p" and "s = p @ ''_'' @ encode32 b"
  using assms by (auto simp: parse_id_def split: prod.splits if_splits option.splits dest!: cut_True)

section \<open>Properties\<close>

text \<open>C40. \<open>Parse\<close> accepts exactly the strings \<open>New\<close> can produce, and answers the prefix they were
  made with: the re-encoding refuses upper case, padding, newlines and non-zero trailing bits.\<close>

theorem parse_accepts_exactly_new:
  "parse_id s = Inr p \<longleftrightarrow> (\<exists>b. length b = 16 \<and> new_id p b = Inr s)"
proof
  assume "parse_id s = Inr p"
  then show "\<exists>b. length b = 16 \<and> new_id p b = Inr s"
    by (rule parse_Inr) (auto simp: new_id_def)
next
  assume "\<exists>b. length b = 16 \<and> new_id p b = Inr s"
  then show "parse_id s = Inr p"
    using parse_new by (auto simp: new_id_def split: if_splits)
qed

text \<open>Base32 round trip: decoding the encoding of any bytes gives them back, and the encoding of
  \<open>n\<close> bytes has \<open>\<lceil>8n/5\<rceil>\<close> characters.\<close>

theorem base32_roundtrip:
  "decode32 (encode32 bs) = Some bs \<and> length (encode32 bs) = (8 * length bs + 4) div 5"
  by (simp add: decode_encode length_encode32)

text \<open>Two identifiers are equal only if they were made with the same prefix from the same bytes,
  so an identifier names one kind of entity.\<close>

theorem identifiers_are_unique:
  assumes "new_id p b = Inr s" and "new_id q c = Inr s"
  shows "p = q \<and> b = c"
proof -
  have eq: "p @ CHR ''_'' # encode32 b = q @ CHR ''_'' # encode32 c" and k: "known p" "known q"
    using assms by (auto simp: new_id_def split: if_splits)
  then have "p = q \<and> encode32 b = encode32 c"
    using cut_append [OF known_no_underscore, of p] cut_append [OF known_no_underscore, of q] by (metis prod.inject)
  then show ?thesis using decode_encode by (metis option.inject)
qed

theorem identifiers_are_unique_witness:
  "new_id ''rel'' (replicate 16 7) \<noteq> new_id ''pln'' (replicate 16 7)"
proof
  assume eq: "new_id ''rel'' (replicate 16 7) = new_id ''pln'' (replicate 16 7)"
  have "known ''rel''" by (simp add: known_def all_prefixes_def)
  then obtain s where "new_id ''rel'' (replicate 16 7) = Inr s" by (simp add: new_id_def)
  then show False using identifiers_are_unique [of "''rel''" "replicate 16 7" s "''pln''" "replicate 16 7"] eq by simp
qed

end
