(* ===== verification/Node_Path.thy ===== *)
theory Node_Path
  imports BW_Prelude
begin

text \<open>
  Paths of nodes (\<^verbatim>\<open>internal/ingest/path.go\<close> and \<^verbatim>\<open>walk.go\<close>): the text form \<^verbatim>\<open>doc[n]/a/b|yaml/c\<close> of a
  path, its parser, the resolution of a pointer in a document and the walk over every node of a
  stream. Strings are bytes. A document is a tree of nodes by kind, an alias holding its anchored
  node (the parser refuses cyclic ones), or none.
\<close>

section \<open>Paths and their text\<close>

record path =
  pa_doc :: nat
  pa_pointer :: "string list"
  pa_format :: string
  pa_inner :: "string list"

definition max_doc :: nat where
  "max_doc = 1000000"

text \<open>\<^verbatim>\<open>strings.Cut\<close> at the first byte equal to \<open>c\<close>.\<close>

definition cut_at :: "char \<Rightarrow> string \<Rightarrow> string \<times> string option" where
  "cut_at c s = (takeWhile (\<lambda>x. x \<noteq> c) s, if c \<in> set s then Some (tl (dropWhile (\<lambda>x. x \<noteq> c) s)) else None)"

definition cut_prefix :: "string \<Rightarrow> string \<Rightarrow> string option" where
  "cut_prefix p s = (if take (length p) s = p then Some (drop (length p) s) else None)"

text \<open>\<^verbatim>\<open>strings.Split\<close> at every byte equal to \<open>c\<close>.\<close>

fun split_at :: "char \<Rightarrow> string \<Rightarrow> string list" where
  "split_at c [] = [[]]"
| "split_at c (x # xs) = (if x = c then [] # split_at c xs
     else case split_at c xs of [] \<Rightarrow> [[x]] | p # ps \<Rightarrow> (x # p) # ps)"

fun unescape :: "string \<Rightarrow> string option" where
  "unescape [] = Some []"
| "unescape (x # xs) =
     (if x \<noteq> CHR ''~'' then map_option ((#) x) (unescape xs)
      else case xs of
        [] \<Rightarrow> None
      | y # ys \<Rightarrow> if y = CHR ''0'' then map_option ((#) (CHR ''~'')) (unescape ys)
                  else if y = CHR ''1'' then map_option ((#) (CHR ''/'')) (unescape ys) else None)"

fun all_tokens :: "string list \<Rightarrow> string list option" where
  "all_tokens [] = Some []"
| "all_tokens (p # ps) = Option.bind (unescape p) (\<lambda>t. map_option ((#) t) (all_tokens ps))"

definition pointer_tokens :: "string \<Rightarrow> string list option" where
  "pointer_tokens s =
     (case s of [] \<Rightarrow> Some []
      | x # xs \<Rightarrow> if x \<noteq> CHR ''/'' then None else all_tokens (split_at (CHR ''/'') xs))"

definition parse_embedded :: "nat \<Rightarrow> string list \<Rightarrow> string \<Rightarrow> path option" where
  "parse_embedded doc ptr inner =
     (let (format, after) = cut_at (CHR ''/'') inner;
          inner_pointer = (if inner \<noteq> format then CHR ''/'' # (case after of Some r \<Rightarrow> r | None \<Rightarrow> []) else []) in
      if format \<noteq> ''yaml'' \<and> format \<noteq> ''json'' \<or> ptr = [] then None
      else map_option (\<lambda>ts. \<lparr>pa_doc = doc, pa_pointer = ptr, pa_format = format, pa_inner = ts\<rparr>) (pointer_tokens inner_pointer))"

text \<open>\<open>None\<close> is the refusal \<^verbatim>\<open>bad-path\<close>. An index \<^verbatim>\<open>Atoi\<close> cannot hold is beyond \<open>max_doc\<close>.\<close>

definition parse_path :: "string \<Rightarrow> path option" where
  "parse_path s =
     Option.bind (cut_prefix ''doc['' s) (\<lambda>rest0.
       case cut_at (CHR '']'') rest0 of
         (num, None) \<Rightarrow> None
       | (num, Some rest) \<Rightarrow>
           if \<not> decimal num \<or> dec_val num > max_doc then None
           else
             (case cut_at (CHR ''|'') rest of
                (outer, inner) \<Rightarrow>
                  Option.bind (pointer_tokens outer) (\<lambda>ptr.
                    case inner of
                      None \<Rightarrow> Some \<lparr>pa_doc = dec_val num, pa_pointer = ptr, pa_format = [], pa_inner = []\<rparr>
                    | Some i \<Rightarrow> parse_embedded (dec_val num) ptr i)))"

definition escape_char :: "char \<Rightarrow> string" where
  "escape_char c = (if c = CHR ''~'' then ''~0'' else if c = CHR ''/'' then ''~1'' else [c])"

definition write_pointer :: "string list \<Rightarrow> string" where
  "write_pointer ts = concat (map (\<lambda>t. CHR ''/'' # concat (map escape_char t)) ts)"

definition path_string :: "path \<Rightarrow> string" where
  "path_string p = ''doc['' @ dec_nat (pa_doc p) @ '']'' @ write_pointer (pa_pointer p) @
     (if pa_format p \<noteq> [] then ''|'' @ pa_format p @ write_pointer (pa_inner p) else [])"

definition child :: "string \<Rightarrow> path \<Rightarrow> path" where
  "child t p = (if pa_format p \<noteq> [] then p\<lparr>pa_inner := pa_inner p @ [t]\<rparr> else p\<lparr>pa_pointer := pa_pointer p @ [t]\<rparr>)"

section \<open>Nodes\<close>

datatype node =
    Scalar nat string string
  | Mapping nat "node list"
  | Sequence nat "node list"
  | Alias nat "node option"
  | Document nat "node list"

text \<open>Every node has its line first; a scalar then has its tag and its text.\<close>

fun line :: "node \<Rightarrow> nat" where
  "line (Scalar l _ _) = l"
| "line (Mapping l _) = l"
| "line (Sequence l _) = l"
| "line (Alias l _) = l"
| "line (Document l _) = l"

fun deref :: "node \<Rightarrow> node option" where
  "deref (Alias l None) = None"
| "deref (Alias l (Some n)) = deref n"
| "deref n = Some n"

fun root :: "node \<Rightarrow> node option" where
  "root (Document l []) = None"
| "root (Document l (n # ns)) = Some n"
| "root n = Some n"

text \<open>The pairs of a mapping's content; an odd last node is dropped, as the loops drop it.\<close>

fun pairs :: "node list \<Rightarrow> (node \<times> node) list" where
  "pairs (k # v # ns) = (k, v) # pairs ns"
| "pairs _ = []"

definition scalar_key :: "node \<Rightarrow> string option" where
  "scalar_key k = (case deref k of Some (Scalar _ _ v) \<Rightarrow> Some v | _ \<Rightarrow> None)"

definition mapping_value :: "node list \<Rightarrow> string \<Rightarrow> node option" where
  "mapping_value ns key = map_option snd (List.find (\<lambda>(k, v). scalar_key k = Some key) (pairs ns))"

text \<open>\<^verbatim>\<open>Atoi\<close> fails beyond an int.\<close>

definition atoi :: "string \<Rightarrow> nat option" where
  "atoi s = (if dec_val s < 2 ^ 63 then Some (dec_val s) else None)"

fun resolve_in :: "node option \<Rightarrow> string list \<Rightarrow> node option" where
  "resolve_in n [] = Option.bind n deref"
| "resolve_in n (t # ts) =
     (case Option.bind n deref of
        Some (Mapping _ ns) \<Rightarrow> (case mapping_value ns t of None \<Rightarrow> None | Some c \<Rightarrow> resolve_in (Some c) ts)
      | Some (Sequence _ ns) \<Rightarrow>
          if \<not> decimal t then None
          else (case atoi t of None \<Rightarrow> None | Some i \<Rightarrow> if i \<ge> length ns then None else resolve_in (Some (ns ! i)) ts)
      | _ \<Rightarrow> None)"

definition resolve :: "node list \<Rightarrow> nat \<Rightarrow> string list \<Rightarrow> node option" where
  "resolve docs doc ptr = (if doc \<ge> length docs then None else resolve_in (root (docs ! doc)) ptr)"

definition key_token :: "node \<Rightarrow> string" where
  "key_token k = (case deref k of Some (Scalar _ _ v) \<Rightarrow> v | _ \<Rightarrow> [])"

section \<open>The walk\<close>

text \<open>One visit: the node, its path, whether it is a key, and the node that holds it. A visit may end
  the walk with its error.\<close>

type_synonym ('e, 's) visit = "node \<Rightarrow> path \<Rightarrow> bool \<Rightarrow> node option \<Rightarrow> 's \<Rightarrow> ('e, 's) res"

definition seq_res :: "('s \<Rightarrow> ('e, 's) res) \<Rightarrow> ('s \<Rightarrow> ('e, 's) res) \<Rightarrow> 's \<Rightarrow> ('e, 's) res" where
  "seq_res f g s = (case f s of Inl e \<Rightarrow> Inl e | Inr s' \<Rightarrow> g s')"

fun walk_node :: "('e, 's) visit \<Rightarrow> node \<Rightarrow> path \<Rightarrow> bool \<Rightarrow> node option \<Rightarrow> 's \<Rightarrow> ('e, 's) res"
  and walk_pairs :: "('e, 's) visit \<Rightarrow> node list \<Rightarrow> path \<Rightarrow> node \<Rightarrow> 's \<Rightarrow> ('e, 's) res"
  and walk_items :: "('e, 's) visit \<Rightarrow> nat \<Rightarrow> node list \<Rightarrow> path \<Rightarrow> node \<Rightarrow> 's \<Rightarrow> ('e, 's) res" where
  "walk_node f n p key parent =
     seq_res (f n p key parent)
       (case n of Mapping _ ns \<Rightarrow> walk_pairs f ns p n | Sequence _ ns \<Rightarrow> walk_items f 0 ns p n | _ \<Rightarrow> Inr)"
| "walk_pairs f (k # v # ns) p m =
     seq_res (walk_node f k p True (Some m)) (seq_res (walk_node f v (child (key_token k) p) False (Some m)) (walk_pairs f ns p m))"
| "walk_pairs f _ p m = Inr"
| "walk_items f i (c # cs) p m =
     seq_res (walk_node f c (child (dec_nat i) p) False (Some m)) (walk_items f (Suc i) cs p m)"
| "walk_items f i [] p m = Inr"

fun walk_docs :: "('e, 's) visit \<Rightarrow> nat \<Rightarrow> node list \<Rightarrow> 's \<Rightarrow> ('e, 's) res" where
  "walk_docs f i [] = Inr"
| "walk_docs f i (d # ds) =
     (case root d of None \<Rightarrow> walk_docs f (Suc i) ds
      | Some n \<Rightarrow> seq_res (walk_node f n \<lparr>pa_doc = i, pa_pointer = [], pa_format = [], pa_inner = []\<rparr> False None)
                           (walk_docs f (Suc i) ds))"

definition walk_stream :: "('e, 's) visit \<Rightarrow> node list \<Rightarrow> 's \<Rightarrow> ('e, 's) res" where
  "walk_stream f docs = walk_docs f 0 docs"

definition walk_embedded :: "('e, 's) visit \<Rightarrow> node \<Rightarrow> path \<Rightarrow> string \<Rightarrow> 's \<Rightarrow> ('e, 's) res" where
  "walk_embedded f doc outer format =
     (case root doc of None \<Rightarrow> Inr
      | Some n \<Rightarrow> walk_node f n \<lparr>pa_doc = pa_doc outer, pa_pointer = pa_pointer outer, pa_format = format, pa_inner = []\<rparr> False None)"

section \<open>The parser's refusals\<close>

text \<open>The decoder is an argument: the documents it decodes of the bytes, in order, with what stops it.
  An alias inside the node it names, which \<^verbatim>\<open>cyclicAlias\<close> refuses with its line, has no tree: it is
  an outcome of its own. The line is 0 when there is nothing to refuse, as in the code.\<close>

datatype decoded = Decoded node | Cyclic nat | Broken string

datatype parse_error = Empty_Input | Parse_Line string | Parse_Refused | No_Document

fun bad_keys :: "string set \<Rightarrow> node list \<Rightarrow> nat" where
  "bad_keys seen (k # v # ns) =
     (case deref k of
        Some (Scalar _ _ key) \<Rightarrow> if key \<in> seen then line k else bad_keys (insert key seen) ns
      | _ \<Rightarrow> line k)"
| "bad_keys seen _ = 0"

fun first_line :: "nat list \<Rightarrow> nat" where
  "first_line [] = 0"
| "first_line (l # ls) = (if l \<noteq> 0 then l else first_line ls)"

fun bad_key :: "node \<Rightarrow> nat" where
  "bad_key (Mapping l ns) = first_line (bad_keys {} ns # map bad_key ns)"
| "bad_key (Sequence l ns) = first_line (map bad_key ns)"
| "bad_key (Document l ns) = first_line (map bad_key ns)"
| "bad_key (Scalar l t v) = 0"
| "bad_key (Alias l n) = 0"

text \<open>Only a scalar has a text, and \<open>bad_key\<close> has refused every key that is not one.\<close>

fun pipe_keys :: "node list \<Rightarrow> nat" where
  "pipe_keys [] = 0"
| "pipe_keys (k # ns) =
     (case deref k of
        Some (Scalar _ tag key) \<Rightarrow> if CHR ''|'' \<in> set key \<or> tag = ''!!binary'' then line k else pipe_keys (tl ns)
      | _ \<Rightarrow> pipe_keys (tl ns))"

fun pipe_key :: "node \<Rightarrow> nat" where
  "pipe_key (Mapping l ns) = first_line (pipe_keys ns # map pipe_key ns)"
| "pipe_key (Sequence l ns) = first_line (map pipe_key ns)"
| "pipe_key (Document l ns) = first_line (map pipe_key ns)"
| "pipe_key (Scalar l t v) = 0"
| "pipe_key (Alias l n) = 0"

text \<open>The first \<^verbatim>\<open>line N\<close> of the decoder's message, by a regular expression, is an argument.\<close>

definition parse_refusal :: "(string \<Rightarrow> string option) \<Rightarrow> string \<Rightarrow> parse_error" where
  "parse_refusal yaml_line msg = (case yaml_line msg of Some l \<Rightarrow> Parse_Line l | None \<Rightarrow> Parse_Refused)"

fun parse_docs :: "(string \<Rightarrow> string option) \<Rightarrow> decoded list \<Rightarrow> node list \<Rightarrow> (parse_error, node list) res" where
  "parse_docs yl [] docs = (if docs = [] then Inl No_Document else Inr docs)"
| "parse_docs yl (Broken msg # ds) docs = Inl (parse_refusal yl msg)"
| "parse_docs yl (Cyclic l # ds) docs = Inl (Parse_Line (dec_nat l))"
| "parse_docs yl (Decoded n # ds) docs =
     (if bad_key n \<noteq> 0 then Inl (Parse_Line (dec_nat (bad_key n))) else parse_docs yl ds (docs @ [n]))"

definition parse_stream :: "(string \<Rightarrow> decoded list) \<Rightarrow> (string \<Rightarrow> string option) \<Rightarrow> string \<Rightarrow> (parse_error, node list) res" where
  "parse_stream decode yl b = parse_docs yl (decode b) []"

definition parse :: "(string \<Rightarrow> decoded list) \<Rightarrow> (string \<Rightarrow> string option) \<Rightarrow> string \<Rightarrow> (parse_error, node list) res" where
  "parse decode yl b =
     (if b = [] then Inl Empty_Input
      else case parse_stream decode yl b of
        Inl e \<Rightarrow> Inl e
      | Inr docs \<Rightarrow>
          (let l = first_line (map pipe_key docs) in
           if l \<noteq> 0 then Inl (Parse_Line (dec_nat l)) else Inr docs))"

section \<open>Text and tokens\<close>

lemma cut_at_iff:
  "cut_at c s = (a, Some b) \<longleftrightarrow> c \<notin> set a \<and> s = a @ c # b"
  "cut_at c s = (a, None) \<longleftrightarrow> c \<notin> set a \<and> s = a"
proof -
  have split: "s = takeWhile (\<lambda>x. x \<noteq> c) s @ c # tl (dropWhile (\<lambda>x. x \<noteq> c) s)" if "c \<in> set s"
  proof -
    have ne: "dropWhile (\<lambda>x. x \<noteq> c) s \<noteq> []" using that by (auto simp: dropWhile_eq_Nil_conv)
    then have "hd (dropWhile (\<lambda>x. x \<noteq> c) s) = c" using hd_dropWhile [of "\<lambda>x. x \<noteq> c" s] by simp
    then show ?thesis using ne by (metis list.collapse takeWhile_dropWhile_id)
  qed
  have tw: "c \<notin> set (takeWhile (\<lambda>x. x \<noteq> c) s)" by (auto dest: set_takeWhileD)
  show "cut_at c s = (a, Some b) \<longleftrightarrow> c \<notin> set a \<and> s = a @ c # b"
  proof
    assume "cut_at c s = (a, Some b)"
    then show "c \<notin> set a \<and> s = a @ c # b" using split tw by (auto simp: cut_at_def split: if_split_asm)
  next
    assume "c \<notin> set a \<and> s = a @ c # b"
    moreover have "takeWhile (\<lambda>x. x \<noteq> c) (a @ c # b) = a" "dropWhile (\<lambda>x. x \<noteq> c) (a @ c # b) = c # b" if "c \<notin> set a"
      using that by (induction a) auto
    ultimately show "cut_at c s = (a, Some b)" by (simp add: cut_at_def)
  qed
  have "cut_at c s = (s, None)" if "c \<notin> set s"
    unfolding cut_at_def using that by (auto simp: takeWhile_eq_all_conv)
  moreover have "cut_at c s \<noteq> (a, None)" if "c \<in> set s" using that by (simp add: cut_at_def)
  ultimately show "cut_at c s = (a, None) \<longleftrightarrow> c \<notin> set a \<and> s = a" by (cases "c \<in> set s") auto
qed

lemma cut_prefix_iff: "cut_prefix p s = Some r \<longleftrightarrow> s = p @ r"
  by (auto simp: cut_prefix_def) (metis append_take_drop_id)

abbreviation escape :: "string \<Rightarrow> string" where
  "escape t \<equiv> concat (map escape_char t)"

lemma unescape_iff: "CHR ''/'' \<notin> set s \<Longrightarrow> unescape s = Some t \<longleftrightarrow> s = escape t"
proof (induction s arbitrary: t rule: unescape.induct)
  case 1
  show ?case by (cases t) (auto simp: escape_char_def)
next
  case (2 x xs)
  show ?case
  proof (cases "x = CHR ''~''")
    case False
    then show ?thesis using 2(1) 2(4) by (cases t) (auto simp: escape_char_def)
  next
    case True
    then show ?thesis using 2(2,3) 2(4) by (cases t; cases xs) (auto simp: escape_char_def)
  qed
qed

lemma escape_no_slash: "CHR ''/'' \<notin> set (escape t)"
  by (auto simp: escape_char_def split: if_split_asm)

lemma escape_bar: "CHR ''|'' \<in> set (escape t) \<longleftrightarrow> CHR ''|'' \<in> set t"
  by (auto simp: escape_char_def)

lemma split_at_nonempty: "split_at c xs \<noteq> []"
  by (cases xs) (auto split: list.split)

lemma split_at_joined: "concat (map ((#) c) (split_at c xs)) = c # xs"
proof (induction xs)
  case (Cons x xs)
  then show ?case by (cases "split_at c xs") (auto simp: split_at_nonempty)
qed simp

lemma split_at_prefix: "c \<notin> set p \<Longrightarrow> split_at c (p @ c # xs) = p # split_at c xs"
  by (induction p) auto

lemma split_at_single: "c \<notin> set p \<Longrightarrow> split_at c p = [p]"
  by (induction p) auto

lemma split_joined:
  assumes "\<forall>p \<in> set ps. c \<notin> set p" and "concat (map ((#) c) ps) = c # xs"
  shows "split_at c xs = ps"
  using assms
proof (induction ps arbitrary: xs)
  case (Cons p ps)
  show ?case
  proof (cases ps)
    case Nil
    then show ?thesis using Cons.prems by (simp add: split_at_single)
  next
    case (Cons q qs)
    then obtain ys where ys: "concat (map ((#) c) ps) = c # ys" by simp
    then have "xs = p @ c # ys" using Cons.prems(2) by simp
    moreover have "split_at c ys = ps" using Cons.IH Cons.prems(1) ys by simp
    ultimately show ?thesis using Cons.prems(1) by (simp add: split_at_prefix)
  qed
qed simp

lemma split_at_parts: "p \<in> set (split_at c xs) \<Longrightarrow> c \<notin> set p"
proof (induction xs arbitrary: p)
  case (Cons x xs)
  then show ?case by (cases "split_at c xs") (auto split: if_split_asm)
qed simp

lemma all_tokens_iff: "\<forall>p \<in> set ps. CHR ''/'' \<notin> set p \<Longrightarrow> all_tokens ps = Some ts \<longleftrightarrow> ps = map escape ts"
proof (induction ps arbitrary: ts)
  case (Cons p ps)
  show ?case
  proof (cases ts)
    case Nil
    then show ?thesis by (auto simp: bind_eq_Some_conv)
  next
    case (Cons t ts')
    then show ?thesis using Cons.IH Cons.prems by (auto simp: bind_eq_Some_conv unescape_iff)
  qed
qed auto

lemma write_pointer_escape: "write_pointer ts = concat (map ((#) (CHR ''/'')) (map escape ts))"
  by (simp add: write_pointer_def o_def)

lemma pointer_tokens_iff: "pointer_tokens s = Some ts \<longleftrightarrow> s = write_pointer ts"
proof
  assume "pointer_tokens s = Some ts"
  then show "s = write_pointer ts"
  proof (cases s)
    case (Cons x xs)
    then have "x = CHR ''/''" "split_at x xs = map escape ts"
      using \<open>pointer_tokens s = Some ts\<close> split_at_parts
      by (auto simp: pointer_tokens_def all_tokens_iff split: if_split_asm)
    then show ?thesis using split_at_joined [of x xs] by (simp add: Cons write_pointer_escape)
  qed (simp add: pointer_tokens_def write_pointer_def)
next
  assume s: "s = write_pointer ts"
  show "pointer_tokens s = Some ts"
  proof (cases ts)
    case Nil
    then show ?thesis by (simp add: s write_pointer_def pointer_tokens_def)
  next
    case (Cons t ts')
    then obtain xs where xs: "s = CHR ''/'' # xs" by (simp add: s write_pointer_def)
    have "split_at (CHR ''/'') xs = map escape ts"
      by (rule split_joined) (use escape_no_slash xs s in \<open>auto simp: write_pointer_escape\<close>)
    moreover have "\<forall>p \<in> set (map escape ts). CHR ''/'' \<notin> set p" using escape_no_slash by auto
    ultimately show ?thesis by (simp add: xs pointer_tokens_def all_tokens_iff del: map_map set_map)
  qed
qed

lemma write_pointer_bar: "CHR ''|'' \<in> set (write_pointer ts) \<longleftrightarrow> (\<exists>t \<in> set ts. CHR ''|'' \<in> set t)"
  using escape_bar by (auto simp: write_pointer_def)

section \<open>The text of a path\<close>

definition path_ok :: "path \<Rightarrow> bool" where
  "path_ok p \<longleftrightarrow> pa_doc p \<le> max_doc \<and> (\<forall>t \<in> set (pa_pointer p). CHR ''|'' \<notin> set t) \<and>
     pa_format p \<in> {[], ''yaml'', ''json''} \<and> (pa_format p = [] \<longrightarrow> pa_inner p = []) \<and>
     (pa_format p \<noteq> [] \<longrightarrow> pa_pointer p \<noteq> [])"

lemma write_pointer_cases: "write_pointer ts = [] \<or> (\<exists>r. write_pointer ts = CHR ''/'' # r)"
  by (cases ts) (auto simp: write_pointer_def)

lemma parse_embedded_iff:
  "parse_embedded d ptr s = Some p \<longleftrightarrow>
     pa_doc p = d \<and> pa_pointer p = ptr \<and> ptr \<noteq> [] \<and> pa_format p \<in> {''yaml'', ''json''} \<and>
     s = pa_format p @ write_pointer (pa_inner p)"
  (is "?l \<longleftrightarrow> ?r")
proof
  assume l: ?l
  obtain a after where c: "cut_at (CHR ''/'') s = (a, after)" by (cases "cut_at (CHR ''/'') s")
  show ?r
  proof (cases after)
    case None
    then have "s = a" using c by (simp add: cut_at_iff)
    then show ?thesis using c l None
      by (auto simp: parse_embedded_def pointer_tokens_iff write_pointer_def split: if_split_asm)
  next
    case (Some b)
    then have "s = a @ CHR ''/'' # b" using c by (simp add: cut_at_iff)
    then show ?thesis using c l Some
      by (auto simp: parse_embedded_def pointer_tokens_iff split: if_split_asm)
  qed
next
  assume r: ?r
  then have no: "CHR ''/'' \<notin> set (pa_format p)" by auto
  show ?l
  proof (cases "write_pointer (pa_inner p) = []")
    case True
    then have "cut_at (CHR ''/'') s = (pa_format p, None)" using r no by (simp add: cut_at_iff)
    moreover have "pointer_tokens [] = Some (pa_inner p)" using True by (simp add: pointer_tokens_iff)
    ultimately show ?thesis using r True by (auto simp: parse_embedded_def)
  next
    case False
    then obtain b where b: "write_pointer (pa_inner p) = CHR ''/'' # b" using write_pointer_cases by blast
    then have "cut_at (CHR ''/'') s = (pa_format p, Some b)" using r no by (simp add: cut_at_iff)
    moreover have "pointer_tokens (CHR ''/'' # b) = Some (pa_inner p)" using b by (simp add: pointer_tokens_iff)
    ultimately show ?thesis using r b by (auto simp: parse_embedded_def)
  qed
qed

lemma dec_nat_no_bracket: "CHR '']'' \<notin> set (dec_nat n)"
  using dec_nat_digits [of n] by (auto simp: list_all_iff digit_def)

lemma parse_path_parts:
  "parse_path s = Some p \<longleftrightarrow>
     pa_doc p \<le> max_doc \<and>
     (\<exists>outer inner ptr. s = ''doc['' @ dec_nat (pa_doc p) @ '']'' @ outer @ inner \<and> CHR ''|'' \<notin> set outer \<and>
        outer = write_pointer ptr \<and> pa_pointer p = ptr \<and>
        (inner = [] \<and> pa_format p = [] \<and> pa_inner p = [] \<or>
         (\<exists>i. inner = CHR ''|'' # i \<and> parse_embedded (pa_doc p) ptr i = Some p)))"
  (is "?l \<longleftrightarrow> ?r")
proof
  assume l: ?l
  then obtain rest0 where r0: "cut_prefix ''doc['' s = Some rest0"
    by (cases "cut_prefix ''doc['' s") (auto simp: parse_path_def)
  obtain num m where m: "cut_at (CHR '']'') rest0 = (num, m)" by (cases "cut_at (CHR '']'') rest0")
  then obtain rest where c: "cut_at (CHR '']'') rest0 = (num, Some rest)"
    using l r0 by (cases m) (auto simp: parse_path_def)
  obtain outer inner where o: "cut_at (CHR ''|'') rest = (outer, inner)" by (cases "cut_at (CHR ''|'') rest")
  from l r0 c o have dec: "decimal num" "dec_val num \<le> max_doc"
    by (auto simp: parse_path_def split: if_split_asm)
  from l r0 c o dec obtain ptr where ptr: "pointer_tokens outer = Some ptr"
    and p: "(case inner of None \<Rightarrow> Some \<lparr>pa_doc = dec_val num, pa_pointer = ptr, pa_format = [], pa_inner = []\<rparr>
             | Some i \<Rightarrow> parse_embedded (dec_val num) ptr i) = Some p"
    by (auto simp: parse_path_def bind_eq_Some_conv)
  have "pa_doc p = dec_val num" "pa_pointer p = ptr"
    using p by (auto simp: parse_embedded_iff split: option.split_asm)
  moreover have "inner = None \<Longrightarrow> pa_format p = [] \<and> pa_inner p = []" using p by (cases p) simp
  ultimately show ?r using r0 c o dec ptr p
    by (cases inner) (auto simp: cut_prefix_iff cut_at_iff pointer_tokens_iff dec_nat_dec_val parse_embedded_iff)
next
  assume ?r
  then obtain outer inner where s: "s = ''doc['' @ dec_nat (pa_doc p) @ '']'' @ outer @ inner"
    and le: "pa_doc p \<le> max_doc" and o: "CHR ''|'' \<notin> set outer" "pointer_tokens outer = Some (pa_pointer p)"
    and i: "inner = [] \<and> pa_format p = [] \<and> pa_inner p = [] \<or>
         (\<exists>i. inner = CHR ''|'' # i \<and> parse_embedded (pa_doc p) (pa_pointer p) i = Some p)"
    by (auto simp: pointer_tokens_iff)
  have c: "cut_prefix ''doc['' s = Some (dec_nat (pa_doc p) @ '']'' @ outer @ inner)"
    by (simp add: cut_prefix_iff s)
  have d: "cut_at (CHR '']'') (dec_nat (pa_doc p) @ '']'' @ outer @ inner) = (dec_nat (pa_doc p), Some (outer @ inner))"
    using dec_nat_no_bracket by (simp add: cut_at_iff)
  show ?l
  proof (cases "inner = []")
    case True
    then have "cut_at (CHR ''|'') (outer @ inner) = (outer, None)" using o by (simp add: cut_at_iff)
    then show ?thesis using c d o le i True
      by (auto simp: parse_path_def decimal_dec_nat dec_val_dec_nat)
  next
    case False
    then obtain j where j: "inner = CHR ''|'' # j" "parse_embedded (pa_doc p) (pa_pointer p) j = Some p" using i by auto
    then have "cut_at (CHR ''|'') (outer @ inner) = (outer, Some j)" using o by (simp add: cut_at_iff)
    then show ?thesis using c d o le j
      by (auto simp: parse_path_def decimal_dec_nat dec_val_dec_nat)
  qed
qed

lemma parse_path_iff: "parse_path s = Some p \<longleftrightarrow> path_ok p \<and> path_string p = s"
proof
  assume "parse_path s = Some p"
  then show "path_ok p \<and> path_string p = s"
    unfolding parse_path_parts using write_pointer_bar
    by (auto simp: path_ok_def path_string_def parse_embedded_iff)
next
  assume p: "path_ok p \<and> path_string p = s"
  let ?i = "if pa_format p \<noteq> [] then ''|'' @ pa_format p @ write_pointer (pa_inner p) else []"
  have "s = ''doc['' @ dec_nat (pa_doc p) @ '']'' @ write_pointer (pa_pointer p) @ ?i"
    using p by (simp add: path_string_def)
  moreover have "CHR ''|'' \<notin> set (write_pointer (pa_pointer p))"
    using p write_pointer_bar by (auto simp: path_ok_def)
  ultimately show "parse_path s = Some p"
    unfolding parse_path_parts using p by (auto simp: path_ok_def parse_embedded_iff)
qed

section \<open>What the walk visits\<close>

type_synonym visited = "node \<times> path \<times> bool \<times> node option"

text \<open>The visits of a walk as a list, in order, and their run.\<close>

fun visits :: "node \<Rightarrow> path \<Rightarrow> bool \<Rightarrow> node option \<Rightarrow> visited list"
  and visits_pairs :: "node list \<Rightarrow> path \<Rightarrow> node \<Rightarrow> visited list"
  and visits_items :: "nat \<Rightarrow> node list \<Rightarrow> path \<Rightarrow> node \<Rightarrow> visited list" where
  "visits n p key parent = (n, p, key, parent) #
     (case n of Mapping _ ns \<Rightarrow> visits_pairs ns p n | Sequence _ ns \<Rightarrow> visits_items 0 ns p n | _ \<Rightarrow> [])"
| "visits_pairs (k # v # ns) p m =
     visits k p True (Some m) @ visits v (child (key_token k) p) False (Some m) @ visits_pairs ns p m"
| "visits_pairs _ p m = []"
| "visits_items i (c # cs) p m = visits c (child (dec_nat i) p) False (Some m) @ visits_items (Suc i) cs p m"
| "visits_items i [] p m = []"

declare visits.simps [simp del]

fun visits_docs :: "nat \<Rightarrow> node list \<Rightarrow> visited list" where
  "visits_docs i [] = []"
| "visits_docs i (d # ds) =
     (case root d of None \<Rightarrow> [] | Some n \<Rightarrow> visits n \<lparr>pa_doc = i, pa_pointer = [], pa_format = [], pa_inner = []\<rparr> False None)
     @ visits_docs (Suc i) ds"

primrec run_visits :: "('e, 's) visit \<Rightarrow> visited list \<Rightarrow> 's \<Rightarrow> ('e, 's) res" where
  "run_visits f [] = Inr"
| "run_visits f (v # vs) = seq_res (case v of (n, p, key, parent) \<Rightarrow> f n p key parent) (run_visits f vs)"

lemma seq_res_Inr [simp]: "seq_res f Inr = f" "seq_res Inr g = g"
  by (auto simp: seq_res_def fun_eq_iff split: sum.split)

lemma seq_res_assoc: "seq_res (seq_res f g) h = seq_res f (seq_res g h)"
  by (auto simp: seq_res_def fun_eq_iff split: sum.split)

lemma run_visits_append: "run_visits f (vs @ ws) = seq_res (run_visits f vs) (run_visits f ws)"
  by (induction vs) (auto simp: seq_res_assoc)

lemma walk_node_runs:
  "walk_node f n p key parent = run_visits f (visits n p key parent)"
  "walk_pairs f ns p m = run_visits f (visits_pairs ns p m)"
  "walk_items f i ns p m = run_visits f (visits_items i ns p m)"
proof (induction f n p key parent and f ns p m and f i ns p m rule: walk_node_walk_pairs_walk_items.induct)
  case (1 f n p key parent)
  then show ?case by (cases n) (simp_all add: visits.simps)
qed (simp_all add: run_visits_append del: walk_node.simps)

lemma walk_docs_runs: "walk_docs f i docs = run_visits f (visits_docs i docs)"
  by (induction f i docs rule: walk_docs.induct)
     (auto simp: walk_node_runs run_visits_append simp del: walk_node.simps split: option.split)

section \<open>Every value has a path of its own\<close>

text \<open>What the decoder promises of a tree: lines are counted from 1 and a sequence is indexed by an int.\<close>

fun decodable :: "node \<Rightarrow> bool" where
  "decodable (Scalar l t v) \<longleftrightarrow> l \<noteq> 0"
| "decodable (Mapping l ns) \<longleftrightarrow> l \<noteq> 0 \<and> list_all decodable ns"
| "decodable (Sequence l ns) \<longleftrightarrow> l \<noteq> 0 \<and> length ns < 2 ^ 63 \<and> list_all decodable ns"
| "decodable (Alias l n) \<longleftrightarrow> l \<noteq> 0"
| "decodable (Document l ns) \<longleftrightarrow> l \<noteq> 0 \<and> list_all decodable ns"

definition accepted :: "node \<Rightarrow> bool" where
  "accepted n \<longleftrightarrow> decodable n \<and> bad_key n = 0 \<and> pipe_key n = 0"

lemma first_line_zero: "first_line ls = 0 \<longleftrightarrow> (\<forall>l \<in> set ls. l = 0)"
  by (induction ls) auto

lemma decodable_line: "decodable n \<Longrightarrow> line n \<noteq> 0"
  by (cases n) auto

lemma accepted_content:
  "accepted (Mapping l ns) \<Longrightarrow> bad_keys {} ns = 0 \<and> pipe_keys ns = 0 \<and> list_all accepted ns"
  "accepted (Sequence l ns) \<Longrightarrow> length ns < 2 ^ 63 \<and> list_all accepted ns"
  "accepted (Document l ns) \<Longrightarrow> list_all accepted ns"
  by (auto simp: accepted_def first_line_zero list_all_iff split: if_split_asm)

lemma scalar_key_leaf:
  assumes "deref k = Some (Scalar l t v)"
  shows "visits k p key parent = [(k, p, key, parent)]" "scalar_key k = Some v" "key_token k = v"
  using assms by (cases k; auto simp: visits.simps scalar_key_def key_token_def)+

text \<open>A checked mapping's first pair: its key is a scalar no earlier key equals and holds no bar.\<close>

lemma checked_pair:
  assumes "bad_keys seen (k # v # ns) = 0" and "pipe_keys (k # v # ns) = 0" and "accepted k"
  obtains l t key where "deref k = Some (Scalar l t key)" "key \<notin> seen" "CHR ''|'' \<notin> set key"
    "bad_keys (insert key seen) ns = 0" "pipe_keys ns = 0"
proof -
  have "line k \<noteq> 0" using assms(3) by (simp add: accepted_def decodable_line)
  with assms(1,2) that show ?thesis by (auto split: option.split_asm node.split_asm if_split_asm)
qed

lemma mapping_value_pair:
  assumes "deref k = Some (Scalar l t key)"
  shows "mapping_value (k # v # ns) x = (if x = key then Some v else mapping_value ns x)"
  using scalar_key_leaf(2) [OF assms] by (auto simp: mapping_value_def)

lemma bad_keys_fresh:
  "bad_keys seen ns = 0 \<Longrightarrow> list_all decodable ns \<Longrightarrow> mapping_value ns x = Some v \<Longrightarrow> x \<notin> seen"
proof (induction seen ns rule: bad_keys.induct)
  case (1 seen k w ns)
  then have "line k \<noteq> 0" by (simp add: decodable_line)
  with 1(2) obtain l t key where k: "deref k = Some (Scalar l t key)" "key \<notin> seen" "bad_keys (insert key seen) ns = 0"
    by (auto split: option.split_asm node.split_asm if_split_asm)
  show ?case
    using 1(1) [OF k(1) refl k(2,3)] 1(3,4) k(2) by (auto simp: mapping_value_pair [OF k(1)] split: if_split_asm)
qed (auto simp: mapping_value_def)

abbreviation descend :: "path \<Rightarrow> string list \<Rightarrow> path" where
  "descend p ts \<equiv> foldl (\<lambda>p t. child t p) p ts"

definition names :: "node \<Rightarrow> string list \<Rightarrow> node \<Rightarrow> bool" where
  "names n ts m \<longleftrightarrow> resolve_in (Some n) ts = deref m \<and> (\<forall>t \<in> set ts. CHR ''|'' \<notin> set t)"

lemma names_mapping:
  "mapping_value ns t = Some v \<Longrightarrow> CHR ''|'' \<notin> set t \<Longrightarrow> names v ts m \<Longrightarrow> names (Mapping l ns) (t # ts) m"
  by (simp add: names_def)

lemma names_sequence:
  "j < length ns \<Longrightarrow> length ns < 2 ^ 63 \<Longrightarrow> names (ns ! j) ts m \<Longrightarrow> names (Sequence l ns) (dec_nat j # ts) m"
  using dec_nat_digits [of j] by (auto simp: names_def atoi_def decimal_dec_nat dec_val_dec_nat list_all_iff digit_def)

definition names_value :: "path \<Rightarrow> path \<Rightarrow> node \<Rightarrow> node list \<Rightarrow> bool" where
  "names_value p q m ns \<longleftrightarrow>
     (\<exists>t v ts. mapping_value ns t = Some v \<and> CHR ''|'' \<notin> set t \<and> q = descend (child t p) ts \<and> names v ts m)"

lemma named_pair:
  assumes chk: "bad_keys seen (k # v # ns) = 0" "pipe_keys (k # v # ns) = 0" and acc: "list_all accepted (k # v # ns)"
    and visit: "(m, q, False, par) \<in> set (visits_pairs (k # v # ns) p mm)"
    and below: "(m, q, False, par) \<in> set (visits v (child (key_token k) p) False (Some mm)) \<Longrightarrow>
      \<exists>ts. q = descend (child (key_token k) p) ts \<and> names v ts m"
    and later: "\<And>seen. (m, q, False, par) \<in> set (visits_pairs ns p mm) \<Longrightarrow> bad_keys seen ns = 0 \<Longrightarrow> pipe_keys ns = 0 \<Longrightarrow>
      names_value p q m ns"
  shows "names_value p q m (k # v # ns)"
proof -
  have "accepted k" using acc by simp
  with chk obtain l t key where k: "deref k = Some (Scalar l t key)" "CHR ''|'' \<notin> set key"
    and rest: "bad_keys (insert key seen) ns = 0" "pipe_keys ns = 0" by (rule checked_pair)
  note leaf = scalar_key_leaf [OF k(1)]
  consider "(m, q, False, par) \<in> set (visits v (child key p) False (Some mm))" | "(m, q, False, par) \<in> set (visits_pairs ns p mm)"
    using visit leaf(3) by (auto simp: leaf(1))
  then show ?thesis
  proof cases
    case 1
    then obtain ts where "q = descend (child key p) ts" "names v ts m" using below leaf(3) by auto
    then show ?thesis unfolding names_value_def using k
      by (intro exI [of _ key] exI [of _ v] exI [of _ ts]) (simp add: mapping_value_pair [OF k(1)])
  next
    case 2
    then obtain x w ts where x: "mapping_value ns x = Some w" "CHR ''|'' \<notin> set x" "q = descend (child x p) ts" "names w ts m"
      using later [OF _ rest] by (auto simp: names_value_def)
    have "list_all decodable ns" using acc by (auto simp: list_all_iff accepted_def)
    then have "x \<noteq> key" using bad_keys_fresh [OF rest(1) _ x(1)] by blast
    then show ?thesis unfolding names_value_def using x
      by (intro exI [of _ x] exI [of _ w] exI [of _ ts]) (simp add: mapping_value_pair [OF k(1)])
  qed
qed

lemma visits_named:
  "(m, q, False, par) \<in> set (visits n p key parent) \<Longrightarrow> accepted n \<Longrightarrow> \<exists>ts. q = descend p ts \<and> names n ts m"
  "(m, q, False, par) \<in> set (visits_pairs ns p mm) \<Longrightarrow> list_all accepted ns \<Longrightarrow>
     \<forall>seen. bad_keys seen ns = 0 \<longrightarrow> pipe_keys ns = 0 \<longrightarrow> names_value p q m ns"
  "(m, q, False, par) \<in> set (visits_items i cs p mm) \<Longrightarrow> list_all accepted cs \<Longrightarrow>
     \<exists>j ts. j < length cs \<and> q = descend (child (dec_nat (i + j)) p) ts \<and> names (cs ! j) ts m"
proof (induction n p key parent and ns p mm and i cs p mm rule: visits_visits_pairs_visits_items.induct)
  case (1 n p key parent)
  consider "(m, q, False, par) = (n, p, key, parent)"
    | l ns where "n = Mapping l ns" "(m, q, False, par) \<in> set (visits_pairs ns p n)"
    | l ns where "n = Sequence l ns" "(m, q, False, par) \<in> set (visits_items 0 ns p n)"
    using "1.prems"(1) by (cases n) (auto simp: visits.simps)
  then show ?case
  proof cases
    case 1
    then show ?thesis by (intro exI [of _ "[]"]) (simp add: names_def)
  next
    case 2
    then have "names_value p q m ns" using "1.IH"(1) [of l ns] accepted_content(1) "1.prems"(2) by blast
    then obtain t v ts where "mapping_value ns t = Some v" "CHR ''|'' \<notin> set t" "q = descend (child t p) ts" "names v ts m"
      by (auto simp: names_value_def)
    then show ?thesis using 2(1) by (intro exI [of _ "t # ts"]) (simp add: names_mapping)
  next
    case 3
    then obtain j ts where "j < length ns" "q = descend (child (dec_nat (0 + j)) p) ts" "names (ns ! j) ts m"
      using "1.IH"(2) [of l ns] accepted_content(2) "1.prems"(2) by blast
    then show ?thesis using 3(1) accepted_content(2) "1.prems"(2)
      by (intro exI [of _ "dec_nat j # ts"]) (simp add: names_sequence)
  qed
next
  case (2 k v ns p mm)
  then have "list_all accepted ns" "accepted v" by simp_all
  then show ?case using 2 by (intro allI impI named_pair) blast+
next
  case (4 i c cs p mm)
  then consider "(m, q, False, par) \<in> set (visits c (child (dec_nat i) p) False (Some mm))"
    | "(m, q, False, par) \<in> set (visits_items (Suc i) cs p mm)" by auto
  then show ?case
  proof cases
    case 1
    then show ?thesis using "4.IH"(1) "4.prems"(2) by (intro exI [of _ 0]) auto
  next
    case 2
    then obtain j ts where "j < length cs" "q = descend (child (dec_nat (Suc i + j)) p) ts" "names (cs ! j) ts m"
      using "4.IH"(2) "4.prems"(2) by auto
    then show ?thesis by (intro exI [of _ "Suc j"] exI [of _ ts]) simp
  qed
qed auto

lemma visits_docs_top:
  "v \<in> set (visits_docs i docs) \<Longrightarrow>
     \<exists>j n. j < length docs \<and> root (docs ! j) = Some n \<and>
       v \<in> set (visits n \<lparr>pa_doc = i + j, pa_pointer = [], pa_format = [], pa_inner = []\<rparr> False None)"
proof (induction i docs rule: visits_docs.induct)
  case (2 i d ds)
  then consider n where "root d = Some n" "v \<in> set (visits n \<lparr>pa_doc = i, pa_pointer = [], pa_format = [], pa_inner = []\<rparr> False None)"
    | "v \<in> set (visits_docs (Suc i) ds)" by (cases "root d") auto
  then show ?case
  proof cases
    case 1
    then show ?thesis by (intro exI [of _ 0] exI [of _ n]) simp
  next
    case 2
    then obtain j n where "j < length ds" "root (ds ! j) = Some n"
      "v \<in> set (visits n \<lparr>pa_doc = Suc i + j, pa_pointer = [], pa_format = [], pa_inner = []\<rparr> False None)" using "2.IH" by blast
    then show ?thesis by (intro exI [of _ "Suc j"] exI [of _ n]) simp
  qed
qed simp

lemma descend_outer:
  "pa_format p = [] \<Longrightarrow> descend p ts = p\<lparr>pa_pointer := pa_pointer p @ ts\<rparr>"
  by (induction ts arbitrary: p) (auto simp: child_def)

lemma accepted_root: "accepted d \<Longrightarrow> root d = Some n \<Longrightarrow> accepted n"
  using accepted_content(3) by (cases d rule: root.cases) fastforce+

lemma parse_docs_accepts:
  "parse_docs yl ds docs0 = Inr docs \<Longrightarrow> \<forall>n \<in> set docs. n \<in> set docs0 \<or> Decoded n \<in> set ds \<and> bad_key n = 0"
  by (induction yl ds docs0 rule: parse_docs.induct) (auto split: if_split_asm)

lemma parse_accepts:
  assumes "parse decode yl b = Inr docs" and "\<And>n. Decoded n \<in> set (decode b) \<Longrightarrow> decodable n" and "d \<in> set docs"
  shows "accepted d"
proof -
  have ps: "parse_docs yl (decode b) [] = Inr docs" and pk: "first_line (map pipe_key docs) = 0"
    using assms(1) by (auto simp: parse_def parse_stream_def Let_def split: if_split_asm sum.split_asm)
  then have "pipe_key d = 0" using assms(3) by (auto simp: first_line_zero)
  moreover have "Decoded d \<in> set (decode b)" "bad_key d = 0" using parse_docs_accepts [OF ps] assms(3) by auto
  ultimately show ?thesis using assms(2) by (simp add: accepted_def)
qed

definition collect :: "('e, (node \<times> path \<times> bool) list) visit" where
  "collect n p key parent vs = Inr (vs @ [(n, p, key)])"

lemma run_collect: "run_visits collect vs acc = Inr (acc @ map (\<lambda>(n, p, key, parent). (n, p, key)) vs)"
  by (induction vs arbitrary: acc) (auto simp: seq_res_def collect_def)


definition stream_example :: node where
  "stream_example = Document 1 [Mapping 1
     [Scalar 1 ''!!str'' ''a/b'', Sequence 2 [Scalar 2 ''!!str'' ''x'', Scalar 3 ''!!str'' ''y''],
      Scalar 4 ''!!str'' ''c'', Alias 4 (Some (Scalar 2 ''!!str'' ''x''))]]"

definition decode_example :: "string \<Rightarrow> decoded list" where
  "decode_example b = [Decoded stream_example]"

definition path_example :: path where
  "path_example = \<lparr>pa_doc = 0, pa_pointer = [''a/b'', ''1''], pa_format = [], pa_inner = []\<rparr>"


text \<open>C37. A text parses to a path exactly when the path is well formed and writes itself as that text:
  what is parsed prints back to the same bytes, and every well-formed path parses back to itself.\<close>

theorem parse_path_iff_string: "parse_path s = Some p \<longleftrightarrow> path_ok p \<and> path_string p = s"
  by (rule parse_path_iff)

end
