(* ===== verification/Dispatch_DB.thy ===== *)
theory Dispatch_DB
  imports BW_Prelude
begin

text \<open>
  The tables the dispatch of a plan reads and writes, and the helpers its transactions share
  (\<^verbatim>\<open>internal/api\<close>: \<^verbatim>\<open>nextEntry\<close> of observe.go, \<^verbatim>\<open>appendEntry\<close>, \<^verbatim>\<open>lockOperation\<close> and
  \<^verbatim>\<open>owns\<close> of outcome.go, \<^verbatim>\<open>scopeGate\<close>, \<^verbatim>\<open>identityMatch\<close>, \<^verbatim>\<open>minorMatch\<close> and
  \<^verbatim>\<open>newerContradiction\<close> of commit.go, \<^verbatim>\<open>finalPlanCause\<close> of attempt.go, \<^verbatim>\<open>useTimeCheckCause\<close> of
  dispatch.go).

  A transaction is a function of the tables that answers an error, which rolls it back, or a value
  and the tables it commits. It holds the installation state, the machine's row and the rows it
  writes to its end, so it runs as one step. The database's clock is read where the code reads it:
  each reading is an argument. Identifiers the code draws at random are arguments too; a primary
  key already taken refuses the insert. Times and durations are microseconds. An absent SQL value
  is \<open>None\<close>, so that \<^verbatim>\<open>IS NOT DISTINCT FROM\<close> is equality. A cause text that the code answers as
  the empty string for ``none'' is \<open>None\<close>. The options that weaken a comparison for a test are off.
\<close>

section \<open>Results\<close>

definition and_then :: "('e, 'a) res \<Rightarrow> ('a \<Rightarrow> ('e, 'b) res) \<Rightarrow> ('e, 'b) res" where
  "and_then r f = (case r of Inl e \<Rightarrow> Inl e | Inr x \<Rightarrow> f x)"

definition found :: "'e \<Rightarrow> 'a option \<Rightarrow> ('e, 'a) res" where
  "found e x = (case x of None \<Rightarrow> Inl e | Some a \<Rightarrow> Inr a)"

named_theorems tx_simps \<open>what an accepted or refused transaction went through\<close>

lemma and_then_Inr [simp]: "and_then (Inr x) f = f x"
  by (simp add: and_then_def)

lemma and_then_Inl [simp]: "and_then (Inl e) f = Inl e"
  by (simp add: and_then_def)

lemma and_then_ok [tx_simps]: "and_then r f = Inr y \<longleftrightarrow> (\<exists>x. r = Inr x \<and> f x = Inr y)"
  by (cases r) auto

lemma found_ok [tx_simps]: "found e x = Inr a \<longleftrightarrow> x = Some a"
  by (cases x) (auto simp: found_def)

lemma found_simps [simp]: "found e (Some a) = Inr a" "found e None = Inl e"
  by (simp_all add: found_def)

section \<open>The tables\<close>

type_synonym digest = "8 word list"
type_synonym access = "string \<times> int \<times> string" \<comment> \<open>path, version, created time\<close>

datatype scope_state = Normal | PreRestoreUnaccounted | ScopeUnresolved | Blocked | Ready | ScopeReleased

record machine_row =
  m_id :: string
  m_cluster :: string
  m_smbios :: "string option"
  m_node :: "string option"
  m_frozen :: bool
  m_scope :: scope_state
  m_rev :: int
  m_endpoint :: string

record cluster_row =
  cl_id :: string
  cl_talos :: "string option"

record machine_state_row =
  ms_machine :: string
  ms_revision :: int
  ms_desired :: "string option"
  ms_applied :: "string option"
  ms_digest :: "digest option"
  ms_source :: "string option"
  ms_baseline :: "int option"

record assignment_row =
  as_machine :: string
  as_head :: "string option"

record release_row =
  rl_id :: string
  rl_contract :: string

record release_machine_row =
  rm_release :: string
  rm_machine :: string
  rm_digest :: digest
  rm_key :: string
  rm_version :: int

datatype plan_kind = ApplyConfig | Adopt

record plan_row =
  p_id :: string
  p_kind :: plan_kind
  p_machine :: string
  p_cluster :: string
  p_release :: string
  p_assignment :: string
  p_desired :: "string option"
  p_baseline :: "int option"
  p_drift :: "int option"
  p_expected :: "digest option"
  p_route :: string
  p_max_age :: int
  p_validity :: int
  p_transport :: "int option"
  p_verification :: "int option"
  p_max_attempts :: "int option"
  p_expires :: int
  p_creator :: string

datatype pstate = Proposed | Approved | PlanCommitted | Revoked | PlanCancelled | Expired

record plan_state_row =
  s_plan :: string
  s_state :: pstate
  s_approval :: "string option"
  s_operation :: "string option"
  s_reason :: "string option"
  s_revision :: int
  s_updated :: int

record approval_row =
  ap_id :: string
  ap_plan :: string
  ap_machine :: string
  ap_approver :: string
  ap_role :: string
  ap_epoch :: string
  ap_self :: "string list"
  ap_act :: string
  ap_at :: int
  ap_revision :: int

record principal_row =
  pr_id :: string
  pr_revoked :: bool

record approval_revocation_row =
  ar_approval :: string
  ar_plan :: string
  ar_machine :: string
  ar_by :: string
  ar_role :: string
  ar_reason :: string
  ar_act :: string
  ar_epoch :: string
  ar_at :: int
  ar_revision :: int

record cancellation_row =
  ca_plan :: string
  ca_machine :: string
  ca_by :: string
  ca_role :: string
  ca_reason :: string
  ca_act :: string
  ca_epoch :: string
  ca_at :: int
  ca_revision :: int

record identity_revocation_row =
  ir_identity :: string
  ir_by :: string
  ir_role :: string
  ir_reason :: string
  ir_act :: string
  ir_epoch :: string
  ir_at :: int

datatype ostate = Committed | Sending | Verifying | Completed | Rejected | Failed | Cancelled | Unresolved

datatype outcome_doc =
    ResultDoc string digest string \<comment> \<open>applied release, digest, observation\<close>
  | FailureDoc string string "string option" nat \<comment> \<open>outcome, cause, observation, attempts\<close>

record operation_row =
  o_id :: string
  o_kind :: plan_kind
  o_state :: ostate
  o_epoch :: string
  o_owner :: "string option"
  o_gen :: int
  o_owner_epoch :: "string option"
  o_plan :: string
  o_machine :: string
  o_cluster :: string
  o_created :: int
  o_result :: "outcome_doc option"
  o_error :: "outcome_doc option"

record attempt_row =
  at_id :: string
  at_operation :: string
  at_plan :: string
  at_machine :: string
  at_number :: nat
  at_owner :: string
  at_gen :: int
  at_epoch :: string
  at_route :: string
  at_observation :: string
  at_transport :: int
  at_verification :: int
  at_at :: int
  at_revision :: int
  at_classification :: "int option"

datatype rclass = Accepted | ClassRejected | InvalidArgument | GrpcCode | Transport | Unrecognised

record response_row =
  re_attempt :: string
  re_machine :: string
  re_class :: rclass
  re_code :: nat
  re_text :: string
  re_owner :: string
  re_gen :: int
  re_epoch :: string
  re_at :: int
  re_revision :: int

record settle_facts =
  f_given :: "(string \<times> string) list"
  f_floor :: int
  f_anchor :: int
  f_start_version :: string
  f_end_version :: string

record decision =
  d_by :: string
  d_act :: string
  d_start :: string
  d_end :: string
  d_facts :: settle_facts

record accounting_row =
  ac_attempt :: string
  ac_machine :: string
  ac_decision :: "decision option" \<comment> \<open>\<open>None\<close>: its basis is the response\<close>
  ac_epoch :: string
  ac_at :: int
  ac_revision :: int

datatype coutcome = OutCompleted | SafeToRetry | OutRejected | OutFailed

record classification_row =
  k_operation :: string
  k_machine :: string
  k_revision :: int
  k_outcome :: coutcome
  k_observation :: "string option"
  k_owner :: string
  k_gen :: int
  k_epoch :: string
  k_relied :: "int list"
  k_at :: int

datatype purpose = Evidence | Completion | Recovery | DriftRead | Restoration | Publication

record obs_start_row =
  st_machine :: string
  st_revision :: int
  st_purpose :: purpose
  st_plan :: "string option"
  st_operation :: "string option"
  st_endpoint :: string
  st_controller :: string
  st_generation :: "int option"

record observation_row =
  ob_id :: string
  ob_machine :: string
  ob_basis :: int
  ob_revision :: int
  ob_access :: "access option"
  ob_smbios :: "string option"
  ob_node :: "string option"
  ob_cluster :: "string option"
  ob_assignment :: "string option"
  ob_version :: "string option"
  ob_digest :: "digest option"
  ob_resource :: "string option"
  ob_unread :: "(string \<times> string) list" \<comment> \<open>value not read, cause\<close>
  ob_at :: int

record drift_row =
  dr_machine :: string
  dr_opened :: int
  dr_observation :: string
  dr_applied :: digest
  dr_observed :: digest
  dr_last :: string
  dr_late :: "string option"
  dr_closed :: "int option"
  dr_resolution :: "string option"

record freeze_row =
  fz_machine :: string
  fz_revision :: int
  fz_frozen :: bool
  fz_principal :: string
  fz_role :: string
  fz_reason :: string
  fz_act :: string
  fz_epoch :: string
  fz_at :: int

text \<open>The result of one dependency read, and what a scope state entry says beside its two states,
  its cause and who acted.\<close>

datatype dep_result = AccessPassed access | ArtifactPassed string int | DepFailed string

datatype scope_detail =
    NoDetail
  | SettleDetail string string settle_facts "string list" bool \<comment> \<open>start, end, facts, attempts, pending\<close>
  | MarkDetail string "string option" "string list" "(string \<times> dep_result) list" "(string \<times> string) list"
      \<comment> \<open>observation, Desired release checked, missing, dependencies, facts\<close>
  | ReleaseDetail int "(string \<times> string) list" \<comment> \<open>the mark's revision, facts\<close>

text \<open>A timeline entry: its kind is the constructor, its JSON members the arguments.\<close>

datatype entry =
    ECommitment (e_plan: string) (e_op: string) "string option" (e_obs: string) string int
  | EAttempt string (e_op: string) nat string int string int int (e_obs: string) "int option"
  | EResponse (e_op: string) string nat rclass nat string string int
  | EAccounting (e_op: string) string "decision option" "rclass option"
  | EClassification (e_op: string) coutcome "string option" "int list" string int
  | EOwnership (e_op: string) string string int int string string string
  | EOpState (e_op: string) ostate ostate string int "string option" "nat option" string
  | ERefusal nat (e_plan: string) "string option" string string "int option" "string option"
  | EUseTime (e_plan: string) string bool "access option" int "string option"
  | EStarted purpose "string option" "string option" string string int
  | EObservation (e_obs: string) purpose int
  | EDrift int string (e_obs: string) "string option" "string option"
  | EApplied "string option" string digest string (e_plan: string) (e_op: string)
  | EFreeze bool string string string
  | EApproval (e_plan: string) string string string "string list" bool
  | EApprovalRevocation string (e_plan: string) string string string
  | EPlanCancellation (e_plan: string) string string string
  | EIdentityRevocation string "string list" string string string
  | EScope scope_state scope_state string string string string scope_detail
  | EOther string

record event =
  ev_machine :: string
  ev_revision :: int
  ev_epoch :: string
  ev_entry :: entry
  ev_at :: int

record dispatch_db =
  inst_epoch :: string
  recovery_mode :: bool
  machines :: "machine_row list"
  clusters :: "cluster_row list"
  mstates :: "machine_state_row list"
  assignments :: "assignment_row list"
  releases :: "release_row list"
  release_machines :: "release_machine_row list"
  plans :: "plan_row list"
  plan_states :: "plan_state_row list"
  approvals :: "approval_row list"
  principals :: "principal_row list"
  approval_revocations :: "approval_revocation_row list"
  cancellations :: "cancellation_row list"
  identity_revocations :: "identity_revocation_row list"
  operations :: "operation_row list"
  attempts :: "attempt_row list"
  responses :: "response_row list"
  accountings :: "accounting_row list"
  classifications :: "classification_row list"
  obs_starts :: "obs_start_row list"
  observations :: "observation_row list"
  drifts :: "drift_row list"
  freezes :: "freeze_row list"
  timeline :: "event list"

section \<open>The controller and its errors\<close>

record controller =
  ctl_id :: string
  ctl_epoch :: string
  settle_floor :: int
  max_transport :: int

datatype api_error =
    ErrNotController
  | ErrNoRows \<comment> \<open>a row the transaction needs is not there\<close>
  | ErrTaken \<comment> \<open>a key or a constraint of the schema refused the insert\<close>
  | ErrKind \<comment> \<open>a plan of another kind\<close>
  | ErrNotCommittedTo \<comment> \<open>the plan is not committed to the operation\<close>
  | ErrAlreadyCommitted
  | ErrNoEvidence string
  | ErrReadNotDue
  | ErrUseTime \<comment> \<open>a dependency failed the use-time check\<close>
  | ErrAccessMoved \<comment> \<open>the Talos access moved since the retry's observation\<close>
  | ErrConflict
  | CommitRefused nat string "string option" bool
  | AttemptRefused nat string "string option"
  | OutcomeRefused string string
  | ApiRefused nat string \<comment> \<open>HTTP status and problem code\<close>
  | Unrecorded api_error \<comment> \<open>a refusal whose own record failed\<close>

abbreviation superseded :: "controller \<Rightarrow> dispatch_db \<Rightarrow> bool" where
  "superseded c db \<equiv> inst_epoch db \<noteq> ctl_epoch c"

text \<open>The states that hold the machine's scope and the cluster's rollout scope.\<close>

definition holding :: "ostate \<Rightarrow> bool" where
  "holding s \<longleftrightarrow> s \<in> {Committed, Sending, Verifying, Unresolved}"

definition op_text :: "ostate \<Rightarrow> string" where
  "op_text s = (case s of Committed \<Rightarrow> ''committed'' | Sending \<Rightarrow> ''sending'' | Verifying \<Rightarrow> ''verifying''
     | Completed \<Rightarrow> ''completed'' | Rejected \<Rightarrow> ''rejected'' | Failed \<Rightarrow> ''failed''
     | Cancelled \<Rightarrow> ''cancelled'' | Unresolved \<Rightarrow> ''unresolved'')"

definition scope_text :: "scope_state \<Rightarrow> string" where
  "scope_text s = (case s of Normal \<Rightarrow> ''normal'' | PreRestoreUnaccounted \<Rightarrow> ''pre-restore-unaccounted''
     | ScopeUnresolved \<Rightarrow> ''unresolved'' | Blocked \<Rightarrow> ''blocked'' | Ready \<Rightarrow> ''ready''
     | ScopeReleased \<Rightarrow> ''released'')"

definition pstate_text :: "pstate \<Rightarrow> string" where
  "pstate_text s = (case s of Proposed \<Rightarrow> ''proposed'' | Approved \<Rightarrow> ''approved'' | PlanCommitted \<Rightarrow> ''committed''
     | Revoked \<Rightarrow> ''revoked'' | PlanCancelled \<Rightarrow> ''cancelled'' | Expired \<Rightarrow> ''expired'')"

section \<open>Timeline entries\<close>

text \<open>\<open>next_entry\<close> allocates the machine's next revision; \<open>add_event\<close> inserts one row of
  \<^verbatim>\<open>machine_event\<close> at it.\<close>

definition next_entry :: "string \<Rightarrow> dispatch_db \<Rightarrow> (api_error, int \<times> dispatch_db) res" where
  "next_entry m db =
     (case keyed m_id m (machines db) of
        None \<Rightarrow> Inl ErrNoRows
      | Some r \<Rightarrow> Inr (m_rev r + 1,
          db\<lparr>machines := sql_update (\<lambda>r. m_id r = m) (\<lambda>r. r\<lparr>m_rev := m_rev r + 1\<rparr>) (machines db)\<rparr>))"

definition add_event :: "string \<Rightarrow> int \<Rightarrow> string \<Rightarrow> entry \<Rightarrow> int \<Rightarrow> dispatch_db \<Rightarrow> dispatch_db" where
  "add_event m rv ep e at db = db\<lparr>timeline := timeline db @
     [\<lparr>ev_machine = m, ev_revision = rv, ev_epoch = ep, ev_entry = e, ev_at = at\<rparr>]\<rparr>"

definition append_entry :: "string \<Rightarrow> string \<Rightarrow> entry \<Rightarrow> int \<Rightarrow> dispatch_db
    \<Rightarrow> (api_error, int \<times> dispatch_db) res" where
  "append_entry m ep e at db =
     and_then (next_entry m db) (\<lambda>(rv, db1). Inr (rv, add_event m rv ep e at db1))"

definition event_at :: "string \<Rightarrow> int \<Rightarrow> dispatch_db \<Rightarrow> event option" where
  "event_at m rv db = sql_row (\<lambda>e. ev_machine e = m \<and> ev_revision e = rv) (timeline db)"

text \<open>The latest and the first of a table's rows by a key: \<^verbatim>\<open>ORDER BY k DESC LIMIT 1\<close> and
  \<^verbatim>\<open>ORDER BY k LIMIT 1\<close>.\<close>

definition first_by :: "('r \<Rightarrow> int) \<Rightarrow> ('r \<Rightarrow> bool) \<Rightarrow> 'r list \<Rightarrow> 'r option" where
  "first_by k p rs = (case sort_key k (filter p rs) of [] \<Rightarrow> None | r # _ \<Rightarrow> Some r)"

definition last_by :: "('r \<Rightarrow> int) \<Rightarrow> ('r \<Rightarrow> bool) \<Rightarrow> 'r list \<Rightarrow> 'r option" where
  "last_by k p rs = first_by (\<lambda>r. - k r) p rs"

definition max_of :: "int list \<Rightarrow> int option" where
  "max_of xs = (case xs of [] \<Rightarrow> None | x # ys \<Rightarrow> Some (fold max ys x))"

section \<open>Comparisons shared by the commitment, the attempt and the settle\<close>

definition value_read :: "string \<Rightarrow> observation_row \<Rightarrow> bool" where
  "value_read n ob \<longleftrightarrow> n \<notin> fst ` set (ob_unread ob)"

definition identity_match :: "observation_row \<Rightarrow> machine_row \<Rightarrow> cluster_row \<Rightarrow> bool" where
  "identity_match ob m cl \<longleftrightarrow>
     (case m_smbios m of Some u \<Rightarrow> ob_smbios ob = Some u
      | None \<Rightarrow> ob_node ob = m_node m \<and> ob_smbios ob = None) \<and>
     ob_cluster ob = cl_talos cl"

text \<open>\<^verbatim>\<open>substring(v FROM '^v[0-9]+\.[0-9]+')\<close>.\<close>

definition minor_of :: "string \<Rightarrow> string option" where
  "minor_of v =
     (case v of [] \<Rightarrow> None
      | c # r \<Rightarrow>
          let a = takeWhile digit r; r1 = dropWhile digit r in
          (case r1 of [] \<Rightarrow> None
           | d # r2 \<Rightarrow>
               let b = takeWhile digit r2 in
               if c = CHR ''v'' \<and> a \<noteq> [] \<and> d = CHR ''.'' \<and> b \<noteq> [] then Some (c # a @ d # b) else None))"

definition minor_match :: "observation_row \<Rightarrow> string \<Rightarrow> bool" where
  "minor_match ob contract \<longleftrightarrow> Option.bind (ob_version ob) minor_of = Some contract"

definition contradicts :: "machine_row \<Rightarrow> cluster_row \<Rightarrow> plan_row \<Rightarrow> string \<Rightarrow> observation_row \<Rightarrow> bool" where
  "contradicts m cl p contract ob \<longleftrightarrow>
     value_read ''identity'' ob \<and> \<not> identity_match ob m cl \<or>
     value_read ''configuration'' ob \<and> ob_digest ob \<noteq> p_expected p \<or>
     value_read ''runningVersion'' ob \<and> \<not> minor_match ob contract"

text \<open>The rows a plan's comparisons join: its machine, that machine's cluster, the plan and its release.\<close>

definition bindings :: "string \<Rightarrow> string \<Rightarrow> dispatch_db
    \<Rightarrow> (machine_row \<times> cluster_row \<times> plan_row \<times> release_row) option" where
  "bindings machine plan db =
     (case (keyed m_id machine (machines db), keyed p_id plan (plans db)) of
        (Some m, Some p) \<Rightarrow>
          (case (keyed cl_id (m_cluster m) (clusters db), keyed rl_id (p_release p) (releases db)) of
             (Some cl, Some rl) \<Rightarrow> Some (m, cl, p, rl)
           | _ \<Rightarrow> None)
      | _ \<Rightarrow> None)"

definition newer_contradiction :: "string \<Rightarrow> string \<Rightarrow> int \<Rightarrow> dispatch_db \<Rightarrow> string option" where
  "newer_contradiction machine plan basis db =
     (case bindings machine plan db of
        None \<Rightarrow> None
      | Some (m, cl, p, rl) \<Rightarrow>
          map_option ob_id (first_by ob_basis (\<lambda>ob. ob_machine ob = machine \<and> basis < ob_basis ob \<and>
            contradicts m cl p (rl_contract rl) ob) (observations db)))"

definition scope_gate :: "bool \<Rightarrow> int option \<Rightarrow> int option \<Rightarrow> scope_state \<Rightarrow> bool \<Rightarrow> string option" where
  "scope_gate frozen opn bound scope recovery =
     (if frozen then Some ''the machine scope is frozen''
      else if opn \<noteq> None \<and> opn \<noteq> bound then Some ''a drift record is open on the machine''
      else if bound \<noteq> None \<and> opn = None then Some ''the drift record the plan binds is closed''
      else if scope \<noteq> Normal \<and> scope \<noteq> ScopeReleased then Some (''the machine scope is '' @ scope_text scope)
      else if recovery \<and> scope \<noteq> ScopeReleased then
        Some ''recovery mode is in effect and the scope is not released''
      else None)"

definition open_drift :: "string \<Rightarrow> dispatch_db \<Rightarrow> int option" where
  "open_drift m db = map_option dr_opened (sql_row (\<lambda>d. dr_machine d = m \<and> dr_closed d = None) (drifts db))"

definition final_plan_cause :: "string \<Rightarrow> string \<Rightarrow> int \<Rightarrow> dispatch_db \<Rightarrow> (api_error, string option) res" where
  "final_plan_cause plan current at db =
     and_then (found ErrNoRows (keyed p_id plan (plans db))) (\<lambda>p.
     and_then (found ErrNoRows (keyed s_plan plan (plan_states db))) (\<lambda>s.
     and_then (found ErrNoRows (Option.bind (s_approval s) (\<lambda>a. keyed ap_id a (approvals db)))) (\<lambda>a.
     and_then (found ErrNoRows (keyed pr_id (ap_approver a) (principals db))) (\<lambda>ap.
       Inr (if p_expires p \<le> at then Some ''the plan has expired''
            else if \<exists>x \<in> set (cancellations db). ca_plan x = plan then Some ''the plan is cancelled''
            else if \<exists>x \<in> set (approval_revocations db). ar_approval x = ap_id a then Some ''the approval is revoked''
            else if pr_revoked ap then Some ''the approver's identity is revoked''
            else if ap_epoch a \<noteq> current then Some ''the approval is of an earlier epoch''
            else None)))))"

text \<open>The latest use-time check the controller recorded for the plan, if any.\<close>

fun is_use_time :: "string \<Rightarrow> string \<Rightarrow> entry \<Rightarrow> bool" where
  "is_use_time plan ctl (EUseTime p c _ _ _ _) \<longleftrightarrow> p = plan \<and> c = ctl"
| "is_use_time plan ctl _ \<longleftrightarrow> False"

definition use_time_check_cause ::
  "controller \<Rightarrow> string \<Rightarrow> string \<Rightarrow> string \<Rightarrow> int \<Rightarrow> dispatch_db \<Rightarrow> string option" where
  "use_time_check_cause c machine plan evidence at db =
     (case (keyed p_id plan (plans db),
            last_by ev_revision (\<lambda>e. ev_machine e = machine \<and> is_use_time plan (ctl_id c) (ev_entry e)) (timeline db)) of
        (Some p, Some e) \<Rightarrow>
          (case ev_entry e of
             EUseTime _ _ passed acc started _ \<Rightarrow>
               if \<not> passed then Some ''the use-time check failed''
               else if acc \<noteq> Option.bind (keyed ob_id evidence (observations db)) ob_access
                 then Some ''the use-time check read another Talos access than the evidence''
               else if at - min (ev_at e) started > p_validity p
                 then Some ''the use-time check is older than the plan allows''
               else None
           | _ \<Rightarrow> None)
      | _ \<Rightarrow> None)"

section \<open>The operation's row\<close>

definition operation_of :: "string \<Rightarrow> dispatch_db \<Rightarrow> operation_row option" where
  "operation_of op db = keyed o_id op (operations db)"

definition lock_operation :: "controller \<Rightarrow> string \<Rightarrow> dispatch_db \<Rightarrow> (api_error, operation_row) res" where
  "lock_operation c op db =
     (if superseded c db then Inl ErrNotController
      else case operation_of op db of
        None \<Rightarrow> Inl ErrNoRows
      | Some x \<Rightarrow> if o_kind x = ApplyConfig then Inr x else Inl ErrNoRows)"

definition owns :: "controller \<Rightarrow> dispatch_db \<Rightarrow> operation_row \<Rightarrow> int \<Rightarrow> bool" where
  "owns c db x generation \<longleftrightarrow>
     o_owner x = Some (ctl_id c) \<and> o_gen x = generation \<and> o_owner_epoch x = Some (inst_epoch db)"

definition update_op :: "string \<Rightarrow> (operation_row \<Rightarrow> operation_row) \<Rightarrow> dispatch_db \<Rightarrow> dispatch_db" where
  "update_op op f db = db\<lparr>operations := sql_update (\<lambda>x. o_id x = op) f (operations db)\<rparr>"

definition attempts_of :: "string \<Rightarrow> dispatch_db \<Rightarrow> attempt_row list" where
  "attempts_of op db = filter (\<lambda>a. at_operation a = op) (attempts db)"

definition accounted :: "dispatch_db \<Rightarrow> string \<Rightarrow> bool" where
  "accounted db att \<longleftrightarrow> (\<exists>k \<in> set (accountings db). ac_attempt k = att)"

end
