(* ===== verification/Drift.thy ===== *)
theory Drift
  imports Dispatch_DB
begin

text \<open>
  Drift records (\<^verbatim>\<open>internal/api/drift.go\<close>) and observations (\<^verbatim>\<open>observe.go\<close>): the entry a drift
  change leaves on the machine's timeline, the rules that open, extend or close a record, the start
  and the record of an observation, and how the node's answers become the observation.
\<close>

section \<open>Drift\<close>

definition drift_entry :: "string \<Rightarrow> string \<Rightarrow> int \<Rightarrow> string \<Rightarrow> string option \<Rightarrow> string \<Rightarrow> string option \<Rightarrow> int
    \<Rightarrow> dispatch_db \<Rightarrow> (api_error, int \<times> dispatch_db) res" where
  "drift_entry m ep record change resolution obs late at db =
     and_then (next_entry m db) (\<lambda>(rv, db1).
       Inr (rv, add_event m rv ep (EDrift (if record = 0 then rv else record) change obs resolution late) at db1))"

fun is_drift_of :: "string \<Rightarrow> entry \<Rightarrow> bool" where
  "is_drift_of obs (EDrift _ _ ob _ _) \<longleftrightarrow> ob = obs"
| "is_drift_of obs _ \<longleftrightarrow> False"

fun is_applied_change :: "entry \<Rightarrow> bool" where
  "is_applied_change (EApplied _ _ _ _ _ _) \<longleftrightarrow> True"
| "is_applied_change _ \<longleftrightarrow> False"

fun is_scope_taking :: "entry \<Rightarrow> bool" where
  "is_scope_taking (ECommitment _ _ _ _ _ _) \<longleftrightarrow> True"
| "is_scope_taking (EOpState _ _ _ _ _ _ _ _) \<longleftrightarrow> True"
| "is_scope_taking _ \<longleftrightarrow> False"

definition scope_held :: "string \<Rightarrow> dispatch_db \<Rightarrow> bool" where
  "scope_held m db \<longleftrightarrow>
     (\<exists>x \<in> set (operations db). o_machine x = m \<and> o_kind x = ApplyConfig \<and> holding (o_state x))"

definition drift_excluded :: "string \<Rightarrow> int \<Rightarrow> string \<Rightarrow> bool \<Rightarrow> dispatch_db \<Rightarrow> bool" where
  "drift_excluded m basis obs failing db \<longleftrightarrow>
     (\<exists>e \<in> set (timeline db). ev_machine e = m \<and> is_drift_of obs (ev_entry e)) \<or>
     \<not> failing \<and>
       ((\<exists>e \<in> set (timeline db). ev_machine e = m \<and> basis < ev_revision e \<and> is_applied_change (ev_entry e)) \<or>
        (\<exists>ob \<in> set (observations db). ob_machine ob = m \<and> basis < ob_basis ob \<and>
           value_read ''configuration'' ob \<and> ob_digest ob \<noteq> None) \<or>
        (\<exists>e \<in> set (timeline db). ev_machine e = m \<and> basis \<le> ev_revision e \<and> is_scope_taking (ev_entry e)) \<or>
        scope_held m db)"

text \<open>The latest operation, in the table's insertion order, whose artifact has this digest and one of
  whose attempts a decision accounted for.\<close>

definition late_landing :: "string \<Rightarrow> digest \<Rightarrow> dispatch_db \<Rightarrow> string option" where
  "late_landing m dg db =
     map_option o_id (find (\<lambda>x. o_machine x = m \<and>
       (\<exists>p \<in> set (plans db). p_id p = o_plan x \<and>
          (\<exists>rm \<in> set (release_machines db). rm_release rm = p_release p \<and> rm_machine rm = p_machine p \<and>
             rm_digest rm = dg)) \<and>
       (\<exists>a \<in> set (attempts db). at_operation a = o_id x \<and>
          (\<exists>k \<in> set (accountings db). ac_attempt k = at_id a \<and> ac_decision k \<noteq> None)))
       (List.rev (operations db)))"

definition update_drift :: "string \<Rightarrow> int \<Rightarrow> (drift_row \<Rightarrow> drift_row) \<Rightarrow> dispatch_db \<Rightarrow> dispatch_db" where
  "update_drift m opened f db =
     db\<lparr>drifts := sql_update (\<lambda>d. dr_machine d = m \<and> dr_opened d = opened) f (drifts db)\<rparr>"

definition close_drift :: "int \<Rightarrow> string \<Rightarrow> drift_row \<Rightarrow> drift_row" where
  "close_drift rv how d = d\<lparr>dr_closed := Some rv, dr_resolution := Some how\<rparr>"

definition drift_digests :: "string \<Rightarrow> string \<Rightarrow> dispatch_db \<Rightarrow> (int \<times> digest \<times> digest) option" where
  "drift_digests m obs db =
     (case (sql_row (\<lambda>ob. ob_id ob = obs \<and> ob_machine ob = m \<and> value_read ''configuration'' ob) (observations db),
            keyed ms_machine m (mstates db)) of
        (Some ob, Some s) \<Rightarrow>
          (case (ob_digest ob, ms_digest s) of
             (Some dg, Some applied) \<Rightarrow> Some (ob_basis ob, dg, applied) | _ \<Rightarrow> None)
      | _ \<Rightarrow> None)"

text \<open>\<open>apply_drift\<close> answers the change it made, or \<open>None\<close>.\<close>

definition apply_drift :: "string \<Rightarrow> string \<Rightarrow> string \<Rightarrow> bool \<Rightarrow> int \<Rightarrow> dispatch_db
    \<Rightarrow> (api_error, string option \<times> dispatch_db) res" where
  "apply_drift m ep obs failing at db =
     (case drift_digests m obs db of
        None \<Rightarrow> Inr (None, db)
      | Some (basis, dg, applied) \<Rightarrow>
          if drift_excluded m basis obs failing db then Inr (None, db)
          else
            let opn = open_drift m db; late = (if dg \<noteq> applied then late_landing m dg db else None) in
            (case opn of
               None \<Rightarrow>
                 if dg \<noteq> applied then
                   and_then (drift_entry m ep 0 ''opened'' None obs late at db) (\<lambda>(rv, db1).
                     Inr (Some ''opened'', db1\<lparr>drifts := drifts db1 @
                       [\<lparr>dr_machine = m, dr_opened = rv, dr_observation = obs, dr_applied = applied,
                         dr_observed = dg, dr_last = obs, dr_late = late, dr_closed = None,
                         dr_resolution = None\<rparr>]\<rparr>))
                 else Inr (None, db)
             | Some opened \<Rightarrow>
                 if dg \<noteq> applied then
                   and_then (drift_entry m ep opened ''observed'' None obs late at db) (\<lambda>(rv, db1).
                     Inr (Some ''observed'', update_drift m opened
                       (\<lambda>d. d\<lparr>dr_observed := dg, dr_last := obs, dr_late := late\<rparr>) db1))
                 else if \<not> failing then
                   and_then (drift_entry m ep opened ''closed'' (Some ''returned'') obs None at db) (\<lambda>(rv, db1).
                     Inr (Some ''returned'', update_drift m opened (close_drift rv ''returned'') db1))
                 else Inr (None, db)))"

section \<open>Observations\<close>

record observe_for =
  of_purpose :: purpose
  of_plan :: "string option"
  of_operation :: "string option"
  of_paced :: bool
  of_generation :: int

definition recent_recovery_read :: "controller \<Rightarrow> string \<Rightarrow> int \<Rightarrow> dispatch_db \<Rightarrow> bool" where
  "recent_recovery_read c m t db \<longleftrightarrow>
     (\<exists>s \<in> set (obs_starts db). st_machine s = m \<and> st_purpose s = Recovery \<and>
        (\<exists>e \<in> set (timeline db). ev_machine e = m \<and> ev_revision e = st_revision s \<and>
           (case sql_row (\<lambda>ob. ob_machine ob = m \<and> ob_basis ob = st_revision s) (observations db) of
              Some ob \<Rightarrow> t - settle_floor c < ob_at ob | None \<Rightarrow> t - settle_floor c < ev_at e)))"

definition head_of :: "string \<Rightarrow> dispatch_db \<Rightarrow> string option" where
  "head_of m db = Option.bind (keyed as_machine m (assignments db)) as_head"

text \<open>\<open>pub\<close> is the answer of \<^verbatim>\<open>lockPublication\<close>, the fence of the publish job a publication
  observation is taken for; it is \<open>None\<close> for every other purpose. The answer is the basis, the
  endpoint, the cluster and the assignment head.\<close>

definition observation_endpoint :: "string \<Rightarrow> machine_row \<Rightarrow> observe_for \<Rightarrow> dispatch_db
    \<Rightarrow> (api_error, string) res" where
  "observation_endpoint m r f db =
     (case of_plan f of None \<Rightarrow> Inr (m_endpoint r)
      | Some p \<Rightarrow> found ErrNoRows
          (map_option p_route (sql_row (\<lambda>q. p_id q = p \<and> p_machine q = m) (plans db))))"

definition start_observation :: "controller \<Rightarrow> string \<Rightarrow> observe_for \<Rightarrow> api_error option \<Rightarrow> int \<Rightarrow> int \<Rightarrow> dispatch_db
    \<Rightarrow> (api_error, (int \<times> string \<times> string \<times> string option) \<times> dispatch_db) res" where
  "start_observation c m f pub t at db =
     (if superseded c db then Inl ErrNotController
      else and_then (found ErrNoRows (keyed m_id m (machines db))) (\<lambda>r.
        if of_paced f \<and> recent_recovery_read c m t db then Inl ErrReadNotDue
        else and_then (observation_endpoint m r f db) (\<lambda>ep.
          case (if of_purpose f = Publication then pub else None) of
            Some e \<Rightarrow> Inl e
          | None \<Rightarrow>
              and_then (next_entry m db) (\<lambda>(rv, db1).
                let db2 = add_event m rv (inst_epoch db)
                      (EStarted (of_purpose f) (of_plan f) (of_operation f) ep (ctl_id c) (of_generation f)) at db1 in
                Inr ((rv, ep, m_cluster r, head_of m db),
                  db2\<lparr>obs_starts := obs_starts db2 @
                    [\<lparr>st_machine = m, st_revision = rv, st_purpose = of_purpose f, st_plan = of_plan f,
                      st_operation = of_operation f, st_endpoint = ep, st_controller = ctl_id c,
                      st_generation = (if of_generation f = 0 then None else Some (of_generation f))\<rparr>]\<rparr>)))))"

text \<open>\<open>ob\<close> holds what was read; its revision and time are set here.\<close>

definition record_observation :: "controller \<Rightarrow> string \<Rightarrow> observe_for \<Rightarrow> api_error option \<Rightarrow> observation_row \<Rightarrow> int \<Rightarrow> int
    \<Rightarrow> dispatch_db \<Rightarrow> (api_error, dispatch_db) res" where
  "record_observation c m f pub ob at at' db =
     (if superseded c db then Inl ErrNotController
      else case (if of_purpose f = Publication then pub else None) of
        Some e \<Rightarrow> Inl e
      | None \<Rightarrow>
          and_then (next_entry m db) (\<lambda>(rv, db1).
            if \<exists>x \<in> set (observations db). ob_id x = ob_id ob \<or> ob_machine x = m \<and> ob_basis x = ob_basis ob
            then Inl ErrTaken
            else
              let db2 = add_event m rv (inst_epoch db) (EObservation (ob_id ob) (of_purpose f) (ob_basis ob)) at db1;
                  db3 = db2\<lparr>observations := observations db2 @
                          [ob\<lparr>ob_machine := m, ob_revision := rv, ob_at := at\<rparr>]\<rparr> in
              if of_purpose f = DriftRead \<or> of_purpose f = Restoration
              then and_then (apply_drift m (inst_epoch db) (ob_id ob) False at' db3) (\<lambda>(_, db4). Inr db4)
              else Inr db3))"

section \<open>What the node reported\<close>

text \<open>The forms of observe.go: a report outside them is that read's failure.\<close>

definition graphic :: "char \<Rightarrow> bool" where
  "graphic ch \<longleftrightarrow> CHR ''!'' \<le> ch \<and> ch \<le> CHR ''~''"

definition base64_char :: "char \<Rightarrow> bool" where
  "base64_char ch \<longleftrightarrow> CHR ''A'' \<le> ch \<and> ch \<le> CHR ''Z'' \<or> CHR ''a'' \<le> ch \<and> ch \<le> CHR ''z'' \<or> digit ch \<or>
     ch = CHR ''_'' \<or> ch = CHR ''-''"

definition hex_char :: "char \<Rightarrow> bool" where
  "hex_char ch \<longleftrightarrow> digit ch \<or> CHR ''a'' \<le> ch \<and> ch \<le> CHR ''f''"

definition to_lower :: "char \<Rightarrow> char" where
  "to_lower ch = (if CHR ''A'' \<le> ch \<and> ch \<le> CHR ''Z'' then char_of ((of_char ch :: nat) + 32) else ch)"

definition node_id_form :: "string \<Rightarrow> bool" where
  "node_id_form s \<longleftrightarrow> list_all graphic s \<and> 1 \<le> length s \<and> length s \<le> 128"

definition cluster_id_form :: "string \<Rightarrow> bool" where
  "cluster_id_form s \<longleftrightarrow> length s = 44 \<and> list_all base64_char (take 42 s) \<and>
     s ! 42 \<in> set ''AEIMQUYcgkosw048'' \<and> s ! 43 = CHR ''=''"

definition resource_version_form :: "string \<Rightarrow> bool" where
  "resource_version_form s \<longleftrightarrow> list_all graphic s \<and> 1 \<le> length s \<and> length s \<le> 64"

definition uuid_shape :: "string \<Rightarrow> bool" where
  "uuid_shape s \<longleftrightarrow> length s = 36 \<and>
     list_all (\<lambda>i. if i \<in> {8, 13, 18, 23} then s ! i = CHR ''-'' else hex_char (s ! i)) [0..<36]"

definition suffix_char :: "char \<Rightarrow> bool" where
  "suffix_char ch \<longleftrightarrow> digit ch \<or> CHR ''A'' \<le> ch \<and> ch \<le> CHR ''Z'' \<or> CHR ''a'' \<le> ch \<and> ch \<le> CHR ''z'' \<or>
     ch = CHR ''.'' \<or> ch = CHR ''-''"

definition digits_1_4 :: "string \<Rightarrow> bool" where
  "digits_1_4 s \<longleftrightarrow> list_all digit s \<and> 1 \<le> length s \<and> length s \<le> 4"

definition running_version_form :: "string \<Rightarrow> bool" where
  "running_version_form v =
     (case v of [] \<Rightarrow> False
      | c # r \<Rightarrow>
          let a = takeWhile digit r; r1 = dropWhile digit r;
              b = takeWhile digit (tl r1); r2 = dropWhile digit (tl r1);
              d = takeWhile digit (tl r2); r3 = dropWhile digit (tl r2) in
          c = CHR ''v'' \<and> digits_1_4 a \<and> r1 \<noteq> [] \<and> hd r1 = CHR ''.'' \<and> digits_1_4 b \<and>
          r2 \<noteq> [] \<and> hd r2 = CHR ''.'' \<and> digits_1_4 d \<and>
          (r3 = [] \<or> hd r3 = CHR ''-'' \<and> list_all suffix_char (tl r3) \<and>
             1 \<le> length (tl r3) \<and> length (tl r3) \<le> 64))"

record talos_identity =
  ti_smbios :: string
  ti_node :: string
  ti_cluster :: string

definition valid_identity :: "talos_identity \<Rightarrow> bool" where
  "valid_identity g \<longleftrightarrow> (ti_smbios g = '''' \<or> uuid_shape (map to_lower (ti_smbios g))) \<and>
     node_id_form (ti_node g) \<and> cluster_id_form (ti_cluster g)"

text \<open>One request to the node: its answer, an error in it, or no answer.\<close>

datatype 'a reading = Got 'a | ReadError | Unanswered

definition checked :: "('a \<Rightarrow> bool) \<Rightarrow> 'a reading \<Rightarrow> 'a reading" where
  "checked ok r = (case r of Got x \<Rightarrow> if ok x then Got x else ReadError | _ \<Rightarrow> r)"

record node_answers =
  na_identity :: "talos_identity reading"
  na_version :: "string reading"
  na_config :: "(digest \<times> string) reading"

definition unread_all :: "string \<Rightarrow> string list \<Rightarrow> (string \<times> string) list" where
  "unread_all cause ns = map (\<lambda>n. (n, cause)) ns"

definition nullable :: "string \<Rightarrow> string option" where
  "nullable s = (if s = '''' then None else Some s)"

text \<open>The three reads in order: one that fails with an answer is unread for its own cause and the
  next follows; one with no answer leaves it and every later one unread.\<close>

definition read_config :: "node_answers \<Rightarrow> observation_row \<Rightarrow> observation_row" where
  "read_config na ob =
     (case checked (\<lambda>(dg, rs). resource_version_form rs) (na_config na) of
        Got (dg, rs) \<Rightarrow> ob\<lparr>ob_digest := Some dg, ob_resource := nullable rs\<rparr>
      | Unanswered \<Rightarrow> ob\<lparr>ob_unread := ob_unread ob @ unread_all ''node-unreachable'' [''configuration'']\<rparr>
      | ReadError \<Rightarrow> ob\<lparr>ob_unread := ob_unread ob @ unread_all ''machine-config'' [''configuration'']\<rparr>)"

definition read_version :: "node_answers \<Rightarrow> observation_row \<Rightarrow> observation_row" where
  "read_version na ob =
     (case checked running_version_form (na_version na) of
        Got v \<Rightarrow> read_config na (ob\<lparr>ob_version := nullable v\<rparr>)
      | Unanswered \<Rightarrow> ob\<lparr>ob_unread := ob_unread ob @ unread_all ''node-unreachable'' [''runningVersion'', ''configuration'']\<rparr>
      | ReadError \<Rightarrow> read_config na (ob\<lparr>ob_unread := ob_unread ob @ unread_all ''version-read'' [''runningVersion'']\<rparr>))"

definition read_identity :: "node_answers \<Rightarrow> observation_row \<Rightarrow> observation_row" where
  "read_identity na ob =
     (case checked valid_identity (na_identity na) of
        Got g \<Rightarrow> read_version na (ob\<lparr>ob_smbios := map_option (map to_lower) (nullable (ti_smbios g)),
                   ob_node := Some (ti_node g), ob_cluster := Some (ti_cluster g)\<rparr>)
      | Unanswered \<Rightarrow> ob\<lparr>ob_unread := ob_unread ob @
          unread_all ''node-unreachable'' [''identity'', ''runningVersion'', ''configuration'']\<rparr>
      | ReadError \<Rightarrow> read_version na (ob\<lparr>ob_unread := ob_unread ob @ unread_all ''identity-read'' [''identity'']\<rparr>))"

definition blank_observation :: "string \<Rightarrow> int \<Rightarrow> observation_row" where
  "blank_observation i basis =
     \<lparr>ob_id = i, ob_machine = [], ob_basis = basis, ob_revision = 0, ob_access = None, ob_smbios = None,
      ob_node = None, ob_cluster = None, ob_assignment = None, ob_version = None, ob_digest = None,
      ob_resource = None, ob_unread = [(''health'', ''none-bound'')], ob_at = 0\<rparr>"

text \<open>What \<^verbatim>\<open>observe\<close> makes of the access (\<open>Inl\<close> is the cause its read failed for), of the dial
  (\<open>None\<close> when the talosconfig was refused) and of the node's answers.\<close>

definition observe :: "string \<Rightarrow> int \<Rightarrow> string option \<Rightarrow> (string, access) res \<Rightarrow> node_answers option \<Rightarrow> observation_row" where
  "observe i basis head acc dialled =
     (let ob = blank_observation i basis in
      case acc of
        Inl cause \<Rightarrow> ob\<lparr>ob_unread := ob_unread ob @
          unread_all cause [''identity'', ''runningVersion'', ''configuration'', ''assignmentEvidence'']\<rparr>
      | Inr v \<Rightarrow>
          let ob1 = ob\<lparr>ob_access := Some v\<rparr>;
              ob2 = (case head of Some h \<Rightarrow> ob1\<lparr>ob_assignment := nullable h\<rparr>
                     | None \<Rightarrow> ob1\<lparr>ob_unread := ob_unread ob1 @ [(''assignmentEvidence'', ''unassigned'')]\<rparr>) in
          (case dialled of
             None \<Rightarrow> ob2\<lparr>ob_unread := ob_unread ob2 @
               unread_all ''talosconfig'' [''identity'', ''runningVersion'', ''configuration'']\<rparr>
           | Some na \<Rightarrow> read_identity na ob2))"

end
