(* ===== verification/Plan_Acts.thy ===== *)
theory Plan_Acts
  imports Drift
begin

text \<open>
  What people do to a plan and to a machine's scope before and after its commitment
  (\<^verbatim>\<open>internal/api\<close>: approvals.go, approval_revocations.go, cancellations.go, revocations.go,
  freeze.go, and \<^verbatim>\<open>RevokeIdentity\<close> of \<^verbatim>\<open>internal/auth/identity.go\<close>). A request's effect checks the
  rows it locks at \<open>t\<close>, and its write, after the wait for the act-order lock, reads the clock again
  at \<open>t'\<close>; both run in one transaction. The acting principal, its role and the act's identifier come
  with the request. A malformed identifier in the path and an unknown one are refused alike.

  The reasons an approval is marked self-approved for, which the code derives from the release's
  sources, are an argument.
\<close>

record actor =
  w_principal :: string
  w_role :: string
  w_act :: string

section \<open>A plan's state as it reads\<close>

definition approval_of :: "plan_state_row \<Rightarrow> dispatch_db \<Rightarrow> approval_row option" where
  "approval_of s db = Option.bind (s_approval s) (\<lambda>a. keyed ap_id a (approvals db))"

definition approver_of :: "plan_state_row \<Rightarrow> dispatch_db \<Rightarrow> principal_row option" where
  "approver_of s db =
     (case approval_of s db of None \<Rightarrow> None | Some a \<Rightarrow> keyed pr_id (ap_approver a) (principals db))"

definition projected :: "plan_row \<Rightarrow> plan_state_row \<Rightarrow> int \<Rightarrow> dispatch_db \<Rightarrow> pstate" where
  "projected p s t db =
     (if s_state s = Approved \<and>
         (case approver_of s db of None \<Rightarrow> False
          | Some ap \<Rightarrow> pr_revoked ap \<and>
              (case keyed ir_identity (pr_id ap) (identity_revocations db) of
                 None \<Rightarrow> True | Some r \<Rightarrow> ir_at r < p_expires p))
      then Revoked
      else if (s_state s = Proposed \<or> s_state s = Approved) \<and> p_expires p \<le> t then Expired
      else s_state s)"

definition projected_state :: "string \<Rightarrow> int \<Rightarrow> dispatch_db \<Rightarrow> (api_error, pstate) res" where
  "projected_state plan t db =
     and_then (found ErrNoRows (keyed s_plan plan (plan_states db))) (\<lambda>s.
     and_then (found ErrNoRows (keyed p_id plan (plans db))) (\<lambda>p. Inr (projected p s t db)))"

definition update_plan_state :: "string \<Rightarrow> (plan_state_row \<Rightarrow> plan_state_row) \<Rightarrow> dispatch_db \<Rightarrow> dispatch_db" where
  "update_plan_state plan f db = db\<lparr>plan_states := sql_update (\<lambda>s. s_plan s = plan) f (plan_states db)\<rparr>"

section \<open>Approval\<close>

fun lock_principals :: "string \<Rightarrow> string list \<Rightarrow> dispatch_db \<Rightarrow> (api_error, unit) res" where
  "lock_principals me [] db = Inr ()"
| "lock_principals me (p # ps) db =
     (case keyed pr_id p (principals db) of
        None \<Rightarrow> Inl ErrNoRows
      | Some r \<Rightarrow> if pr_revoked r \<and> p = me then Inl (ApiRefused 403 ''identity-revoked'')
                  else lock_principals me ps db)"

definition approval_epoch :: "plan_state_row \<Rightarrow> dispatch_db \<Rightarrow> string option" where
  "approval_epoch s db = map_option ap_epoch (approval_of s db)"

definition unseen_overwrite :: "plan_row \<Rightarrow> bool" where
  "unseen_overwrite p \<longleftrightarrow> p_kind p = ApplyConfig \<and> p_drift p \<noteq> None"

definition approval_write :: "actor \<Rightarrow> plan_row \<Rightarrow> string \<Rightarrow> string list \<Rightarrow> int \<Rightarrow> dispatch_db
    \<Rightarrow> (api_error, dispatch_db) res" where
  "approval_write w p new self at db =
     (if p_expires p \<le> at then Inl (ApiRefused 409 ''conflict'')
      else and_then (append_entry (p_machine p) (inst_epoch db)
          (EApproval (p_id p) new (w_principal w) (w_role w) self (unseen_overwrite p)) at db) (\<lambda>(rv, db1).
        if \<exists>a \<in> set (approvals db). ap_id a = new \<or> ap_plan a = p_id p \<and> ap_epoch a = inst_epoch db
        then Inl ErrTaken
        else Inr (update_plan_state (p_id p)
          (\<lambda>s. s\<lparr>s_state := Approved, s_approval := Some new, s_revision := s_revision s + 1, s_updated := at\<rparr>)
          (db1\<lparr>approvals := approvals db1 @ [\<lparr>ap_id = new, ap_plan = p_id p, ap_machine = p_machine p,
             ap_approver = w_principal w, ap_role = w_role w, ap_epoch = inst_epoch db, ap_self = self,
             ap_act = w_act w, ap_at = at, ap_revision = rv\<rparr>]\<rparr>))))"

definition approve_plan :: "actor \<Rightarrow> string \<Rightarrow> string \<Rightarrow> string list \<Rightarrow> int \<Rightarrow> int \<Rightarrow> dispatch_db
    \<Rightarrow> (api_error, dispatch_db) res" where
  "approve_plan w plan new self t t' db =
     and_then (found (ApiRefused 404 ''not-found'') (keyed p_id plan (plans db))) (\<lambda>p.
     and_then (found ErrNoRows (keyed m_id (p_machine p) (machines db))) (\<lambda>m.
       if m_scope m = PreRestoreUnaccounted then Inl (ApiRefused 409 ''recovery-mode-active'')
       else and_then (found ErrNoRows (keyed s_plan plan (plan_states db))) (\<lambda>s.
         let held = map_option ap_approver (approval_of s db);
             ids = w_principal w # (case held of None \<Rightarrow> [] | Some h \<Rightarrow> [h]) in
         and_then (lock_principals (w_principal w) (remdups_adj (sort ids)) db) (\<lambda>_.
           let state = projected p s t db;
               earlier = (case approval_epoch s db of None \<Rightarrow> False | Some e \<Rightarrow> e \<noteq> inst_epoch db) in
           if state \<noteq> Proposed \<and> (state \<noteq> Approved \<or> \<not> earlier) then Inl (ApiRefused 409 ''conflict'')
           else approval_write w p new self t' db))))"

section \<open>Cancellation\<close>

text \<open>The first role of the route, in its order, that the principal holds; \<^verbatim>\<open>publisher\<close> qualifies
  only for the plan's creator.\<close>

fun cancelling_role :: "string list \<Rightarrow> string list \<Rightarrow> string \<Rightarrow> string \<Rightarrow> string option" where
  "cancelling_role [] held who creator = None"
| "cancelling_role (r # rs) held who creator =
     (if r \<in> set held \<and> (r \<noteq> ''publisher'' \<or> who = creator) then Some r
      else cancelling_role rs held who creator)"

definition cancellable :: "string \<Rightarrow> int \<Rightarrow> dispatch_db \<Rightarrow> (api_error, pstate) res" where
  "cancellable plan t db =
     and_then (projected_state plan t db) (\<lambda>state.
       if state \<noteq> Proposed \<and> state \<noteq> Approved \<and> state \<noteq> PlanCommitted then Inl (ApiRefused 409 ''conflict'')
       else if \<exists>x \<in> set (cancellations db). ca_plan x = plan then Inl (ApiRefused 409 ''conflict'')
       else Inr state)"

definition cancel_plan :: "string list \<Rightarrow> string list \<Rightarrow> string \<Rightarrow> string \<Rightarrow> string \<Rightarrow> string \<Rightarrow> int \<Rightarrow> int \<Rightarrow> dispatch_db
    \<Rightarrow> (api_error, dispatch_db) res" where
  "cancel_plan route held who act plan reason t t' db =
     and_then (found (ApiRefused 404 ''not-found'') (keyed p_id plan (plans db))) (\<lambda>p.
     and_then (found (ApiRefused 403 ''forbidden'') (cancelling_role route held who (p_creator p))) (\<lambda>role.
     and_then (found ErrNoRows (keyed pr_id who (principals db))) (\<lambda>r.
       if pr_revoked r then Inl (ApiRefused 403 ''identity-revoked'')
       else and_then (cancellable plan t db) (\<lambda>_.
         and_then (cancellable plan t' db) (\<lambda>state.
         and_then (append_entry (p_machine p) (inst_epoch db) (EPlanCancellation plan who role reason) t' db)
           (\<lambda>(rv, db1).
           let db2 = db1\<lparr>cancellations := cancellations db1 @ [\<lparr>ca_plan = plan, ca_machine = p_machine p,
                 ca_by = who, ca_role = role, ca_reason = reason, ca_act = act, ca_epoch = inst_epoch db,
                 ca_at = t', ca_revision = rv\<rparr>]\<rparr> in
           Inr (if state = PlanCommitted then db2
                else update_plan_state plan (\<lambda>s. s\<lparr>s_state := PlanCancelled, s_reason := Some ''cancelled'',
                  s_approval := None, s_revision := s_revision s + 1, s_updated := t'\<rparr>) db2)))))))"

section \<open>Revocation of an approval and of an identity\<close>

text \<open>How the revocation leaves the plan's state: \<open>None\<close> leaves it as it is.\<close>

definition revoked_state :: "plan_state_row \<Rightarrow> string \<Rightarrow> pstate \<Rightarrow> (pstate \<times> string) option" where
  "revoked_state s approval reads =
     (if reads = s_state s then
        (if s_state s = Approved \<and> s_approval s = Some approval then Some (Revoked, ''approval-revoked'') else None)
      else if reads = Revoked then Some (Revoked, ''identity-revoked'')
      else Some (reads, pstate_text reads))"

definition revoke_approval :: "actor \<Rightarrow> string \<Rightarrow> string \<Rightarrow> int \<Rightarrow> dispatch_db \<Rightarrow> (api_error, dispatch_db) res" where
  "revoke_approval w approval reason t' db =
     and_then (found (ApiRefused 404 ''not-found'') (keyed ap_id approval (approvals db))) (\<lambda>a.
     and_then (found ErrNoRows (keyed pr_id (w_principal w) (principals db))) (\<lambda>r.
       if pr_revoked r then Inl (ApiRefused 403 ''identity-revoked'')
       else if \<exists>x \<in> set (approval_revocations db). ar_approval x = approval then Inl (ApiRefused 409 ''conflict'')
       else and_then (found ErrNoRows (keyed s_plan (ap_plan a) (plan_states db))) (\<lambda>s.
         and_then (projected_state (ap_plan a) t' db) (\<lambda>reads.
         and_then (append_entry (ap_machine a) (inst_epoch db)
             (EApprovalRevocation approval (ap_plan a) (w_principal w) (w_role w) reason) t' db) (\<lambda>(rv, db1).
           let db2 = db1\<lparr>approval_revocations := approval_revocations db1 @ [\<lparr>ar_approval = approval,
                 ar_plan = ap_plan a, ar_machine = ap_machine a, ar_by = w_principal w, ar_role = w_role w,
                 ar_reason = reason, ar_act = w_act w, ar_epoch = inst_epoch db, ar_at = t', ar_revision = rv\<rparr>]\<rparr> in
           Inr (case revoked_state s approval reads of
                  None \<Rightarrow> db2
                | Some (st, why) \<Rightarrow> update_plan_state (ap_plan a) (\<lambda>s. s\<lparr>s_state := st, s_reason := Some why,
                    s_approval := (if st = Revoked then s_approval s else None),
                    s_revision := s_revision s + 1, s_updated := t'\<rparr>) db2))))))"

text \<open>The plans of one machine the revoked identity approved and that are still approved and
  unexpired, or committed with an operation that has not ended; and the machines that have one.\<close>

definition identity_plan :: "string \<Rightarrow> int \<Rightarrow> dispatch_db \<Rightarrow> plan_state_row \<Rightarrow> plan_row \<Rightarrow> bool" where
  "identity_plan who t db s p \<longleftrightarrow>
     s_plan s = p_id p \<and>
     (\<exists>a \<in> set (approvals db). s_approval s = Some (ap_id a) \<and> ap_approver a = who) \<and>
     (s_state s = Approved \<and> t < p_expires p \<or>
      s_state s = PlanCommitted \<and>
        (\<exists>x \<in> set (operations db). s_operation s = Some (o_id x) \<and> holding (o_state x)))"

definition identity_plans :: "string \<Rightarrow> int \<Rightarrow> string \<Rightarrow> dispatch_db \<Rightarrow> string list" where
  "identity_plans who t m db =
     sort (map p_id (filter (\<lambda>p. p_machine p = m \<and> (\<exists>s \<in> set (plan_states db). identity_plan who t db s p)) (plans db)))"

fun identity_entries :: "actor \<Rightarrow> string \<Rightarrow> string \<Rightarrow> int \<Rightarrow> (string \<times> string list) list \<Rightarrow> dispatch_db
    \<Rightarrow> (api_error, dispatch_db) res" where
  "identity_entries w who reason t [] db = Inr db"
| "identity_entries w who reason t ((m, ps) # es) db =
     and_then (append_entry m (inst_epoch db) (EIdentityRevocation who ps (w_principal w) (w_role w) reason) t db)
       (\<lambda>(_, db1). identity_entries w who reason t es db1)"

definition identity_machines :: "string \<Rightarrow> int \<Rightarrow> dispatch_db \<Rightarrow> (string \<times> string list) list" where
  "identity_machines who t db =
     map (\<lambda>m. (m, identity_plans who t m db))
       (filter (\<lambda>m. identity_plans who t m db \<noteq> []) (remdups (sort (map p_machine (plans db)))))"

definition revoke_principal :: "string \<Rightarrow> string \<Rightarrow> dispatch_db \<Rightarrow> (api_error, dispatch_db) res" where
  "revoke_principal me who db =
     (case keyed pr_id who (principals db) of
        None \<Rightarrow> Inl (ApiRefused 404 ''not-found'')
      | Some r \<Rightarrow>
          if pr_revoked r then
            Inl (if who = me then ApiRefused 403 ''identity-revoked'' else ApiRefused 409 ''conflict'')
          else Inr (db\<lparr>principals := sql_update (\<lambda>r. pr_id r = who) (\<lambda>r. r\<lparr>pr_revoked := True\<rparr>) (principals db)\<rparr>))"

definition revoker_check :: "string \<Rightarrow> string \<Rightarrow> dispatch_db \<Rightarrow> (api_error, unit) res" where
  "revoker_check me who db =
     (if me = who then Inr ()
      else and_then (found ErrNoRows (keyed pr_id me (principals db)))
        (\<lambda>r. if pr_revoked r then Inl (ApiRefused 403 ''identity-revoked'') else Inr ()))"

text \<open>The two principals are locked in identifier order; the order decides only which refusal is
  answered when both apply.\<close>

definition revoke_identity :: "actor \<Rightarrow> string \<Rightarrow> string \<Rightarrow> int \<Rightarrow> dispatch_db \<Rightarrow> (api_error, dispatch_db) res" where
  "revoke_identity w who reason t' db =
     and_then (if w_principal w \<le> who
        then and_then (revoker_check (w_principal w) who db) (\<lambda>_. revoke_principal (w_principal w) who db)
        else and_then (revoke_principal (w_principal w) who db)
          (\<lambda>db1. and_then (revoker_check (w_principal w) who db) (\<lambda>_. Inr db1))) (\<lambda>db1.
       if \<exists>x \<in> set (identity_revocations db). ir_identity x = who then Inl ErrTaken
       else
         let db2 = db1\<lparr>identity_revocations := identity_revocations db1 @ [\<lparr>ir_identity = who,
               ir_by = w_principal w, ir_role = w_role w, ir_reason = reason, ir_act = w_act w,
               ir_epoch = inst_epoch db, ir_at = t'\<rparr>]\<rparr> in
         identity_entries w who reason t' (identity_machines who t' db2) db2)"

section \<open>Freezing a machine's scope\<close>

definition set_freeze :: "actor \<Rightarrow> string \<Rightarrow> string \<Rightarrow> bool \<Rightarrow> int \<Rightarrow> dispatch_db \<Rightarrow> (api_error, dispatch_db) res" where
  "set_freeze w m reason freeze at db =
     and_then (found (ApiRefused 404 ''not-found'') (keyed m_id m (machines db))) (\<lambda>r.
     and_then (found ErrNoRows (keyed pr_id (w_principal w) (principals db))) (\<lambda>p.
       if pr_revoked p then Inl (ApiRefused 403 ''identity-revoked'')
       else if \<not> freeze \<and> m_scope r = PreRestoreUnaccounted then Inl (ApiRefused 409 ''recovery-mode-active'')
       else if m_frozen r = freeze then Inl (ApiRefused 409 ''conflict'')
       else
         let rv = m_rev r + 1;
             db1 = db\<lparr>machines := sql_update (\<lambda>x. m_id x = m) (\<lambda>x. x\<lparr>m_frozen := freeze, m_rev := m_rev x + 1\<rparr>) (machines db)\<rparr>;
             db2 = add_event m rv (inst_epoch db) (EFreeze freeze (w_principal w) (w_role w) reason) at db1 in
         Inr (db2\<lparr>freezes := freezes db2 @ [\<lparr>fz_machine = m, fz_revision = rv, fz_frozen = freeze,
           fz_principal = w_principal w, fz_role = w_role w, fz_reason = reason, fz_act = w_act w,
           fz_epoch = inst_epoch db, fz_at = at\<rparr>]\<rparr>)))"

end
