(* ===== verification/Plan_Commit.thy ===== *)
theory Plan_Commit
  imports Plan_Acts
begin

text \<open>
  The commitment of an approved apply-config plan (\<^verbatim>\<open>internal/api/commit.go\<close>, and
  \<^verbatim>\<open>recordRefusalEntry\<close> of adoption.go): comparisons 0 to 6 in order, the operation the commitment
  creates, and the refusal entry a separate transaction records.
\<close>

record committed =
  cm_plan :: string
  cm_operation :: string
  cm_observation :: string
  cm_revision :: int

definition refuse_commitment :: "nat \<Rightarrow> string \<Rightarrow> api_error" where
  "refuse_commitment n cause = CommitRefused n cause None False"

section \<open>The comparisons\<close>

text \<open>Each answers the error it refuses with, or \<open>None\<close>.\<close>

definition commit_compare1 :: "pstate \<Rightarrow> pstate \<Rightarrow> string \<Rightarrow> string \<Rightarrow> api_error option" where
  "commit_compare1 reads state approval_ep current =
     (if reads = Expired then Some (refuse_commitment 1 ''the plan has expired'')
      else if reads = Revoked \<and> state = Approved then Some (refuse_commitment 1 ''the approver's identity is revoked'')
      else if reads \<noteq> Approved then Some (refuse_commitment 1 (''the plan is '' @ pstate_text reads))
      else if approval_ep \<noteq> current then Some (refuse_commitment 1 ''the approval is of an earlier epoch'')
      else None)"

definition commit_compare2 :: "plan_row \<Rightarrow> string option \<Rightarrow> machine_state_row \<Rightarrow> api_error option" where
  "commit_compare2 p head ms =
     (if head \<noteq> Some (p_assignment p) then Some (refuse_commitment 2 ''the machine's assignment revision changed'')
      else if ms_baseline ms \<noteq> p_baseline p then Some (refuse_commitment 2 ''the machine's baseline revision changed'')
      else if ms_desired ms \<noteq> p_desired p then Some (refuse_commitment 2 ''the machine's Desired release changed'')
      else None)"

text \<open>The evidence: the latest observation recorded for this plan's dispatch by this process.\<close>

definition is_evidence :: "controller \<Rightarrow> string \<Rightarrow> string \<Rightarrow> dispatch_db \<Rightarrow> observation_row \<Rightarrow> bool" where
  "is_evidence c machine plan db ob \<longleftrightarrow>
     ob_machine ob = machine \<and> event_at machine (ob_basis ob) db \<noteq> None \<and>
     (\<exists>s \<in> set (obs_starts db). st_machine s = machine \<and> st_revision s = ob_basis ob \<and>
        st_purpose s = Evidence \<and> st_plan s = Some plan \<and> st_controller s = ctl_id c)"

definition evidence_of :: "controller \<Rightarrow> string \<Rightarrow> string \<Rightarrow> dispatch_db \<Rightarrow> observation_row option" where
  "evidence_of c machine plan db = last_by ob_basis (is_evidence c machine plan db) (observations db)"

definition started_at :: "string \<Rightarrow> observation_row \<Rightarrow> dispatch_db \<Rightarrow> int" where
  "started_at machine ob db = (case event_at machine (ob_basis ob) db of Some e \<Rightarrow> ev_at e | None \<Rightarrow> 0)"

definition all_read :: "observation_row \<Rightarrow> bool" where
  "all_read ob \<longleftrightarrow> value_read ''identity'' ob \<and> value_read ''configuration'' ob \<and> value_read ''runningVersion'' ob"

definition commit_compare3 :: "controller \<Rightarrow> string \<Rightarrow> string \<Rightarrow> int \<Rightarrow> int \<Rightarrow> observation_row
    \<Rightarrow> (machine_row \<times> cluster_row \<times> plan_row \<times> release_row) \<Rightarrow> dispatch_db \<Rightarrow> api_error option" where
  "commit_compare3 c machine plan approval_rev at ob b db =
     (let (m, cl, p, rl) = b in
      if \<not> all_read ob then Some (ErrNoEvidence ''the evidence left a value unread'')
      else if ob_basis ob \<le> approval_rev then Some (ErrNoEvidence ''the evidence began before the approval'')
      else if at - started_at machine ob db > p_max_age p then
        Some (ErrNoEvidence ''the evidence is older than the plan allows'')
      else case use_time_check_cause c machine plan (ob_id ob) at db of
        Some cause \<Rightarrow> Some (ErrNoEvidence cause)
      | None \<Rightarrow>
          if \<not> identity_match ob m cl then
            Some (CommitRefused 3 ''the evidence shows another machine identity'' (Some (ob_id ob)) False)
          else if ob_digest ob \<noteq> p_expected p then
            Some (CommitRefused 3 ''the evidence shows a configuration digest other than the plan's'' (Some (ob_id ob)) True)
          else if \<not> minor_match ob (rl_contract rl) then
            Some (CommitRefused 3 ''the evidence shows a running Talos minor other than the release's contract''
              (Some (ob_id ob)) False)
          else (case newer_contradiction machine plan (ob_basis ob) db of
                  Some n \<Rightarrow> Some (CommitRefused 3 ''a newer observation contradicts the evidence'' (Some n) False)
                | None \<Rightarrow> None))"

definition rollout_held :: "string \<Rightarrow> dispatch_db \<Rightarrow> bool" where
  "rollout_held cl db \<longleftrightarrow>
     (\<exists>x \<in> set (operations db). o_cluster x = cl \<and> o_kind x = ApplyConfig \<and> holding (o_state x))"

definition rollout_cause :: string where
  "rollout_cause = ''an operation holds the cluster's rollout scope''"

definition commit_compare45 :: "plan_row \<Rightarrow> dispatch_db \<Rightarrow> api_error option" where
  "commit_compare45 p db =
     (if scope_held (p_machine p) db then Some (refuse_commitment 4 ''an operation holds the machine scope'')
      else if rollout_held (p_cluster p) db then Some (refuse_commitment 5 rollout_cause)
      else None)"

definition commit_compare6 :: "plan_row \<Rightarrow> machine_row \<Rightarrow> dispatch_db \<Rightarrow> api_error option" where
  "commit_compare6 p m db =
     (case scope_gate (m_frozen m) (open_drift (p_machine p) db) (p_drift p) (m_scope m) (recovery_mode db) of
        Some cause \<Rightarrow> Some (refuse_commitment 6 cause) | None \<Rightarrow> None)"

definition refuse_if :: "api_error option \<Rightarrow> (api_error, 'a) res \<Rightarrow> (api_error, 'a) res" where
  "refuse_if e r = (case e of Some x \<Rightarrow> Inl x | None \<Rightarrow> r)"

lemma refuse_if_ok [tx_simps]: "refuse_if e r = Inr x \<longleftrightarrow> e = None \<and> r = Inr x"
  by (cases e) (auto simp: refuse_if_def)

section \<open>The transaction\<close>

definition commit_compare :: "controller \<Rightarrow> string \<Rightarrow> int \<Rightarrow> plan_row \<Rightarrow> plan_state_row \<Rightarrow> machine_row
    \<Rightarrow> machine_state_row \<Rightarrow> approval_row option \<Rightarrow> dispatch_db \<Rightarrow> (api_error, observation_row) res" where
  "commit_compare c plan at p s m ms ap db =
     (if s_operation s \<noteq> None \<or> s_state s = PlanCommitted then Inl ErrAlreadyCommitted
      else refuse_if (commit_compare1 (projected p s at db) (s_state s)
          (case ap of None \<Rightarrow> '''' | Some a \<Rightarrow> ap_epoch a) (inst_epoch db))
        (refuse_if (commit_compare2 p (head_of (p_machine p) db) ms)
        (case (evidence_of c (p_machine p) plan db, bindings (p_machine p) plan db) of
           (Some ob, Some b) \<Rightarrow>
             refuse_if (commit_compare3 c (p_machine p) plan (case ap of None \<Rightarrow> 0 | Some a \<Rightarrow> ap_revision a) at ob b db)
             (refuse_if (commit_compare45 p db)
             (refuse_if (commit_compare6 p m db) (Inr ob)))
         | _ \<Rightarrow> Inl (ErrNoEvidence ''no evidence is recorded for it''))))"

definition new_operation :: "controller \<Rightarrow> plan_row \<Rightarrow> string \<Rightarrow> int \<Rightarrow> dispatch_db \<Rightarrow> operation_row" where
  "new_operation c p new at db =
     \<lparr>o_id = new, o_kind = ApplyConfig, o_state = Committed, o_epoch = inst_epoch db,
      o_owner = Some (ctl_id c), o_gen = 1, o_owner_epoch = Some (inst_epoch db), o_plan = p_id p,
      o_machine = p_machine p, o_cluster = p_cluster p, o_created = at, o_result = None, o_error = None\<rparr>"

definition commit_write :: "controller \<Rightarrow> plan_row \<Rightarrow> plan_state_row \<Rightarrow> string \<Rightarrow> string \<Rightarrow> int \<Rightarrow> dispatch_db
    \<Rightarrow> (api_error, committed \<times> dispatch_db) res" where
  "commit_write c p s obs new at db =
     (if \<exists>x \<in> set (operations db). o_id x = new \<or> o_plan x = p_id p then Inl ErrTaken
      else and_then (append_entry (p_machine p) (inst_epoch db)
          (ECommitment (p_id p) new (s_approval s) obs (ctl_id c) 1) at
          (db\<lparr>operations := operations db @ [new_operation c p new at db]\<rparr>)) (\<lambda>(rv, db1).
        Inr (\<lparr>cm_plan = p_id p, cm_operation = new, cm_observation = obs, cm_revision = rv\<rparr>,
          update_plan_state (p_id p) (\<lambda>s. s\<lparr>s_state := PlanCommitted, s_operation := Some new,
            s_revision := s_revision s + 1, s_updated := at\<rparr>) db1)))"

definition commit_tx :: "controller \<Rightarrow> string \<Rightarrow> string \<Rightarrow> int \<Rightarrow> dispatch_db
    \<Rightarrow> (api_error, committed \<times> dispatch_db) res" where
  "commit_tx c plan new at db =
     (if superseded c db then Inl ErrNotController
      else
        and_then (found ErrNoRows (keyed p_id plan (plans db))) (\<lambda>p.
        and_then (found ErrNoRows (keyed rl_id (p_release p) (releases db))) (\<lambda>_.
          if p_kind p \<noteq> ApplyConfig then Inl ErrKind
          else
            and_then (found ErrNoRows (keyed m_id (p_machine p) (machines db))) (\<lambda>m.
            and_then (found ErrNoRows (keyed ms_machine (p_machine p) (mstates db))) (\<lambda>ms.
            and_then (found ErrNoRows (keyed s_plan plan (plan_states db))) (\<lambda>s.
            and_then (case s_approval s of None \<Rightarrow> Inr None
                | Some a \<Rightarrow> map_sum id Some (found ErrNoRows (keyed ap_id a (approvals db)))) (\<lambda>ap.
            and_then (commit_compare c plan at p s m ms ap db) (\<lambda>ob.
              commit_write c p s (ob_id ob) new at db))))))))"

section \<open>The refusal entry\<close>

fun is_refusal_of :: "string \<Rightarrow> entry \<Rightarrow> bool" where
  "is_refusal_of plan (ERefusal _ p _ _ _ _ _) \<longleftrightarrow> p = plan"
| "is_refusal_of plan _ \<longleftrightarrow> False"

definition record_refusal_entry :: "controller \<Rightarrow> string \<Rightarrow> string \<Rightarrow> nat \<Rightarrow> string \<Rightarrow> string option \<Rightarrow> api_error \<Rightarrow> bool
    \<Rightarrow> bool \<Rightarrow> int \<Rightarrow> int \<Rightarrow> dispatch_db \<Rightarrow> (api_error, dispatch_db) res" where
  "record_refusal_entry c machine plan n cause obs already once drift at at' db =
     (if superseded c db then Inl ErrNotController
      else if \<exists>s \<in> set (plan_states db). s_plan s = plan \<and> (s_operation s \<noteq> None \<or> s_state s = PlanCommitted)
        then Inl already
      else if once \<and> (\<exists>e \<in> set (timeline db). ev_machine e = machine \<and> is_refusal_of plan (ev_entry e))
        then Inr db
      else and_then (append_entry machine (inst_epoch db) (ERefusal n plan None cause (ctl_id c) None obs) at db)
        (\<lambda>(_, db1). if drift then
             and_then (apply_drift machine (inst_epoch db) (case obs of None \<Rightarrow> '''' | Some x \<Rightarrow> x) False at' db1) (\<lambda>(_, db2). Inr db2)
           else Inr db1))"

definition record_commit_refusal :: "controller \<Rightarrow> string \<Rightarrow> string \<Rightarrow> nat \<Rightarrow> string \<Rightarrow> string option \<Rightarrow> bool
    \<Rightarrow> int \<Rightarrow> int \<Rightarrow> dispatch_db \<Rightarrow> (api_error, dispatch_db) res" where
  "record_commit_refusal c machine plan n cause obs drift at at' db =
     record_refusal_entry c machine plan n cause obs ErrAlreadyCommitted False drift at at' db"

text \<open>\<open>between\<close> is what other transactions commit after the refused one rolled back.\<close>

definition commit_plan :: "controller \<Rightarrow> string \<Rightarrow> string \<Rightarrow> int \<Rightarrow> (dispatch_db \<Rightarrow> dispatch_db) \<Rightarrow> int \<Rightarrow> int
    \<Rightarrow> dispatch_db \<Rightarrow> (api_error, committed) res \<times> dispatch_db" where
  "commit_plan c plan new at between at' at'' db =
     (if ctl_id c = '''' then (Inl ErrNotController, db)
      else case commit_tx c plan new at db of
        Inr (r, db') \<Rightarrow> (Inr r, db')
      | Inl (CommitRefused n cause obs drift) \<Rightarrow>
          (let db1 = between db in
           case keyed p_id plan (plans db) of
             None \<Rightarrow> (Inl (CommitRefused n cause obs drift), db1)
           | Some p \<Rightarrow>
               (case record_commit_refusal c (p_machine p) plan n cause obs drift at' at'' db1 of
                  Inr db2 \<Rightarrow> (Inl (CommitRefused n cause obs drift), db2)
                | Inl ErrAlreadyCommitted \<Rightarrow> (Inl ErrAlreadyCommitted, db1)
                | Inl e \<Rightarrow> (Inl (Unrecorded e), db1)))
      | Inl e \<Rightarrow> (Inl e, db))"

end
