(* ===== verification/Attempt.thy ===== *)
theory Attempt
  imports Plan_Commit
begin

text \<open>
  The attempt transaction of a committed operation (\<^verbatim>\<open>internal/api/attempt.go\<close>): comparisons 1, 2,
  3, 6, 7, 8 and 9 in that order, the attempt recorded before anything is sent, and the refusal's
  own transaction, which records it and settles the operation.
\<close>

record attempted =
  r_attempt :: string
  r_operation :: string
  r_number :: nat
  r_revision :: int
  r_route :: string
  r_deadline :: int

definition refuse_attempt :: "nat \<Rightarrow> string \<Rightarrow> api_error" where
  "refuse_attempt n cause = AttemptRefused n cause None"

section \<open>The comparisons\<close>

definition attempt_compare2 :: "plan_row \<Rightarrow> string option \<Rightarrow> machine_state_row \<Rightarrow> api_error option" where
  "attempt_compare2 p head ms =
     (if head \<noteq> Some (p_assignment p) then Some (refuse_attempt 2 ''the machine's assignment revision changed'')
      else if ms_baseline ms \<noteq> p_baseline p then Some (refuse_attempt 2 ''the machine's baseline revision changed'')
      else None)"

text \<open>The latest classification, and the observation the attempt relies on: the classification's, or
  the commitment's.\<close>

definition latest_classification :: "string \<Rightarrow> dispatch_db \<Rightarrow> classification_row option" where
  "latest_classification op db = last_by k_revision (\<lambda>k. k_operation k = op) (classifications db)"

fun commitment_obs :: "string \<Rightarrow> entry \<Rightarrow> string option" where
  "commitment_obs op (ECommitment _ x _ obs _ _) = (if x = op then Some obs else None)"
| "commitment_obs op _ = None"

definition relied_observation :: "string \<Rightarrow> string \<Rightarrow> dispatch_db \<Rightarrow> string option" where
  "relied_observation machine op db =
     (case Option.bind (latest_classification op db) k_observation of
        Some obs \<Rightarrow> Some obs
      | None \<Rightarrow> Option.bind
          (sql_row (\<lambda>e. ev_machine e = machine \<and> commitment_obs op (ev_entry e) \<noteq> None) (timeline db))
          (\<lambda>e. commitment_obs op (ev_entry e)))"

definition attempt_evidence :: "string \<Rightarrow> string \<Rightarrow> dispatch_db
    \<Rightarrow> (observation_row \<times> int \<times> machine_row \<times> cluster_row \<times> plan_row \<times> release_row) option" where
  "attempt_evidence obs plan db =
     (case keyed ob_id obs (observations db) of
        None \<Rightarrow> None
      | Some ob \<Rightarrow>
          (case (event_at (ob_machine ob) (ob_basis ob) db, bindings (ob_machine ob) plan db) of
             (Some e, Some b) \<Rightarrow> Some (ob, ev_at e, b) | _ \<Rightarrow> None))"

definition attempt_compare3 :: "controller \<Rightarrow> string \<Rightarrow> string \<Rightarrow> plan_row \<Rightarrow> int
    \<Rightarrow> (observation_row \<times> int \<times> machine_row \<times> cluster_row \<times> plan_row \<times> release_row) \<Rightarrow> dispatch_db \<Rightarrow> api_error option" where
  "attempt_compare3 c machine plan p0 at ev db =
     (let (ob, began, m, cl, p, rl) = ev; obs = Some (ob_id ob) in
      if at - began > p_max_age p0 then Some (AttemptRefused 3 ''the evidence is older than the plan allows'' obs)
      else case use_time_check_cause c machine plan (ob_id ob) at db of
        Some cause \<Rightarrow> Some (AttemptRefused 3 cause obs)
      | None \<Rightarrow>
          if \<not> identity_match ob m cl then Some (AttemptRefused 3 ''the evidence shows another machine identity'' obs)
          else if ob_digest ob \<noteq> p_expected p then
            Some (AttemptRefused 3 ''the evidence shows a configuration digest other than the plan's'' obs)
          else if \<not> minor_match ob (rl_contract rl) then
            Some (AttemptRefused 3 ''the evidence shows a running Talos minor other than the release's contract'' obs)
          else (case newer_contradiction machine plan (ob_basis ob) db of
                  Some n \<Rightarrow> Some (AttemptRefused 3 ''a newer observation contradicts the evidence'' (Some n))
                | None \<Rightarrow> None))"

definition attempt_compare6 :: "plan_row \<Rightarrow> machine_row \<Rightarrow> dispatch_db \<Rightarrow> api_error option" where
  "attempt_compare6 p m db =
     (case scope_gate (m_frozen m) (open_drift (p_machine p) db) (p_drift p) (m_scope m) (recovery_mode db) of
        Some cause \<Rightarrow> Some (refuse_attempt 6 cause) | None \<Rightarrow> None)"

text \<open>The predicate of comparison 7's write: this process's token, and committed, or unresolved and
  classified safe to retry by this token.\<close>

definition token :: "controller \<Rightarrow> int \<Rightarrow> operation_row \<Rightarrow> bool" where
  "token c generation x \<longleftrightarrow>
     o_owner x = Some (ctl_id c) \<and> o_gen x = generation \<and> o_owner_epoch x = Some (ctl_epoch c)"

definition retry_classified :: "controller \<Rightarrow> int \<Rightarrow> string \<Rightarrow> dispatch_db \<Rightarrow> bool" where
  "retry_classified c generation op db \<longleftrightarrow>
     (\<exists>k \<in> set (classifications db). k_operation k = op \<and> k_outcome k = SafeToRetry \<and>
        k_owner k = ctl_id c \<and> k_gen k = generation \<and> k_epoch k = ctl_epoch c)"

definition sendable :: "controller \<Rightarrow> int \<Rightarrow> dispatch_db \<Rightarrow> operation_row \<Rightarrow> bool" where
  "sendable c generation db x \<longleftrightarrow> token c generation x \<and>
     (o_state x = Committed \<or> o_state x = Unresolved \<and> retry_classified c generation (o_id x) db)"

definition attempt_compare7 :: "controller \<Rightarrow> int \<Rightarrow> operation_row \<Rightarrow> dispatch_db \<Rightarrow> api_error option" where
  "attempt_compare7 c generation x db =
     (if sendable c generation db x then None
      else if \<not> token c generation x then
        Some (refuse_attempt 7 ''the operation's owner token is not this controller's'')
      else Some (refuse_attempt 7 (''the operation is '' @ op_text (o_state x))))"

fun after_classification :: "string \<Rightarrow> entry \<Rightarrow> string option" where
  "after_classification op (EResponse x _ _ _ _ _ _ _) = (if x = op then Some ''response'' else None)"
| "after_classification op (EOwnership x _ _ _ _ _ _ _) = (if x = op then Some ''ownership-transition'' else None)"
| "after_classification op (EClassification x _ _ _ _ _) = (if x = op then Some ''classification'' else None)"
| "after_classification op (EAttempt _ x _ _ _ _ _ _ _ _) = (if x = op then Some ''attempt'' else None)"
| "after_classification op _ = None"

definition later_entry :: "string \<Rightarrow> string \<Rightarrow> int \<Rightarrow> dispatch_db \<Rightarrow> string option" where
  "later_entry machine op rv db =
     Option.bind (first_by ev_revision (\<lambda>e. ev_machine e = machine \<and> rv < ev_revision e \<and>
       after_classification op (ev_entry e) \<noteq> None) (timeline db)) (\<lambda>e. after_classification op (ev_entry e))"

definition attempt_compare8 :: "controller \<Rightarrow> int \<Rightarrow> string \<Rightarrow> string \<Rightarrow> dispatch_db \<Rightarrow> api_error option" where
  "attempt_compare8 c generation machine op db =
     (case latest_classification op db of
        None \<Rightarrow> None
      | Some k \<Rightarrow>
          if k_outcome k \<noteq> SafeToRetry \<or> k_owner k \<noteq> ctl_id c \<or> k_gen k \<noteq> generation \<or> k_epoch k \<noteq> ctl_epoch c
          then Some (refuse_attempt 8 ''the operation's latest classification is not this controller's to retry'')
          else (case later_entry machine op (k_revision k) db of
                  Some kind \<Rightarrow> Some (refuse_attempt 8 (''a '' @ kind @ '' entry follows the classification''))
                | None \<Rightarrow> None))"

definition attempt_compare9 :: "plan_row \<Rightarrow> string \<Rightarrow> dispatch_db \<Rightarrow> api_error option" where
  "attempt_compare9 p op db =
     (case p_max_attempts p of
        None \<Rightarrow> Some (refuse_attempt 9 ''the operation has no attempts left'')
      | Some n \<Rightarrow> if int (length (attempts_of op db)) \<ge> n
                  then Some (refuse_attempt 9 ''the operation has no attempts left'') else None)"

section \<open>The transaction\<close>

definition attempt_compare :: "controller \<Rightarrow> string \<Rightarrow> int \<Rightarrow> int \<Rightarrow> operation_row \<Rightarrow> plan_row \<Rightarrow> machine_row
    \<Rightarrow> machine_state_row \<Rightarrow> dispatch_db \<Rightarrow> (api_error, string) res" where
  "attempt_compare c op generation at x p m ms db =
     and_then (final_plan_cause (p_id p) (inst_epoch db) at db) (\<lambda>cause.
       refuse_if (map_option (refuse_attempt 1) cause)
       (refuse_if (attempt_compare2 p (head_of (p_machine p) db) ms)
       (and_then (found ErrNoRows (relied_observation (p_machine p) op db)) (\<lambda>obs.
        and_then (found ErrNoRows (attempt_evidence obs (p_id p) db)) (\<lambda>ev.
          refuse_if (attempt_compare3 c (p_machine p) (p_id p) p at ev db)
          (refuse_if (attempt_compare6 p m db)
          (refuse_if (attempt_compare7 c generation x db)
          (refuse_if (attempt_compare8 c generation (p_machine p) op db)
          (refuse_if (attempt_compare9 p op db) (Inr obs))))))))))"

definition new_attempt :: "controller \<Rightarrow> string \<Rightarrow> int \<Rightarrow> plan_row \<Rightarrow> string \<Rightarrow> nat \<Rightarrow> string \<Rightarrow> int \<Rightarrow> int \<Rightarrow> int \<Rightarrow> int
    \<Rightarrow> int option \<Rightarrow> string \<Rightarrow> attempt_row" where
  "new_attempt c op generation p new number obs at tr ver rv cls current =
     \<lparr>at_id = new, at_operation = op, at_plan = p_id p, at_machine = p_machine p, at_number = number,
      at_owner = ctl_id c, at_gen = generation, at_epoch = current, at_route = p_route p, at_observation = obs,
      at_transport = at + tr, at_verification = at + ver, at_at = at, at_revision = rv,
      at_classification = cls\<rparr>"

definition attempt_write :: "controller \<Rightarrow> string \<Rightarrow> int \<Rightarrow> plan_row \<Rightarrow> string \<Rightarrow> string \<Rightarrow> int \<Rightarrow> dispatch_db
    \<Rightarrow> (api_error, attempted \<times> dispatch_db) res" where
  "attempt_write c op generation p new obs at db =
     (let number = length (attempts_of op db) + 1; cls = map_option k_revision (latest_classification op db) in
      and_then (found ErrTaken (p_transport p)) (\<lambda>tr. and_then (found ErrTaken (p_verification p)) (\<lambda>ver.
      and_then (append_entry (p_machine p) (inst_epoch db)
          (EAttempt new op number (ctl_id c) generation (p_route p) (at + tr) (at + ver) obs cls) at
          (update_op op (\<lambda>x. x\<lparr>o_state := Sending\<rparr>) db)) (\<lambda>(rv, db1).
        if \<exists>a \<in> set (attempts db). at_id a = new then Inl ErrTaken
        else Inr (\<lparr>r_attempt = new, r_operation = op, r_number = number, r_revision = rv, r_route = p_route p,
                   r_deadline = at + tr\<rparr>,
             db1\<lparr>attempts := attempts db1 @
               [new_attempt c op generation p new number obs at tr ver rv cls (inst_epoch db)]\<rparr>)))))"

definition record_attempt_tx :: "controller \<Rightarrow> string \<Rightarrow> int \<Rightarrow> string \<Rightarrow> int \<Rightarrow> dispatch_db
    \<Rightarrow> (api_error, attempted \<times> dispatch_db) res" where
  "record_attempt_tx c op generation new at db =
     (if superseded c db then Inl ErrNotController
      else
        and_then (found ErrNoRows (operation_of op db)) (\<lambda>x.
        and_then (if o_kind x = ApplyConfig then found ErrNoRows (keyed p_id (o_plan x) (plans db)) else Inl ErrNoRows) (\<lambda>p.
        and_then (found ErrNoRows (keyed m_id (p_machine p) (machines db))) (\<lambda>m.
        and_then (found ErrNoRows (keyed ms_machine (p_machine p) (mstates db))) (\<lambda>ms.
        and_then (found ErrNoRows (keyed s_plan (p_id p) (plan_states db))) (\<lambda>s.
          if s_operation s \<noteq> Some op then Inl ErrNotCommittedTo
          else and_then (attempt_compare c op generation at x p m ms db) (\<lambda>obs.
            attempt_write c op generation p new obs at db)))))))"

section \<open>The refusal\<close>

definition may_settle :: "nat \<Rightarrow> bool" where
  "may_settle n \<longleftrightarrow> n \<in> {1, 2, 3, 6}"

text \<open>One move of the refusal: the state and its entry.\<close>

definition refusal_move :: "controller \<Rightarrow> string \<Rightarrow> string \<Rightarrow> int \<Rightarrow> ostate \<Rightarrow> ostate \<Rightarrow> nat \<Rightarrow> string \<Rightarrow> int \<Rightarrow> dispatch_db
    \<Rightarrow> (api_error, dispatch_db) res" where
  "refusal_move c machine op generation s1 s2 n cause at db =
     and_then (append_entry machine (inst_epoch db)
         (EOpState op s1 s2 (ctl_id c) generation None (Some n) cause) at
         (update_op op (\<lambda>x. x\<lparr>o_state := s2\<rparr>) db)) (\<lambda>(_, db1). Inr db1)"

definition settle_refusal_moves :: "controller \<Rightarrow> string \<Rightarrow> string \<Rightarrow> string \<Rightarrow> int \<Rightarrow> ostate \<Rightarrow> nat \<Rightarrow> string \<Rightarrow> int \<Rightarrow> int
    \<Rightarrow> int \<Rightarrow> dispatch_db \<Rightarrow> (api_error, dispatch_db) res" where
  "settle_refusal_moves c machine plan op generation st n cause at at' at'' db =
     and_then (if st = Committed then refusal_move c machine op generation Committed Unresolved n cause at' db
               else Inr db) (\<lambda>db1.
       if attempts_of op db1 \<noteq> [] then Inr db1
       else and_then (final_plan_cause plan (inst_epoch db) at db1) (\<lambda>dead.
         case dead of
           None \<Rightarrow> Inr db1
         | Some why \<Rightarrow> refusal_move c machine op generation Unresolved Cancelled 1 why at'' db1))"

definition settle_attempt_refusal :: "controller \<Rightarrow> string \<Rightarrow> string \<Rightarrow> string \<Rightarrow> int \<Rightarrow> nat \<Rightarrow> string \<Rightarrow> string option
    \<Rightarrow> int \<Rightarrow> int \<Rightarrow> int \<Rightarrow> dispatch_db \<Rightarrow> (api_error, dispatch_db) res" where
  "settle_attempt_refusal c machine plan op generation n cause obs at at' at'' db =
     (if superseded c db then Inl ErrNotController
      else
        and_then (if may_settle n then map_sum id Some (found ErrNoRows (operation_of op db)) else Inr None) (\<lambda>locked.
        and_then (append_entry machine (inst_epoch db)
            (ERefusal n plan (Some op) cause (ctl_id c) (Some generation) obs) at db) (\<lambda>(_, db1).
          case locked of
            None \<Rightarrow> Inr db1
          | Some x \<Rightarrow>
              if \<not> owns c db x generation \<or> o_state x \<noteq> Committed \<and> o_state x \<noteq> Unresolved then Inr db1
              else settle_refusal_moves c machine plan op generation (o_state x) n cause at at' at'' db1)))"

definition record_attempt :: "controller \<Rightarrow> string \<Rightarrow> int \<Rightarrow> string \<Rightarrow> int \<Rightarrow> (dispatch_db \<Rightarrow> dispatch_db)
    \<Rightarrow> int \<times> int \<times> int \<Rightarrow> dispatch_db \<Rightarrow> (api_error, attempted) res \<times> dispatch_db" where
  "record_attempt c op generation new at between ts db =
     (if ctl_id c = '''' then (Inl ErrNotController, db)
      else case record_attempt_tx c op generation new at db of
        Inr (r, db') \<Rightarrow> (Inr r, db')
      | Inl (AttemptRefused n cause obs) \<Rightarrow>
          (let db1 = between db; (t1, t2, t3) = ts in
           case Option.bind (operation_of op db) (\<lambda>x. keyed p_id (o_plan x) (plans db)) of
             None \<Rightarrow> (Inl (AttemptRefused n cause obs), db1)
           | Some p \<Rightarrow>
               (case settle_attempt_refusal c (p_machine p) (p_id p) op generation n cause obs t1 t2 t3 db1 of
                  Inr db2 \<Rightarrow> (Inl (AttemptRefused n cause obs), db2)
                | Inl e \<Rightarrow> (Inl (Unrecorded e), db1)))
      | Inl e \<Rightarrow> (Inl e, db))"

text \<open>\<open>cancel_unattempted\<close> answers whether the plan was dead.\<close>

definition cancel_unattempted :: "controller \<Rightarrow> string \<Rightarrow> string \<Rightarrow> string \<Rightarrow> int \<Rightarrow> int \<Rightarrow> (dispatch_db \<Rightarrow> dispatch_db)
    \<Rightarrow> int \<times> int \<times> int \<Rightarrow> dispatch_db \<Rightarrow> (api_error, bool) res \<times> dispatch_db" where
  "cancel_unattempted c machine plan op generation at between ts db =
     (if superseded c db then (Inl ErrNotController, db)
      else case final_plan_cause plan (inst_epoch db) at db of
        Inl e \<Rightarrow> (Inl e, db)
      | Inr None \<Rightarrow> (Inr False, db)
      | Inr (Some cause) \<Rightarrow>
          (let db1 = between db; (t1, t2, t3) = ts in
           case settle_attempt_refusal c machine plan op generation 1 cause None t1 t2 t3 db1 of
             Inr db2 \<Rightarrow> (Inr True, db2)
           | Inl e \<Rightarrow> (Inl e, db1)))"

end
