(* ===== verification/Outcome.thy ===== *)
theory Outcome
  imports Attempt
begin

text \<open>
  The transactions after an attempt (\<^verbatim>\<open>internal/api/outcome.go\<close>): the takeover of an operation, the
  recording of an attempt's response, and the moves and classifications they and the settle share;
  and how a response is classed (\<^verbatim>\<open>internal/talos/apply.go\<close>). A transaction that reads the clock
  several times takes its readings as a sequence \<open>clk\<close>.
\<close>

section \<open>Moves and classifications\<close>

definition owner_text :: "operation_row \<Rightarrow> string" where
  "owner_text x = (case o_owner x of None \<Rightarrow> '''' | Some w \<Rightarrow> w)"

definition move_operation :: "controller \<Rightarrow> operation_row \<Rightarrow> ostate \<Rightarrow> string \<Rightarrow> outcome_doc option \<Rightarrow> outcome_doc option
    \<Rightarrow> int \<Rightarrow> dispatch_db \<Rightarrow> (api_error, dispatch_db) res" where
  "move_operation c x to cause result failure at db =
     and_then (append_entry (o_machine x) (inst_epoch db)
         (EOpState (o_id x) (o_state x) to (owner_text x) (o_gen x) (Some (ctl_id c)) None cause) at
         (update_op (o_id x) (\<lambda>y. y\<lparr>o_state := to, o_result := result, o_error := failure\<rparr>) db))
       (\<lambda>(_, db1). Inr db1)"

definition classify :: "controller \<Rightarrow> operation_row \<Rightarrow> coutcome \<Rightarrow> string option \<Rightarrow> int list \<Rightarrow> int \<Rightarrow> int \<Rightarrow> dispatch_db
    \<Rightarrow> (api_error, int \<times> dispatch_db) res" where
  "classify c x outcome obs relied generation at db =
     and_then (append_entry (o_machine x) (inst_epoch db)
         (EClassification (o_id x) outcome obs relied (ctl_id c) generation) at db) (\<lambda>(rv, db1).
       Inr (rv, db1\<lparr>classifications := classifications db1 @
         [\<lparr>k_operation = o_id x, k_machine = o_machine x, k_revision = rv, k_outcome = outcome,
           k_observation = obs, k_owner = ctl_id c, k_gen = generation, k_epoch = inst_epoch db,
           k_relied = relied, k_at = at\<rparr>]\<rparr>))"

text \<open>Every response and accounting entry of the operation's attempts, and the observation's entry.\<close>

definition relied_entries :: "string \<Rightarrow> int option \<Rightarrow> dispatch_db \<Rightarrow> int list" where
  "relied_entries op obs db =
     (let ids = map at_id (attempts_of op db) in
      sort (remdups (map re_revision (filter (\<lambda>r. re_attempt r \<in> set ids) (responses db)) @
        map ac_revision (filter (\<lambda>k. ac_attempt k \<in> set ids) (accountings db)) @
        (case obs of None \<Rightarrow> [] | Some r \<Rightarrow> [r]))))"

definition classify_observed :: "controller \<Rightarrow> operation_row \<Rightarrow> coutcome \<Rightarrow> string \<Rightarrow> int \<Rightarrow> int \<Rightarrow> int \<Rightarrow> dispatch_db
    \<Rightarrow> (api_error, int \<times> dispatch_db) res" where
  "classify_observed c x outcome obs rv generation at db =
     classify c x outcome (Some obs) (relied_entries (o_id x) (Some rv) db) generation at db"

section \<open>The takeover\<close>

record taken_over =
  to_operation :: string
  to_state :: ostate
  to_generation :: int
  to_revision :: int
  to_at :: int

definition take_over_tx :: "controller \<Rightarrow> string \<Rightarrow> int \<Rightarrow> string \<Rightarrow> (nat \<Rightarrow> int) \<Rightarrow> dispatch_db
    \<Rightarrow> (api_error, taken_over \<times> dispatch_db) res" where
  "take_over_tx c op generation reason clk db =
     (if ctl_id c = '''' then Inl ErrNotController
      else and_then (lock_operation c op db) (\<lambda>x.
        if \<not> holding (o_state x) then Inl (OutcomeRefused ''takeover'' (''the operation is '' @ op_text (o_state x)))
        else if o_gen x \<noteq> generation then Inl (OutcomeRefused ''takeover'' ''the operation's owner generation moved'')
        else
          and_then (append_entry (o_machine x) (inst_epoch db)
              (EOwnership op (owner_text x) (ctl_id c) (generation + 1) generation
                (case o_owner_epoch x of None \<Rightarrow> '''' | Some e \<Rightarrow> e) (inst_epoch db) reason) (clk 0)
              (update_op op (\<lambda>y. y\<lparr>o_state := Unresolved, o_owner := Some (ctl_id c), o_gen := o_gen y + 1,
                 o_owner_epoch := Some (inst_epoch db)\<rparr>) db)) (\<lambda>(rv, db1).
          and_then (if o_state x = Unresolved then Inr db1
              else and_then (append_entry (o_machine x) (inst_epoch db)
                (EOpState op (o_state x) Unresolved (ctl_id c) (generation + 1) None None ''takeover'') (clk 1) db1)
                (\<lambda>(_, db2). Inr db2)) (\<lambda>db2.
            Inr (\<lparr>to_operation = op, to_state = Unresolved, to_generation = generation + 1, to_revision = rv,
                  to_at = clk 0\<rparr>, db2)))))"

section \<open>Responses\<close>

text \<open>What a send learned: no error with the messages' errors and modes, or an error whose leaves are
  node errors or plain ones, each with its gRPC status if it has one.\<close>

record response =
  rs_class :: rclass
  rs_code :: nat
  rs_text :: string

definition accounts :: "response \<Rightarrow> bool" where
  "accounts r \<longleftrightarrow> rs_class r \<in> {Accepted, ClassRejected, InvalidArgument, GrpcCode}"

definition transport_failure :: response where
  "transport_failure = \<lparr>rs_class = Transport, rs_code = 14,
     rs_text = ''no answer from the node; the request may or may not have been received''\<rparr>"

definition unrecognised :: "nat \<Rightarrow> response" where
  "unrecognised code = \<lparr>rs_class = Unrecognised, rs_code = code,
     rs_text = ''the node's answer is not a recognisable acceptance; its content is withheld''\<rparr>"

definition code_response :: "nat \<Rightarrow> response" where
  "code_response code = \<lparr>rs_class = GrpcCode, rs_code = code,
     rs_text = ''the node answered with an error code; its message is withheld''\<rparr>"

text \<open>The codes the gRPC client produces itself: Unavailable, DeadlineExceeded, Canceled,
  ResourceExhausted, Internal, Unknown, PermissionDenied, Unauthenticated, Unimplemented.\<close>

definition client_codes :: "nat list" where
  "client_codes = [14, 4, 1, 8, 13, 2, 7, 16, 12]"

text \<open>The node's validation refusal: \<^verbatim>\<open>^\d+ errors? occurred: \* v1alpha1\.Config: \<close> on the message with
  its white space collapsed, and no word of the immediate mode.\<close>

record grpc_status =
  gs_code :: nat
  gs_message :: string

fun join_fields :: "string list \<Rightarrow> string" where
  "join_fields [] = []"
| "join_fields [w] = w"
| "join_fields (w # ws) = w @ '' '' @ join_fields ws"

definition starts :: "string \<Rightarrow> string \<Rightarrow> bool" where
  "starts t s \<longleftrightarrow> take (length t) s = t"

definition validation_shape :: "string \<Rightarrow> bool" where
  "validation_shape msg =
     (let a = takeWhile digit msg; r = dropWhile digit msg in
      a \<noteq> [] \<and> (starts '' error occurred: * v1alpha1.Config: '' r \<or>
                 starts '' errors occurred: * v1alpha1.Config: '' r))"

fun has_infix :: "string \<Rightarrow> string \<Rightarrow> bool" where
  "has_infix t [] = (t = [])"
| "has_infix t (c # s) \<longleftrightarrow> starts t (c # s) \<or> has_infix t s"

definition is_validation :: "grpc_status \<Rightarrow> bool" where
  "is_validation g =
     (let msg = join_fields (go_fields (gs_message g)) in
      validation_shape msg \<and> \<not> has_infix ''immediate mode'' msg)"

definition status_response :: "grpc_status option \<Rightarrow> bool \<Rightarrow> response" where
  "status_response st from_node =
     (case st of
        None \<Rightarrow> if from_node then code_response 2 else transport_failure
      | Some g \<Rightarrow>
          if \<not> from_node \<and> gs_code g \<in> set client_codes then transport_failure\<lparr>rs_code := gs_code g\<rparr>
          else if gs_code g = 3 then
            (if is_validation g
             then \<lparr>rs_class = ClassRejected, rs_code = gs_code g,
                   rs_text = ''the node refused the configuration as invalid; its message is withheld''\<rparr>
             else \<lparr>rs_class = InvalidArgument, rs_code = gs_code g,
                   rs_text = ''the node answered InvalidArgument outside the validation class; its message is withheld''\<rparr>)
          else code_response (gs_code g))"

text \<open>An aggregate of errors, or one error: a node's, or another, with its status.\<close>

datatype send_error =
    Leaf bool "grpc_status option"
  | Aggregate "send_error list"

fun error_leaves :: "send_error \<Rightarrow> (bool \<times> grpc_status option) list" where
  "error_leaves (Leaf n st) = [(n, st)]"
| "error_leaves (Aggregate es) = concat (map error_leaves es)"

text \<open>\<open>msgs\<close>: for each message, whether it carries an error and whether its mode is no-reboot.
  \<open>whole\<close> is the status of the error as one, and \<open>ended\<close> the context's end, cancelled or not.\<close>

definition classify_apply :: "(bool \<times> bool) list \<Rightarrow> (send_error \<times> grpc_status option) option \<Rightarrow> bool option \<Rightarrow> response" where
  "classify_apply msgs err ended =
     (case err of
        None \<Rightarrow>
          (case msgs of
             [(failed, noreboot)] \<Rightarrow>
               if failed \<or> \<not> noreboot then unrecognised 0
               else \<lparr>rs_class = Accepted, rs_code = 0, rs_text = ''the node accepted the configuration in no-reboot mode''\<rparr>
           | _ \<Rightarrow> unrecognised 0)
      | Some (e, whole) \<Rightarrow>
          let nodes = filter fst (error_leaves e); plain = filter (\<lambda>l. \<not> fst l) (error_leaves e) in
          (case nodes of
             [] \<Rightarrow>
               if msgs \<noteq> [] then unrecognised 2
               else let r = status_response whole False in
                 if rs_class r = Transport then
                   (case ended of None \<Rightarrow> r | Some canceled \<Rightarrow> r\<lparr>rs_code := (if canceled then 1 else 4)\<rparr>)
                 else r
           | [(_, st)] \<Rightarrow> if plain \<noteq> [] \<or> msgs \<noteq> [] then unrecognised 2 else status_response st True
           | _ \<Rightarrow> unrecognised 2))"

record responded =
  rd_attempt :: string
  rd_state :: ostate
  rd_revision :: int
  rd_accounted :: bool

definition already_responded :: string where
  "already_responded = ''the attempt's response is already recorded''"

definition all_rejected :: "string \<Rightarrow> dispatch_db \<Rightarrow> bool" where
  "all_rejected op db \<longleftrightarrow>
     list_all (\<lambda>a. list_ex (\<lambda>r. re_attempt r = at_id a \<and> re_class r = ClassRejected) (responses db)) (attempts_of op db)"

definition is_latest :: "attempt_row \<Rightarrow> dispatch_db \<Rightarrow> bool" where
  "is_latest a db \<longleftrightarrow> list_all (\<lambda>b. at_number b \<le> at_number a) (attempts_of (at_operation a) db)"

text \<open>Where the response moves the operation, and why.\<close>

definition response_move :: "ostate \<Rightarrow> bool \<Rightarrow> rclass \<Rightarrow> bool \<Rightarrow> (ostate \<times> string) option" where
  "response_move st latest cls rejected =
     (if st = Sending \<and> latest \<and> cls = Accepted then Some (Verifying, ''the node accepted the configuration'')
      else if (st = Sending \<and> latest \<or> st = Unresolved) \<and> cls = ClassRejected \<and> rejected then
        Some (Rejected, ''the node refused every attempt as invalid, which precedes any mutation'')
      else if st = Sending \<and> latest then Some (Unresolved, ''the response does not settle the outcome'')
      else None)"

definition response_row_of :: "attempt_row \<Rightarrow> string \<Rightarrow> response \<Rightarrow> int \<Rightarrow> int \<Rightarrow> response_row" where
  "response_row_of a m resp at rv =
     \<lparr>re_attempt = at_id a, re_machine = m, re_class = rs_class resp, re_code = rs_code resp,
      re_text = rs_text resp, re_owner = at_owner a, re_gen = at_gen a, re_epoch = at_epoch a, re_at = at,
      re_revision = rv\<rparr>"

definition account_response :: "attempt_row \<Rightarrow> operation_row \<Rightarrow> response \<Rightarrow> int \<Rightarrow> dispatch_db
    \<Rightarrow> (api_error, bool \<times> dispatch_db) res" where
  "account_response a x resp at db =
     (if accounts resp \<and> \<not> accounted db (at_id a) then
        and_then (append_entry (o_machine x) (inst_epoch db)
            (EAccounting (o_id x) (at_id a) None (Some (rs_class resp))) at db) (\<lambda>(rv, db1).
          Inr (True, db1\<lparr>accountings := accountings db1 @
            [\<lparr>ac_attempt = at_id a, ac_machine = o_machine x, ac_decision = None, ac_epoch = inst_epoch db,
              ac_at = at, ac_revision = rv\<rparr>]\<rparr>))
      else Inr (False, db))"

definition move_on_response :: "controller \<Rightarrow> attempt_row \<Rightarrow> operation_row \<Rightarrow> response \<Rightarrow> (nat \<Rightarrow> int) \<Rightarrow> dispatch_db
    \<Rightarrow> (api_error, ostate \<times> dispatch_db) res" where
  "move_on_response c a x resp clk db =
     (case response_move (o_state x) (is_latest a db) (rs_class resp) (all_rejected (o_id x) db) of
        None \<Rightarrow> Inr (o_state x, db)
      | Some (to, cause) \<Rightarrow>
          if to = Rejected then
            and_then (classify c x OutRejected None (relied_entries (o_id x) None db) (at_gen a) (clk 2) db) (\<lambda>(_, db1).
            and_then (move_operation c x to cause None
                (Some (FailureDoc ''rejected'' cause None (length (attempts_of (o_id x) db)))) (clk 3) db1) (\<lambda>db2.
              Inr (to, db2)))
          else and_then (move_operation c x to cause None None (clk 3) db) (\<lambda>db1. Inr (to, db1)))"

definition record_response :: "controller \<Rightarrow> string \<Rightarrow> response \<Rightarrow> (nat \<Rightarrow> int) \<Rightarrow> dispatch_db
    \<Rightarrow> (api_error, responded \<times> dispatch_db) res" where
  "record_response c att resp clk db =
     (if ctl_id c = '''' then Inl ErrNotController
      else
        and_then (found ErrNoRows (keyed at_id att (attempts db))) (\<lambda>a.
          if at_owner a \<noteq> ctl_id c then
            Inl (OutcomeRefused ''response'' ''the attempt was sent by another controller'')
          else and_then (lock_operation c (at_operation a) db) (\<lambda>x.
            if \<exists>r \<in> set (responses db). re_attempt r = att then Inl (OutcomeRefused ''response'' already_responded)
            else
              and_then (append_entry (o_machine x) (inst_epoch db)
                  (EResponse (o_id x) att (at_number a) (rs_class resp) (rs_code resp) (rs_text resp) (ctl_id c) (at_gen a))
                  (clk 0) db) (\<lambda>(rv, db1).
              and_then (account_response a x resp (clk 1)
                  (db1\<lparr>responses := responses db1 @ [response_row_of a (o_machine x) resp (clk 0) rv]\<rparr>)) (\<lambda>(acc, db2).
              and_then (move_on_response c a x resp clk db2) (\<lambda>(st, db3).
                Inr (\<lparr>rd_attempt = att, rd_state = st, rd_revision = rv, rd_accounted = acc\<rparr>, db3)))))))"

end
