(* ===== verification/Settle.thy ===== *)
theory Settle
  imports Outcome
begin

text \<open>
  The settling of an operation (\<^verbatim>\<open>internal/api/settle.go\<close>): a recovery-admin's decision that an
  attempt is accounted for, and the decision the controller takes on a recorded observation: the
  operation completed, failed, safe to retry, unresolved, or left pending.
\<close>

section \<open>The decision that accounts for an attempt\<close>

definition node_value_read :: "observation_row \<Rightarrow> bool" where
  "node_value_read ob \<longleftrightarrow>
     value_read ''identity'' ob \<or> value_read ''runningVersion'' ob \<or> value_read ''configuration'' ob"

definition first_read_after :: "string \<Rightarrow> int \<Rightarrow> dispatch_db \<Rightarrow> observation_row option" where
  "first_read_after m deadline db =
     first_by ob_basis (\<lambda>ob. ob_machine ob = m \<and> node_value_read ob \<and>
       (case event_at m (ob_basis ob) db of Some e \<Rightarrow> deadline < ev_at e | None \<Rightarrow> False)) (observations db)"

definition end_began :: "string \<Rightarrow> string \<Rightarrow> dispatch_db \<Rightarrow> (int \<times> string option \<times> purpose) option" where
  "end_began m obs db =
     (case sql_row (\<lambda>ob. ob_id ob = obs \<and> ob_machine ob = m) (observations db) of
        None \<Rightarrow> None
      | Some ob \<Rightarrow>
          (case (event_at m (ob_basis ob) db,
                 sql_row (\<lambda>s. st_machine s = m \<and> st_revision s = ob_basis ob) (obs_starts db)) of
             (Some e, Some s) \<Rightarrow> Some (ev_at e, ob_resource ob, st_purpose s) | _ \<Rightarrow> None))"

text \<open>\<open>Inr (Inl cause)\<close> is a refusal, \<open>Inr (Inr facts)\<close> the facts to record.\<close>

definition settled :: "controller \<Rightarrow> string \<Rightarrow> int \<Rightarrow> int \<Rightarrow> string \<Rightarrow> string \<Rightarrow> (string \<times> string) list \<Rightarrow> dispatch_db
    \<Rightarrow> (api_error, string + settle_facts) res" where
  "settled c m deadline anchor start fin given db =
     (let first = first_read_after m deadline db in
      if (case first of Some ob \<Rightarrow> start \<noteq> ob_id ob | None \<Rightarrow> False) then
        Inr (Inl ''the start observation is not the first successful read of the machine after the transport deadline'')
      else
        let anchor' = (case first of Some ob \<Rightarrow> max anchor (ob_at ob) | None \<Rightarrow> anchor) in
        and_then (found ErrNoRows (sql_row (\<lambda>ob. ob_id ob = start \<and> ob_machine ob = m) (observations db))) (\<lambda>s.
        and_then (found ErrNoRows (end_began m fin db)) (\<lambda>(began, end_version, purp).
          Inr (if purp \<noteq> Recovery then Inl ''the end observation is not a recovery observation''
            else case (ob_resource s, end_version) of
              (Some sv, Some ev) \<Rightarrow>
                if start = fin \<or> \<not> ob_at s < began then
                  Inl ''the end observation did not begin after the start observation was recorded''
                else if began < anchor' + settle_floor c then
                  Inl ''the end observation began before the settle floor had elapsed''
                else if sv \<noteq> ev \<and> (case map_of given ''explanation'' of None \<Rightarrow> True | Some text \<Rightarrow> blank text) then
                  Inl ''the machine-configuration resource version changed during the settle and no explanation is recorded''
                else Inr \<lparr>f_given = given, f_floor = settle_floor c, f_anchor = anchor', f_start_version = sv,
                          f_end_version = ev\<rparr>
            | _ \<Rightarrow> Inl ''the machine-configuration resource version was not read at both ends of the settle''))))"

fun is_ownership :: "string \<Rightarrow> entry \<Rightarrow> bool" where
  "is_ownership op (EOwnership x _ _ _ _ _ _ _) \<longleftrightarrow> x = op"
| "is_ownership op _ \<longleftrightarrow> False"

definition last_takeover :: "string \<Rightarrow> string \<Rightarrow> dispatch_db \<Rightarrow> int option" where
  "last_takeover m op db =
     max_of (map ev_at (filter (\<lambda>e. ev_machine e = m \<and> is_ownership op (ev_entry e)) (timeline db)))"

definition executor_stopped :: "attempt_row \<Rightarrow> operation_row \<Rightarrow> dispatch_db \<Rightarrow> bool" where
  "executor_stopped a x db \<longleftrightarrow> at_gen a < o_gen x \<or> at_epoch a \<noteq> inst_epoch db \<or> at_owner a \<noteq> owner_text x"

definition account_by_decision :: "controller \<Rightarrow> string \<Rightarrow> string \<Rightarrow> string \<Rightarrow> string \<Rightarrow> string \<Rightarrow> (string \<times> string) list
    \<Rightarrow> int \<Rightarrow> dispatch_db \<Rightarrow> (api_error, int \<times> dispatch_db) res" where
  "account_by_decision c att who act start fin given at db =
     and_then (found ErrNoRows (keyed at_id att (attempts db))) (\<lambda>a.
     and_then (lock_operation c (at_operation a) db) (\<lambda>x.
       if accounted db att then Inl (OutcomeRefused ''accounting'' ''the attempt is already accounted for'')
       else if \<not> executor_stopped a x db then
         Inl (OutcomeRefused ''accounting'' ''the attempt's executor is not stopped or taken over'')
       else
         let anchor = (case last_takeover (o_machine x) (o_id x) db of
               Some t \<Rightarrow> max t (at_transport a) | None \<Rightarrow> at_transport a) in
         and_then (settled c (o_machine x) (at_transport a) anchor start fin given db) (\<lambda>r.
           case r of
             Inl cause \<Rightarrow> Inl (OutcomeRefused ''accounting'' cause)
           | Inr facts \<Rightarrow>
               let d = \<lparr>d_by = who, d_act = act, d_start = start, d_end = fin, d_facts = facts\<rparr> in
               and_then (append_entry (o_machine x) (inst_epoch db) (EAccounting (o_id x) att (Some d) None) at db)
                 (\<lambda>(rv, db1). Inr (rv, db1\<lparr>accountings := accountings db1 @
                   [\<lparr>ac_attempt = att, ac_machine = o_machine x, ac_decision = Some d, ac_epoch = inst_epoch db,
                     ac_at = at, ac_revision = rv\<rparr>]\<rparr>)))))"

section \<open>The settle\<close>

datatype settle_outcome = SettledCompleted | SettledFailed | SettledRetry | SettledUnresolved | Pending

record settlement =
  se_state :: ostate
  se_outcome :: settle_outcome
  se_cause :: string
  se_revision :: int
  se_drift :: "string option"

definition stay :: "ostate \<Rightarrow> settle_outcome \<Rightarrow> string \<Rightarrow> settlement" where
  "stay st oc cause = \<lparr>se_state = st, se_outcome = oc, se_cause = cause, se_revision = 0, se_drift = None\<rparr>"

text \<open>What the observation shows of the postconditions: \<open>None\<close> for a value it did not read.\<close>

record settle_view =
  v_obs :: observation_row
  v_purpose :: purpose
  v_for :: "string option"
  v_identity :: "bool option"
  v_digest :: "bool option"
  v_assignment :: "bool option"
  v_expected :: "bool option"
  v_minor :: "bool option"

definition if_read :: "string \<Rightarrow> observation_row \<Rightarrow> bool \<Rightarrow> bool option" where
  "if_read n ob b = (if value_read n ob then Some b else None)"

definition settle_view_of :: "string \<Rightarrow> operation_row \<Rightarrow> dispatch_db \<Rightarrow> settle_view option" where
  "settle_view_of obs x db =
     (case sql_row (\<lambda>ob. ob_id ob = obs \<and> ob_machine ob = o_machine x) (observations db) of
        None \<Rightarrow> None
      | Some ob \<Rightarrow>
          (case (sql_row (\<lambda>s. st_machine s = ob_machine ob \<and> st_revision s = ob_basis ob) (obs_starts db),
                 bindings (ob_machine ob) (o_plan x) db) of
             (Some s, Some (m, cl, p, rl)) \<Rightarrow>
               (case sql_row (\<lambda>rm. rm_release rm = p_release p \<and> rm_machine rm = p_machine p) (release_machines db) of
                  None \<Rightarrow> None
                | Some rm \<Rightarrow> Some
                    \<lparr>v_obs = ob, v_purpose = st_purpose s, v_for = st_operation s,
                     v_identity = if_read ''identity'' ob (identity_match ob m cl),
                     v_digest = if_read ''configuration'' ob (ob_digest ob = Some (rm_digest rm)),
                     v_assignment = if_read ''assignmentEvidence'' ob (ob_assignment ob = Some (p_assignment p)),
                     v_expected = if_read ''configuration'' ob (ob_digest ob = p_expected p),
                     v_minor = if_read ''runningVersion'' ob (minor_match ob (rl_contract rl))\<rparr>)
           | _ \<Rightarrow> None))"

definition other_identity :: "machine_row \<Rightarrow> observation_row \<Rightarrow> observation_row \<Rightarrow> bool" where
  "other_identity m ob o2 \<longleftrightarrow>
     (if m_smbios m \<noteq> None then ob_smbios o2 \<noteq> ob_smbios ob
      else ob_node o2 \<noteq> ob_node ob \<or> (ob_smbios o2 = None) \<noteq> (ob_smbios ob = None)) \<or>
     ob_cluster o2 \<noteq> ob_cluster ob"

definition both_read :: "string \<Rightarrow> observation_row \<Rightarrow> observation_row \<Rightarrow> bool" where
  "both_read n ob o2 \<longleftrightarrow> value_read n ob \<and> value_read n o2"

definition blocking :: "observation_row \<Rightarrow> dispatch_db \<Rightarrow> string option" where
  "blocking ob db =
     (case keyed m_id (ob_machine ob) (machines db) of
        None \<Rightarrow> None
      | Some m \<Rightarrow> map_option ob_id (first_by ob_basis (\<lambda>o2. ob_machine o2 = ob_machine ob \<and> ob_basis ob < ob_basis o2 \<and>
          (both_read ''identity'' ob o2 \<and> other_identity m ob o2 \<or>
           both_read ''configuration'' ob o2 \<and> ob_digest o2 \<noteq> ob_digest ob \<or>
           both_read ''assignmentEvidence'' ob o2 \<and> ob_assignment o2 \<noteq> ob_assignment ob)) (observations db)))"

definition contradicted :: "settle_view \<Rightarrow> bool" where
  "contradicted v \<longleftrightarrow> v_identity v = Some False \<or> v_digest v = Some False \<or> v_assignment v = Some False"

definition established :: "settle_view \<Rightarrow> bool" where
  "established v \<longleftrightarrow> v_identity v = Some True \<and> v_digest v = Some True \<and> v_assignment v = Some True"

text \<open>Why the operation is not safe to retry, or \<open>None\<close> when it is.\<close>

definition safe_to_retry :: "operation_row \<Rightarrow> settle_view \<Rightarrow> int \<Rightarrow> dispatch_db \<Rightarrow> (api_error, string option) res" where
  "safe_to_retry x v at db =
     (if \<not> (v_identity v = Some True \<and> v_assignment v = Some True \<and> v_expected v = Some True \<and> v_minor v = Some True) then
        Inr (Some ''the observation does not show the bound identity, assignment and running minor at the pre-dispatch digest'')
      else if \<exists>a \<in> set (attempts_of (o_id x) db). \<exists>r \<in> set (responses db).
          re_attempt r = at_id a \<and> re_class r \<in> {Accepted, ClassRejected} then
        Inr (Some ''an attempt was accepted or definitively rejected'')
      else
        and_then (found ErrNoRows (keyed p_id (o_plan x) (plans db))) (\<lambda>p.
        and_then (found ErrNoRows (keyed m_id (p_machine p) (machines db))) (\<lambda>m.
          if (case p_max_attempts p of None \<Rightarrow> True | Some n \<Rightarrow> int (length (attempts_of (o_id x) db)) \<ge> n) then
            Inr (Some ''the operation has no attempts left'')
          else and_then (final_plan_cause (p_id p) (inst_epoch db) at db) (\<lambda>cause.
            Inr (case cause of Some w \<Rightarrow> Some w
                 | None \<Rightarrow> scope_gate (m_frozen m) (open_drift (m_id m) db) (p_drift p) (m_scope m) (recovery_mode db))))))"

definition set_applied :: "string \<Rightarrow> string \<Rightarrow> digest \<Rightarrow> dispatch_db \<Rightarrow> dispatch_db" where
  "set_applied m rel dg db = db\<lparr>mstates := sql_update (\<lambda>s. ms_machine s = m)
     (\<lambda>s. s\<lparr>ms_applied := Some rel, ms_digest := Some dg, ms_source := Some ''operation'',
            ms_baseline := Some ((case ms_baseline s of None \<Rightarrow> 0 | Some b \<Rightarrow> b) + 1),
            ms_revision := ms_revision s + 1\<rparr>) (mstates db)\<rparr>"

text \<open>The drift record a completed revert binds, when it is the open one, is closed as reverted.\<close>

definition close_reverted :: "operation_row \<Rightarrow> plan_row \<Rightarrow> string \<Rightarrow> int \<Rightarrow> dispatch_db
    \<Rightarrow> (api_error, string option \<times> dispatch_db) res" where
  "close_reverted x p obs at db =
     (case p_drift p of
        None \<Rightarrow> Inr (None, db)
      | Some bound \<Rightarrow>
          if \<exists>d \<in> set (drifts db). dr_machine d = p_machine p \<and> dr_opened d = bound \<and> dr_closed d = None then
            and_then (drift_entry (o_machine x) (inst_epoch db) bound ''closed'' (Some ''reverted'') obs None at db) (\<lambda>(rv, db1).
              Inr (Some ''reverted'', update_drift (o_machine x) bound (close_drift rv ''reverted'') db1))
          else Inr (None, db))"

definition complete :: "controller \<Rightarrow> operation_row \<Rightarrow> observation_row \<Rightarrow> int \<Rightarrow> (nat \<Rightarrow> int) \<Rightarrow> dispatch_db
    \<Rightarrow> (api_error, settlement \<times> dispatch_db) res" where
  "complete c x ob generation clk db =
     and_then (found ErrNoRows (keyed p_id (o_plan x) (plans db))) (\<lambda>p.
     and_then (found ErrNoRows (sql_row (\<lambda>rm. rm_release rm = p_release p \<and> rm_machine rm = p_machine p) (release_machines db))) (\<lambda>rm.
     and_then (found ErrNoRows (keyed ms_machine (p_machine p) (mstates db))) (\<lambda>ms.
       let cause = ''the observation establishes the bound postconditions'' in
       and_then (classify_observed c x OutCompleted (ob_id ob) (ob_revision ob) generation (clk 0) db) (\<lambda>(_, db1).
       and_then (move_operation c x Completed cause (Some (ResultDoc (p_release p) (rm_digest rm) (ob_id ob))) None (clk 1) db1) (\<lambda>db2.
       and_then (append_entry (o_machine x) (inst_epoch db)
           (EApplied (ms_applied ms) (p_release p) (rm_digest rm) ''operation'' (p_id p) (o_id x)) (clk 2)
           (set_applied (o_machine x) (p_release p) (rm_digest rm) db2)) (\<lambda>(rv, db3).
       and_then (close_reverted x p (ob_id ob) (clk 3) db3) (\<lambda>(change, db4).
         Inr (\<lparr>se_state = Completed, se_outcome = SettledCompleted, se_cause = cause, se_revision = rv,
               se_drift = change\<rparr>, db4))))))))"

definition fail_operation :: "controller \<Rightarrow> operation_row \<Rightarrow> observation_row \<Rightarrow> int \<Rightarrow> (nat \<Rightarrow> int) \<Rightarrow> dispatch_db
    \<Rightarrow> (api_error, settlement \<times> dispatch_db) res" where
  "fail_operation c x ob generation clk db =
     (let cause = ''a completion observation contradicts the postconditions'' in
      and_then (classify_observed c x OutFailed (ob_id ob) (ob_revision ob) generation (clk 0) db) (\<lambda>(_, db1).
      and_then (move_operation c x Failed cause None
          (Some (FailureDoc ''failed'' cause (Some (ob_id ob)) (length (attempts_of (o_id x) db)))) (clk 1) db1) (\<lambda>db2.
      and_then (apply_drift (o_machine x) (inst_epoch db) (ob_id ob) True (clk 2) db2) (\<lambda>(change, db3).
        Inr ((stay Failed SettledFailed cause)\<lparr>se_drift := change\<rparr>, db3)))))"

definition retry_operation :: "controller \<Rightarrow> operation_row \<Rightarrow> observation_row \<Rightarrow> int \<Rightarrow> (nat \<Rightarrow> int) \<Rightarrow> dispatch_db
    \<Rightarrow> (api_error, settlement \<times> dispatch_db) res" where
  "retry_operation c x ob generation clk db =
     and_then (classify_observed c x SafeToRetry (ob_id ob) (ob_revision ob) generation (clk 0) db) (\<lambda>(rv, db1).
     and_then (if o_state x = Verifying
         then move_operation c x Unresolved ''classified safe to retry'' None None (clk 1) db1 else Inr db1) (\<lambda>db2.
       Inr ((stay Unresolved SettledRetry ''the observation shows the pre-dispatch configuration'')\<lparr>se_revision := rv\<rparr>, db2)))"

definition unresolve :: "controller \<Rightarrow> operation_row \<Rightarrow> string \<Rightarrow> string \<Rightarrow> int \<Rightarrow> dispatch_db
    \<Rightarrow> (api_error, settlement \<times> dispatch_db) res" where
  "unresolve c x cause why at db =
     and_then (move_operation c x Unresolved cause None None at db) (\<lambda>db1. Inr (stay Unresolved SettledUnresolved why, db1))"

definition last_accounting :: "string \<Rightarrow> dispatch_db \<Rightarrow> int option" where
  "last_accounting op db = max_of (map ac_revision
     (filter (\<lambda>k. ac_attempt k \<in> set (map at_id (attempts_of op db))) (accountings db)))"

definition last_deadline :: "string \<Rightarrow> dispatch_db \<Rightarrow> int option" where
  "last_deadline op db = max_of (map at_verification (attempts_of op db))"

text \<open>The observation settles nothing: another purpose, another operation, ordered before the last
  accounting, or contradicted by a later one.\<close>

definition unsettling :: "operation_row \<Rightarrow> settle_view \<Rightarrow> dispatch_db \<Rightarrow> string option" where
  "unsettling x v db =
     (if v_purpose v \<noteq> Completion \<and> v_purpose v \<noteq> Recovery then
        Some ''the observation is not a completion or recovery observation''
      else if v_purpose v = Completion \<and> v_for v \<noteq> Some (o_id x) then
        Some ''the observation is not tied to this operation''
      else if (case last_accounting (o_id x) db of None \<Rightarrow> False | Some r \<Rightarrow> ob_basis (v_obs v) < r) then
        Some ''the observation is ordered before the last accounting''
      else map_option (\<lambda>i. ''a later recorded observation reports another value: '' @ i) (blocking (v_obs v) db))"

definition settle_on :: "controller \<Rightarrow> operation_row \<Rightarrow> settle_view \<Rightarrow> int \<Rightarrow> (nat \<Rightarrow> int) \<Rightarrow> dispatch_db
    \<Rightarrow> (api_error, settlement \<times> dispatch_db) res" where
  "settle_on c x v generation clk db =
     (let sent = attempts_of (o_id x) db \<noteq> []; ob = v_obs v in
      case unsettling x v db of
        Some cause \<Rightarrow> Inr (stay (o_state x) Pending cause, db)
      | None \<Rightarrow>
          if established v \<and> v_purpose v = Completion \<and> sent then complete c x ob generation clk db
          else if \<not> contradicted v \<and> sent then
            (if o_state x = Verifying \<and> (case last_deadline (o_id x) db of None \<Rightarrow> False | Some d \<Rightarrow> d < ob_at ob)
             then unresolve c x ''no completion observation by the verification deadline''
               ''the postconditions are neither established nor contradicted by the verification deadline'' (clk 0) db
             else Inr (stay (o_state x) Pending ''the observation neither establishes nor contradicts the postconditions'', db))
          else and_then (safe_to_retry x v (clk 9) db) (\<lambda>why.
            case why of
              None \<Rightarrow> retry_operation c x ob generation clk db
            | Some w \<Rightarrow>
                if \<not> sent \<or> v_purpose v \<noteq> Completion
                then Inr (stay (o_state x) Pending (''the observation does not fail the operation: '' @ w), db)
                else fail_operation c x ob generation clk db))"

definition settle_operation :: "controller \<Rightarrow> string \<Rightarrow> int \<Rightarrow> string \<Rightarrow> (nat \<Rightarrow> int) \<Rightarrow> dispatch_db
    \<Rightarrow> (api_error, settlement \<times> dispatch_db) res" where
  "settle_operation c op generation obs clk db =
     (if ctl_id c = '''' then Inl ErrNotController
      else and_then (lock_operation c op db) (\<lambda>x.
        if \<not> owns c db x generation then
          Inl (OutcomeRefused ''settle'' ''the operation's owner token is not this controller's'')
        else if o_state x \<noteq> Verifying \<and> o_state x \<noteq> Unresolved then
          Inl (OutcomeRefused ''settle'' (''the operation is '' @ op_text (o_state x)))
        else if \<exists>a \<in> set (attempts_of op db). \<not> accounted db (at_id a) then
          (if o_state x = Verifying
           then unresolve c x ''an attempt is not accounted for'' ''an attempt is not accounted for'' (clk 0) db
           else Inr (stay (o_state x) SettledUnresolved ''an attempt is not accounted for'', db))
        else and_then (found (OutcomeRefused ''settle'' ''no such observation of the operation's machine'')
            (settle_view_of obs x db)) (\<lambda>v. settle_on c x v generation clk db)))"

end
