(* ===== verification/Dispatch_Tables.thy ===== *)
theory Dispatch_Tables
  imports Settle
begin

text \<open>
  What the schema demands of the dispatch tables, stated over the tables it constrains, and how the
  primitive writes of the transactions keep it: the timeline and its counters (\<open>tl_ok\<close>), one
  operation per machine and rollout scope (\<open>scope_ok\<close>), an operation's binding to its plan
  (\<open>ops_ok\<close>), numbered and bounded attempts (\<open>atts_ok\<close>), what each state says of the attempts
  (\<open>states_ok\<close>), the retries (\<open>retry_ok\<close>), the plan states (\<open>pstates_ok\<close>) and the open drift
  records (\<open>drifts_ok\<close>). The schema enforces these with unique indexes, checks and triggers; the
  model's transactions do not consult them, and the invariant shows they never had to refuse.
\<close>

section \<open>The invariants\<close>

definition revs :: "string \<Rightarrow> event list \<Rightarrow> int list" where
  "revs m tml = map ev_revision (filter (\<lambda>e. ev_machine e = m) tml)"

definition tl_ok :: "machine_row list \<Rightarrow> event list \<Rightarrow> bool" where
  "tl_ok ms tml \<longleftrightarrow> distinct (map m_id ms) \<and> (\<forall>m. sorted_wrt (<) (revs m tml)) \<and>
     (\<forall>e \<in> set tml. \<exists>r \<in> set ms. m_id r = ev_machine e \<and> ev_revision e \<le> m_rev r)"

definition ops_ok :: "operation_row list \<Rightarrow> plan_row list \<Rightarrow> bool" where
  "ops_ok os ps \<longleftrightarrow> distinct (map o_id os) \<and> distinct (map o_plan os) \<and> distinct (map p_id ps) \<and>
     (\<forall>x \<in> set os. \<exists>p \<in> set ps. p_id p = o_plan x \<and> p_machine p = o_machine x \<and> p_cluster p = o_cluster x)"

definition holder :: "operation_row \<Rightarrow> bool" where
  "holder x \<longleftrightarrow> o_kind x = ApplyConfig \<and> holding (o_state x)"

definition scope_ok :: "operation_row list \<Rightarrow> bool" where
  "scope_ok os \<longleftrightarrow> (\<forall>x \<in> set os. \<forall>y \<in> set os. holder x \<and> holder y \<and>
     (o_machine x = o_machine y \<or> o_cluster x = o_cluster y) \<longrightarrow> o_id x = o_id y)"

definition of_op :: "string \<Rightarrow> attempt_row list \<Rightarrow> attempt_row list" where
  "of_op op as = filter (\<lambda>a. at_operation a = op) as"

definition within_max :: "plan_row list \<Rightarrow> attempt_row \<Rightarrow> bool" where
  "within_max ps a \<longleftrightarrow> (\<exists>p \<in> set ps. p_id p = at_plan a \<and>
     (case p_max_attempts p of None \<Rightarrow> False | Some n \<Rightarrow> int (at_number a) \<le> n))"

definition atts_ok :: "operation_row list \<Rightarrow> plan_row list \<Rightarrow> attempt_row list \<Rightarrow> bool" where
  "atts_ok os ps as \<longleftrightarrow> distinct (map at_id as) \<and>
     (\<forall>a \<in> set as. within_max ps a \<and>
        (\<exists>x \<in> set os. o_id x = at_operation a \<and> o_kind x = ApplyConfig \<and> o_plan x = at_plan a \<and> o_machine x = at_machine a)) \<and>
     (\<forall>op. map at_number (of_op op as) = [1..<Suc (length (of_op op as))])"

definition all_accounted :: "string \<Rightarrow> attempt_row list \<Rightarrow> accounting_row list \<Rightarrow> bool" where
  "all_accounted op as ks \<longleftrightarrow> (\<forall>a \<in> set (of_op op as). at_id a \<in> ac_attempt ` set ks)"

definition state_ok :: "attempt_row list \<Rightarrow> accounting_row list \<Rightarrow> operation_row \<Rightarrow> bool" where
  "state_ok as ks x \<longleftrightarrow> o_kind x = ApplyConfig \<longrightarrow>
     (o_state x \<in> {Committed, Cancelled} \<longrightarrow> of_op (o_id x) as = []) \<and>
     (o_state x \<in> {Sending, Verifying, Completed, Failed, Rejected} \<longrightarrow> of_op (o_id x) as \<noteq> []) \<and>
     (o_state x \<in> {Completed, Failed, Rejected} \<longrightarrow> all_accounted (o_id x) as ks)"

definition states_ok :: "operation_row list \<Rightarrow> attempt_row list \<Rightarrow> accounting_row list \<Rightarrow> bool" where
  "states_ok os as ks \<longleftrightarrow> (\<forall>x \<in> set os. state_ok as ks x)"

definition answered_class :: "rclass \<Rightarrow> bool" where
  "answered_class k \<longleftrightarrow> k \<in> {Accepted, ClassRejected, InvalidArgument, GrpcCode}"

definition resps_ok :: "response_row list \<Rightarrow> accounting_row list \<Rightarrow> bool" where
  "resps_ok rs ks \<longleftrightarrow> distinct (map re_attempt rs) \<and> distinct (map ac_attempt ks) \<and>
     (\<forall>r \<in> set rs. answered_class (re_class r) \<longrightarrow> re_attempt r \<in> ac_attempt ` set ks)"

definition attempt_entered :: "event list \<Rightarrow> attempt_row \<Rightarrow> bool" where
  "attempt_entered tml a \<longleftrightarrow> (\<exists>e \<in> set tml. ev_machine e = at_machine a \<and> ev_revision e = at_revision a \<and>
     after_classification (at_operation a) (ev_entry e) \<noteq> None)"

definition class_entered :: "operation_row list \<Rightarrow> event list \<Rightarrow> classification_row \<Rightarrow> bool" where
  "class_entered os tml k \<longleftrightarrow>
     (\<exists>x \<in> set os. o_id x = k_operation k \<and> o_machine x = k_machine k) \<and>
     (\<exists>e \<in> set tml. ev_machine e = k_machine k \<and> ev_revision e = k_revision k)"

text \<open>One classification admits one attempt.\<close>

definition retries_once :: "attempt_row list \<Rightarrow> bool" where
  "retries_once as \<longleftrightarrow> (\<forall>a \<in> set as. \<forall>b \<in> set as. at_operation a = at_operation b \<and> at_classification a \<noteq> None \<and>
     at_classification a = at_classification b \<longrightarrow> at_id a = at_id b)"

definition retry_ok :: "operation_row list \<Rightarrow> attempt_row list \<Rightarrow> classification_row list \<Rightarrow> event list \<Rightarrow> bool" where
  "retry_ok os as cs tml \<longleftrightarrow>
     (\<forall>a \<in> set as. attempt_entered tml a \<and>
        (case at_classification a of None \<Rightarrow> at_number a = 1 | Some k \<Rightarrow> k < at_revision a)) \<and>
     (\<forall>k \<in> set cs. class_entered os tml k) \<and> retries_once as"

definition pstates_ok :: "plan_state_row list \<Rightarrow> operation_row list \<Rightarrow> bool" where
  "pstates_ok ss os \<longleftrightarrow> distinct (map s_plan ss) \<and>
     (\<forall>s \<in> set ss. s_state s = PlanCommitted \<longleftrightarrow> s_operation s \<noteq> None) \<and>
     (\<forall>x \<in> set os. o_kind x = ApplyConfig \<longrightarrow> (\<exists>s \<in> set ss. s_plan s = o_plan x \<and> s_operation s = Some (o_id x)))"

definition drifts_ok :: "drift_row list \<Rightarrow> bool" where
  "drifts_ok ds \<longleftrightarrow> distinct (map dr_machine (filter (\<lambda>d. dr_closed d = None) ds))"

definition core_ok :: "dispatch_db \<Rightarrow> bool" where
  "core_ok db \<longleftrightarrow> ops_ok (operations db) (plans db) \<and> scope_ok (operations db) \<and>
     atts_ok (operations db) (plans db) (attempts db) \<and>
     states_ok (operations db) (attempts db) (accountings db) \<and> resps_ok (responses db) (accountings db) \<and>
     retry_ok (operations db) (attempts db) (classifications db) (timeline db)"

definition dispatch_inv :: "dispatch_db \<Rightarrow> bool" where
  "dispatch_inv db \<longleftrightarrow> tl_ok (machines db) (timeline db) \<and> core_ok db \<and>
     pstates_ok (plan_states db) (operations db) \<and> drifts_ok (drifts db)"

section \<open>Entries\<close>

definition entered :: "string \<Rightarrow> string \<Rightarrow> entry \<Rightarrow> int \<Rightarrow> int \<Rightarrow> dispatch_db \<Rightarrow> dispatch_db" where
  "entered m ep e at rv db = db\<lparr>machines := sql_update (\<lambda>r. m_id r = m) (\<lambda>r. r\<lparr>m_rev := m_rev r + 1\<rparr>) (machines db),
     timeline := timeline db @ [\<lparr>ev_machine = m, ev_revision = rv, ev_epoch = ep, ev_entry = e, ev_at = at\<rparr>]\<rparr>"

lemma append_entry_ok [tx_simps]:
  "append_entry m ep e at db = Inr (rv, db') \<longleftrightarrow>
     (\<exists>r. keyed m_id m (machines db) = Some r \<and> rv = m_rev r + 1 \<and> db' = entered m ep e at rv db)"
  by (auto simp: append_entry_def next_entry_def add_event_def entered_def split: option.splits)

lemma drift_entry_append:
  "drift_entry m ep rec change res obs late at db =
     (case keyed m_id m (machines db) of None \<Rightarrow> Inl ErrNoRows
      | Some r \<Rightarrow> append_entry m ep (EDrift (if rec = 0 then m_rev r + 1 else rec) change obs res late) at db)"
  by (auto simp: drift_entry_def append_entry_def next_entry_def split: option.splits)

lemma entered_sel [simp]:
  "inst_epoch (entered m ep e at rv db) = inst_epoch db"
  "recovery_mode (entered m ep e at rv db) = recovery_mode db"
  "clusters (entered m ep e at rv db) = clusters db"
  "mstates (entered m ep e at rv db) = mstates db"
  "assignments (entered m ep e at rv db) = assignments db"
  "releases (entered m ep e at rv db) = releases db"
  "release_machines (entered m ep e at rv db) = release_machines db"
  "plans (entered m ep e at rv db) = plans db"
  "plan_states (entered m ep e at rv db) = plan_states db"
  "approvals (entered m ep e at rv db) = approvals db"
  "principals (entered m ep e at rv db) = principals db"
  "approval_revocations (entered m ep e at rv db) = approval_revocations db"
  "cancellations (entered m ep e at rv db) = cancellations db"
  "identity_revocations (entered m ep e at rv db) = identity_revocations db"
  "operations (entered m ep e at rv db) = operations db"
  "attempts (entered m ep e at rv db) = attempts db"
  "responses (entered m ep e at rv db) = responses db"
  "accountings (entered m ep e at rv db) = accountings db"
  "classifications (entered m ep e at rv db) = classifications db"
  "obs_starts (entered m ep e at rv db) = obs_starts db"
  "observations (entered m ep e at rv db) = observations db"
  "drifts (entered m ep e at rv db) = drifts db"
  "freezes (entered m ep e at rv db) = freezes db"
  by (simp_all add: entered_def)

lemma timeline_entered: "timeline (entered m ep e at rv db) = timeline db @
    [\<lparr>ev_machine = m, ev_revision = rv, ev_epoch = ep, ev_entry = e, ev_at = at\<rparr>]"
  by (simp add: entered_def)

lemma update_op_sel [simp]:
  "operations (update_op op f db) = sql_update (\<lambda>x. o_id x = op) f (operations db)"
  "machines (update_op op f db) = machines db" "timeline (update_op op f db) = timeline db"
  "plans (update_op op f db) = plans db" "attempts (update_op op f db) = attempts db"
  "accountings (update_op op f db) = accountings db" "responses (update_op op f db) = responses db"
  "classifications (update_op op f db) = classifications db" "plan_states (update_op op f db) = plan_states db"
  "drifts (update_op op f db) = drifts db" "inst_epoch (update_op op f db) = inst_epoch db"
  "mstates (update_op op f db) = mstates db"
  by (simp_all add: update_op_def)

text \<open>A timeline grows by entries at the machine's next revision only.\<close>

definition tl_ext :: "dispatch_db \<Rightarrow> dispatch_db \<Rightarrow> bool" where
  "tl_ext db db' \<longleftrightarrow> (\<exists>es. timeline db' = timeline db @ es) \<and>
     (tl_ok (machines db) (timeline db) \<longrightarrow> tl_ok (machines db') (timeline db')) \<and>
     map m_id (machines db') = map m_id (machines db)"

lemma tl_ext_refl: "tl_ext db db"
  by (simp add: tl_ext_def)

lemma tl_ext_trans: "tl_ext a b \<Longrightarrow> tl_ext b c \<Longrightarrow> tl_ext a c"
  by (auto simp: tl_ext_def)

lemma revs_append: "revs m (tml @ es) = revs m tml @ revs m es"
  by (simp add: revs_def)

lemma machine_entered:
  assumes "x \<in> set (machines db)"
  shows "\<exists>y \<in> set (machines (entered m ep e at rv db)). m_id y = m_id x \<and>
    m_rev y = m_rev x + (if m_id x = m then 1 else 0)"
proof
  let ?y = "if m_id x = m then x\<lparr>m_rev := m_rev x + 1\<rparr> else x"
  show "?y \<in> set (machines (entered m ep e at rv db))"
    using in_sql_updateI [OF assms, of "\<lambda>r. m_id r = m" "\<lambda>r. r\<lparr>m_rev := m_rev r + 1\<rparr>"] by (simp add: entered_def)
qed simp

lemma tl_ok_entered:
  assumes ok: "tl_ok (machines db) (timeline db)" and r: "keyed m_id m (machines db) = Some r"
  shows "tl_ok (machines (entered m ep e at (m_rev r + 1) db)) (timeline (entered m ep e at (m_rev r + 1) db))"
proof -
  let ?ms = "machines (entered m ep e at (m_rev r + 1) db)"
  have ids: "map m_id ?ms = map m_id (machines db)"
    by (simp add: entered_def map_key_sql_update)
  have rin: "r \<in> set (machines db)" "m_id r = m" using r by (auto dest: keyed_Some)
  have uniq: "x = r" if "x \<in> set (machines db)" "m_id x = m" for x
    using ok that rin by (auto simp: tl_ok_def distinct_map inj_on_def)
  have le: "x \<le> m_rev r" if x: "x \<in> set (revs m (timeline db))" for x
  proof -
    obtain ev where ev: "ev \<in> set (timeline db)" "ev_machine ev = m" "x = ev_revision ev"
      using x by (auto simp: revs_def)
    then obtain y where "y \<in> set (machines db)" "m_id y = m" "x \<le> m_rev y"
      using ok by (auto simp: tl_ok_def)
    then show ?thesis using uniq by blast
  qed
  have sorted: "sorted_wrt (<) (revs k (timeline (entered m ep e at (m_rev r + 1) db)))" for k
    using ok le by (force simp: tl_ok_def timeline_entered revs_append sorted_wrt_append revs_def)
  have bound: "\<exists>y \<in> set ?ms. m_id y = ev_machine ev \<and> ev_revision ev \<le> m_rev y"
    if "ev \<in> set (timeline (entered m ep e at (m_rev r + 1) db))" for ev
  proof (cases "ev \<in> set (timeline db)")
    case True
    then obtain y where y: "y \<in> set (machines db)" "m_id y = ev_machine ev" "ev_revision ev \<le> m_rev y"
      using ok by (auto simp: tl_ok_def)
    then show ?thesis using machine_entered [OF y(1), of m ep e at "m_rev r + 1"] by (auto split: if_splits)
  next
    case False
    then have "ev_machine ev = m \<and> ev_revision ev = m_rev r + 1" using that by (auto simp: timeline_entered)
    then show ?thesis using rin machine_entered [OF rin(1), of m ep e at "m_rev r + 1"] by auto
  qed
  show ?thesis using ok ids sorted bound by (auto simp: tl_ok_def)
qed

lemma machine_ids_entered: "map m_id (machines (entered m ep e at rv db)) = map m_id (machines db)"
  by (simp add: entered_def map_key_sql_update)

lemma tl_ext_entered: "keyed m_id m (machines db) = Some r \<Longrightarrow> tl_ext db (entered m ep e at (m_rev r + 1) db)"
  unfolding tl_ext_def by (intro conjI impI tl_ok_entered machine_ids_entered) (simp_all add: timeline_entered)

lemma tl_ext_entered_over:
  "keyed m_id m (machines db1) = Some r \<Longrightarrow> machines db1 = machines db \<Longrightarrow> timeline db1 = timeline db \<Longrightarrow>
   tl_ext db (entered m ep e at (m_rev r + 1) db1)"
  using tl_ext_entered [of m db1 r ep e at] by (simp add: tl_ext_def)

section \<open>Unchanged tables\<close>

definition core_frame :: "dispatch_db \<Rightarrow> dispatch_db \<Rightarrow> bool" where
  "core_frame db db' \<longleftrightarrow> operations db' = operations db \<and> plans db' = plans db \<and> attempts db' = attempts db \<and>
     accountings db' = accountings db \<and> responses db' = responses db \<and> classifications db' = classifications db"

lemma core_frame_refl: "core_frame db db"
  by (simp add: core_frame_def)

lemma core_frame_trans: "core_frame a b \<Longrightarrow> core_frame b c \<Longrightarrow> core_frame a c"
  by (simp add: core_frame_def)

lemma attempt_entered_ext: "attempt_entered tml a \<Longrightarrow> attempt_entered (tml @ es) a"
  by (auto simp: attempt_entered_def)

lemma class_entered_ext: "class_entered os tml k \<Longrightarrow> class_entered os (tml @ es) k"
  by (auto simp: class_entered_def)

lemma retry_ok_ext: "retry_ok os as cs tml \<Longrightarrow> retry_ok os as cs (tml @ es)"
  unfolding retry_ok_def using attempt_entered_ext class_entered_ext by blast

lemma core_ok_frame: "core_frame db db' \<Longrightarrow> tl_ext db db' \<Longrightarrow> core_ok db \<Longrightarrow> core_ok db'"
  by (auto simp: core_frame_def tl_ext_def core_ok_def intro: retry_ok_ext)

section \<open>One operation's row\<close>

text \<open>Every operation is still there, bound as it was.\<close>

definition rebound :: "operation_row list \<Rightarrow> operation_row list \<Rightarrow> bool" where
  "rebound os os' \<longleftrightarrow> (\<forall>x \<in> set os. \<exists>y \<in> set os'.
     o_id y = o_id x \<and> o_kind y = o_kind x \<and> o_plan y = o_plan x \<and> o_machine y = o_machine x)"

lemma atts_ok_rebound:
  assumes "rebound os os'" and "atts_ok os ps as"
  shows "atts_ok os' ps as"
proof -
  have "\<exists>y \<in> set os'. o_id y = at_operation a \<and> o_kind y = ApplyConfig \<and> o_plan y = at_plan a \<and> o_machine y = at_machine a"
    if a: "a \<in> set as" for a
  proof -
    obtain x where "x \<in> set os" "o_id x = at_operation a" "o_kind x = ApplyConfig" "o_plan x = at_plan a"
        "o_machine x = at_machine a"
      using assms(2) a unfolding atts_ok_def by blast
    then show ?thesis using assms(1) unfolding rebound_def by metis
  qed
  then show ?thesis using assms(2) unfolding atts_ok_def by blast
qed

lemma class_entered_rebound:
  assumes "rebound os os'" and "class_entered os tml k"
  shows "class_entered os' tml k"
proof -
  obtain x where "x \<in> set os" "o_id x = k_operation k" "o_machine x = k_machine k"
    using assms(2) unfolding class_entered_def by blast
  then have "\<exists>y \<in> set os'. o_id y = k_operation k \<and> o_machine y = k_machine k"
    using assms(1) unfolding rebound_def by metis
  then show ?thesis using assms(2) unfolding class_entered_def by blast
qed

lemma retry_ok_rebound: "rebound os os' \<Longrightarrow> retry_ok os as cs tml \<Longrightarrow> retry_ok os' as cs tml"
  unfolding retry_ok_def using class_entered_rebound by blast

text \<open>An update of the operation \<open>op\<close> that keeps what it is bound to.\<close>

locale op_update = keyed_update o_id op "\<lambda>x. o_id x = op" f
  for op :: string and f :: "operation_row \<Rightarrow> operation_row" +
  assumes f_bound: "o_kind (f x) = o_kind x \<and> o_plan (f x) = o_plan x \<and> o_machine (f x) = o_machine x \<and>
    o_cluster (f x) = o_cluster x"
begin

lemma plans_kept: "map o_plan (sql_update (\<lambda>x. o_id x = op) f os) = map o_plan os"
  by (rule map_key_sql_update) (simp add: f_bound)

lemma ops_kept: "ops_ok os ps \<Longrightarrow> ops_ok (sql_update (\<lambda>x. o_id x = op) f os) ps"
  unfolding ops_ok_def distinct_kept plans_kept by (auto elim!: in_sql_updateE simp: f_bound)

lemma updated_bound:
  "x \<in> set os \<Longrightarrow> \<exists>y \<in> set (sql_update (\<lambda>x. o_id x = op) f os).
     o_id y = o_id x \<and> o_kind y = o_kind x \<and> o_plan y = o_plan x \<and> o_machine y = o_machine x"
  using in_sql_updateI [of x os "\<lambda>x. o_id x = op" f] f_key [of x] f_bound [of x] by (cases "o_id x = op") auto

lemma rebound: "rebound os (sql_update (\<lambda>x. o_id x = op) f os)"
  unfolding rebound_def using updated_bound by blast

lemma scope_kept:
  assumes "scope_ok os" and "\<And>x. x \<in> set os \<Longrightarrow> o_id x = op \<Longrightarrow> holder (f x) \<Longrightarrow> holder x"
  shows "scope_ok (sql_update (\<lambda>x. o_id x = op) f os)"
proof -
  have "\<exists>y \<in> set os. o_id y = o_id x \<and> o_machine y = o_machine x \<and> o_cluster y = o_cluster x \<and> (holder x \<longrightarrow> holder y)"
    if "x \<in> set (sql_update (\<lambda>x. o_id x = op) f os)" for x
    using that assms(2) f_key by (auto elim!: in_sql_updateE simp: f_bound intro: bexI)
  then show ?thesis using assms(1) unfolding scope_ok_def by metis
qed

lemma states_kept:
  assumes "states_ok os as ks" and "\<And>x. x \<in> set os \<Longrightarrow> o_id x = op \<Longrightarrow> state_ok as ks (f x)"
  shows "states_ok (sql_update (\<lambda>x. o_id x = op) f os) as ks"
  using assms by (auto simp: states_ok_def elim!: in_sql_updateE)

lemma pstates_kept: "pstates_ok ss os \<Longrightarrow> pstates_ok ss (sql_update (\<lambda>x. o_id x = op) f os)"
  unfolding pstates_ok_def by (auto elim!: in_sql_updateE simp: f_bound f_key)

end

lemma op_of: "ops_ok (operations db) ps \<Longrightarrow> operation_of op db = Some x \<Longrightarrow>
    x \<in> set (operations db) \<and> o_id x = op \<and> (\<forall>y \<in> set (operations db). o_id y = op \<longrightarrow> y = x)"
  by (auto simp: operation_of_def ops_ok_def distinct_map inj_on_def dest!: keyed_Some)

end
