(* ===== verification/Dispatch_Moves.thy ===== *)
theory Dispatch_Moves
  imports Dispatch_Tables
begin

text \<open>
  The life of one operation as the schema's trigger allows it, the relation \<open>good\<close> between the tables
  before and after a transaction (the invariant of \<open>Dispatch_Tables\<close> kept, the timelines extended, every
  operation evolved along its transitions), and that the writes the transactions share are \<open>good\<close>:
  an entry, a move, a classification, a drift record.
\<close>

section \<open>One operation's life\<close>

text \<open>The transitions the schema's trigger \<^verbatim>\<open>refuse_operation_transition\<close> lets through.\<close>

definition op_transition :: "ostate \<Rightarrow> ostate \<Rightarrow> bool" where
  "op_transition s s' \<longleftrightarrow>
     s = Committed \<and> s' \<in> {Sending, Unresolved} \<or>
     s = Sending \<and> s' \<in> {Verifying, Rejected, Unresolved} \<or>
     s = Verifying \<and> s' \<in> {Completed, Failed, Unresolved} \<or>
     s = Unresolved \<and> s' \<in> {Completed, Failed, Rejected, Sending, Cancelled}"

type_synonym aop = "int \<times> ostate"

inductive op_step :: "aop \<Rightarrow> aop \<Rightarrow> bool" where
  moved: "op_transition s s' \<Longrightarrow> op_step (g, s) (g, s')"
| taken: "holding s \<Longrightarrow> op_step (g, s) (g + 1, Unresolved)"

inductive_cases op_stepE: "op_step (g, s) b"

definition abs_op :: "operation_row \<Rightarrow> aop" where
  "abs_op x = (o_gen x, o_state x)"

definition op_binding :: "operation_row \<Rightarrow> plan_kind \<times> string \<times> string \<times> string \<times> string \<times> int" where
  "op_binding x = (o_kind x, o_epoch x, o_plan x, o_machine x, o_cluster x, o_created x)"

definition row_evolves :: "operation_row \<Rightarrow> operation_row \<Rightarrow> bool" where
  "row_evolves x y \<longleftrightarrow> op_binding y = op_binding x \<and> op_step\<^sup>*\<^sup>* (abs_op x) (abs_op y) \<and>
     (\<not> holding (o_state x) \<longrightarrow> y = x)"

definition evolves :: "dispatch_db \<Rightarrow> dispatch_db \<Rightarrow> bool" where
  "evolves db db' \<longleftrightarrow>
     (\<forall>op x. operation_of op db = Some x \<longrightarrow> (\<exists>y. operation_of op db' = Some y \<and> row_evolves x y)) \<and>
     (\<forall>op y. operation_of op db = None \<longrightarrow> operation_of op db' = Some y \<longrightarrow> op_step\<^sup>*\<^sup>* (1, Committed) (abs_op y))"

lemma op_step_final: "op_step\<^sup>*\<^sup>* a b \<Longrightarrow> \<not> holding (snd a) \<Longrightarrow> b = a"
proof (induction rule: converse_rtranclp_induct)
  case (step a c)
  then show ?case by (cases a) (auto elim!: op_stepE simp: op_transition_def holding_def)
qed simp

lemma op_step_gen: "op_step\<^sup>*\<^sup>* a b \<Longrightarrow> fst a \<le> fst b"
  by (induction rule: rtranclp_induct) (auto elim!: op_step.cases)

lemma row_evolves_refl: "row_evolves x x"
  by (simp add: row_evolves_def)

lemma row_evolves_trans:
  assumes "row_evolves x y" "row_evolves y z"
  shows "row_evolves x z"
proof -
  have "z = x" if "\<not> holding (o_state x)" using assms that by (auto simp: row_evolves_def)
  with assms show ?thesis by (auto simp: row_evolves_def intro: rtranclp_trans)
qed

lemma evolves_frame: "operations db' = operations db \<Longrightarrow> evolves db db'"
  by (auto simp: evolves_def operation_of_def row_evolves_refl)

lemma evolves_trans:
  assumes ab: "evolves a b" and bc: "evolves b c"
  shows "evolves a c"
proof -
  have "\<exists>z. operation_of op c = Some z \<and> row_evolves x z" if x: "operation_of op a = Some x" for op x
  proof -
    obtain y where y: "operation_of op b = Some y" "row_evolves x y"
      using ab x unfolding evolves_def by blast
    then obtain z where "operation_of op c = Some z" "row_evolves y z"
      using bc unfolding evolves_def by blast
    with y show ?thesis by (auto intro: row_evolves_trans)
  qed
  moreover have "op_step\<^sup>*\<^sup>* (1, Committed) (abs_op z)"
    if x: "operation_of op a = None" "operation_of op c = Some z" for op z
  proof (cases "operation_of op b")
    case None
    then show ?thesis using bc x(2) unfolding evolves_def by blast
  next
    case (Some y)
    then have "op_step\<^sup>*\<^sup>* (1, Committed) (abs_op y)" using ab x(1) unfolding evolves_def by blast
    moreover have "row_evolves y z" using bc Some x(2) unfolding evolves_def by (metis option.inject)
    ultimately show ?thesis by (auto simp: row_evolves_def intro: rtranclp_trans)
  qed
  ultimately show ?thesis unfolding evolves_def by blast
qed

lemma evolves_update:
  assumes "operation_of op db = Some x" and "op = o_id x" and "row_evolves x (f x)"
    and "operations db' = sql_update (\<lambda>x. o_id x = op) f (operations db)"
    and "\<And>y. o_id (f y) = o_id y"
  shows "evolves db db'"
proof -
  have "operation_of op' db' = map_option (\<lambda>y. if o_id y = op then f y else y) (operation_of op' db)" for op'
    using assms(4,5) by (simp add: operation_of_def keyed_sql_update)
  moreover have "y = x" if "operation_of op' db = Some y" "o_id y = op" for op' y
    using that assms(1) keyed_Some [of o_id op' "operations db" y] by (auto simp: operation_of_def)
  ultimately show ?thesis using assms(3) by (auto simp: evolves_def row_evolves_refl)
qed

section \<open>Steps that keep the invariant\<close>

definition good :: "dispatch_db \<Rightarrow> dispatch_db \<Rightarrow> bool" where
  "good db db' \<longleftrightarrow> dispatch_inv db' \<and> tl_ext db db' \<and> evolves db db'"

lemma good_refl: "dispatch_inv db \<Longrightarrow> good db db"
  by (simp add: good_def tl_ext_refl evolves_frame)

lemma good_trans: "good a b \<Longrightarrow> good b c \<Longrightarrow> good a c"
  by (auto simp: good_def intro: tl_ext_trans evolves_trans)

lemma good_inv: "good a b \<Longrightarrow> dispatch_inv b"
  by (simp add: good_def)

lemma good_frame:
  assumes "dispatch_inv db" "core_frame db db'" "tl_ext db db'"
    and "pstates_ok (plan_states db') (operations db)" "drifts_ok (drifts db')"
  shows "good db db'"
  using assms core_ok_frame [of db db']
  by (auto simp: good_def dispatch_inv_def tl_ext_def core_frame_def intro: evolves_frame)

lemma good_entered:
  "dispatch_inv db \<Longrightarrow> keyed m_id m (machines db) = Some r \<Longrightarrow> good db (entered m ep e at (m_rev r + 1) db)"
  by (rule good_frame) (auto simp: core_frame_def dispatch_inv_def intro: tl_ext_entered)

text \<open>The operation's row changed, the entry appended, every other table as it was.\<close>

lemma good_update:
  assumes inv: "dispatch_inv db" and x: "operation_of op db = Some x" and f: "op_update op f"
    and ev: "row_evolves x (f x)" and hold: "holder (f x) \<longrightarrow> holder x"
    and st: "state_ok (attempts db) (accountings db) (f x)" and id: "\<And>y. o_id (f y) = o_id y"
    and m: "keyed m_id m (machines db) = Some r"
  shows "good db (entered m ep e at (m_rev r + 1) (update_op op f db))"
proof -
  let ?d = "entered m ep e at (m_rev r + 1) (update_op op f db)"
  have ops: "ops_ok (operations db) (plans db)" using inv by (simp add: dispatch_inv_def core_ok_def)
  have only: "y = x" if "y \<in> set (operations db)" "o_id y = op" for y
    using op_of [OF ops x] that by blast
  have oid: "op = o_id x" using op_of [OF ops x] by simp
  have ext: "tl_ext db ?d" using m by (intro tl_ext_entered_over) simp_all
  let ?os = "sql_update (\<lambda>x. o_id x = op) f (operations db)"
  have reb: "rebound (operations db) ?os" by (rule op_update.rebound [OF f])
  have core: "core_ok db" using inv by (simp add: dispatch_inv_def)
  have "ops_ok ?os (plans db)" using ops by (rule op_update.ops_kept [OF f])
  moreover have "scope_ok ?os"
    using core hold only by (intro op_update.scope_kept [OF f]) (auto simp: core_ok_def)
  moreover have "atts_ok ?os (plans db) (attempts db)"
    using core by (intro atts_ok_rebound [OF reb]) (simp add: core_ok_def)
  moreover have "states_ok ?os (attempts db) (accountings db)"
    using core st only by (intro op_update.states_kept [OF f]) (auto simp: core_ok_def)
  moreover have "retry_ok ?os (attempts db) (classifications db) (timeline ?d)"
    using core unfolding timeline_entered
    by (intro retry_ok_ext retry_ok_rebound [OF reb]) (simp add: core_ok_def)
  ultimately have "core_ok ?d" using core by (simp add: core_ok_def)
  moreover have "pstates_ok (plan_states db) ?os"
    using inv by (intro op_update.pstates_kept [OF f]) (simp add: dispatch_inv_def)
  moreover have "evolves db ?d" by (rule evolves_update [OF x oid ev _ id]) simp
  ultimately show ?thesis using inv ext by (simp add: good_def dispatch_inv_def tl_ext_def)
qed

lemma op_update_state: "(\<And>y. f y = y\<lparr>o_state := g y, o_owner := a y, o_gen := b y, o_owner_epoch := c y, o_result := d y, o_error := e y\<rparr>) \<Longrightarrow>
    op_update op f"
  by unfold_locales simp_all

lemma state_ok_cong: "o_kind y = o_kind x \<Longrightarrow> o_id y = o_id x \<Longrightarrow> o_state y = o_state x \<Longrightarrow>
    state_ok as ks y = state_ok as ks x"
  by (simp add: state_ok_def)

lemma row_evolves_move:
  "op_transition (o_state x) to \<Longrightarrow> op_binding y = op_binding x \<Longrightarrow> abs_op y = (o_gen x, to) \<Longrightarrow> row_evolves x y"
  by (auto simp: row_evolves_def abs_op_def op_transition_def holding_def intro!: r_into_rtranclp op_step.moved)

lemma transition_holds: "op_transition s s' \<Longrightarrow> holding s"
  by (auto simp: op_transition_def holding_def)

text \<open>A move of the operation to \<open>to\<close>, whatever else of the row it writes.\<close>

lemma good_move:
  assumes "dispatch_inv db" "operation_of op db = Some x" "o_kind x = ApplyConfig" "op_transition (o_state x) to"
    and "state_ok (attempts db) (accountings db) (x\<lparr>o_state := to\<rparr>)" and "keyed m_id m (machines db) = Some r"
    and f: "\<And>y. f y = y\<lparr>o_state := to, o_result := a y, o_error := b y\<rparr>"
  shows "good db (entered m ep e at (m_rev r + 1) (update_op op f db))"
proof (rule good_update [OF assms(1,2)])
  show "op_update op f" by (rule op_update_state [where a = o_owner and b = o_gen and c = o_owner_epoch]) (simp add: f)
  show "row_evolves x (f x)"
    using assms(4) by (rule row_evolves_move) (simp_all add: f op_binding_def abs_op_def)
  show "holder (f x) \<longrightarrow> holder x" using assms(3,4) by (auto simp: holder_def dest: transition_holds)
  show "state_ok (attempts db) (accountings db) (f x)"
    using assms(5) state_ok_cong [of "f x" "x\<lparr>o_state := to\<rparr>"] by (simp add: f)
qed (simp_all add: f assms)

lemma operation_of_entered [simp]: "operation_of op (entered m ep e at rv db) = operation_of op db"
  by (simp add: operation_of_def)

lemma operation_of_update: "(\<And>y. o_id (f y) = o_id y) \<Longrightarrow>
    operation_of op (update_op op f db) = map_option f (operation_of op db)"
  by (cases "keyed o_id op (operations db)") (auto simp: operation_of_def keyed_sql_update dest: keyed_Some)

lemma good_move_operation:
  assumes "move_operation c x to cause res err at db = Inr db'" "dispatch_inv db"
    and "operation_of (o_id x) db = Some x" "o_kind x = ApplyConfig" "op_transition (o_state x) to"
    and "state_ok (attempts db) (accountings db) (x\<lparr>o_state := to\<rparr>)"
  shows "good db db'"
proof -
  obtain r where "keyed m_id (o_machine x) (machines db) = Some r"
    "db' = entered (o_machine x) (inst_epoch db)
      (EOpState (o_id x) (o_state x) to (owner_text x) (o_gen x) (Some (ctl_id c)) None cause) at (m_rev r + 1)
      (update_op (o_id x) (\<lambda>y. y\<lparr>o_state := to, o_result := res, o_error := err\<rparr>) db)"
    using assms(1) by (auto simp: move_operation_def tx_simps)
  then show ?thesis using good_move [OF assms(2-6), of "o_machine x" r] by simp
qed

lemma move_operation_frame:
  "move_operation c x to cause res err at db = Inr db' \<Longrightarrow>
   attempts db' = attempts db \<and> accountings db' = accountings db \<and> responses db' = responses db \<and> plans db' = plans db \<and>
   drifts db' = drifts db \<and> mstates db' = mstates db \<and> inst_epoch db' = inst_epoch db \<and>
   operation_of (o_id x) db' = map_option (\<lambda>y. y\<lparr>o_state := to, o_result := res, o_error := err\<rparr>) (operation_of (o_id x) db)"
  by (auto simp: move_operation_def tx_simps operation_of_update)

lemma retry_ok_class: "retry_ok os as cs tml \<Longrightarrow> class_entered os tml k \<Longrightarrow> retry_ok os as (cs @ [k]) tml"
  by (simp add: retry_ok_def)

text \<open>A classification is entered and recorded; no other table changes.\<close>

lemma good_classify:
  assumes "classify c x outcome obs relied gen at db = Inr (rv, db')" and inv: "dispatch_inv db"
    and x: "operation_of (o_id x) db = Some x"
  shows "good db db'"
proof -
  obtain r where r: "keyed m_id (o_machine x) (machines db) = Some r"
    and db': "rv = m_rev r + 1" "operations db' = operations db" "attempts db' = attempts db" "accountings db' = accountings db"
      "responses db' = responses db" "plans db' = plans db" "plan_states db' = plan_states db" "drifts db' = drifts db"
      "machines db' = machines (entered (o_machine x) (inst_epoch db) (EClassification (o_id x) outcome obs relied (ctl_id c) gen) at (m_rev r + 1) db)"
      "timeline db' = timeline (entered (o_machine x) (inst_epoch db) (EClassification (o_id x) outcome obs relied (ctl_id c) gen) at (m_rev r + 1) db)"
      "\<exists>k. classifications db' = classifications db @ [k] \<and> k_operation k = o_id x \<and> k_machine k = o_machine x \<and> k_revision k = rv"
    using assms(1) by (auto simp: classify_def tx_simps)
  have ext: "tl_ext db db'"
    using tl_ext_entered [OF r] db'(9,10) by (simp add: tl_ext_def)
  obtain k where k: "classifications db' = classifications db @ [k]" "k_operation k = o_id x" "k_machine k = o_machine x"
      "k_revision k = m_rev r + 1" using db'(1,11) by auto
  have "x \<in> set (operations db)" using x by (auto simp: operation_of_def dest: keyed_Some)
  then have "class_entered (operations db) (timeline db') k"
    using k db'(10) by (auto simp: class_entered_def timeline_entered)
  moreover have "retry_ok (operations db) (attempts db) (classifications db) (timeline db')"
    using inv ext by (auto simp: dispatch_inv_def core_ok_def tl_ext_def intro: retry_ok_ext)
  ultimately have "retry_ok (operations db) (attempts db) (classifications db') (timeline db')"
    unfolding k(1) by (intro retry_ok_class)
  with inv ext db' show ?thesis
    by (auto simp: good_def dispatch_inv_def core_ok_def tl_ext_def intro: evolves_frame)
qed

lemma classify_frame:
  "classify c x outcome obs relied gen at db = Inr (rv, db') \<Longrightarrow>
   operations db' = operations db \<and> attempts db' = attempts db \<and> accountings db' = accountings db \<and>
   responses db' = responses db \<and> plans db' = plans db \<and> drifts db' = drifts db \<and> mstates db' = mstates db \<and>
   inst_epoch db' = inst_epoch db"
  by (auto simp: classify_def tx_simps)

section \<open>Drift and observations\<close>

lemma open_drift_None: "open_drift m db = None \<Longrightarrow> d \<in> set (drifts db) \<Longrightarrow> dr_machine d = m \<Longrightarrow> dr_closed d \<noteq> None"
  by (auto simp: open_drift_def sql_row_None)

lemma drifts_ok_open: "drifts_ok ds \<Longrightarrow> (\<And>d. d \<in> set ds \<Longrightarrow> dr_machine d = m \<Longrightarrow> dr_closed d \<noteq> None) \<Longrightarrow>
    dr_machine n = m \<Longrightarrow> drifts_ok (ds @ [n])"
  by (fastforce simp: drifts_ok_def)

lemma drifts_ok_update:
  assumes "drifts_ok ds" and "\<And>d. dr_machine (f d) = dr_machine d" and "\<And>d. dr_closed (f d) = None \<Longrightarrow> dr_closed d = None"
  shows "drifts_ok (sql_update p f ds)"
  using assms(1)
proof (induction ds)
  case (Cons d ds)
  have sub: "dr_machine ` {x \<in> set (sql_update p f ds). dr_closed x = None} \<subseteq> dr_machine ` {x \<in> set ds. dr_closed x = None}"
    using assms(2,3) by (auto elim!: in_sql_updateE split: if_splits)
  have "drifts_ok ds" using Cons.prems by (simp add: drifts_ok_def split: if_splits)
  then have "drifts_ok (sql_update p f ds)" by (rule Cons.IH)
  then show ?case using Cons.prems sub assms(2,3) by (auto simp: drifts_ok_def split: if_splits)
qed (simp add: drifts_ok_def)

lemma drift_entry_ok [tx_simps]:
  "drift_entry m ep rec change res obs late at db = Inr (rv, db') \<longleftrightarrow>
     (\<exists>r. keyed m_id m (machines db) = Some r \<and> rv = m_rev r + 1 \<and>
        db' = entered m ep (EDrift (if rec = 0 then m_rev r + 1 else rec) change obs res late) at rv db)"
  by (auto simp: drift_entry_append tx_simps split: option.splits)

lemma update_drift_sel [simp]:
  "drifts (update_drift m opened f db) = sql_update (\<lambda>d. dr_machine d = m \<and> dr_opened d = opened) f (drifts db)"
  "operations (update_drift m opened f db) = operations db" "machines (update_drift m opened f db) = machines db"
  "timeline (update_drift m opened f db) = timeline db" "plans (update_drift m opened f db) = plans db"
  "attempts (update_drift m opened f db) = attempts db" "accountings (update_drift m opened f db) = accountings db"
  "responses (update_drift m opened f db) = responses db" "classifications (update_drift m opened f db) = classifications db"
  "plan_states (update_drift m opened f db) = plan_states db" "mstates (update_drift m opened f db) = mstates db"
  by (simp_all add: update_drift_def)

lemma tl_ext_same: "machines a = machines b \<Longrightarrow> timeline a = timeline b \<Longrightarrow> tl_ext db b \<Longrightarrow> tl_ext db a"
  by (simp add: tl_ext_def)

text \<open>A change of the drift records after one drift entry.\<close>

lemma good_drift:
  assumes "dispatch_inv db" "keyed m_id m (machines db) = Some r" "core_frame db db'" "plan_states db' = plan_states db"
    and "machines db' = machines (entered m ep e at (m_rev r + 1) db)"
    and "timeline db' = timeline (entered m ep e at (m_rev r + 1) db)" and "drifts_ok (drifts db')"
  shows "good db db'"
proof (rule good_frame [OF assms(1,3)])
  show "tl_ext db db'" using assms(5,6) tl_ext_entered [OF assms(2)] by (intro tl_ext_same [of db'])
  show "pstates_ok (plan_states db') (operations db)" using assms(1,4) by (simp add: dispatch_inv_def)
qed fact

lemma good_apply_drift:
  assumes "apply_drift m ep obs failing at db = Inr (change, db')" "dispatch_inv db"
  shows "good db db'"
proof -
  have ds: "drifts_ok (drifts db)" using assms(2) by (simp add: dispatch_inv_def)
  show ?thesis
  proof (cases "db' = db")
    case True
    then show ?thesis using assms(2) by (simp add: good_refl)
  next
    case False
    then obtain basis dg applied where dd: "drift_digests m obs db = Some (basis, dg, applied)"
        "\<not> drift_excluded m basis obs failing db"
      using assms(1) by (auto simp: apply_drift_def split: option.splits if_splits)
    show ?thesis
    proof (cases "open_drift m db")
      case None
      then obtain r where *: "keyed m_id m (machines db) = Some r"
          "db' = (entered m ep (EDrift (m_rev r + 1) ''opened'' obs None (late_landing m dg db)) at (m_rev r + 1) db)
            \<lparr>drifts := drifts db @ [\<lparr>dr_machine = m, dr_opened = m_rev r + 1, dr_observation = obs, dr_applied = applied,
              dr_observed = dg, dr_last = obs, dr_late = late_landing m dg db, dr_closed = None, dr_resolution = None\<rparr>]\<rparr>"
        using assms(1) dd False by (auto simp: apply_drift_def tx_simps Let_def split: if_splits)
      show ?thesis using *(2)
        by (intro good_drift [OF assms(2) *(1)])
          (simp_all add: core_frame_def drifts_ok_open [OF ds open_drift_None [OF None]])
    next
      case (Some opened)
      then obtain r f e where *: "keyed m_id m (machines db) = Some r"
          "db' = update_drift m opened f (entered m ep e at (m_rev r + 1) db)"
          "\<And>d. dr_machine (f d) = dr_machine d" "\<And>d. dr_closed (f d) = None \<Longrightarrow> dr_closed d = None"
      proof (cases "dg = applied")
        case True
        then obtain r where "keyed m_id m (machines db) = Some r"
          "db' = update_drift m opened (close_drift (m_rev r + 1) ''returned'') (entered m ep
            (EDrift (if opened = 0 then m_rev r + 1 else opened) ''closed'' obs (Some ''returned'') None) at (m_rev r + 1) db)"
          using assms(1) dd False Some by (auto simp: apply_drift_def tx_simps Let_def split: if_splits)
        then show ?thesis by (rule that) (simp_all add: close_drift_def)
      next
        case False
        then obtain r where "keyed m_id m (machines db) = Some r"
          "db' = update_drift m opened (\<lambda>d. d\<lparr>dr_observed := dg, dr_last := obs, dr_late := late_landing m dg db\<rparr>)
            (entered m ep (EDrift (if opened = 0 then m_rev r + 1 else opened) ''observed'' obs None (late_landing m dg db))
              at (m_rev r + 1) db)"
          using assms(1) dd Some by (auto simp: apply_drift_def tx_simps Let_def)
        then show ?thesis by (rule that) simp_all
      qed
      show ?thesis using *(2-4) ds
        by (intro good_drift [OF assms(2) *(1)]) (auto simp: core_frame_def intro: drifts_ok_update)
    qed
  qed
qed

end
