(* ===== verification/Dispatch_Run.thy ===== *)
theory Dispatch_Run
  imports Dispatch_Moves
begin

text \<open>
  Every transaction after the commitment keeps the tables' invariant and moves each operation along
  its transitions: the response and its accounting, the settle, the takeover, the attempt and its
  refusal.
\<close>

section \<open>Responses and accountings\<close>

lemma states_ok_more: "states_ok os as ks \<Longrightarrow> states_ok os as (ks @ ls)"
  unfolding states_ok_def state_ok_def all_accounted_def set_append by (blast dest: bspec)

text \<open>Rows recorded beside the timeline, the operations as they were.\<close>

lemma good_recorded:
  assumes inv: "dispatch_inv db" and ext: "tl_ext db db'"
    and eqs: "operations db' = operations db" "plans db' = plans db" "attempts db' = attempts db"
      "classifications db' = classifications db" "plan_states db' = plan_states db" "drifts db' = drifts db"
    and acc: "\<exists>ks. accountings db' = accountings db @ ks" and resps: "resps_ok (responses db') (accountings db')"
  shows "good db db'"
proof -
  have "retry_ok (operations db) (attempts db) (classifications db) (timeline db')"
    using inv ext by (auto simp: dispatch_inv_def core_ok_def tl_ext_def intro: retry_ok_ext)
  moreover have "states_ok (operations db) (attempts db) (accountings db')"
    using inv acc by (auto simp: dispatch_inv_def core_ok_def intro: states_ok_more)
  ultimately show ?thesis using inv ext eqs resps
    by (auto simp: good_def dispatch_inv_def core_ok_def tl_ext_def intro: evolves_frame)
qed

lemma resps_ok_more:
  assumes "resps_ok rs ks" "a \<notin> ac_attempt ` set ks"
  shows "resps_ok rs (ks @ [\<lparr>ac_attempt = a, ac_machine = m, ac_decision = d, ac_epoch = ep, ac_at = t, ac_revision = rv\<rparr>])"
  using assms by (auto simp: resps_ok_def)

lemma resps_ok_response:
  "resps_ok rs ks \<Longrightarrow> re_attempt r \<notin> re_attempt ` set rs \<Longrightarrow>
   (answered_class (re_class r) \<Longrightarrow> re_attempt r \<in> ac_attempt ` set ks) \<Longrightarrow> resps_ok (rs @ [r]) ks"
  by (auto simp: resps_ok_def)

lemma lock_operation_ok [tx_simps]:
  "lock_operation c op db = Inr x \<longleftrightarrow> \<not> superseded c db \<and> operation_of op db = Some x \<and> o_kind x = ApplyConfig"
  by (auto simp: lock_operation_def split: option.splits)

lemma operation_of_id: "operation_of op db = Some x \<Longrightarrow> o_id x = op"
  by (auto simp: operation_of_def dest: keyed_Some)

lemma attempts_of_op: "attempts_of op db = of_op op (attempts db)"
  by (simp add: attempts_of_def of_op_def)

lemma accounted_iff: "accounted db att \<longleftrightarrow> att \<in> ac_attempt ` set (accountings db)"
  by (auto simp: accounted_def)

lemma case_sum_ok [tx_simps]:
  "(case r of Inl e \<Rightarrow> Inl (f e) | Inr y \<Rightarrow> g y) = Inr z \<longleftrightarrow> (\<exists>y. r = Inr y \<and> g y = Inr z)"
  by (cases r) auto

text \<open>An accounting entered and recorded.\<close>

lemma good_accounting:
  assumes inv: "dispatch_inv db" and new: "\<not> accounted db att"
    and en: "append_entry m ep e at db = Inr (rv, db1)"
    and db': "db' = db1\<lparr>accountings := accountings db1 @
      [\<lparr>ac_attempt = att, ac_machine = m', ac_decision = d, ac_epoch = ep', ac_at = at', ac_revision = rv\<rparr>]\<rparr>"
  shows "good db db'"
proof -
  obtain r where r: "keyed m_id m (machines db) = Some r" "db1 = entered m ep e at (m_rev r + 1) db"
    using en by (auto simp: tx_simps)
  have ext: "tl_ext db db'" using tl_ext_entered [OF r(1)] r(2) db' by (auto intro: tl_ext_same)
  have "resps_ok (responses db) (accountings db)" using inv by (simp add: dispatch_inv_def core_ok_def)
  then have "resps_ok (responses db') (accountings db')"
    using new r(2) db' by (auto simp: accounted_iff intro: resps_ok_more)
  then show ?thesis using r(2) db' by (intro good_recorded [OF inv ext]) simp_all
qed

lemma and_thenE: "and_then r f = Inr y \<Longrightarrow> (\<And>x. r = Inr x \<Longrightarrow> f x = Inr y \<Longrightarrow> P) \<Longrightarrow> P"
  by (auto simp: and_then_ok)

lemma and_then_pairE: "and_then r (\<lambda>(a, b). f a b) = Inr y \<Longrightarrow> (\<And>a b. r = Inr (a, b) \<Longrightarrow> f a b = Inr y \<Longrightarrow> P) \<Longrightarrow> P"
  by (auto simp: and_then_ok)

lemma Inr_pairE: "(Inr (a, b) :: ('e, 'a \<times> 'b) res) = Inr (c, d) \<Longrightarrow> (a = c \<Longrightarrow> b = d \<Longrightarrow> P) \<Longrightarrow> P"
  by simp

lemmas tx_elims = and_then_pairE and_thenE Inr_pairE

lemma good_account_by_decision:
  assumes "account_by_decision c att who act start fin given at db = Inr (rv, db')" and inv: "dispatch_inv db"
  shows "good db db'"
  using assms(1) unfolding account_by_decision_def and_then_ok found_ok Let_def
  by (elim exE conjE)
    (auto simp: and_then_ok case_sum_ok split: if_splits intro: good_accounting [OF inv _ _ refl])

text \<open>The response and its accounting, before the operation moves.\<close>

lemma good_response_recorded:
  assumes inv: "dispatch_inv db" and r: "keyed m_id (o_machine x) (machines db) = Some r"
    and new: "\<forall>q \<in> set (responses db). re_attempt q \<noteq> at_id a"
    and db1: "db1 = (entered (o_machine x) ep e at (m_rev r + 1) db)
      \<lparr>responses := responses db @ [response_row_of a (o_machine x) resp at (m_rev r + 1)]\<rparr>"
    and acc: "account_response a x resp at' db1 = Inr (did, db2)"
  shows "good db db2 \<and> operations db2 = operations db \<and> attempts db2 = attempts db"
proof -
  have ext1: "tl_ext db db1" using tl_ext_entered [OF r] db1 by (auto intro: tl_ext_same)
  have rs: "resps_ok (responses db) (accountings db)" using inv by (simp add: dispatch_inv_def core_ok_def)
  have cls: "answered_class (re_class (response_row_of a m resp at rv)) = accounts resp" for m rv
    by (auto simp: answered_class_def accounts_def response_row_of_def)
  have att: "re_attempt (response_row_of a m resp at rv) = at_id a" for m rv by (simp add: response_row_of_def)
  show ?thesis
  proof (cases "accounts resp \<and> \<not> accounted db1 (at_id a)")
    case True
    then obtain r2 where r2: "keyed m_id (o_machine x) (machines db1) = Some r2"
      and db2: "db2 = (entered (o_machine x) (inst_epoch db1) (EAccounting (o_id x) (at_id a) None (Some (rs_class resp))) at' (m_rev r2 + 1) db1)
        \<lparr>accountings := accountings db1 @ [\<lparr>ac_attempt = at_id a, ac_machine = o_machine x, ac_decision = None,
          ac_epoch = inst_epoch db1, ac_at = at', ac_revision = m_rev r2 + 1\<rparr>]\<rparr>"
      using acc by (auto simp: account_response_def tx_simps)
    have "tl_ext db1 db2" using tl_ext_entered [OF r2] db2 by (auto intro: tl_ext_same)
    then have ext: "tl_ext db db2" by (rule tl_ext_trans [OF ext1])
    have "at_id a \<notin> ac_attempt ` set (accountings db)" using True db1 by (simp add: accounted_iff)
    then have "resps_ok (responses db2) (accountings db2)"
      using resps_ok_more [OF rs] new db1 db2 by (auto simp: att intro!: resps_ok_response)
    then have "good db db2" using db1 db2 by (intro good_recorded [OF inv ext]) simp_all
    then show ?thesis using db1 db2 by simp
  next
    case False
    then have db2: "db2 = db1" using acc by (auto simp: account_response_def)
    have "resps_ok (responses db1) (accountings db1)"
      using rs new False db1 by (auto simp: att cls accounted_iff intro!: resps_ok_response)
    then have "good db db1" using db1 by (intro good_recorded [OF inv ext1]) simp_all
    then show ?thesis using db1 db2 by simp
  qed
qed

lemma all_rejected_accounted:
  assumes "all_rejected op db" "resps_ok (responses db) (accountings db)"
  shows "all_accounted op (attempts db) (accountings db)"
proof -
  have "at_id a \<in> ac_attempt ` set (accountings db)" if a: "a \<in> set (of_op op (attempts db))" for a
  proof -
    obtain r where r: "r \<in> set (responses db)" "re_attempt r = at_id a" "re_class r = ClassRejected"
      using assms(1) a unfolding all_rejected_def attempts_of_op list_all_iff list_ex_iff by blast
    then have "answered_class (re_class r)" by (simp add: answered_class_def)
    then have "re_attempt r \<in> ac_attempt ` set (accountings db)" using assms(2) r(1) unfolding resps_ok_def by blast
    then show ?thesis using r(2) by simp
  qed
  then show ?thesis by (simp add: all_accounted_def)
qed

lemma good_move_on_response:
  assumes mv: "move_on_response c a x resp clk db = Inr (st, db')" and inv: "dispatch_inv db"
    and x: "operation_of (o_id x) db = Some x" "o_kind x = ApplyConfig"
    and a: "a \<in> set (attempts db)" "at_operation a = o_id x"
  shows "good db db'"
proof -
  have sent: "of_op (o_id x) (attempts db) \<noteq> []" using a by (auto simp: of_op_def filter_empty_conv)
  show ?thesis
  proof (cases "response_move (o_state x) (is_latest a db) (rs_class resp) (all_rejected (o_id x) db)")
    case None
    then show ?thesis using mv inv by (simp add: move_on_response_def good_refl)
  next
    case (Some p)
    obtain to cause where p: "p = (to, cause)" by (cases p)
    have tr: "op_transition (o_state x) to"
      using Some p by (auto simp: response_move_def op_transition_def split: if_splits)
    show ?thesis
    proof (cases "to = Rejected")
      case True
      obtain rv db1 where k: "classify c x OutRejected None (relied_entries (o_id x) None db) (at_gen a) (clk 2) db = Inr (rv, db1)"
        and m: "move_operation c x to cause None (Some (FailureDoc ''rejected'' cause None (length (attempts_of (o_id x) db)))) (clk 3) db1 = Inr db'"
        using mv Some p True by (auto simp: move_on_response_def tx_simps)
      have g: "good db db1" by (rule good_classify [OF k inv x(1)])
      note fr = classify_frame [OF k]
      have "all_rejected (o_id x) db" using Some p True by (auto simp: response_move_def split: if_splits)
      then have "all_accounted (o_id x) (attempts db) (accountings db)"
        using inv by (intro all_rejected_accounted) (auto simp: dispatch_inv_def core_ok_def)
      then have "good db1 db'"
        using m g fr x tr sent True by (intro good_move_operation [OF m]) (auto simp: good_def operation_of_def state_ok_def)
      with g show ?thesis by (rule good_trans)
    next
      case False
      then have "move_operation c x to cause None None (clk 3) db = Inr db'"
        using mv Some p by (auto simp: move_on_response_def tx_simps)
      moreover have "to \<in> {Verifying, Unresolved}" using Some p False by (auto simp: response_move_def split: if_splits)
      ultimately show ?thesis using inv x tr sent
        by (auto intro!: good_move_operation simp: state_ok_def)
    qed
  qed
qed

lemma good_record_response:
  assumes "record_response c att resp clk db = Inr (rd, db')" and inv: "dispatch_inv db"
  shows "good db db'"
proof -
  obtain a x r did db2 st where *: "keyed at_id att (attempts db) = Some a" "operation_of (at_operation a) db = Some x"
      "o_kind x = ApplyConfig" "\<forall>q \<in> set (responses db). re_attempt q \<noteq> att"
      "keyed m_id (o_machine x) (machines db) = Some r"
      "account_response a x resp (clk 1) ((entered (o_machine x) (inst_epoch db)
         (EResponse (o_id x) att (at_number a) (rs_class resp) (rs_code resp) (rs_text resp) (ctl_id c) (at_gen a))
         (clk 0) (m_rev r + 1) db)\<lparr>responses := responses db @ [response_row_of a (o_machine x) resp (clk 0) (m_rev r + 1)]\<rparr>) = Inr (did, db2)"
      "move_on_response c a x resp clk db2 = Inr (st, db')"
    using assms(1) by (auto simp: record_response_def tx_simps split: if_splits)
  have a: "a \<in> set (attempts db)" "at_id a = att" using *(1) by (auto dest: keyed_Some)
  have g: "good db db2 \<and> operations db2 = operations db \<and> attempts db2 = attempts db"
    using *(4,6) a(2) by (intro good_response_recorded [OF inv *(5) _ refl]) auto
  have oid: "o_id x = at_operation a" using *(2) by (rule operation_of_id)
  have "good db2 db'"
    using g *(2,3) a oid by (intro good_move_on_response [OF *(7)]) (auto simp: good_def operation_of_def)
  with g show ?thesis by (blast intro: good_trans)
qed

section \<open>The settle\<close>

lemma owned_kind: "lock_operation c op db = Inr x \<Longrightarrow> operation_of (o_id x) db = Some x \<and> o_kind x = ApplyConfig \<and> o_id x = op"
  by (auto simp: tx_simps dest: operation_of_id)

lemma set_applied_sel [simp]:
  "machines (set_applied m rel dg db) = machines db" "timeline (set_applied m rel dg db) = timeline db"
  "operations (set_applied m rel dg db) = operations db" "plans (set_applied m rel dg db) = plans db"
  "attempts (set_applied m rel dg db) = attempts db" "accountings (set_applied m rel dg db) = accountings db"
  "responses (set_applied m rel dg db) = responses db" "classifications (set_applied m rel dg db) = classifications db"
  "plan_states (set_applied m rel dg db) = plan_states db" "drifts (set_applied m rel dg db) = drifts db"
  "inst_epoch (set_applied m rel dg db) = inst_epoch db"
  by (simp_all add: set_applied_def)

lemma good_applied:
  assumes "append_entry m ep e at (set_applied m' rel dg db) = Inr (rv, db')" "dispatch_inv db"
  shows "good db db'"
proof -
  obtain r where r: "keyed m_id m (machines db) = Some r" "db' = entered m ep e at (m_rev r + 1) (set_applied m' rel dg db)"
    using assms(1) by (auto simp: tx_simps)
  then have "tl_ext db db'" by (auto intro: tl_ext_entered_over)
  then show ?thesis using assms(2) r(2) by (intro good_frame) (simp_all add: core_frame_def dispatch_inv_def)
qed

lemma good_close_reverted:
  assumes "close_reverted x p obs at db = Inr (change, db')" "dispatch_inv db"
  shows "good db db'"
proof (cases "db' = db")
  case False
  then obtain bound r e where r: "keyed m_id (o_machine x) (machines db) = Some r"
      "db' = update_drift (o_machine x) bound (close_drift (m_rev r + 1) ''reverted'')
        (entered (o_machine x) (inst_epoch db) e at (m_rev r + 1) db)"
    using assms(1) by (clarsimp simp: close_reverted_def and_then_ok drift_entry_ok split: option.splits if_split_asm) blast+
  show ?thesis using assms(2) r(2)
    by (intro good_drift [OF assms(2) r(1)])
      (auto simp: core_frame_def dispatch_inv_def close_drift_def intro: drifts_ok_update)
qed (simp add: assms good_refl)

text \<open>A classification followed by the move it decides.\<close>

lemma good_classified_move:
  assumes k: "classify_observed c x outcome obs rv gen at db = Inr (rv', db1)"
    and m: "move_operation c x to cause res err at' db1 = Inr db2" and inv: "dispatch_inv db"
    and x: "operation_of (o_id x) db = Some x" "o_kind x = ApplyConfig" "op_transition (o_state x) to"
    and st: "state_ok (attempts db) (accountings db) (x\<lparr>o_state := to\<rparr>)"
  shows "good db db2"
proof -
  have g: "good db db1" using k unfolding classify_observed_def by (rule good_classify [OF _ inv x(1)])
  have fr: "operations db1 = operations db" "attempts db1 = attempts db" "accountings db1 = accountings db"
    using k classify_frame unfolding classify_observed_def by blast+
  have "good db1 db2"
    using g fr x st by (intro good_move_operation [OF m]) (auto simp: good_def operation_of_def)
  with g show ?thesis by (rule good_trans)
qed

lemma good_complete:
  assumes "complete c x ob generation clk db = Inr (r, db')" "dispatch_inv db"
    and "operation_of (o_id x) db = Some x" "o_kind x = ApplyConfig" "o_state x \<in> {Verifying, Unresolved}"
    and "attempts_of (o_id x) db \<noteq> []" "all_accounted (o_id x) (attempts db) (accountings db)"
  shows "good db db'"
proof -
  obtain p and rm :: release_machine_row and ms :: machine_state_row and db1 db2 db3 rv rv' change where *:
      "classify_observed c x OutCompleted (ob_id ob) (ob_revision ob) generation (clk 0) db = Inr (rv', db1)"
      "move_operation c x Completed ''the observation establishes the bound postconditions''
         (Some (ResultDoc (p_release p) (rm_digest rm) (ob_id ob))) None (clk 1) db1 = Inr db2"
      "append_entry (o_machine x) (inst_epoch db)
         (EApplied (ms_applied ms) (p_release p) (rm_digest rm) ''operation'' (p_id p) (o_id x)) (clk 2)
         (set_applied (o_machine x) (p_release p) (rm_digest rm) db2) = Inr (rv, db3)"
      "close_reverted x p (ob_id ob) (clk 3) db3 = Inr (change, db')"
    using assms(1) unfolding complete_def Let_def by (elim tx_elims) (hypsubst, rule that)
  have g2: "good db db2"
    using assms(5-7) by (intro good_classified_move [OF *(1,2) assms(2-4)])
      (auto simp: op_transition_def state_ok_def attempts_of_op)
  have g3: "good db2 db3" using *(3) good_inv [OF g2] by (rule good_applied)
  have "good db3 db'" using *(4) good_inv [OF g3] by (rule good_close_reverted)
  with g2 g3 show ?thesis by (blast intro: good_trans)
qed

lemma good_fail:
  assumes "fail_operation c x ob generation clk db = Inr (r, db')" "dispatch_inv db"
    and "operation_of (o_id x) db = Some x" "o_kind x = ApplyConfig" "o_state x \<in> {Verifying, Unresolved}"
    and "attempts_of (o_id x) db \<noteq> []" "all_accounted (o_id x) (attempts db) (accountings db)"
  shows "good db db'"
proof -
  obtain db1 db2 rv change cause err where *:
      "classify_observed c x OutFailed (ob_id ob) (ob_revision ob) generation (clk 0) db = Inr (rv, db1)"
      "move_operation c x Failed cause None err (clk 1) db1 = Inr db2"
      "apply_drift (o_machine x) (inst_epoch db) (ob_id ob) True (clk 2) db2 = Inr (change, db')"
    using assms(1) unfolding fail_operation_def Let_def and_then_ok by (elim exE conjE) (auto simp: and_then_ok)
  have g2: "good db db2"
    using assms(5-7) by (intro good_classified_move [OF *(1,2) assms(2-4)])
      (auto simp: op_transition_def state_ok_def attempts_of_op)
  have "good db2 db'" using *(3) good_inv [OF g2] by (rule good_apply_drift)
  with g2 show ?thesis by (rule good_trans)
qed

lemma good_unresolve_move:
  assumes "move_operation c x Unresolved cause res err at db = Inr db'" "dispatch_inv db"
    and "operation_of (o_id x) db = Some x" "o_kind x = ApplyConfig" "o_state x = Verifying"
  shows "good db db'"
  using assms by (intro good_move_operation [OF assms(1)]) (auto simp: op_transition_def state_ok_def)

lemma good_retry:
  assumes "retry_operation c x ob generation clk db = Inr (r, db')" "dispatch_inv db"
    and "operation_of (o_id x) db = Some x" "o_kind x = ApplyConfig"
  shows "good db db'"
proof -
  obtain db1 rv where *:
      "classify_observed c x SafeToRetry (ob_id ob) (ob_revision ob) generation (clk 0) db = Inr (rv, db1)"
      "(if o_state x = Verifying
         then move_operation c x Unresolved ''classified safe to retry'' None None (clk 1) db1 else Inr db1) = Inr db'"
    using assms(1) unfolding retry_operation_def and_then_ok by (elim exE conjE) (auto simp: and_then_ok)
  show ?thesis
  proof (cases "o_state x = Verifying")
    case True
    then show ?thesis using * assms(2-4)
      by (intro good_classified_move [OF *(1)]) (auto simp: op_transition_def state_ok_def)
  next
    case False
    then show ?thesis using * good_classify assms(2,3) unfolding classify_observed_def by auto
  qed
qed

lemma good_settle_on:
  assumes "settle_on c x v generation clk db = Inr (r, db')" "dispatch_inv db"
    and "operation_of (o_id x) db = Some x" "o_kind x = ApplyConfig" "o_state x \<in> {Verifying, Unresolved}"
    and "all_accounted (o_id x) (attempts db) (accountings db)"
  shows "good db db'"
  using assms(1) good_refl [OF assms(2)] good_complete [OF _ assms(2-5) _ assms(6)]
    good_fail [OF _ assms(2-5) _ assms(6)] good_retry [OF _ assms(2-4)] good_unresolve_move [OF _ assms(2-4)]
  by (auto simp: settle_on_def unresolve_def Let_def and_then_ok split: option.splits if_splits)

lemma good_settle_operation:
  assumes "settle_operation c op generation obs clk db = Inr (r, db')" "dispatch_inv db"
  shows "good db db'"
proof -
  obtain x where x: "lock_operation c op db = Inr x" "o_state x \<in> {Verifying, Unresolved}"
    and rest: "(if \<exists>a \<in> set (attempts_of op db). \<not> accounted db (at_id a) then
          (if o_state x = Verifying
           then unresolve c x ''an attempt is not accounted for'' ''an attempt is not accounted for'' (clk 0) db
           else Inr (stay (o_state x) SettledUnresolved ''an attempt is not accounted for'', db))
        else and_then (found (OutcomeRefused ''settle'' ''no such observation of the operation's machine'')
            (settle_view_of obs x db)) (\<lambda>v. settle_on c x v generation clk db)) = Inr (r, db')"
    using assms(1) unfolding settle_operation_def by (auto simp: and_then_ok split: if_splits)
  have ow: "operation_of (o_id x) db = Some x" "o_kind x = ApplyConfig" "o_id x = op" using owned_kind [OF x(1)] by blast+
  show ?thesis
  proof (cases "\<exists>a \<in> set (attempts_of op db). \<not> accounted db (at_id a)")
    case True
    then show ?thesis using rest good_refl [OF assms(2)] good_unresolve_move [OF _ assms(2) ow(1,2)]
      by (auto simp: unresolve_def and_then_ok split: if_splits)
  next
    case False
    then have "all_accounted (o_id x) (attempts db) (accountings db)"
      using ow(3) by (auto simp: all_accounted_def accounted_iff attempts_of_op)
    then show ?thesis using rest False good_settle_on [OF _ assms(2) ow(1,2) x(2)] by (auto simp: tx_simps)
  qed
qed

section \<open>The takeover\<close>

interpretation takeover: op_update op "\<lambda>y. y\<lparr>o_state := Unresolved, o_owner := Some w, o_gen := o_gen y + 1, o_owner_epoch := Some e\<rparr>"
  for op w e
  by unfold_locales simp_all

lemma good_taken:
  assumes "dispatch_inv db" "operation_of op db = Some x" "o_kind x = ApplyConfig" "holding (o_state x)"
    and "keyed m_id m (machines db) = Some r"
  shows "good db (entered m ep e at (m_rev r + 1) (update_op op (\<lambda>y. y\<lparr>o_state := Unresolved, o_owner := Some w,
    o_gen := o_gen y + 1, o_owner_epoch := Some we\<rparr>) db))"
proof (rule good_update [OF assms(1,2) takeover.op_update_axioms _ _ _ _ assms(5)])
  have "op_step (abs_op x) (o_gen x + 1, Unresolved)" using assms(4) by (auto simp: abs_op_def intro: op_step.taken)
  then show "row_evolves x (x\<lparr>o_state := Unresolved, o_owner := Some w, o_gen := o_gen x + 1, o_owner_epoch := Some we\<rparr>)"
    using assms(4) by (auto simp: row_evolves_def op_binding_def abs_op_def intro: r_into_rtranclp)
qed (use assms(3,4) in \<open>auto simp: holder_def state_ok_def\<close>)

lemma good_append: "append_entry m ep e at db = Inr (rv, db') \<Longrightarrow> dispatch_inv db \<Longrightarrow> good db db'"
  by (auto simp: tx_simps intro: good_entered)

lemma take_over_written:
  assumes "take_over_tx c op generation reason clk db = Inr (r, db')"
  obtains x rv db1 e where "lock_operation c op db = Inr x" "holding (o_state x)" "o_gen x = generation"
    and "append_entry (o_machine x) (inst_epoch db) e (clk 0)
      (update_op op (\<lambda>y. y\<lparr>o_state := Unresolved, o_owner := Some (ctl_id c), o_gen := o_gen y + 1,
         o_owner_epoch := Some (inst_epoch db)\<rparr>) db) = Inr (rv, db1)"
    and "db' = db1 \<or> (\<exists>m ep e' rv'. append_entry m ep e' (clk 1) db1 = Inr (rv', db'))"
proof -
  obtain x rv db1 e where x: "lock_operation c op db = Inr x" "holding (o_state x)" "o_gen x = generation"
    and en: "append_entry (o_machine x) (inst_epoch db) e (clk 0)
      (update_op op (\<lambda>y. y\<lparr>o_state := Unresolved, o_owner := Some (ctl_id c), o_gen := o_gen y + 1,
         o_owner_epoch := Some (inst_epoch db)\<rparr>) db) = Inr (rv, db1)"
    and mv: "(if o_state x = Unresolved then Inr db1
      else and_then (append_entry (o_machine x) (inst_epoch db)
        (EOpState op (o_state x) Unresolved (ctl_id c) (generation + 1) None None ''takeover'') (clk 1) db1)
        (\<lambda>(_, db2). Inr db2)) = Inr db'"
    using assms unfolding take_over_tx_def
    by (cases "ctl_id c = ''''"; simp; elim tx_elims; simp split: if_split_asm; elim tx_elims; blast)
  have "db' = db1 \<or> (\<exists>m ep e' rv'. append_entry m ep e' (clk 1) db1 = Inr (rv', db'))"
  proof (cases "o_state x = Unresolved")
    case False
    then show ?thesis using mv by (auto simp: and_then_ok)
  qed (use mv in simp)
  with x en show thesis by (rule that)
qed

lemma good_take_over:
  assumes "take_over_tx c op generation reason clk db = Inr (r, db')" "dispatch_inv db"
  shows "good db db'"
proof -
  obtain x rv db1 e where x: "lock_operation c op db = Inr x" "holding (o_state x)"
    and en: "append_entry (o_machine x) (inst_epoch db) e (clk 0)
      (update_op op (\<lambda>y. y\<lparr>o_state := Unresolved, o_owner := Some (ctl_id c), o_gen := o_gen y + 1,
         o_owner_epoch := Some (inst_epoch db)\<rparr>) db) = Inr (rv, db1)"
    and mv: "db' = db1 \<or> (\<exists>m ep e' rv'. append_entry m ep e' (clk 1) db1 = Inr (rv', db'))"
    using assms(1) by (rule take_over_written)
  have ow: "operation_of op db = Some x" "o_kind x = ApplyConfig" using owned_kind [OF x(1)] by auto
  have g: "good db db1" using en x(2) ow assms(2) by (auto simp: append_entry_ok intro: good_taken)
  then have "db' = db1 \<or> good db1 db'" using mv good_append [OF _ good_inv [OF g]] by blast
  with g show ?thesis by (auto intro: good_trans)
qed

section \<open>The attempt\<close>

lemma of_op_append: "of_op op (as @ bs) = of_op op as @ of_op op bs"
  by (simp add: of_op_def)

lemma of_op_single: "of_op op [a] = (if at_operation a = op then [a] else [])"
  by (simp add: of_op_def)

lemma atts_ok_new:
  assumes ok: "atts_ok os ps as" and fresh: "at_id a \<notin> at_id ` set as" and max: "within_max ps a"
    and x: "x \<in> set os" "o_id x = at_operation a" "o_kind x = ApplyConfig" "o_plan x = at_plan a" "o_machine x = at_machine a"
    and num: "at_number a = length (of_op (at_operation a) as) + 1"
  shows "atts_ok os ps (as @ [a])"
proof -
  have "map at_number (of_op op (as @ [a])) = [1..<Suc (length (of_op op (as @ [a])))]" for op
    using ok num by (auto simp: atts_ok_def of_op_append of_op_single)
  moreover have "\<forall>b \<in> set (as @ [a]). within_max ps b \<and>
     (\<exists>x \<in> set os. o_id x = at_operation b \<and> o_kind x = ApplyConfig \<and> o_plan x = at_plan b \<and> o_machine x = at_machine b)"
    using ok max x unfolding atts_ok_def by auto
  ultimately show ?thesis using ok fresh unfolding atts_ok_def by simp
qed

lemma states_ok_new:
  assumes "states_ok os as ks" and "\<And>x. x \<in> set os \<Longrightarrow> o_id x = at_operation a \<Longrightarrow> o_state x = Sending"
  shows "states_ok os (as @ [a]) ks"
proof -
  have "state_ok (as @ [a]) ks x" if x: "x \<in> set os" for x
  proof (cases "o_id x = at_operation a")
    case True
    then show ?thesis using assms(2) [OF x] by (simp add: state_ok_def of_op_append of_op_single)
  next
    case False
    then have "of_op (o_id x) (as @ [a]) = of_op (o_id x) as" by (simp add: of_op_append of_op_single)
    then show ?thesis using assms(1) x by (simp add: states_ok_def state_ok_def all_accounted_def)
  qed
  then show ?thesis by (simp add: states_ok_def)
qed

lemma retry_ok_new:
  assumes ok: "retry_ok os as cs tml" and en: "attempt_entered tml a"
    and cls: "case at_classification a of None \<Rightarrow> at_number a = 1 | Some k \<Rightarrow> k < at_revision a"
    and first: "\<And>b k. b \<in> set as \<Longrightarrow> at_operation b = at_operation a \<Longrightarrow> at_classification a = Some k \<Longrightarrow>
      at_classification b \<noteq> Some k"
  shows "retry_ok os (as @ [a]) cs tml"
proof -
  have "retries_once (as @ [a])"
  proof -
    have "at_classification b \<noteq> at_classification a"
      if b: "b \<in> set as" "at_operation b = at_operation a" "at_classification a \<noteq> None" for b
      using b first [OF b(1,2)] by auto
    then show ?thesis using ok unfolding retry_ok_def retries_once_def by (auto; metis)
  qed
  then show ?thesis using ok en cls unfolding retry_ok_def by simp
qed

lemma first_by_None: "first_by k p rs = None \<longleftrightarrow> (\<forall>r \<in> set rs. \<not> p r)"
proof -
  have "first_by k p rs = None \<longleftrightarrow> sort_key k (filter p rs) = []"
    by (simp add: first_by_def split: list.splits)
  then show ?thesis by (metis filter_empty_conv set_empty set_sort)
qed

lemma first_by_Some: "first_by k p rs = Some r \<Longrightarrow> r \<in> set rs \<and> p r"
proof -
  assume "first_by k p rs = Some r"
  then obtain ys where "sort_key k (filter p rs) = r # ys" by (auto simp: first_by_def split: list.splits)
  then have "r \<in> set (sort_key k (filter p rs))" unfolding \<open>_ = r # ys\<close> by simp
  then show ?thesis by simp
qed

lemma later_entry_None:
  assumes "later_entry m op rv db = None" "e \<in> set (timeline db)" "ev_machine e = m" "rv < ev_revision e"
  shows "after_classification op (ev_entry e) = None"
proof -
  let ?p = "\<lambda>e. ev_machine e = m \<and> rv < ev_revision e \<and> after_classification op (ev_entry e) \<noteq> None"
  have "first_by ev_revision ?p (timeline db) = None"
  proof (rule ccontr)
    assume "first_by ev_revision ?p (timeline db) \<noteq> None"
    then obtain d where d: "first_by ev_revision ?p (timeline db) = Some d" by blast
    then show False using assms(1) first_by_Some [OF d] by (simp add: later_entry_def)
  qed
  then show ?thesis using assms(2-4) unfolding first_by_None by blast
qed

lemma compare8_first:
  assumes "attempt_compare8 c generation m op db = None" "latest_classification op db = Some k"
    and "retry_ok os (attempts db) (classifications db) (timeline db)"
    and "b \<in> set (attempts db)" "at_operation b = op" "at_machine b = m"
  shows "at_classification b \<noteq> Some (k_revision k)"
proof
  assume "at_classification b = Some (k_revision k)"
  then have "attempt_entered (timeline db) b" "k_revision k < at_revision b"
    using assms(3,4) unfolding retry_ok_def by (force split: option.splits)+
  then obtain e where "e \<in> set (timeline db)" "ev_machine e = m" "k_revision k < ev_revision e"
      "after_classification op (ev_entry e) \<noteq> None"
    using assms(5,6) unfolding attempt_entered_def by auto
  then show False using assms(1,2) later_entry_None by (auto simp: attempt_compare8_def split: if_splits option.splits)
qed

lemma latest_classification_in: "latest_classification op db = Some k \<Longrightarrow> k \<in> set (classifications db) \<and> k_operation k = op"
  by (auto simp: latest_classification_def last_by_def dest: first_by_Some)

lemma latest_classification_None: "latest_classification op db = None \<Longrightarrow> k \<in> set (classifications db) \<Longrightarrow> k_operation k \<noteq> op"
  by (auto simp: latest_classification_def last_by_def first_by_None)

text \<open>A classification is of an entry already on the machine's timeline.\<close>

lemma classification_entered:
  assumes inv: "dispatch_inv db" and k: "latest_classification (o_id x) db = Some k"
    and x: "operation_of (o_id x) db = Some x" and r: "keyed m_id (o_machine x) (machines db) = Some r"
  shows "k_revision k \<le> m_rev r"
proof -
  have kin: "k \<in> set (classifications db)" "k_operation k = o_id x" using latest_classification_in [OF k] by auto
  have ops: "ops_ok (operations db) (plans db)" and tl: "tl_ok (machines db) (timeline db)"
    using inv by (auto simp: dispatch_inv_def core_ok_def)
  have "class_entered (operations db) (timeline db) k"
    using inv kin(1) by (auto simp: dispatch_inv_def core_ok_def retry_ok_def)
  then obtain y e where y: "y \<in> set (operations db)" "o_id y = o_id x" "o_machine y = k_machine k"
    and e: "e \<in> set (timeline db)" "ev_machine e = k_machine k" "ev_revision e = k_revision k"
    using kin(2) by (auto simp: class_entered_def)
  have "y = x" using op_of [OF ops x] y(1,2) by blast
  moreover obtain q where q: "q \<in> set (machines db)" "m_id q = ev_machine e" "ev_revision e \<le> m_rev q"
    using tl e(1) by (auto simp: tl_ok_def)
  moreover have "q = r"
    using q(1,2) tl r y(3) e(2) \<open>y = x\<close> by (auto simp: tl_ok_def distinct_map inj_on_def dest!: keyed_Some)
  ultimately show ?thesis using e(3) by simp
qed

lemma plan_of_operation:
  assumes "ops_ok (operations db) (plans db)" "operation_of op db = Some x" "keyed p_id (o_plan x) (plans db) = Some p"
  shows "p_machine p = o_machine x \<and> p_cluster p = o_cluster x \<and> p_id p = o_plan x \<and> p \<in> set (plans db)"
proof -
  have x: "x \<in> set (operations db)" using op_of [OF assms(1,2)] by blast
  then obtain q where "q \<in> set (plans db)" "p_id q = o_plan x" "p_machine q = o_machine x" "p_cluster q = o_cluster x"
    using assms(1) unfolding ops_ok_def by blast
  then show ?thesis using assms(1,3) by (auto simp: ops_ok_def distinct_map inj_on_def dest!: keyed_Some)
qed

interpretation send_op: op_update op "\<lambda>x. x\<lparr>o_state := to\<rparr>" for op to
  by unfold_locales simp_all

text \<open>The first attempt has no classification: the operation was committed, or classified by this token.\<close>

lemma sendable_first:
  assumes inv: "dispatch_inv db" and x: "operation_of (o_id x) db = Some x" "o_kind x = ApplyConfig"
    and s: "sendable c generation db x" and k: "latest_classification (o_id x) db = None"
  shows "of_op (o_id x) (attempts db) = []"
proof -
  have "\<not> retry_classified c generation (o_id x) db"
    using latest_classification_None [OF k] by (auto simp: retry_classified_def)
  then have "o_state x = Committed" using s by (auto simp: sendable_def)
  moreover have "state_ok (attempts db) (accountings db) x"
    using inv x(1) by (auto simp: dispatch_inv_def core_ok_def states_ok_def operation_of_def dest!: keyed_Some)
  ultimately show ?thesis using x(2) by (simp add: state_ok_def)
qed

lemma attempt_classified:
  assumes inv: "dispatch_inv db" and x: "operation_of op db = Some x" "o_kind x = ApplyConfig"
    and r: "keyed m_id (o_machine x) (machines db) = Some r" and c7: "sendable c generation db x"
  shows "case map_option k_revision (latest_classification op db) of
    None \<Rightarrow> length (of_op op (attempts db)) + 1 = 1 | Some k \<Rightarrow> k < m_rev r + 1"
proof -
  have "o_id x = op" using x(1) by (rule operation_of_id)
  then show ?thesis
    using sendable_first [OF inv, of x c generation] classification_entered [OF inv, of x] x c7 r
    by (fastforce split: option.splits)
qed

lemma attempt_first:
  assumes inv: "dispatch_inv db" and x: "operation_of op db = Some x"
    and c8: "attempt_compare8 c generation (o_machine x) op db = None"
    and k: "map_option k_revision (latest_classification op db) = Some k"
    and b: "b \<in> set (attempts db)" "at_operation b = op"
  shows "at_classification b \<noteq> Some k"
proof -
  have core: "core_ok db" and ops: "ops_ok (operations db) (plans db)" using inv by (auto simp: dispatch_inv_def core_ok_def)
  obtain q where q: "latest_classification op db = Some q" "k = k_revision q" using k by auto
  obtain y where "y \<in> set (operations db)" "o_id y = op" "o_machine y = at_machine b"
    using core b by (auto simp: core_ok_def atts_ok_def)
  then have "at_machine b = o_machine x" using op_of [OF ops x] by auto
  then show ?thesis using compare8_first [OF c8 q(1), of "operations db" b] core b q(2) by (auto simp: core_ok_def)
qed

lemma states_ok_sent:
  assumes "states_ok os as ks" "at_operation a = op"
  shows "states_ok (sql_update (\<lambda>x. o_id x = op) (\<lambda>x. x\<lparr>o_state := Sending\<rparr>) os) (as @ [a]) ks"
proof -
  have "states_ok (filter (\<lambda>y. o_id y \<noteq> op) os) (as @ [a]) ks"
    using assms by (intro states_ok_new) (auto simp: states_ok_def)
  moreover have "state_ok (as @ [a]) ks (x\<lparr>o_state := Sending\<rparr>)" if "o_id x = op" for x
    using assms(2) by (simp add: state_ok_def of_op_append of_op_single that)
  ultimately show ?thesis by (auto simp: states_ok_def elim!: in_sql_updateE)
qed

lemma good_attempt:
  assumes inv: "dispatch_inv db" and x: "operation_of op db = Some x" "o_kind x = ApplyConfig"
    and p: "keyed p_id (o_plan x) (plans db) = Some p" and r: "keyed m_id (p_machine p) (machines db) = Some r"
    and c7: "sendable c generation db x" and c8: "attempt_compare8 c generation (p_machine p) op db = None"
    and c9: "attempt_compare9 p op db = None" and fresh: "new \<notin> at_id ` set (attempts db)"
    and a: "a = new_attempt c op generation p new (Suc (length (attempts_of op db))) obs at tr ver (m_rev r + 1)
      (map_option k_revision (latest_classification op db)) ep"
    and e: "after_classification op e \<noteq> None"
    and db': "db' = (entered (p_machine p) ep' e at (m_rev r + 1) (update_op op (\<lambda>x. x\<lparr>o_state := Sending\<rparr>) db))
      \<lparr>attempts := attempts db @ [a]\<rparr>"
  shows "good db db'"
proof -
  let ?os = "sql_update (\<lambda>x. o_id x = op) (\<lambda>x. x\<lparr>o_state := Sending\<rparr>) (operations db)"
  have core: "core_ok db" and ops: "ops_ok (operations db) (plans db)" using inv by (auto simp: dispatch_inv_def core_ok_def)
  have xin: "x \<in> set (operations db)" and oid: "o_id x = op" and only: "\<And>y. y \<in> set (operations db) \<Longrightarrow> o_id y = op \<Longrightarrow> y = x"
    using op_of [OF ops x(1)] by auto
  have pm: "p_machine p = o_machine x" "p_id p = o_plan x" "p \<in> set (plans db)" using plan_of_operation [OF ops x(1) p] by auto
  have st: "o_state x \<in> {Committed, Unresolved}" using c7 by (auto simp: sendable_def)
  have af: "at_id a = new" "at_operation a = op" "at_plan a = p_id p" "at_machine a = o_machine x"
      "at_number a = length (of_op op (attempts db)) + 1" "at_revision a = m_rev r + 1"
      "at_classification a = map_option k_revision (latest_classification op db)"
    using pm by (simp_all add: a new_attempt_def attempts_of_op)
  have "tl_ext db (entered (p_machine p) ep' e at (m_rev r + 1) (update_op op (\<lambda>x. x\<lparr>o_state := Sending\<rparr>) db))"
    using r by (intro tl_ext_entered_over) simp_all
  then have ext: "tl_ext db db'" unfolding db' tl_ext_def by simp
  have reb: "rebound (operations db) ?os" by (rule send_op.rebound)
  have "scope_ok ?os" using core st only x(2) by (intro send_op.scope_kept) (auto simp: core_ok_def holder_def holding_def)
  moreover have "atts_ok ?os (plans db) (attempts db @ [a])"
  proof (rule atts_ok_rebound [OF reb], rule atts_ok_new)
    show "within_max (plans db) a"
      using c9 pm by (auto simp: within_max_def attempt_compare9_def af attempts_of_op split: option.splits if_splits intro!: bexI [of _ p])
  qed (use core fresh xin oid x(2) pm in \<open>auto simp: core_ok_def af\<close>)
  moreover have "states_ok ?os (attempts db @ [a]) (accountings db)"
    using core by (intro states_ok_sent) (simp_all add: core_ok_def af)
  moreover have "retry_ok ?os (attempts db @ [a]) (classifications db) (timeline db')"
  proof (rule retry_ok_rebound [OF reb], rule retry_ok_new)
    show "retry_ok (operations db) (attempts db) (classifications db) (timeline db')"
      using core ext by (auto simp: core_ok_def tl_ext_def intro: retry_ok_ext)
    show "attempt_entered (timeline db') a"
      using e pm by (auto simp: attempt_entered_def db' timeline_entered af)
    show "case at_classification a of None \<Rightarrow> at_number a = 1 | Some k \<Rightarrow> k < at_revision a"
      using attempt_classified [OF inv x _ c7] r pm(1) unfolding af by simp
    show "at_classification b \<noteq> Some k"
      if "b \<in> set (attempts db)" "at_operation b = at_operation a" "at_classification a = Some k" for b k
      using attempt_first [OF inv x(1), of c generation k b] c8 pm(1) that by (simp add: af)
  qed
  moreover have "ops_ok ?os (plans db)" using ops by (rule send_op.ops_kept)
  ultimately have "core_ok db'" using core by (simp add: core_ok_def db')
  moreover have "pstates_ok (plan_states db) ?os" using inv by (intro send_op.pstates_kept) (simp add: dispatch_inv_def)
  moreover have "evolves db db'"
  proof (rule evolves_update [OF x(1)])
    show "row_evolves x (x\<lparr>o_state := Sending\<rparr>)"
      using st by (intro row_evolves_move [of x Sending]) (auto simp: op_transition_def op_binding_def abs_op_def)
  qed (simp_all add: oid db')
  ultimately show ?thesis using inv ext by (simp add: good_def dispatch_inv_def tl_ext_def db')
qed

lemma good_record_attempt:
  assumes "record_attempt_tx c op generation new at db = Inr (res, db')" and inv: "dispatch_inv db"
  shows "good db db'"
proof -
  obtain x p m obs where x: "operation_of op db = Some x" "o_kind x = ApplyConfig"
      and p: "keyed p_id (o_plan x) (plans db) = Some p" and m: "keyed m_id (p_machine p) (machines db) = Some m"
      and c7: "attempt_compare7 c generation x db = None" and c8: "attempt_compare8 c generation (p_machine p) op db = None"
      and c9: "attempt_compare9 p op db = None" and w: "attempt_write c op generation p new obs at db = Inr (res, db')"
    using assms(1) unfolding record_attempt_tx_def
    by (auto simp: and_then_ok found_ok refuse_if_ok attempt_compare_def split: if_splits)
  have "sendable c generation db x" using c7 by (auto simp: attempt_compare7_def split: if_splits)
  then show ?thesis using w m
    by (auto simp: attempt_write_def Let_def tx_simps split: if_splits
        intro!: good_attempt [OF inv x p m _ c8 c9 _ refl _ refl])
qed

section \<open>The refusal of an attempt\<close>

lemma good_refusal_move:
  assumes "refusal_move c machine op generation s1 s2 n cause at db = Inr db'" "dispatch_inv db"
    and "operation_of op db = Some x" "o_kind x = ApplyConfig" "op_transition (o_state x) s2"
    and "state_ok (attempts db) (accountings db) (x\<lparr>o_state := s2\<rparr>)"
  shows "good db db' \<and> attempts db' = attempts db \<and> accountings db' = accountings db \<and>
    operation_of op db' = Some (x\<lparr>o_state := s2\<rparr>)"
  using assms(1) good_move [OF assms(2-6), of machine _ "\<lambda>y. y\<lparr>o_state := s2\<rparr>" o_error o_result] assms(3)
  by (auto simp: refusal_move_def tx_simps operation_of_update)

lemma good_settle_refusal_moves:
  assumes "settle_refusal_moves c machine plan op generation (o_state x) n cause at at' at'' db = Inr db'" "dispatch_inv db"
    and x: "operation_of op db = Some x" "o_kind x = ApplyConfig" "o_state x \<in> {Committed, Unresolved}"
  shows "good db db'"
proof -
  have oid: "o_id x = op" using x(1) by (rule operation_of_id)
  obtain db1 where d1: "(if o_state x = Committed then refusal_move c machine op generation Committed Unresolved n cause at' db
      else Inr db) = Inr db1"
    and rest: "(if attempts_of op db1 \<noteq> [] then Inr db1
       else and_then (final_plan_cause plan (inst_epoch db) at db1) (\<lambda>dead.
         case dead of None \<Rightarrow> Inr db1
         | Some why \<Rightarrow> refusal_move c machine op generation Unresolved Cancelled 1 why at'' db1)) = Inr db'"
    using assms(1) unfolding settle_refusal_moves_def by (elim tx_elims) (rule that)
  have g: "good db db1 \<and> operation_of op db1 = Some (x\<lparr>o_state := Unresolved\<rparr>)"
  proof (cases "o_state x = Committed")
    case True
    then show ?thesis using d1 good_refusal_move [OF _ assms(2) x(1,2), of c machine generation Committed Unresolved]
      by (auto simp: op_transition_def state_ok_def)
  next
    case False
    then have "x\<lparr>o_state := Unresolved\<rparr> = x" using x(3) by simp
    then show ?thesis using d1 False x(1) assms(2) by (simp add: good_refl)
  qed
  have "good db1 db'" if "attempts_of op db1 = []" "refusal_move c machine op generation Unresolved Cancelled 1 why at'' db1 = Inr db'"
    for why
    using good_refusal_move [OF that(2) good_inv, of db "x\<lparr>o_state := Unresolved\<rparr>"] g x(2) that(1) oid
    by (simp add: op_transition_def state_ok_def attempts_of_op)
  then show ?thesis using rest g
    by (auto simp: and_then_ok split: if_splits option.splits intro: good_trans)
qed

lemma good_settle_attempt_refusal:
  assumes "settle_attempt_refusal c machine plan op generation n cause obs at at' at'' db = Inr db'" "dispatch_inv db"
    and kind: "\<And>x. operation_of op db = Some x \<Longrightarrow> o_kind x = ApplyConfig"
  shows "good db db'"
proof -
  obtain locked rv db1 where *: "(if may_settle n then map_sum id Some (found ErrNoRows (operation_of op db)) else Inr None) = Inr locked"
      "append_entry machine (inst_epoch db) (ERefusal n plan (Some op) cause (ctl_id c) (Some generation) obs) at db = Inr (rv, db1)"
      "(case locked of None \<Rightarrow> Inr db1
        | Some x \<Rightarrow> if \<not> owns c db x generation \<or> o_state x \<noteq> Committed \<and> o_state x \<noteq> Unresolved then Inr db1
              else settle_refusal_moves c machine plan op generation (o_state x) n cause at at' at'' db1) = Inr db'"
    using assms(1) unfolding settle_attempt_refusal_def by (auto simp: and_then_ok split: if_split_asm)
  have g: "good db db1" using *(2) assms(2) by (rule good_append)
  have "operation_of op db1 = operation_of op db" using *(2) by (auto simp: tx_simps)
  moreover have "locked = Some x \<Longrightarrow> operation_of op db = Some x" for x
    using *(1) by (cases "operation_of op db") (auto split: if_splits)
  ultimately have "good db1 db'"
    using *(3) kind good_settle_refusal_moves [OF _ good_inv [OF g]] good_refl [OF good_inv [OF g]]
    by (auto split: option.splits if_splits)
  with g show ?thesis by (rule good_trans)
qed

end
