(* ===== verification/Dispatch_System.thy ===== *)
theory Dispatch_System
  imports Dispatch_Run
begin

text \<open>
  The dispatch as a whole: every transaction of the plan acts, the commitment, the attempt, the
  outcome, the settle and the observations as one step, in any interleaving and by any controllers,
  beside an environment that publishes, assigns, creates plans and enters or leaves recovery mode.
  Every step is \<open>good\<close>, so every run keeps the tables' invariant and every operation lives the life
  the schema's trigger allows.
\<close>

section \<open>The commitment\<close>

lemma pstates_update:
  assumes "pstates_ok ss os" and "\<And>s. s_plan (f s) = s_plan s \<and> s_operation (f s) = s_operation s"
    and "\<And>s. s \<in> set ss \<Longrightarrow> s_plan s = plan \<Longrightarrow> s_state s \<noteq> PlanCommitted \<and> s_state (f s) \<noteq> PlanCommitted"
  shows "pstates_ok (sql_update (\<lambda>s. s_plan s = plan) f ss) os"
proof -
  have "map s_plan (sql_update (\<lambda>s. s_plan s = plan) f ss) = map s_plan ss"
    using assms(2) by (intro map_key_sql_update) simp
  moreover have "s_state s = PlanCommitted \<longleftrightarrow> s_operation s \<noteq> None"
    if "s \<in> set (sql_update (\<lambda>s. s_plan s = plan) f ss)" for s
    using that assms unfolding pstates_ok_def by (fastforce elim!: in_sql_updateE)
  moreover have "\<exists>s \<in> set (sql_update (\<lambda>s. s_plan s = plan) f ss). s_plan s = o_plan x \<and> s_operation s = Some (o_id x)"
    if x: "x \<in> set os" "o_kind x = ApplyConfig" for x
  proof -
    obtain s where s: "s \<in> set ss" "s_plan s = o_plan x" "s_operation s = Some (o_id x)"
      using assms(1) x unfolding pstates_ok_def by blast
    then show ?thesis using in_sql_updateI [OF s(1), of "\<lambda>s. s_plan s = plan" f] assms(2)
      by (intro bexI) auto
  qed
  ultimately show ?thesis using assms(1) unfolding pstates_ok_def by auto
qed

lemma plan_state_of: "pstates_ok ss os \<Longrightarrow> keyed s_plan plan ss = Some s \<Longrightarrow> t \<in> set ss \<Longrightarrow> s_plan t = plan \<Longrightarrow> t = s"
  by (auto simp: pstates_ok_def distinct_map inj_on_def dest!: keyed_Some)

lemma pstates_commit:
  assumes ok: "pstates_ok ss os" and s: "keyed s_plan plan ss = Some s" "s_operation s = None"
    and x: "o_plan x = plan" "o_id x = new"
    and f: "\<And>s. s_plan (f s) = s_plan s \<and> s_operation (f s) = Some new \<and> s_state (f s) = PlanCommitted"
  shows "pstates_ok (sql_update (\<lambda>s. s_plan s = plan) f ss) (os @ [x])"
proof -
  let ?ss = "sql_update (\<lambda>s. s_plan s = plan) f ss"
  have sin: "s \<in> set ss" "s_plan s = plan" using s(1) by (auto dest: keyed_Some)
  have "map s_plan ?ss = map s_plan ss" using f by (intro map_key_sql_update) simp
  moreover have "t \<in> set ?ss \<Longrightarrow> s_state t = PlanCommitted \<longleftrightarrow> s_operation t \<noteq> None" for t
    using ok f by (auto simp: pstates_ok_def elim!: in_sql_updateE)
  moreover have "\<exists>t \<in> set ?ss. s_plan t = o_plan y \<and> s_operation t = Some (o_id y)"
    if y: "y \<in> set os" "o_kind y = ApplyConfig" for y
  proof -
    obtain t where t: "t \<in> set ss" "s_plan t = o_plan y" "s_operation t = Some (o_id y)"
      using ok y unfolding pstates_ok_def by blast
    have "s_plan t \<noteq> plan" using plan_state_of [OF ok s(1) t(1)] s(2) t(3) by auto
    then show ?thesis using t in_sql_updateI [OF t(1), of "\<lambda>s. s_plan s = plan" f] by auto
  qed
  moreover have "\<exists>t \<in> set ?ss. s_plan t = o_plan x \<and> s_operation t = Some (o_id x)"
    using in_sql_updateI [OF sin(1), of "\<lambda>s. s_plan s = plan" f] sin(2) f x by (intro bexI [of _ "f s"]) auto
  ultimately show ?thesis using ok unfolding pstates_ok_def by auto
qed

lemma rebound_more: "rebound os (os @ [x])"
  by (auto simp: rebound_def)

lemma scope_ok_add:
  assumes ok: "scope_ok os" and no: "\<And>y. y \<in> set os \<Longrightarrow> \<not> (holder y \<and> (o_machine y = o_machine x \<or> o_cluster y = o_cluster x))"
  shows "scope_ok (os @ [x])"
proof -
  have "o_id y = o_id z" if yz: "y \<in> set (os @ [x])" "z \<in> set (os @ [x])"
      and h: "holder y" "holder z" "o_machine y = o_machine z \<or> o_cluster y = o_cluster z" for y z
  proof -
    have "y \<in> set os \<or> y = x" "z \<in> set os \<or> z = x" using yz by auto
    then consider "y \<in> set os" "z \<in> set os" | "y = x" "z = x"
      using no [of y] no [of z] h by metis
    then show ?thesis using ok h unfolding scope_ok_def by cases blast+
  qed
  then show ?thesis unfolding scope_ok_def by blast
qed

text \<open>A new operation's tables: no other holder of its machine or cluster, no attempt of its own.\<close>

lemma core_ok_commit:
  assumes core: "core_ok db" and x: "x = new_operation c p new at db" and p: "keyed p_id (p_id p) (plans db) = Some p"
    and new: "\<forall>y \<in> set (operations db). o_id y \<noteq> new \<and> o_plan y \<noteq> p_id p"
    and held: "\<not> scope_held (p_machine p) db" "\<not> rollout_held (p_cluster p) db"
    and tl: "\<exists>es. timeline db' = timeline db @ es"
    and eqs: "operations db' = operations db @ [x]" "plans db' = plans db" "attempts db' = attempts db"
      "accountings db' = accountings db" "responses db' = responses db" "classifications db' = classifications db"
  shows "core_ok db'"
proof -
  have pin: "p \<in> set (plans db)" using p by (auto dest: keyed_Some)
  have xf: "o_id x = new" "o_plan x = p_id p" "o_machine x = p_machine p" "o_cluster x = p_cluster p"
      "o_kind x = ApplyConfig" "o_state x = Committed" by (simp_all add: x new_operation_def)
  have parts: "ops_ok (operations db) (plans db)" "scope_ok (operations db)" "atts_ok (operations db) (plans db) (attempts db)"
    using core by (simp_all add: core_ok_def)
  have "ops_ok (operations db @ [x]) (plans db)"
    using parts(1) new pin xf unfolding ops_ok_def by auto
  moreover have "scope_ok (operations db @ [x])"
  proof -
    have no: "\<not> (holder y \<and> (o_machine y = o_machine x \<or> o_cluster y = o_cluster x))" if "y \<in> set (operations db)" for y
      using held that by (auto simp: scope_held_def rollout_held_def holder_def xf)
    with parts(2) show ?thesis by (rule scope_ok_add)
  qed
  moreover have none: "of_op new (attempts db) = []"
  proof -
    have "at_operation a \<noteq> new" if "a \<in> set (attempts db)" for a
      using parts(3) that new unfolding atts_ok_def by metis
    then show ?thesis by (simp add: of_op_def filter_empty_conv)
  qed
  moreover have "states_ok (operations db @ [x]) (attempts db) (accountings db)"
    using core none xf by (simp add: core_ok_def states_ok_def) (simp add: state_ok_def)
  moreover have "atts_ok (operations db @ [x]) (plans db) (attempts db)"
    using core by (intro atts_ok_rebound [OF rebound_more]) (simp add: core_ok_def)
  moreover have "retry_ok (operations db @ [x]) (attempts db) (classifications db) (timeline db')"
    using core tl by (auto simp: core_ok_def intro!: retry_ok_rebound [OF rebound_more] retry_ok_ext)
  ultimately show ?thesis using core eqs by (simp add: core_ok_def)
qed

lemma evolves_commit:
  assumes "operations db' = operations db @ [x]" "abs_op x = (1, Committed)" "o_id x \<notin> o_id ` set (operations db)"
  shows "evolves db db'"
proof -
  have "operation_of op db' = (case operation_of op db of Some y \<Rightarrow> Some y | None \<Rightarrow> if o_id x = op then Some x else None)" for op
    using assms(1) by (simp add: operation_of_def keyed_append keyed_Cons split: option.splits) (simp add: keyed_def sql_row_def)
  then show ?thesis using assms(2) by (auto simp: evolves_def row_evolves_refl)
qed

lemma update_plan_state_sel [simp]:
  "operations (update_plan_state q f db) = operations db" "machines (update_plan_state q f db) = machines db"
  "timeline (update_plan_state q f db) = timeline db" "plans (update_plan_state q f db) = plans db"
  "attempts (update_plan_state q f db) = attempts db" "accountings (update_plan_state q f db) = accountings db"
  "responses (update_plan_state q f db) = responses db" "classifications (update_plan_state q f db) = classifications db"
  "drifts (update_plan_state q f db) = drifts db"
  "plan_states (update_plan_state q f db) = sql_update (\<lambda>s. s_plan s = q) f (plan_states db)"
  by (simp_all add: update_plan_state_def)

lemma good_commit:
  assumes "commit_tx c plan new at db = Inr (r, db')" and inv: "dispatch_inv db"
  shows "good db db'"
proof -
  obtain p s ob where p: "keyed p_id plan (plans db) = Some p" and s: "keyed s_plan plan (plan_states db) = Some s"
    and op: "s_operation s = None" and c45: "commit_compare45 p db = None"
    and w: "commit_write c p s ob new at db = Inr (r, db')"
    using assms(1) unfolding commit_tx_def
    by (auto simp: and_then_ok found_ok refuse_if_ok commit_compare_def split: if_split_asm option.splits)
  have pid: "p_id p = plan" using p by (auto dest: keyed_Some)
  let ?x = "new_operation c p new at db"
  obtain m e where new: "\<forall>y \<in> set (operations db). o_id y \<noteq> new \<and> o_plan y \<noteq> p_id p"
    and m: "keyed m_id (p_machine p) (machines db) = Some m"
    and db': "db' = update_plan_state plan (\<lambda>s. s\<lparr>s_state := PlanCommitted, s_operation := Some new,
        s_revision := s_revision s + 1, s_updated := at\<rparr>)
      (entered (p_machine p) (inst_epoch db) e at (m_rev m + 1) (db\<lparr>operations := operations db @ [?x]\<rparr>))"
    using w pid by (auto simp: commit_write_def tx_simps split: if_split_asm)
  have "tl_ext db (entered (p_machine p) (inst_epoch db) e at (m_rev m + 1) (db\<lparr>operations := operations db @ [?x]\<rparr>))"
    using m by (intro tl_ext_entered_over) simp_all
  then have ext: "tl_ext db db'" by (rule tl_ext_same [rotated 2]) (simp_all add: db')
  have "core_ok db'"
  proof (rule core_ok_commit [where x = ?x])
    show "\<not> scope_held (p_machine p) db" "\<not> rollout_held (p_cluster p) db"
      using c45 by (auto simp: commit_compare45_def split: if_splits)
  qed (use inv p pid new ext in \<open>auto simp: db' dispatch_inv_def tl_ext_def\<close>)
  moreover have "pstates_ok (plan_states db') (operations db')"
    unfolding db' using inv s op pid by (simp, intro pstates_commit) (auto simp: dispatch_inv_def new_operation_def)
  moreover have "evolves db db'"
    using new by (intro evolves_commit [of db' db ?x]) (auto simp: db' abs_op_def new_operation_def)
  ultimately show ?thesis using inv ext by (auto simp: good_def dispatch_inv_def tl_ext_def db')
qed

lemma good_refusal_entry:
  assumes "record_refusal_entry c machine plan n cause obs already once drift at at' db = Inr db'" "dispatch_inv db"
  shows "good db db'"
proof (cases "db' = db")
  case False
  then obtain rv db1 where en: "append_entry machine (inst_epoch db) (ERefusal n plan None cause (ctl_id c) None obs) at db = Inr (rv, db1)"
    and rest: "(if drift then and_then (apply_drift machine (inst_epoch db) (case obs of None \<Rightarrow> '''' | Some x \<Rightarrow> x) False at' db1)
        (\<lambda>(_, db2). Inr db2) else Inr db1) = Inr db'"
    using assms(1) unfolding record_refusal_entry_def by (auto simp: and_then_ok split: if_split_asm)
  have g: "good db db1" using en assms(2) by (rule good_append)
  have "good db1 db'" using rest good_inv [OF g] by (auto simp: and_then_ok good_refl intro: good_apply_drift split: if_splits)
  with g show ?thesis by (rule good_trans)
qed (use assms(2) in \<open>simp add: good_refl\<close>)

section \<open>The plan acts\<close>

text \<open>An entry, rows of tables outside the invariant, and perhaps a plan's state.\<close>

lemma good_act:
  assumes inv: "dispatch_inv db" and en: "append_entry m ep e at db = Inr (rv, db1)"
    and core: "core_frame db1 db2" "machines db2 = machines db1" "timeline db2 = timeline db1" "drifts db2 = drifts db1"
    and ps: "pstates_ok (plan_states db2) (operations db)"
  shows "good db db2"
proof -
  have g: "good db db1" using en inv by (rule good_append)
  have "operations db1 = operations db" using en by (auto simp: tx_simps)
  then have "good db1 db2"
    using core ps good_inv [OF g] by (intro good_frame) (auto simp: tl_ext_def dispatch_inv_def)
  with g show ?thesis by (rule good_trans)
qed

lemma projected_open: "projected p s t db = Proposed \<or> projected p s t db = Approved \<Longrightarrow> s_state s = projected p s t db"
  by (auto simp: projected_def split: if_splits)

lemma projected_change: "projected p s t db \<noteq> s_state s \<Longrightarrow> s_state s \<noteq> PlanCommitted \<and> projected p s t db \<noteq> PlanCommitted"
  by (auto simp: projected_def split: if_splits)

text \<open>A plan's state changed by an act, the plan not committed before or after.\<close>

lemma pstates_act:
  assumes inv: "dispatch_inv db" and s: "keyed s_plan plan (plan_states db) = Some s" "s_state s \<noteq> PlanCommitted"
    and f: "\<And>s. s_plan (f s) = s_plan s \<and> s_operation (f s) = s_operation s \<and> s_state (f s) \<noteq> PlanCommitted"
  shows "pstates_ok (sql_update (\<lambda>s. s_plan s = plan) f (plan_states db)) (operations db)"
proof -
  have ok: "pstates_ok (plan_states db) (operations db)" using inv by (simp add: dispatch_inv_def)
  show ?thesis using plan_state_of [OF ok s(1)] s(2) f by (intro pstates_update [OF ok]) auto
qed

lemma append_entry_tables: "append_entry m ep e at db = Inr (rv, db1) \<Longrightarrow> plan_states db1 = plan_states db \<and> operations db1 = operations db"
  by (auto simp: tx_simps)

lemma good_approval_write:
  assumes "approval_write w p new self at db = Inr db'" and inv: "dispatch_inv db"
    and s: "keyed s_plan (p_id p) (plan_states db) = Some s" "s_state s \<noteq> PlanCommitted"
  shows "good db db'"
proof -
  obtain rv db1 e as where en: "append_entry (p_machine p) (inst_epoch db) e at db = Inr (rv, db1)"
    and db': "db' = update_plan_state (p_id p)
      (\<lambda>s. s\<lparr>s_state := Approved, s_approval := Some new, s_revision := s_revision s + 1, s_updated := at\<rparr>)
      (db1\<lparr>approvals := as\<rparr>)"
    using assms(1) unfolding approval_write_def by (auto simp: and_then_ok split: if_split_asm)
  show ?thesis using append_entry_tables [OF en] pstates_act [OF inv s]
    by (intro good_act [OF inv en]) (simp_all add: db' core_frame_def)
qed

lemma good_approve:
  assumes "approve_plan w plan new self t t' db = Inr db'" "dispatch_inv db"
  shows "good db db'"
proof -
  obtain p s where p: "keyed p_id plan (plans db) = Some p" and s: "keyed s_plan plan (plan_states db) = Some s"
    and st: "projected p s t db = Proposed \<or> projected p s t db = Approved"
    and w: "approval_write w p new self t' db = Inr db'"
    using assms(1) unfolding approve_plan_def by (auto simp: and_then_ok found_ok Let_def split: if_split_asm)
  have "p_id p = plan" using p by (auto dest: keyed_Some)
  then show ?thesis using good_approval_write [OF w assms(2)] s projected_open [OF st] st by auto
qed

lemma good_cancel:
  assumes "cancel_plan route held who act plan reason t t' db = Inr db'" and inv: "dispatch_inv db"
  shows "good db db'"
proof -
  obtain p :: plan_row and state rv db1 e cs where can: "cancellable plan t' db = Inr state"
    and en: "append_entry (p_machine p) (inst_epoch db) e t' db = Inr (rv, db1)"
    and db': "state = PlanCommitted \<and> db' = db1\<lparr>cancellations := cs\<rparr> \<or> state \<noteq> PlanCommitted \<and>
      db' = update_plan_state plan (\<lambda>s. s\<lparr>s_state := PlanCancelled, s_reason := Some ''cancelled'',
        s_approval := None, s_revision := s_revision s + 1, s_updated := t'\<rparr>) (db1\<lparr>cancellations := cs\<rparr>)"
    using assms(1) unfolding cancel_plan_def by (auto simp: and_then_ok found_ok Let_def split: if_split_asm; blast)
  have ps: "pstates_ok (plan_states db) (operations db)" using inv by (simp add: dispatch_inv_def)
  show ?thesis
  proof (cases "state = PlanCommitted")
    case True
    then show ?thesis using db' ps append_entry_tables [OF en]
      by (intro good_act [OF inv en]) (simp_all add: core_frame_def)
  next
    case False
    obtain p' s where s: "keyed s_plan plan (plan_states db) = Some s" "projected p' s t' db = state"
      and "state = Proposed \<or> state = Approved"
      using can False by (auto simp: cancellable_def projected_state_def tx_simps split: if_split_asm)
    then have "s_state s \<noteq> PlanCommitted" using projected_open [of p' s t' db] False by auto
    then show ?thesis using False db' append_entry_tables [OF en] pstates_act [OF inv s(1)]
      by (intro good_act [OF inv en]) (simp_all add: core_frame_def)
  qed
qed

lemma revoked_state_open:
  assumes "revoked_state s approval (projected p s t db) = Some (st, why)"
  shows "s_state s \<noteq> PlanCommitted \<and> st \<noteq> PlanCommitted"
  using assms projected_change [of p s t db] by (auto simp: revoked_state_def split: if_splits)

lemma good_revoke_approval:
  assumes "revoke_approval w approval reason t' db = Inr db'" and inv: "dispatch_inv db"
  shows "good db db'"
proof -
  obtain a :: approval_row and s p rv db1 e rs where s: "keyed s_plan (ap_plan a) (plan_states db) = Some s"
    and en: "append_entry (ap_machine a) (inst_epoch db) e t' db = Inr (rv, db1)"
    and db': "db' = (case revoked_state s approval (projected p s t' db) of
        None \<Rightarrow> db1\<lparr>approval_revocations := rs\<rparr>
      | Some (st, why) \<Rightarrow> update_plan_state (ap_plan a) (\<lambda>s. s\<lparr>s_state := st, s_reason := Some why,
          s_approval := (if st = Revoked then s_approval s else None), s_revision := s_revision s + 1, s_updated := t'\<rparr>)
          (db1\<lparr>approval_revocations := rs\<rparr>))"
    using assms(1) unfolding revoke_approval_def
    by (auto simp: and_then_ok found_ok projected_state_def Let_def split: if_split_asm)
  have ps: "pstates_ok (plan_states db) (operations db)" using inv by (simp add: dispatch_inv_def)
  show ?thesis
  proof (cases "revoked_state s approval (projected p s t' db)")
    case None
    then show ?thesis using ps append_entry_tables [OF en]
      by (intro good_act [OF inv en]) (simp_all add: db' core_frame_def)
  next
    case (Some q)
    obtain st why where q: "q = (st, why)" by (cases q)
    then have st: "s_state s \<noteq> PlanCommitted" "st \<noteq> PlanCommitted" using Some revoked_state_open by metis+
    show ?thesis using Some q st append_entry_tables [OF en] pstates_act [OF inv s st(1)]
      by (intro good_act [OF inv en]) (simp_all add: db' core_frame_def)
  qed
qed

lemma good_identity_entries:
  "identity_entries w who reason t es db = Inr db' \<Longrightarrow> dispatch_inv db \<Longrightarrow> good db db'"
proof (induction es arbitrary: db)
  case (Cons e es)
  obtain m ps where e: "e = (m, ps)" by (cases e)
  then obtain rv db1 where en: "append_entry m (inst_epoch db) (EIdentityRevocation who ps (w_principal w) (w_role w) reason) t db = Inr (rv, db1)"
      and rest: "identity_entries w who reason t es db1 = Inr db'"
    using Cons.prems(1) by (auto simp: and_then_ok)
  have g: "good db db1" using en Cons.prems(2) by (rule good_append)
  with Cons.IH [OF rest] show ?case by (auto intro: good_trans good_inv)
qed (simp add: good_refl)

lemma good_revoke_identity:
  assumes "revoke_identity w who reason t' db = Inr db'" and inv: "dispatch_inv db"
  shows "good db db'"
proof -
  obtain ps irs es where "identity_entries w who reason t' es (db\<lparr>principals := ps, identity_revocations := irs\<rparr>) = Inr db'"
    using assms(1) unfolding revoke_identity_def revoke_principal_def
    by (auto simp: and_then_ok Let_def split: if_split_asm option.split_asm)
  moreover have g: "good db (db\<lparr>principals := ps, identity_revocations := irs\<rparr>)"
    using inv by (intro good_frame) (simp_all add: core_frame_def tl_ext_def dispatch_inv_def)
  ultimately show ?thesis by (blast intro: good_trans good_identity_entries good_inv)
qed

section \<open>The freeze and the observations\<close>

text \<open>A timeline's order depends on the machines' identifiers and counters only.\<close>

lemma machine_ids:
  assumes "map (\<lambda>r. (m_id r, m_rev r)) ms' = map (\<lambda>r. (m_id r, m_rev r)) ms"
  shows "map m_id ms' = map m_id ms"
  using arg_cong [OF assms, of "map fst"] by (simp add: o_def)

lemma tl_ok_cong:
  assumes "map (\<lambda>r. (m_id r, m_rev r)) ms' = map (\<lambda>r. (m_id r, m_rev r)) ms" "tl_ok ms tml"
  shows "tl_ok ms' tml"
proof -
  have ids: "map m_id ms' = map m_id ms" using assms(1) by (rule machine_ids)
  have rows: "(\<lambda>r. (m_id r, m_rev r)) ` set ms' = (\<lambda>r. (m_id r, m_rev r)) ` set ms"
    using arg_cong [OF assms(1), of set] by simp
  have "\<exists>r' \<in> set ms'. m_id r' = m_id r \<and> m_rev r' = m_rev r" if "r \<in> set ms" for r
  proof -
    have "(m_id r, m_rev r) \<in> (\<lambda>r. (m_id r, m_rev r)) ` set ms'" using rows that by blast
    then show ?thesis by auto
  qed
  then show ?thesis using assms(2) ids unfolding tl_ok_def by simp metis
qed

lemma good_freeze:
  assumes "set_freeze w m reason freeze at db = Inr db'" and inv: "dispatch_inv db"
  shows "good db db'"
proof -
  obtain r e fs where r: "keyed m_id m (machines db) = Some r"
    and db': "db' = (add_event m (m_rev r + 1) (inst_epoch db) e at
      (db\<lparr>machines := sql_update (\<lambda>x. m_id x = m) (\<lambda>x. x\<lparr>m_frozen := freeze, m_rev := m_rev x + 1\<rparr>) (machines db)\<rparr>))
      \<lparr>freezes := fs\<rparr>"
    using assms(1) unfolding set_freeze_def by (auto simp: and_then_ok found_ok Let_def split: if_split_asm)
  let ?d = "entered m (inst_epoch db) e at (m_rev r + 1) db"
  have ms: "map (\<lambda>r. (m_id r, m_rev r)) (machines db') = map (\<lambda>r. (m_id r, m_rev r)) (machines ?d)"
    by (simp add: db' add_event_def entered_def sql_update_def)
  have tml: "timeline db' = timeline ?d" by (simp add: db' add_event_def entered_def)
  have "tl_ext db db'"
    using machine_ids [OF ms] tl_ext_entered [OF r, of "inst_epoch db" e at] tl_ok_cong [OF ms] unfolding tl_ext_def tml by auto
  then show ?thesis using inv by (intro good_frame) (simp_all add: db' add_event_def core_frame_def dispatch_inv_def)
qed

lemma next_entry_add:
  "next_entry m db = Inr (rv, db1) \<Longrightarrow> append_entry m ep e at db = Inr (rv, add_event m rv ep e at db1)"
  by (simp add: append_entry_def)

lemma good_start_observation:
  assumes "start_observation c m f pub t at db = Inr (res, db')" and inv: "dispatch_inv db"
  shows "good db db'"
proof -
  obtain rv db1 e sts where n: "next_entry m db = Inr (rv, db1)"
    and db': "db' = (add_event m rv (inst_epoch db) e at db1)\<lparr>obs_starts := sts\<rparr>"
    using assms(1) unfolding start_observation_def
    by (auto simp: and_then_ok found_ok Let_def split: if_split_asm option.split_asm)
  show ?thesis using append_entry_tables [OF next_entry_add [OF n]] inv
    by (intro good_act [OF inv next_entry_add [OF n]]) (simp_all add: db' core_frame_def dispatch_inv_def)
qed

lemma good_record_observation:
  assumes "record_observation c m f pub ob at at' db = Inr db'" and inv: "dispatch_inv db"
  shows "good db db'"
proof -
  obtain rv db1 e obs ch where n: "next_entry m db = Inr (rv, db1)"
    and rest: "db' = (add_event m rv (inst_epoch db) e at db1)\<lparr>observations := obs\<rparr> \<or>
      apply_drift m (inst_epoch db) (ob_id ob) False at'
        ((add_event m rv (inst_epoch db) e at db1)\<lparr>observations := obs\<rparr>) = Inr (ch, db')"
    using assms(1) unfolding record_observation_def
    by (auto simp: and_then_ok Let_def split: if_split_asm option.split_asm; blast)
  let ?d = "(add_event m rv (inst_epoch db) e at db1)\<lparr>observations := obs\<rparr>"
  have g: "good db ?d" using append_entry_tables [OF next_entry_add [OF n]] inv
    by (intro good_act [OF inv next_entry_add [OF n]]) (simp_all add: core_frame_def dispatch_inv_def)
  have "good ?d db'" using rest good_refl [OF good_inv [OF g]] good_apply_drift [OF _ good_inv [OF g]] by blast
  with g show ?thesis by (rule good_trans)
qed

section \<open>Steps and runs\<close>

text \<open>What the rest of the system may do between the transactions: publish releases, assign, change a
  machine's scope, Desired or endpoint, create plans (proposed), register clusters and principals,
  enter or leave recovery mode, start a new epoch.\<close>

definition env_change :: "dispatch_db \<Rightarrow> dispatch_db \<Rightarrow> bool" where
  "env_change db db' \<longleftrightarrow>
     map (\<lambda>r. (m_id r, m_rev r)) (machines db') = map (\<lambda>r. (m_id r, m_rev r)) (machines db) \<and>
     (\<exists>ps. plans db' = plans db @ ps) \<and> distinct (map p_id (plans db')) \<and>
     (\<exists>ss. plan_states db' = plan_states db @ ss \<and> list_all (\<lambda>s. s_state s = Proposed \<and> s_operation s = None) ss) \<and>
     distinct (map s_plan (plan_states db')) \<and>
     operations db' = operations db \<and> attempts db' = attempts db \<and> responses db' = responses db \<and>
     accountings db' = accountings db \<and> classifications db' = classifications db \<and>
     approvals db' = approvals db \<and> approval_revocations db' = approval_revocations db \<and>
     cancellations db' = cancellations db \<and> identity_revocations db' = identity_revocations db \<and>
     obs_starts db' = obs_starts db \<and> observations db' = observations db \<and> drifts db' = drifts db \<and>
     freezes db' = freezes db \<and> timeline db' = timeline db"

fun env_entry :: "entry \<Rightarrow> bool" where
  "env_entry (EUseTime _ _ _ _ _ _) \<longleftrightarrow> True"
| "env_entry (EScope _ _ _ _ _ _ _) \<longleftrightarrow> True"
| "env_entry (EOther _) \<longleftrightarrow> True"
| "env_entry _ \<longleftrightarrow> False"

inductive dispatch_step :: "dispatch_db \<Rightarrow> dispatch_db \<Rightarrow> bool" where
  approve: "approve_plan w plan new self t t' db = Inr db' \<Longrightarrow> dispatch_step db db'"
| cancel: "cancel_plan route held who act plan reason t t' db = Inr db' \<Longrightarrow> dispatch_step db db'"
| revoke_approval: "revoke_approval w approval reason t' db = Inr db' \<Longrightarrow> dispatch_step db db'"
| revoke_identity: "revoke_identity w who reason t' db = Inr db' \<Longrightarrow> dispatch_step db db'"
| freeze: "set_freeze w m reason fz at db = Inr db' \<Longrightarrow> dispatch_step db db'"
| start_observation: "start_observation c m f pub t at db = Inr (b, db') \<Longrightarrow> dispatch_step db db'"
| record_observation: "record_observation c m f pub ob at at' db = Inr db' \<Longrightarrow> dispatch_step db db'"
| commit: "commit_tx c plan new at db = Inr (cm, db') \<Longrightarrow> dispatch_step db db'"
| refusal: "record_refusal_entry c m plan n cause obs already once drift at at' db = Inr db' \<Longrightarrow> dispatch_step db db'"
| attempt: "record_attempt_tx c op generation new at db = Inr (r, db') \<Longrightarrow> dispatch_step db db'"
| attempt_refusal: "settle_attempt_refusal c m plan op generation n cause obs at at' at'' db = Inr db' \<Longrightarrow>
    (\<And>x. operation_of op db = Some x \<Longrightarrow> o_kind x = ApplyConfig) \<Longrightarrow> dispatch_step db db'"
| takeover: "take_over_tx c op generation reason clk db = Inr (t, db') \<Longrightarrow> dispatch_step db db'"
| response: "record_response c att resp clk db = Inr (rd, db') \<Longrightarrow> dispatch_step db db'"
| accounting: "account_by_decision c att who act start fin given at db = Inr (rv, db') \<Longrightarrow> dispatch_step db db'"
| settle: "settle_operation c op generation obs clk db = Inr (s, db') \<Longrightarrow> dispatch_step db db'"
| env: "env_change db db' \<Longrightarrow> dispatch_step db db'"
| env_entry: "append_entry m ep e at db = Inr (rv, db') \<Longrightarrow> env_entry e \<Longrightarrow> dispatch_step db db'"

lemma core_ok_plans:
  assumes "core_ok db" "plans db' = plans db @ ps" "distinct (map p_id (plans db'))"
    and "operations db' = operations db" "attempts db' = attempts db" "responses db' = responses db"
      "accountings db' = accountings db" "classifications db' = classifications db" "timeline db' = timeline db"
  shows "core_ok db'"
proof -
  have "ops_ok (operations db) (plans db')"
    using assms(1,2,3) unfolding core_ok_def ops_ok_def by (metis UnCI set_append)
  moreover have "atts_ok (operations db) (plans db') (attempts db)"
  proof -
    have "within_max (plans db') a" if "within_max (plans db) a" for a
      using that unfolding within_max_def assms(2) by (metis UnCI set_append)
    then show ?thesis using assms(1) unfolding core_ok_def atts_ok_def by blast
  qed
  ultimately show ?thesis using assms by (simp add: core_ok_def)
qed

lemma good_env: "env_change db db' \<Longrightarrow> dispatch_inv db \<Longrightarrow> good db db'"
proof -
  assume e: "env_change db db'" and inv: "dispatch_inv db"
  then obtain ps where "core_ok db'" using core_ok_plans [of db db'] by (auto simp: env_change_def dispatch_inv_def)
  moreover have ext: "tl_ext db db'"
  proof -
    have ms: "map (\<lambda>r. (m_id r, m_rev r)) (machines db') = map (\<lambda>r. (m_id r, m_rev r)) (machines db)"
      using e by (simp add: env_change_def)
    show ?thesis using machine_ids [OF ms] tl_ok_cong [OF ms] e by (auto simp: tl_ext_def env_change_def)
  qed
  moreover have "pstates_ok (plan_states db') (operations db)"
  proof -
    obtain ss where ss: "plan_states db' = plan_states db @ ss"
        "\<forall>s \<in> set ss. s_state s = Proposed \<and> s_operation s = None" "distinct (map s_plan (plan_states db'))"
      using e by (auto simp: env_change_def list_all_iff)
    have "pstates_ok (plan_states db) (operations db)" using inv by (simp add: dispatch_inv_def)
    then show ?thesis using ss(2,3) unfolding pstates_ok_def ss(1) by (simp add: ball_Un bex_Un)
  qed
  ultimately show ?thesis using e inv
    by (auto simp: good_def dispatch_inv_def tl_ext_def env_change_def intro: evolves_frame)
qed

lemma good_step: "dispatch_step db db' \<Longrightarrow> dispatch_inv db \<Longrightarrow> good db db'"
proof (induction rule: dispatch_step.induct)
  case (attempt_refusal c m plan op generation n cause obs at at' at'' db db')
  then show ?case using good_settle_attempt_refusal by blast
qed (blast intro: good_approve good_cancel good_revoke_approval good_revoke_identity good_freeze good_start_observation
    good_record_observation good_commit good_refusal_entry good_record_attempt good_take_over good_record_response
    good_account_by_decision good_settle_operation good_env good_append)+

text \<open>An installation before any plan was committed.\<close>

definition initial :: "dispatch_db \<Rightarrow> bool" where
  "initial db \<longleftrightarrow> distinct (map m_id (machines db)) \<and> distinct (map p_id (plans db)) \<and> distinct (map s_plan (plan_states db)) \<and>
     list_all (\<lambda>s. s_state s = Proposed \<and> s_operation s = None) (plan_states db) \<and>
     operations db = [] \<and> attempts db = [] \<and> responses db = [] \<and> accountings db = [] \<and> classifications db = [] \<and>
     drifts db = [] \<and> timeline db = []"

definition reachable :: "dispatch_db \<Rightarrow> bool" where
  "reachable db \<longleftrightarrow> (\<exists>db0. initial db0 \<and> dispatch_step\<^sup>*\<^sup>* db0 db)"

lemma initial_inv: "initial db \<Longrightarrow> dispatch_inv db"
  by (auto simp: initial_def dispatch_inv_def tl_ok_def core_ok_def ops_ok_def scope_ok_def atts_ok_def states_ok_def
      resps_ok_def retry_ok_def retries_once_def pstates_ok_def drifts_ok_def revs_def of_op_def list_all_iff)

text \<open>The life of one operation: absent, committed at generation 1, then along \<open>op_step\<close>.\<close>

inductive op_life :: "aop option \<Rightarrow> aop option \<Rightarrow> bool" where
  created: "op_step\<^sup>*\<^sup>* (1, Committed) b \<Longrightarrow> op_life None (Some b)"
| lived: "op_step\<^sup>*\<^sup>* a b \<Longrightarrow> op_life (Some a) (Some b)"

inductive_cases op_lifeE: "op_life (Some a) b"

lemma evolves_life:
  "evolves db db' \<Longrightarrow> map_option abs_op (operation_of op db') = map_option abs_op (operation_of op db) \<or>
     op_life (map_option abs_op (operation_of op db)) (map_option abs_op (operation_of op db'))"
  by (cases "operation_of op db"; cases "operation_of op db'")
    (force simp: evolves_def row_evolves_def intro: op_life.intros)+

interpretation operation_life: forward_sim dispatch_step dispatch_inv op_life
  "\<lambda>db. map_option abs_op (operation_of op db)" for op
proof unfold_locales
  show "dispatch_inv t" if "dispatch_inv s" "dispatch_step s t" for s t
    using good_step [OF that(2,1)] by (rule good_inv)
  show "map_option abs_op (operation_of op t) = map_option abs_op (operation_of op s) \<or>
      op_life (map_option abs_op (operation_of op s)) (map_option abs_op (operation_of op t))"
    if "dispatch_inv s" "dispatch_step s t" for s t
    using good_step [OF that(2,1)] by (intro evolves_life) (simp add: good_def)
qed

lemma reachable_inv: "reachable db \<Longrightarrow> dispatch_inv db"
  unfolding reachable_def using initial_inv operation_life.inv_run by blast

end
