(* ===== verification/Dispatch_Example.thy ===== *)
theory Dispatch_Example
  imports Dispatch_System
begin

text \<open>
  A concrete run of the dispatch, evaluated: a plan approved, observed, committed and sent (\<open>ex_db5\<close>),
  then completed (\<open>ex_db9\<close>), retried after an answer that settles nothing (\<open>ex_retry\<close>), taken over
  (\<open>ex_taken\<close>) or cancelled before it is sent (\<open>ex_cancelled\<close>). It shows the properties of
  \<open>Dispatch_Props\<close> at work and that their hypotheses can hold.
\<close>

section \<open>The run\<close>

definition ex_ctl :: controller where
  "ex_ctl = \<lparr>ctl_id = ''c1'', ctl_epoch = ''e1'', settle_floor = 10, max_transport = 5\<rparr>"

definition ex_other :: controller where
  "ex_other = \<lparr>ctl_id = ''c2'', ctl_epoch = ''e1'', settle_floor = 10, max_transport = 5\<rparr>"

definition ex_plan :: plan_row where
  "ex_plan = \<lparr>p_id = ''p1'', p_kind = ApplyConfig, p_machine = ''m1'', p_cluster = ''k1'', p_release = ''r1'',
     p_assignment = ''a1'', p_desired = Some ''r1'', p_baseline = Some 1, p_drift = None, p_expected = Some [1],
     p_route = ''10.0.0.1'', p_max_age = 1000, p_validity = 1000, p_transport = Some 5, p_verification = Some 50,
     p_max_attempts = Some 2, p_expires = 1000, p_creator = ''bob''\<rparr>"

definition ex_db0 :: dispatch_db where
  "ex_db0 = \<lparr>inst_epoch = ''e1'', recovery_mode = False,
     machines = [\<lparr>m_id = ''m1'', m_cluster = ''k1'', m_smbios = Some ''u1'', m_node = None, m_frozen = False,
       m_scope = Normal, m_rev = 0, m_endpoint = ''10.0.0.1''\<rparr>],
     clusters = [\<lparr>cl_id = ''k1'', cl_talos = Some ''t1''\<rparr>],
     mstates = [\<lparr>ms_machine = ''m1'', ms_revision = 1, ms_desired = Some ''r1'', ms_applied = Some ''r0'',
       ms_digest = Some [1], ms_source = Some ''adopt'', ms_baseline = Some 1\<rparr>],
     assignments = [\<lparr>as_machine = ''m1'', as_head = Some ''a1''\<rparr>],
     releases = [\<lparr>rl_id = ''r1'', rl_contract = ''v1.9''\<rparr>],
     release_machines = [\<lparr>rm_release = ''r1'', rm_machine = ''m1'', rm_digest = [2], rm_key = ''key'', rm_version = 1\<rparr>],
     plans = [ex_plan],
     plan_states = [\<lparr>s_plan = ''p1'', s_state = Proposed, s_approval = None, s_operation = None, s_reason = None,
       s_revision = 1, s_updated = 0\<rparr>],
     approvals = [],
     principals = [\<lparr>pr_id = ''ann'', pr_revoked = False\<rparr>, \<lparr>pr_id = ''bob'', pr_revoked = False\<rparr>],
     approval_revocations = [], cancellations = [],
     identity_revocations = [], operations = [], attempts = [], responses = [], accountings = [], classifications = [],
     obs_starts = [], observations = [], drifts = [], freezes = [], timeline = []\<rparr>"

definition ex_read :: "string \<Rightarrow> int \<Rightarrow> digest \<Rightarrow> observation_row" where
  "ex_read i basis dg = \<lparr>ob_id = i, ob_machine = ''m1'', ob_basis = basis, ob_revision = 0, ob_access = None,
     ob_smbios = Some ''u1'', ob_node = Some ''n1'', ob_cluster = Some ''t1'', ob_assignment = Some ''a1'',
     ob_version = Some ''v1.9.2'', ob_digest = Some dg, ob_resource = Some ''7'',
     ob_unread = [(''health'', ''none-bound'')], ob_at = 0\<rparr>"

definition ex_for :: "purpose \<Rightarrow> string option \<Rightarrow> observe_for" where
  "ex_for pu op = \<lparr>of_purpose = pu, of_plan = Some ''p1'', of_operation = op, of_paced = False, of_generation = 0\<rparr>"

definition ex_approve :: "(api_error, dispatch_db) res" where
  "ex_approve = approve_plan \<lparr>w_principal = ''ann'', w_role = ''approver'', w_act = ''act1''\<rparr> ''p1'' ''ap1'' [] 10 11 ex_db0"

definition ex_db1 :: dispatch_db where "ex_db1 = projr ex_approve"
definition ex_db2 :: dispatch_db where
  "ex_db2 = snd (projr (start_observation ex_ctl ''m1'' (ex_for Evidence None) None 12 12 ex_db1))"
definition ex_db3 :: dispatch_db where
  "ex_db3 = projr (record_observation ex_ctl ''m1'' (ex_for Evidence None) None (ex_read ''o1'' 2 [1]) 13 13 ex_db2)"
definition ex_db4 :: dispatch_db where "ex_db4 = snd (projr (commit_tx ex_ctl ''p1'' ''op1'' 20 ex_db3))"
definition ex_db5 :: dispatch_db where "ex_db5 = snd (projr (record_attempt_tx ex_ctl ''op1'' 1 ''at1'' 21 ex_db4))"

definition ex_accepted :: response where
  "ex_accepted = \<lparr>rs_class = Accepted, rs_code = 0, rs_text = ''accepted''\<rparr>"
definition ex_db6 :: dispatch_db where
  "ex_db6 = snd (projr (record_response ex_ctl ''at1'' ex_accepted (\<lambda>n. 22 + int n) ex_db5))"
definition ex_db7 :: dispatch_db where
  "ex_db7 = snd (projr (start_observation ex_ctl ''m1'' (ex_for Completion (Some ''op1'')) None 30 30 ex_db6))"
definition ex_db8 :: dispatch_db where
  "ex_db8 = projr (record_observation ex_ctl ''m1'' (ex_for Completion (Some ''op1'')) None (ex_read ''o2'' 9 [2]) 31 31 ex_db7)"
definition ex_db9 :: dispatch_db where
  "ex_db9 = snd (projr (settle_operation ex_ctl ''op1'' 1 ''o2'' (\<lambda>n. 32 + int n) ex_db8))"

definition ex_invalid :: response where
  "ex_invalid = \<lparr>rs_class = InvalidArgument, rs_code = 3, rs_text = ''invalid''\<rparr>"
definition ex_re6 :: dispatch_db where
  "ex_re6 = snd (projr (record_response ex_ctl ''at1'' ex_invalid (\<lambda>n. 22 + int n) ex_db5))"
definition ex_re7 :: dispatch_db where
  "ex_re7 = snd (projr (start_observation ex_ctl ''m1'' (ex_for Recovery (Some ''op1'')) None 30 30 ex_re6))"
definition ex_re8 :: dispatch_db where
  "ex_re8 = projr (record_observation ex_ctl ''m1'' (ex_for Recovery (Some ''op1'')) None (ex_read ''o2'' 9 [1]) 31 31 ex_re7)"
definition ex_re9 :: dispatch_db where
  "ex_re9 = snd (projr (settle_operation ex_ctl ''op1'' 1 ''o2'' (\<lambda>n. 32 + int n) ex_re8))"
definition ex_retry :: dispatch_db where
  "ex_retry = snd (projr (record_attempt_tx ex_ctl ''op1'' 1 ''at2'' 50 ex_re9))"

definition ex_taken :: dispatch_db where
  "ex_taken = snd (projr (take_over_tx ex_other ''op1'' 1 ''restart'' (\<lambda>n. 23 + int n) ex_db5))"

definition ex_cancel :: dispatch_db where
  "ex_cancel = projr (cancel_plan [''approver'', ''publisher''] [''publisher''] ''bob'' ''act2'' ''p1'' ''stop'' 21 21 ex_db4)"
definition ex_cancelled :: dispatch_db where
  "ex_cancelled = projr (settle_attempt_refusal ex_ctl ''m1'' ''p1'' ''op1'' 1 1 ''the plan is cancelled'' None 22 23 24 ex_cancel)"

lemma Inr_projr: "\<not> isl r \<Longrightarrow> r = Inr (projr r)"
  by (cases r) auto

lemma Inr_projr_pair: "\<not> isl r \<Longrightarrow> r = Inr (fst (projr r), snd (projr r))"
  by (cases r) auto

lemma ex_step_db1: "dispatch_step ex_db0 ex_db1"
  by (subst ex_db1_def, subst ex_approve_def, rule dispatch_step.approve [OF Inr_projr]) code_simp

lemma ex_step_db2: "dispatch_step ex_db1 ex_db2"
  by (subst ex_db2_def, rule dispatch_step.start_observation [OF Inr_projr_pair]) code_simp

lemma ex_step_db3: "dispatch_step ex_db2 ex_db3"
  by (subst ex_db3_def, rule dispatch_step.record_observation [OF Inr_projr]) code_simp

lemma ex_step_db4: "dispatch_step ex_db3 ex_db4"
  by (subst ex_db4_def, rule dispatch_step.commit [OF Inr_projr_pair]) code_simp

lemma ex_step_db5: "dispatch_step ex_db4 ex_db5"
  by (subst ex_db5_def, rule dispatch_step.attempt [OF Inr_projr_pair]) code_simp

lemma ex_step_db6: "dispatch_step ex_db5 ex_db6"
  by (subst ex_db6_def, rule dispatch_step.response [OF Inr_projr_pair]) code_simp

lemma ex_step_db7: "dispatch_step ex_db6 ex_db7"
  by (subst ex_db7_def, rule dispatch_step.start_observation [OF Inr_projr_pair]) code_simp

lemma ex_step_db8: "dispatch_step ex_db7 ex_db8"
  by (subst ex_db8_def, rule dispatch_step.record_observation [OF Inr_projr]) code_simp

lemma ex_step_db9: "dispatch_step ex_db8 ex_db9"
  by (subst ex_db9_def, rule dispatch_step.settle [OF Inr_projr_pair]) code_simp

lemma ex_step_re6: "dispatch_step ex_db5 ex_re6"
  by (subst ex_re6_def, rule dispatch_step.response [OF Inr_projr_pair]) code_simp

lemma ex_step_re7: "dispatch_step ex_re6 ex_re7"
  by (subst ex_re7_def, rule dispatch_step.start_observation [OF Inr_projr_pair]) code_simp

lemma ex_step_re8: "dispatch_step ex_re7 ex_re8"
  by (subst ex_re8_def, rule dispatch_step.record_observation [OF Inr_projr]) code_simp

lemma ex_step_re9: "dispatch_step ex_re8 ex_re9"
  by (subst ex_re9_def, rule dispatch_step.settle [OF Inr_projr_pair]) code_simp

lemma ex_step_retry: "dispatch_step ex_re9 ex_retry"
  by (subst ex_retry_def, rule dispatch_step.attempt [OF Inr_projr_pair]) code_simp

lemma ex_step_taken: "dispatch_step ex_db5 ex_taken"
  by (subst ex_taken_def, rule dispatch_step.takeover [OF Inr_projr_pair]) code_simp

lemma ex_step_cancel: "dispatch_step ex_db4 ex_cancel"
  by (subst ex_cancel_def, rule dispatch_step.cancel [OF Inr_projr]) code_simp

lemma ex_step_cancelled: "dispatch_step ex_cancel ex_cancelled"
proof -
  have "\<not> isl (settle_attempt_refusal ex_ctl ''m1'' ''p1'' ''op1'' 1 1 ''the plan is cancelled'' None 22 23 24 ex_cancel)" by code_simp
  moreover have "operation_of ''op1'' ex_cancel = Some x \<Longrightarrow> o_kind x = ApplyConfig" for x
  proof -
    have "map_option o_kind (operation_of ''op1'' ex_cancel) = Some ApplyConfig" by code_simp
    then show "operation_of ''op1'' ex_cancel = Some x \<Longrightarrow> o_kind x = ApplyConfig" by simp
  qed
  ultimately show ?thesis unfolding ex_cancelled_def by (rule dispatch_step.attempt_refusal [OF Inr_projr])
qed

lemma ex_initial: "initial ex_db0"
  by code_simp

lemma reachable_step: "reachable db \<Longrightarrow> dispatch_step db db' \<Longrightarrow> reachable db'"
  unfolding reachable_def by (meson rtranclp.rtrancl_into_rtrancl)

lemma ex_reachable:
  "reachable ex_db0" "reachable ex_db1" "reachable ex_db2" "reachable ex_db3" "reachable ex_db4" "reachable ex_db5"
proof -
  show r0: "reachable ex_db0" unfolding reachable_def using ex_initial by blast
  show r1: "reachable ex_db1" by (rule reachable_step [OF r0 ex_step_db1])
  show r2: "reachable ex_db2" by (rule reachable_step [OF r1 ex_step_db2])
  show r3: "reachable ex_db3" by (rule reachable_step [OF r2 ex_step_db3])
  show r4: "reachable ex_db4" by (rule reachable_step [OF r3 ex_step_db4])
  show "reachable ex_db5" by (rule reachable_step [OF r4 ex_step_db5])
qed

lemma ex_completed_reachable: "reachable ex_db6" "reachable ex_db7" "reachable ex_db8" "reachable ex_db9"
proof -
  show r6: "reachable ex_db6" by (rule reachable_step [OF ex_reachable(6) ex_step_db6])
  show r7: "reachable ex_db7" by (rule reachable_step [OF r6 ex_step_db7])
  show r8: "reachable ex_db8" by (rule reachable_step [OF r7 ex_step_db8])
  show "reachable ex_db9" by (rule reachable_step [OF r8 ex_step_db9])
qed

lemma ex_retry_reachable: "reachable ex_re8" "reachable ex_re9" "reachable ex_retry"
proof -
  have "reachable ex_re7" by (rule reachable_step [OF reachable_step [OF ex_reachable(6) ex_step_re6] ex_step_re7])
  then show r8: "reachable ex_re8" by (rule reachable_step [OF _ ex_step_re8])
  show r9: "reachable ex_re9" by (rule reachable_step [OF r8 ex_step_re9])
  show "reachable ex_retry" by (rule reachable_step [OF r9 ex_step_retry])
qed

lemma ex_cancelled_reachable: "reachable ex_cancelled"
  by (rule reachable_step [OF reachable_step [OF ex_reachable(5) ex_step_cancel] ex_step_cancelled])

section \<open>Drift and a decision's accounting\<close>

definition ex_dr1 :: dispatch_db where
  "ex_dr1 = snd (projr (start_observation ex_ctl ''m1'' (ex_for DriftRead None) None 5 5 ex_db0))"
definition ex_drift :: dispatch_db where
  "ex_drift = projr (record_observation ex_ctl ''m1'' (ex_for DriftRead None) None (ex_read ''o9'' 1 [7]) 6 7 ex_dr1)"

text \<open>The attempt's executor is taken over; a first recovery read after its transport deadline, a second
  one past the settle floor, and a person's decision.\<close>

definition ex_ac1 :: dispatch_db where
  "ex_ac1 = snd (projr (start_observation ex_other ''m1'' (ex_for Recovery (Some ''op1'')) None 40 40 ex_taken))"
definition ex_ac2 :: dispatch_db where
  "ex_ac2 = projr (record_observation ex_other ''m1'' (ex_for Recovery (Some ''op1'')) None (ex_read ''o2'' 8 [1]) 41 41 ex_ac1)"
definition ex_ac3 :: dispatch_db where
  "ex_ac3 = snd (projr (start_observation ex_other ''m1'' (ex_for Recovery (Some ''op1'')) None 52 52 ex_ac2))"
definition ex_ac4 :: dispatch_db where
  "ex_ac4 = projr (record_observation ex_other ''m1'' (ex_for Recovery (Some ''op1'')) None (ex_read ''o3'' 10 [1]) 53 53 ex_ac3)"
definition ex_accounted :: dispatch_db where
  "ex_accounted = snd (projr (account_by_decision ex_other ''at1'' ''ann'' ''act3'' ''o2'' ''o3'' [] 60 ex_ac4))"

lemma ex_step_dr1: "dispatch_step ex_db0 ex_dr1"
  by (subst ex_dr1_def, rule dispatch_step.start_observation [OF Inr_projr_pair]) code_simp

lemma ex_step_drift: "dispatch_step ex_dr1 ex_drift"
  by (subst ex_drift_def, rule dispatch_step.record_observation [OF Inr_projr]) code_simp

lemma ex_drift_reachable: "reachable ex_drift"
  by (rule reachable_step [OF reachable_step [OF ex_reachable(1) ex_step_dr1] ex_step_drift])

lemma ex_accounts: "\<not> isl (account_by_decision ex_other ''at1'' ''ann'' ''act3'' ''o2'' ''o3'' [] 60 ex_ac4)"
  by code_simp

end
