(* ===== verification/Dispatch_Props.thy ===== *)
theory Dispatch_Props
  imports Dispatch_Example
begin

text \<open>
  The properties of the dispatch's runs, each with a witness on the run of \<open>Dispatch_Example\<close>.
\<close>

section \<open>Runs\<close>

lemma good_run: "dispatch_step\<^sup>*\<^sup>* db db' \<Longrightarrow> dispatch_inv db \<Longrightarrow> good db db'"
proof (induction rule: rtranclp_induct)
  case (step b c)
  then have "good db b" by simp
  moreover have "good b c" using step good_step good_inv by blast
  ultimately show ?case by (rule good_trans)
qed (rule good_refl)

lemma run_row:
  assumes "reachable db" "dispatch_step\<^sup>*\<^sup>* db db'" "operation_of op db = Some x"
  shows "\<exists>y. operation_of op db' = Some y \<and> row_evolves x y"
  using good_run [OF assms(2) reachable_inv [OF assms(1)]] assms(3) unfolding good_def evolves_def by blast

lemma op_row: "reachable db \<Longrightarrow> operation_of op db = Some x \<Longrightarrow> x \<in> set (operations db) \<and> o_id x = op"
  by (auto simp: operation_of_def dest: keyed_Some)

lemma reachable_core: "reachable db \<Longrightarrow> core_ok db"
  using reachable_inv by (simp add: dispatch_inv_def)



text \<open>An operation that has ended (completed, failed, rejected or cancelled) is never written again: no
  later run changes its row.\<close>

theorem ended_operation_is_final:
  assumes "reachable db" and "operation_of op db = Some x" and "\<not> holding (o_state x)" and "dispatch_step\<^sup>*\<^sup>* db db'"
  shows "operation_of op db' = Some x"
  using run_row [OF assms(1,4,2)] assms(3) by (auto simp: row_evolves_def)

theorem ended_operation_is_final_witness:
  "map_option o_state (operation_of ''op1''
     (projr (set_freeze \<lparr>w_principal = ''ann'', w_role = ''operator'', w_act = ''act9''\<rparr> ''m1'' ''pause'' True 40 ex_db9))) = Some Completed"
proof -
  let ?r = "set_freeze \<lparr>w_principal = ''ann'', w_role = ''operator'', w_act = ''act9''\<rparr> ''m1'' ''pause'' True 40 ex_db9"
  have "map_option o_state (operation_of ''op1'' ex_db9) = Some Completed" by code_simp
  then obtain x where x: "operation_of ''op1'' ex_db9 = Some x" "o_state x = Completed" by auto
  then have ended: "\<not> holding (o_state x)" by (simp add: holding_def)
  have "\<not> isl ?r" by code_simp
  then have "dispatch_step\<^sup>*\<^sup>* ex_db9 (projr ?r)"
    by (intro r_into_rtranclp [of dispatch_step] dispatch_step.freeze [OF Inr_projr])
  then show ?thesis using x ended_operation_is_final [OF ex_completed_reachable(4) x(1) ended] by simp
qed

text \<open>C4. Scope: two apply-config operations that have not ended are on different machines of different
  clusters; the commitments' comparisons 4 and 5 alone ensure what the schema's unique indexes demand.\<close>

theorem scope_is_exclusive:
  assumes "reachable db" and "x \<in> set (operations db)" and "y \<in> set (operations db)"
    and "o_kind x = ApplyConfig" and "o_kind y = ApplyConfig" and "holding (o_state x)" and "holding (o_state y)"
    and "o_machine x = o_machine y \<or> o_cluster x = o_cluster y"
  shows "x = y"
proof -
  have "o_id x = o_id y"
    using reachable_core [OF assms(1)] assms(2-8) unfolding core_ok_def scope_ok_def holder_def by blast
  then show ?thesis using reachable_core [OF assms(1)] assms(2,3)
    unfolding core_ok_def ops_ok_def by (metis distinct_map inj_onD)
qed

theorem scope_is_exclusive_witness:
  "operations ex_db5 \<noteq> [] \<and> list_all (\<lambda>x. o_kind x = ApplyConfig \<and> holding (o_state x)) (operations ex_db5) \<and>
   hd (operations ex_db5) = last (operations ex_db5)"
proof -
  have f: "operations ex_db5 \<noteq> []" "list_all (\<lambda>x. o_kind x = ApplyConfig \<and> holding (o_state x) \<and> o_machine x = ''m1'') (operations ex_db5)"
    by code_simp+
  then have "hd (operations ex_db5) = last (operations ex_db5)"
    by (intro scope_is_exclusive [OF ex_reachable(6)]) (auto simp: list_all_iff)
  with f show ?thesis by (auto simp: list_all_iff)
qed

text \<open>C17. Attempts: the attempts of an operation are numbered 1, 2, \<open>\<dots>\<close> in the order recorded, and
  there are never more than its plan binds.\<close>

theorem attempts_numbered_and_bounded:
  assumes "reachable db" and "operation_of op db = Some x" and "keyed p_id (o_plan x) (plans db) = Some p"
    and "attempts_of op db \<noteq> []"
  shows "map at_number (attempts_of op db) = [1..<Suc (length (attempts_of op db))] \<and>
    (\<exists>n. p_max_attempts p = Some n \<and> int (length (attempts_of op db)) \<le> n)"
proof -
  have core: "core_ok db" using assms(1) by (rule reachable_core)
  then have ops: "ops_ok (operations db) (plans db)" and ok: "atts_ok (operations db) (plans db) (attempts db)"
    by (auto simp: core_ok_def)
  have num: "map at_number (attempts_of op db) = [1..<Suc (length (attempts_of op db))]"
    using ok by (simp add: atts_ok_def attempts_of_op)
  let ?a = "last (attempts_of op db)"
  have ain: "?a \<in> set (attempts db)" "at_operation ?a = op" using last_in_set [OF assms(4)] by (auto simp: attempts_of_def)
  have "at_number ?a = length (attempts_of op db)"
  proof -
    have "at_number ?a = last (map at_number (attempts_of op db))" using assms(4) by (simp add: last_map)
    also have "\<dots> = length (attempts_of op db)" using assms(4) unfolding num by (subst last_upt) auto
    finally show ?thesis .
  qed
  moreover obtain q where q: "q \<in> set (plans db)" "p_id q = at_plan ?a" "\<exists>n. p_max_attempts q = Some n \<and> int (at_number ?a) \<le> n"
  proof -
    have "within_max (plans db) ?a" using ok ain(1) unfolding atts_ok_def by blast
    then show thesis using that by (auto simp: within_max_def split: option.splits)
  qed
  moreover obtain y where "y \<in> set (operations db)" "o_id y = at_operation ?a" "o_plan y = at_plan ?a"
    using ok ain(1) unfolding atts_ok_def by blast
  then have "o_plan x = at_plan ?a" using op_of [OF ops assms(2)] ain(2) by metis
  then have "q = p" using plan_of_operation [OF ops assms(2,3)] q(1,2) ops
    by (auto simp: ops_ok_def distinct_map inj_on_def)
  ultimately show ?thesis using num by auto
qed

theorem attempts_numbered_and_bounded_witness:
  "length (attempts_of ''op1'' ex_retry) = 2 \<and> map at_number (attempts_of ''op1'' ex_retry) = [1..<Suc (length (attempts_of ''op1'' ex_retry))]"
proof -
  have len: "length (attempts_of ''op1'' ex_retry) = 2" by code_simp
  then have ne: "attempts_of ''op1'' ex_retry \<noteq> []" by auto
  obtain x where x: "operation_of ''op1'' ex_retry = Some x" "o_plan x = ''p1''"
  proof -
    have "map_option o_plan (operation_of ''op1'' ex_retry) = Some ''p1''" by code_simp
    then show thesis using that by auto
  qed
  have "keyed p_id ''p1'' (plans ex_retry) = Some ex_plan" by code_simp
  then show ?thesis using attempts_numbered_and_bounded [OF ex_retry_reachable(3) x(1) _ ne, of ex_plan] x(2) len by auto
qed

text \<open>C18. Retries: one classification admits one attempt. Two attempts of an operation that name the same
  classification are the same attempt, and an attempt that names none is the operation's first.\<close>

theorem one_attempt_per_classification:
  assumes "reachable db" and "a \<in> set (attempts db)" and "b \<in> set (attempts db)"
    and "at_operation a = at_operation b" and "at_classification a = at_classification b"
  shows "a = b"
proof -
  have core: "core_ok db" using assms(1) by (rule reachable_core)
  then have retry: "retry_ok (operations db) (attempts db) (classifications db) (timeline db)"
    and ok: "atts_ok (operations db) (plans db) (attempts db)" by (simp_all add: core_ok_def)
  then have once: "retries_once (attempts db)" by (simp add: retry_ok_def)
  have cls: "at_number c = 1" if "c \<in> set (attempts db)" "at_classification c = None" for c
    using retry that unfolding retry_ok_def by fastforce
  have ids: "distinct (map at_id (attempts db))" using ok by (simp add: atts_ok_def)
  show ?thesis
  proof (cases "at_classification a")
    case None
    let ?as = "of_op (at_operation a) (attempts db)"
    have "at_number a = at_number b" using None assms(2,3,5) cls by auto
    moreover have "distinct (map at_number ?as)" using ok by (simp add: atts_ok_def)
    moreover have "a \<in> set ?as" "b \<in> set ?as" using assms(2-4) by (auto simp: of_op_def)
    ultimately show ?thesis by (auto simp: distinct_map inj_on_def)
  next
    case (Some k)
    then have "at_classification a \<noteq> None" by simp
    then have "at_id a = at_id b" using once assms(2-5) unfolding retries_once_def by blast
    then show ?thesis using ids assms(2,3) by (auto simp: distinct_map inj_on_def)
  qed
qed

theorem one_attempt_per_classification_witness:
  "map at_classification (attempts ex_retry) = [None, Some 11] \<and> attempts ex_retry ! 1 = last (attempts ex_retry)"
proof -
  have f: "map at_classification (attempts ex_retry) = [None, Some 11]" "map at_operation (attempts ex_retry) = [''op1'', ''op1'']"
    by code_simp+
  then obtain a b where ab: "attempts ex_retry = [a, b]" by (auto simp: map_eq_Cons_conv)
  have "attempts ex_retry ! 1 = last (attempts ex_retry)"
    by (rule one_attempt_per_classification [OF ex_retry_reachable(3)]) (use ab in simp_all)
  then show ?thesis using f(1) by blast
qed

text \<open>C31. Ends: an operation that completed, failed or was rejected sent at least one attempt and every
  attempt of it is accounted for; a cancelled one, and a committed one, sent none.\<close>

theorem ended_operations_are_accounted:
  assumes "reachable db" and "operation_of op db = Some x" and "o_kind x = ApplyConfig"
  shows "(o_state x \<in> {Completed, Failed, Rejected} \<longrightarrow>
      attempts_of op db \<noteq> [] \<and> list_all (\<lambda>a. accounted db (at_id a)) (attempts_of op db)) \<and>
    (o_state x \<in> {Committed, Cancelled} \<longrightarrow> attempts_of op db = [])"
proof -
  have "o_id x = op" and "state_ok (attempts db) (accountings db) x"
    using reachable_core [OF assms(1)] op_row [OF assms(1,2)] by (auto simp: core_ok_def states_ok_def)
  then show ?thesis using assms(3)
    by (auto simp: state_ok_def all_accounted_def attempts_of_op accounted_iff list_all_iff)
qed

theorem ended_operations_are_accounted_witness:
  "attempts_of ''op1'' ex_cancelled = [] \<and> list_all (\<lambda>a. accounted ex_db9 (at_id a)) (attempts_of ''op1'' ex_db9)"
proof -
  have "map_option (\<lambda>x. (o_kind x, o_state x)) (operation_of ''op1'' ex_cancelled) = Some (ApplyConfig, Cancelled)"
    "map_option (\<lambda>x. (o_kind x, o_state x)) (operation_of ''op1'' ex_db9) = Some (ApplyConfig, Completed)" by code_simp+
  then obtain x y where "operation_of ''op1'' ex_cancelled = Some x" "o_kind x = ApplyConfig" "o_state x = Cancelled"
      "operation_of ''op1'' ex_db9 = Some y" "o_kind y = ApplyConfig" "o_state y = Completed" by auto
  then show ?thesis using ended_operations_are_accounted [OF ex_cancelled_reachable, of "''op1''" x]
      ended_operations_are_accounted [OF ex_completed_reachable(4), of "''op1''" y] by simp
qed

text \<open>Timelines: every run only appends to the machines' timelines, and each machine's revisions
  strictly increase.\<close>

theorem timelines_only_grow:
  assumes "reachable db" and "dispatch_step\<^sup>*\<^sup>* db db'"
  shows "(\<exists>es. timeline db' = timeline db @ es) \<and> sorted_wrt (<) (revs m (timeline db'))"
  using good_run [OF assms(2) reachable_inv [OF assms(1)]]
  by (auto simp: good_def tl_ext_def dispatch_inv_def tl_ok_def)

theorem timelines_only_grow_witness:
  "sorted_wrt (<) (revs ''m1'' (timeline ex_taken)) \<and> revs ''m1'' (timeline ex_taken) = [1, 2, 3, 4, 5, 6, 7]"
proof
  show "sorted_wrt (<) (revs ''m1'' (timeline ex_taken))"
    using timelines_only_grow [OF ex_reachable(6) r_into_rtranclp [of dispatch_step, OF ex_step_taken]] by blast
qed code_simp

lemma run_gen:
  assumes "reachable db" "dispatch_step\<^sup>*\<^sup>* db db'" "operation_of op db = Some x" "operation_of op db' = Some y"
  shows "o_gen x \<le> o_gen y"
  using run_row [OF assms(1-3)] assms(4) op_step_gen by (fastforce simp: row_evolves_def abs_op_def)

lemma taken_gen:
  assumes "take_over_tx c op g reason clk db = Inr (t, db1)"
  shows "\<exists>x. operation_of op db1 = Some x \<and> o_gen x = g + 1"
proof -
  obtain x rv db' e where x: "lock_operation c op db = Inr x" "o_gen x = g"
    and en: "append_entry (o_machine x) (inst_epoch db) e (clk 0)
      (update_op op (\<lambda>y. y\<lparr>o_state := Unresolved, o_owner := Some (ctl_id c), o_gen := o_gen y + 1,
         o_owner_epoch := Some (inst_epoch db)\<rparr>) db) = Inr (rv, db')"
    and mv: "db1 = db' \<or> (\<exists>m ep e' rv'. append_entry m ep e' (clk 1) db' = Inr (rv', db1))"
    using assms by (rule take_over_written)
  have "operation_of op db1 = operation_of op db'" using mv by (auto simp: append_entry_ok)
  moreover have "operation_of op db' = Some (x\<lparr>o_state := Unresolved, o_owner := Some (ctl_id c), o_gen := g + 1,
         o_owner_epoch := Some (inst_epoch db)\<rparr>)"
    using en x by (auto simp: append_entry_ok operation_of_update lock_operation_ok)
  ultimately show ?thesis by simp
qed

text \<open>C19. Takeover: one takeover of a generation wins. From then on, in every later state, no process
  takes that generation over again, records an attempt or settles with the fenced token.\<close>

theorem takeover_fences:
  assumes "reachable db" and "take_over_tx c op g reason clk db = Inr (t, db1)" and "dispatch_step\<^sup>*\<^sup>* db1 db2"
  shows "isl (take_over_tx c' op g reason' clk' db2) \<and> isl (record_attempt_tx c' op g new at db2) \<and>
    isl (settle_operation c' op g obs clk' db2)"
proof -
  have r1: "reachable db1" using assms(1) dispatch_step.takeover [OF assms(2)] by (rule reachable_step)
  obtain x where x: "operation_of op db1 = Some x" "o_gen x = g + 1" using taken_gen [OF assms(2)] by blast
  then have gen: "o_gen y \<noteq> g" if "operation_of op db2 = Some y" for y
    using run_gen [OF r1 assms(3) x(1) that] by simp
  have "isl (take_over_tx c' op g reason' clk' db2)"
  proof (rule ccontr)
    assume "\<not> isl (take_over_tx c' op g reason' clk' db2)"
    then obtain q where "take_over_tx c' op g reason' clk' db2 = Inr q" by (metis isl_def sum.exhaust)
    then obtain t' db' where "take_over_tx c' op g reason' clk' db2 = Inr (t', db')" by (cases q) simp
    then obtain y where "lock_operation c' op db2 = Inr y" "o_gen y = g" by (rule take_over_written)
    then show False using gen by (simp add: lock_operation_ok)
  qed
  moreover have "isl (record_attempt_tx c' op g new at db2)"
  proof (rule ccontr)
    assume "\<not> isl (record_attempt_tx c' op g new at db2)"
    then obtain q where "record_attempt_tx c' op g new at db2 = Inr q" by (metis isl_def sum.exhaust)
    then show False using gen unfolding record_attempt_tx_def
      by (auto simp: tx_simps attempt_compare_def attempt_compare7_def sendable_def token_def split: if_split_asm)
  qed
  moreover have "isl (settle_operation c' op g obs clk' db2)"
  proof (rule ccontr)
    assume "\<not> isl (settle_operation c' op g obs clk' db2)"
    then obtain q where "settle_operation c' op g obs clk' db2 = Inr q" by (metis isl_def sum.exhaust)
    then show False using gen unfolding settle_operation_def by (auto simp: and_then_ok lock_operation_ok owns_def split: if_split_asm)
  qed
  ultimately show ?thesis by blast
qed

theorem takeover_fences_witness:
  "isl (settle_operation ex_ctl ''op1'' 1 ''o2'' int ex_taken)"
proof -
  have "\<not> isl (take_over_tx ex_other ''op1'' 1 ''restart'' (\<lambda>n. 23 + int n) ex_db5)" by code_simp
  from takeover_fences [OF ex_reachable(6) Inr_projr_pair [OF this]] show ?thesis
    unfolding ex_taken_def [symmetric] by blast
qed

text \<open>Drift: at most one drift record of a machine is open.\<close>

theorem one_open_drift_record:
  assumes "reachable db" and "d \<in> set (drifts db)" and "e \<in> set (drifts db)"
    and "dr_machine d = dr_machine e" and "dr_closed d = None" and "dr_closed e = None"
  shows "d = e"
  using reachable_inv [OF assms(1)] assms(2-6)
  by (auto simp: dispatch_inv_def drifts_ok_def distinct_map inj_on_def)

theorem one_open_drift_record_witness:
  "map dr_closed (drifts ex_drift) = [None] \<and> hd (drifts ex_drift) = last (drifts ex_drift)"
proof -
  have f: "map dr_closed (drifts ex_drift) = [None]" by code_simp
  then have "hd (drifts ex_drift) = last (drifts ex_drift)"
    by (intro one_open_drift_record [OF ex_drift_reachable]) (auto simp: map_eq_Cons_conv)
  with f show ?thesis by blast
qed

lemma commit_written:
  assumes "commit_tx c plan new at db = Inr (cm, db')"
  shows "\<exists>p. keyed p_id plan (plans db) = Some p \<and> operations db' = operations db @ [new_operation c p new at db] \<and>
    new \<notin> o_id ` set (operations db)"
proof -
  obtain p s ob where p: "keyed p_id plan (plans db) = Some p" and w: "commit_write c p s ob new at db = Inr (cm, db')"
    using assms unfolding commit_tx_def
    by (auto simp: and_then_ok found_ok refuse_if_ok commit_compare_def split: if_split_asm option.splits)
  then show ?thesis by (auto simp: commit_write_def tx_simps split: if_split_asm)
qed

text \<open>A plan is committed once: after its commitment, in every later state and by every process, a
  further commitment of the plan is refused.\<close>

theorem plan_committed_once:
  assumes "reachable db" and "commit_tx c plan new at db = Inr (cm, db1)" and "dispatch_step\<^sup>*\<^sup>* db1 db2"
  shows "isl (commit_tx c' plan new' at' db2)"
proof (rule ccontr)
  assume "\<not> isl (commit_tx c' plan new' at' db2)"
  then have "commit_tx c' plan new' at' db2 = Inr (fst (projr (commit_tx c' plan new' at' db2)), snd (projr (commit_tx c' plan new' at' db2)))"
    by (rule Inr_projr_pair)
  then obtain s where s: "keyed s_plan plan (plan_states db2) = Some s" "s_operation s = None"
    unfolding commit_tx_def by (auto simp: and_then_ok found_ok commit_compare_def split: if_split_asm)
  have r1: "reachable db1" using assms(1) dispatch_step.commit [OF assms(2)] by (rule reachable_step)
  then have r2: "reachable db2" using assms(3) by (auto simp: reachable_def intro: rtranclp_trans)
  obtain p where p: "keyed p_id plan (plans db) = Some p" "operations db1 = operations db @ [new_operation c p new at db]"
      "new \<notin> o_id ` set (operations db)" using commit_written [OF assms(2)] by blast
  have "operation_of new db1 = Some (new_operation c p new at db)"
    using p(2,3) by (auto simp: operation_of_def keyed_append keyed_None keyed_Cons new_operation_def split: option.splits dest: keyed_Some)
  from run_row [OF r1 assms(3) this] obtain y where y: "operation_of new db2 = Some y"
      "op_binding y = op_binding (new_operation c p new at db)" by (auto simp: row_evolves_def)
  have yk: "o_kind y = ApplyConfig" "o_plan y = plan"
    using y(2) p(1) by (auto simp: op_binding_def new_operation_def dest: keyed_Some)
  have ps: "pstates_ok (plan_states db2) (operations db2)" using reachable_inv [OF r2] by (simp add: dispatch_inv_def)
  then obtain t where t: "t \<in> set (plan_states db2)" "s_plan t = plan" "s_operation t \<noteq> None"
    using op_row [OF r2 y(1)] yk unfolding pstates_ok_def by (metis option.distinct(1))
  then show False using plan_state_of [OF ps s(1) t(1,2)] s(2) by simp
qed

theorem plan_committed_once_witness: "isl (commit_tx ex_other ''p1'' ''op2'' 60 ex_db9)"
proof -
  have c: "\<not> isl (commit_tx ex_ctl ''p1'' ''op1'' 20 ex_db3)" by code_simp
  have "dispatch_step\<^sup>*\<^sup>* ex_db4 ex_db9"
    using ex_step_db5 ex_step_db6 ex_step_db7 ex_step_db8 ex_step_db9 by (meson converse_rtranclp_into_rtranclp rtranclp.rtrancl_refl)
  then show ?thesis
    by (intro plan_committed_once [OF ex_reachable(4) Inr_projr_pair [OF c]]) (simp add: ex_db4_def)
qed

end
