(* ===== verification/Dispatch_Guards.thy ===== *)
theory Dispatch_Guards
  imports Dispatch_Example
begin

text \<open>
  What one accepted transaction of the dispatch has established and what it leaves behind, and what a
  refused one says: the commitment, the attempt, the response, the accounting by decision, the settle.
\<close>

section \<open>Commitment and attempt\<close>

lemma scope_gate_open: "scope_gate frozen opn bound scope recovery = None \<longleftrightarrow>
    \<not> frozen \<and> opn = bound \<and> scope \<in> {Normal, ScopeReleased} \<and> (recovery \<longrightarrow> scope = ScopeReleased)"
  by (auto simp: scope_gate_def)

lemma commit_steps:
  assumes "commit_tx c plan new at db = Inr (cm, db')"
  obtains p m ms s ap ob b where "keyed p_id plan (plans db) = Some p" "keyed m_id (p_machine p) (machines db) = Some m"
    "keyed s_plan plan (plan_states db) = Some s" "inst_epoch db = ctl_epoch c" "p_kind p = ApplyConfig"
    "ap = approval_of s db" "s_approval s = None \<longleftrightarrow> ap = None"
    "commit_compare1 (projected p s at db) (s_state s) (case ap of None \<Rightarrow> '''' | Some a \<Rightarrow> ap_epoch a) (inst_epoch db) = None"
    "commit_compare2 p (head_of (p_machine p) db) ms = None"
    "evidence_of c (p_machine p) plan db = Some ob" "bindings (p_machine p) plan db = Some b"
    "commit_compare3 c (p_machine p) plan (case ap of None \<Rightarrow> 0 | Some a \<Rightarrow> ap_revision a) at ob b db = None"
    "commit_compare45 p db = None" "commit_compare6 p m db = None"
    "commit_write c p s (ob_id ob) new at db = Inr (cm, db')"
proof -
  obtain p m ms s ap ob where *: "inst_epoch db = ctl_epoch c" "p_kind p = ApplyConfig"
    "keyed p_id plan (plans db) = Some p" "keyed m_id (p_machine p) (machines db) = Some m"
    "keyed s_plan plan (plan_states db) = Some s"
    "(case s_approval s of None \<Rightarrow> Inr None | Some a \<Rightarrow> map_sum id Some (found ErrNoRows (keyed ap_id a (approvals db)))) = Inr ap"
    "commit_compare c plan at p s m ms ap db = Inr ob" "commit_write c p s (ob_id ob) new at db = Inr (cm, db')"
    using assms unfolding commit_tx_def by (auto simp: and_then_ok found_ok split: if_split_asm)
  have "ap = approval_of s db" "s_approval s = None \<longleftrightarrow> ap = None"
    using *(6) by (cases "s_approval s"; cases "approval_of s db"; auto simp: found_def approval_of_def split: option.splits)+
  with * that show thesis unfolding commit_compare_def
    by (auto simp: refuse_if_ok split: if_split_asm option.split_asm)
qed



lemma final_plan_cause_None:
  assumes "final_plan_cause plan ep at db = Inr None"
  shows "\<exists>p s a w. keyed p_id plan (plans db) = Some p \<and> keyed s_plan plan (plan_states db) = Some s \<and>
    approval_of s db = Some a \<and> keyed pr_id (ap_approver a) (principals db) = Some w \<and>
    at < p_expires p \<and> (\<forall>k \<in> set (cancellations db). ca_plan k \<noteq> plan) \<and>
    (\<forall>k \<in> set (approval_revocations db). ar_approval k \<noteq> ap_id a) \<and> \<not> pr_revoked w \<and> ap_epoch a = ep"
  using assms unfolding final_plan_cause_def approval_of_def
  by (auto simp: and_then_ok found_ok split: if_split_asm)

lemma attempt_steps:
  assumes "record_attempt_tx c op g new at db = Inr (r, db')"
  obtains x p m ms s obs ev where "inst_epoch db = ctl_epoch c" "operation_of op db = Some x" "o_kind x = ApplyConfig"
    "keyed p_id (o_plan x) (plans db) = Some p" "keyed m_id (p_machine p) (machines db) = Some m"
    "keyed s_plan (p_id p) (plan_states db) = Some s" "s_operation s = Some op"
    "final_plan_cause (p_id p) (inst_epoch db) at db = Inr None" "attempt_compare2 p (head_of (p_machine p) db) ms = None"
    "attempt_compare3 c (p_machine p) (p_id p) p at ev db = None" "attempt_compare6 p m db = None"
    "attempt_compare7 c g x db = None" "attempt_compare8 c g (p_machine p) op db = None"
    "attempt_compare9 p op db = None" "attempt_write c op g p new obs at db = Inr (r, db')"
  using assms unfolding record_attempt_tx_def attempt_compare_def
  by (auto simp: and_then_ok found_ok refuse_if_ok split: if_split_asm)



lemma refuse_if_refused: "refuse_if e r = Inl y \<longleftrightarrow> e = Some y \<or> e = None \<and> r = Inl y"
  by (cases e) (auto simp: refuse_if_def)

lemma and_then_refused: "and_then r f = Inl y \<longleftrightarrow> r = Inl y \<or> (\<exists>x. r = Inr x \<and> f x = Inl y)"
  by (cases r) auto

lemma found_refused: "found e x = Inl y \<longleftrightarrow> x = None \<and> y = e"
  by (cases x) auto

lemmas refused_simps = refuse_if_refused and_then_refused found_refused

lemma comparison_numbers:
  "attempt_compare2 p h ms = Some (AttemptRefused n why obs) \<Longrightarrow> n = 2"
  "attempt_compare3 c mc q p at ev db = Some (AttemptRefused n why obs) \<Longrightarrow> n = 3"
  "attempt_compare6 p m db = Some (AttemptRefused n why obs) \<Longrightarrow> n = 6"
  "attempt_compare7 c g x db = Some (AttemptRefused n why obs) \<Longrightarrow> n = 7"
  "attempt_compare8 c g mc op db = Some (AttemptRefused n why obs) \<Longrightarrow> n = 8"
  "attempt_compare9 p op db = Some (AttemptRefused n why obs) \<Longrightarrow> n = 9"
  by (auto simp: attempt_compare2_def attempt_compare3_def attempt_compare6_def attempt_compare7_def attempt_compare8_def
      attempt_compare9_def refuse_attempt_def Let_def split: if_splits option.splits prod.splits)

text \<open>The comparisons after the first, in their order.\<close>

lemma compare_order:
  assumes "final_plan_cause (p_id p) (inst_epoch db) at db = Inr None"
    and "attempt_compare c op g at x p m ms db = Inl (AttemptRefused n cause obs)"
  shows "n \<in> {2, 3, 6, 7, 8, 9} \<and> (2 < n \<longrightarrow> attempt_compare2 p (head_of (p_machine p) db) ms = None) \<and>
    (6 < n \<longrightarrow> attempt_compare6 p m db = None) \<and> (7 < n \<longrightarrow> attempt_compare7 c g x db = None) \<and>
    (8 < n \<longrightarrow> attempt_compare8 c g (p_machine p) op db = None)"
  using assms unfolding attempt_compare_def by (auto simp: refused_simps dest!: comparison_numbers)

lemma final_plan_cause_error: "final_plan_cause plan ep at db = Inl e \<Longrightarrow> e = ErrNoRows"
  by (auto simp: final_plan_cause_def refused_simps)



section \<open>The outcome\<close>

lemma response_steps:
  assumes "record_response c att resp clk db = Inr (rd, db')"
  obtains a x db1 db2 rv where "keyed at_id att (attempts db) = Some a" "operation_of (at_operation a) db = Some x"
    "o_kind x = ApplyConfig" "at_owner a = ctl_id c"
    "operations db1 = operations db" "attempts db1 = attempts db" "accountings db1 = accountings db"
    "responses db1 = responses db @ [response_row_of a (o_machine x) resp (clk 0) rv]"
    "account_response a x resp (clk 1) db1 = Inr (rd_accounted rd, db2)"
    "move_on_response c a x resp clk db2 = Inr (rd_state rd, db')"
proof -
  obtain a x where a: "keyed at_id att (attempts db) = Some a" "at_owner a = ctl_id c"
      and x: "lock_operation c (at_operation a) db = Inr x"
      and rest: "and_then (append_entry (o_machine x) (inst_epoch db)
            (EResponse (o_id x) att (at_number a) (rs_class resp) (rs_code resp) (rs_text resp) (ctl_id c) (at_gen a))
            (clk 0) db) (\<lambda>(rv, db1).
          and_then (account_response a x resp (clk 1)
            (db1\<lparr>responses := responses db1 @ [response_row_of a (o_machine x) resp (clk 0) rv]\<rparr>)) (\<lambda>(acc, db2).
          and_then (move_on_response c a x resp clk db2) (\<lambda>(st, db3).
            Inr (\<lparr>rd_attempt = att, rd_state = st, rd_revision = rv, rd_accounted = acc\<rparr>, db3)))) = Inr (rd, db')"
    using assms unfolding record_response_def by (auto simp: and_then_ok found_ok split: if_split_asm)
  have x': "operation_of (at_operation a) db = Some x" "o_kind x = ApplyConfig" using x by (simp_all add: lock_operation_ok)
  obtain rv db1 acc db2 st where
      en: "append_entry (o_machine x) (inst_epoch db)
            (EResponse (o_id x) att (at_number a) (rs_class resp) (rs_code resp) (rs_text resp) (ctl_id c) (at_gen a)) (clk 0) db = Inr (rv, db1)"
      and acc: "account_response a x resp (clk 1)
            (db1\<lparr>responses := responses db1 @ [response_row_of a (o_machine x) resp (clk 0) rv]\<rparr>) = Inr (acc, db2)"
      and mv: "move_on_response c a x resp clk db2 = Inr (st, db')"
      and rd: "rd = \<lparr>rd_attempt = att, rd_state = st, rd_revision = rv, rd_accounted = acc\<rparr>"
    using rest by (elim tx_elims) (hypsubst, rule that, (assumption | rule refl)+)
  show thesis
    by (rule that [OF a(1) x' a(2), of "db1\<lparr>responses := responses db1 @ [response_row_of a (o_machine x) resp (clk 0) rv]\<rparr>" rv])
      (use en acc mv rd in \<open>auto simp: append_entry_ok\<close>)
qed

lemma account_response_tables:
  assumes "account_response a x resp t db = Inr (acc, db')"
  shows "operations db' = operations db \<and> attempts db' = attempts db \<and> responses db' = responses db \<and>
    (accounts resp \<longrightarrow> accounted db' (at_id a))"
  using assms unfolding account_response_def
  by (auto simp: tx_simps accounted_iff split: if_split_asm)

lemma move_on_response_state:
  assumes "move_on_response c a x resp clk db = Inr (st, db')" and "operation_of (o_id x) db = Some x"
  shows "map_option o_state (operation_of (o_id x) db') = Some st \<and> attempts db' = attempts db \<and> responses db' = responses db \<and>
    accountings db' = accountings db \<and>
    st = (case response_move (o_state x) (is_latest a db) (rs_class resp) (all_rejected (o_id x) db) of None \<Rightarrow> o_state x | Some p \<Rightarrow> fst p)"
proof (cases "response_move (o_state x) (is_latest a db) (rs_class resp) (all_rejected (o_id x) db)")
  case None
  then show ?thesis using assms by (simp add: move_on_response_def)
next
  case (Some p)
  obtain to cause where p: "p = (to, cause)" by (cases p)
  show ?thesis
  proof (cases "to = Rejected")
    case True
    obtain rv db1 err where k: "classify c x OutRejected None (relied_entries (o_id x) None db) (at_gen a) (clk 2) db = Inr (rv, db1)"
        and m: "move_operation c x to cause None err (clk 3) db1 = Inr db'" and st: "st = to"
      using assms(1) Some p True unfolding move_on_response_def by (auto simp: and_then_ok)
    show ?thesis using move_operation_frame [OF m] classify_frame [OF k] assms(2) Some p st by (auto simp: operation_of_def)
  next
    case False
    then have m: "move_operation c x to cause None None (clk 3) db = Inr db'" and st: "st = to"
      using assms(1) Some p unfolding move_on_response_def by (auto simp: and_then_ok)
    show ?thesis using move_operation_frame [OF m] assms(2) Some p st by auto
  qed
qed

text \<open>What an answer does to its operation: the latest attempt's acceptance while sending starts the
  verification; the operation is rejected only when every attempt of it was answered with a definite
  rejection; any other answer to the latest attempt leaves it unresolved; and a response of a class
  that only the node can have given accounts for its attempt.\<close>

theorem response_decides:
  assumes "record_response c att resp clk db = Inr (rd, db')"
  shows "\<exists>a x y. keyed at_id att (attempts db) = Some a \<and> operation_of (at_operation a) db = Some x \<and>
    operation_of (at_operation a) db' = Some y \<and> o_state y = rd_state rd \<and>
    (accounts resp \<longrightarrow> accounted db' att) \<and>
    (o_state y = Rejected \<and> o_state x \<noteq> Rejected \<longrightarrow> rs_class resp = ClassRejected \<and> all_rejected (at_operation a) db') \<and>
    (o_state y = Verifying \<and> o_state x \<noteq> Verifying \<longrightarrow> o_state x = Sending \<and> rs_class resp = Accepted \<and> is_latest a db) \<and>
    (o_state x = Sending \<and> is_latest a db \<longrightarrow> o_state y \<in> {Verifying, Rejected, Unresolved} \<and>
       (rs_class resp = Accepted \<longleftrightarrow> o_state y = Verifying)) \<and>
    (o_state x \<notin> {Sending, Unresolved} \<longrightarrow> y = x)"
proof -
  obtain a x db1 db2 rv where a: "keyed at_id att (attempts db) = Some a"
    and x: "operation_of (at_operation a) db = Some x" and k: "o_kind x = ApplyConfig"
    and d1: "operations db1 = operations db" "attempts db1 = attempts db"
    and acc: "account_response a x resp (clk 1) db1 = Inr (rd_accounted rd, db2)"
    and mv: "move_on_response c a x resp clk db2 = Inr (rd_state rd, db')"
    using assms by (rule response_steps) blast
  have oid: "o_id x = at_operation a" using x by (rule operation_of_id)
  note d2 = account_response_tables [OF acc]
  have x2: "operation_of (o_id x) db2 = Some x" using x d1 d2 oid by (simp add: operation_of_def)
  note m = move_on_response_state [OF mv x2]
  have ts: "attempts db' = attempts db2" "responses db' = responses db2" "accountings db' = accountings db2" using m by simp_all
  obtain y where y: "operation_of (at_operation a) db' = Some y" "o_state y = rd_state rd"
    using m oid by (auto simp: map_option_eq_Some)
  have st: "rd_state rd = (case response_move (o_state x) (is_latest a db) (rs_class resp) (all_rejected (o_id x) db') of
      None \<Rightarrow> o_state x | Some p \<Rightarrow> fst p)"
    using m ts d1 d2 by (simp add: is_latest_def all_rejected_def attempts_of_def)
  have "accounts resp \<longrightarrow> accounted db' att" using d2 ts keyed_Some [OF a] by (auto simp: accounted_def)
  moreover have "o_state x \<notin> {Sending, Unresolved} \<longrightarrow> y = x"
    using mv x2 y(1) oid by (auto simp: move_on_response_def response_move_def split: if_split_asm)
  ultimately show ?thesis using a x y oid st by (auto simp: response_move_def split: if_splits)
qed

theorem response_decides_witness:
  "map_option o_state (operation_of ''op1'' ex_db6) = Some Verifying \<and> accounted ex_db6 ''at1''"
proof
  have "\<not> isl (record_response ex_ctl ''at1'' ex_accepted (\<lambda>n. 22 + int n) ex_db5)" by code_simp
  from response_decides [OF Inr_projr_pair [OF this]] show "accounted ex_db6 ''at1''"
    unfolding ex_db6_def by (auto simp: ex_accepted_def accounts_def)
qed code_simp

section \<open>Accounting by decision, and the settle\<close>

text \<open>A person's decision accounts for an attempt only when its executor was stopped or taken over,
  the end observation is a recovery read begun at least the settle floor after the transport deadline
  and after the last takeover, and the machine-configuration resource version was read at both ends and
  did not move, unless an explanation that is not blank is recorded.\<close>

theorem decision_waits_for_the_floor:
  assumes "account_by_decision c att who act start fin given t db = Inr (rv, db')"
  shows "\<exists>a x began sv ev. keyed at_id att (attempts db) = Some a \<and> operation_of (at_operation a) db = Some x \<and>
    executor_stopped a x db \<and> \<not> accounted db att \<and> accounted db' att \<and>
    end_began (o_machine x) fin db = Some (began, Some ev, Recovery) \<and>
    at_transport a + settle_floor c \<le> began \<and>
    (\<forall>tk. last_takeover (o_machine x) (o_id x) db = Some tk \<longrightarrow> tk + settle_floor c \<le> began) \<and>
    (\<forall>ob. first_read_after (o_machine x) (at_transport a) db = Some ob \<longrightarrow> start = ob_id ob \<and> ob_at ob + settle_floor c \<le> began) \<and>
    (\<exists>s. sql_row (\<lambda>ob. ob_id ob = start \<and> ob_machine ob = o_machine x) (observations db) = Some s \<and> ob_resource s = Some sv \<and> ob_at s < began) \<and>
    (sv = ev \<or> (\<exists>text. map_of given ''explanation'' = Some text \<and> \<not> blank text))"
proof -
  obtain a x facts db1 where a: "keyed at_id att (attempts db) = Some a" and x: "lock_operation c (at_operation a) db = Inr x"
    and na: "\<not> accounted db att" and st: "executor_stopped a x db"
    and f: "settled c (o_machine x) (at_transport a)
      (case last_takeover (o_machine x) (o_id x) db of Some t \<Rightarrow> max t (at_transport a) | None \<Rightarrow> at_transport a) start fin given db = Inr (Inr facts)"
    and acc: "accounted db' att"
    using assms unfolding account_by_decision_def and_then_ok found_ok Let_def
    by (elim exE conjE) (auto simp: and_then_ok case_sum_ok accounted_def split: if_split_asm)
  let ?m = "o_machine x"
  let ?an = "case last_takeover ?m (o_id x) db of Some t \<Rightarrow> max t (at_transport a) | None \<Rightarrow> at_transport a"
  let ?an' = "case first_read_after ?m (at_transport a) db of Some ob \<Rightarrow> max ?an (ob_at ob) | None \<Rightarrow> ?an"
  have first: "first_read_after ?m (at_transport a) db = Some ob \<Longrightarrow> start = ob_id ob" for ob
    using f by (auto simp: settled_def Let_def split: if_split_asm)
  obtain s began sv ev where s: "sql_row (\<lambda>ob. ob_id ob = start \<and> ob_machine ob = ?m) (observations db) = Some s" "ob_resource s = Some sv"
    and e: "end_began ?m fin db = Some (began, Some ev, Recovery)" and ord: "ob_at s < began" "\<not> began < ?an' + settle_floor c"
    and why: "sv = ev \<or> (\<exists>text. map_of given ''explanation'' = Some text \<and> \<not> blank text)"
    using f unfolding settled_def Let_def
    by (auto simp: and_then_ok found_ok split: if_split_asm option.split_asm)
  have "at_transport a \<le> ?an'" "last_takeover ?m (o_id x) db = Some tk \<Longrightarrow> tk \<le> ?an'"
      "first_read_after ?m (at_transport a) db = Some ob \<Longrightarrow> ob_at ob \<le> ?an'" for tk ob
    by (auto split: option.splits)
  then have "at_transport a + settle_floor c \<le> began" "last_takeover ?m (o_id x) db = Some tk \<Longrightarrow> tk + settle_floor c \<le> began"
      "first_read_after ?m (at_transport a) db = Some ob \<Longrightarrow> ob_at ob + settle_floor c \<le> began" for tk ob
    using ord(2) by (smt (verit))+
  then show ?thesis using a x na st acc first s e ord(1) why by (auto simp: lock_operation_ok)
qed

theorem decision_waits_for_the_floor_witness:
  "accounted ex_accounted ''at1'' \<and> (\<exists>began ev. end_began ''m1'' ''o3'' ex_ac4 = Some (began, Some ev, Recovery) \<and> 26 + 10 \<le> began)"
proof -
  have d: "account_by_decision ex_other ''at1'' ''ann'' ''act3'' ''o2'' ''o3'' [] 60 ex_ac4 =
      Inr (fst (projr (account_by_decision ex_other ''at1'' ''ann'' ''act3'' ''o2'' ''o3'' [] 60 ex_ac4)), ex_accounted)"
    unfolding ex_accounted_def by (rule Inr_projr_pair) (rule ex_accounts)
  obtain a x began sv ev where *: "keyed at_id ''at1'' (attempts ex_ac4) = Some a" "operation_of (at_operation a) ex_ac4 = Some x"
      "accounted ex_accounted ''at1''" "end_began (o_machine x) ''o3'' ex_ac4 = Some (began, Some ev, Recovery)"
      "at_transport a + settle_floor ex_other \<le> began"
    using decision_waits_for_the_floor [OF d] by blast
  have "map_option at_operation (keyed at_id ''at1'' (attempts ex_ac4)) = Some ''op1''"
      "map_option at_transport (keyed at_id ''at1'' (attempts ex_ac4)) = Some 26"
      "map_option o_machine (operation_of ''op1'' ex_ac4) = Some ''m1''" "settle_floor ex_other = 10" by code_simp+
  then have "o_machine x = ''m1''" "at_transport a = 26" using *(1,2) by auto
  then show ?thesis using * \<open>settle_floor ex_other = 10\<close> by auto
qed

lemma update_drift_mstates: "mstates (update_drift m opened f db) = mstates db"
  by (simp add: update_drift_def)

lemma close_reverted_tables:
  assumes "close_reverted x p obs at db = Inr (change, db')"
  shows "mstates db' = mstates db \<and> operations db' = operations db"
  using assms by (auto simp: close_reverted_def tx_simps split: option.splits if_splits)

lemma apply_drift_mstates:
  assumes "apply_drift m ep obs failing at db = Inr (change, db')"
  shows "mstates db' = mstates db"
  using assms unfolding apply_drift_def Let_def
  by (auto simp: and_then_ok drift_entry_ok update_drift_mstates split: option.split_asm if_split_asm prod.split_asm)

lemma classify_observed_frame:
  "classify_observed c x outcome obs rv gen at db = Inr (rv', db') \<Longrightarrow> operations db' = operations db \<and> mstates db' = mstates db"
  unfolding classify_observed_def using classify_frame by blast

lemma complete_writes:
  assumes "complete c x ob generation clk db = Inr (r, db')" and "operation_of (o_id x) db = Some x"
    and "keyed p_id (o_plan x) (plans db) = Some p" and "p_machine p = o_machine x"
  shows "\<exists>rm ms. sql_row (\<lambda>rm. rm_release rm = p_release p \<and> rm_machine rm = o_machine x) (release_machines db) = Some rm \<and>
    se_outcome r = SettledCompleted \<and> map_option o_state (operation_of (o_id x) db') = Some Completed \<and>
    keyed ms_machine (o_machine x) (mstates db') = Some ms \<and> ms_applied ms = Some (p_release p) \<and> ms_digest ms = Some (rm_digest rm)"
proof -
  obtain rm :: release_machine_row and ms :: machine_state_row and db1 db2 db3 rv rv' change where
      rm: "sql_row (\<lambda>rm. rm_release rm = p_release p \<and> rm_machine rm = p_machine p) (release_machines db) = Some rm"
    and ms: "keyed ms_machine (p_machine p) (mstates db) = Some ms"
    and k: "classify_observed c x OutCompleted (ob_id ob) (ob_revision ob) generation (clk 0) db = Inr (rv', db1)"
    and m: "move_operation c x Completed ''the observation establishes the bound postconditions''
         (Some (ResultDoc (p_release p) (rm_digest rm) (ob_id ob))) None (clk 1) db1 = Inr db2"
    and e: "append_entry (o_machine x) (inst_epoch db)
         (EApplied (ms_applied ms) (p_release p) (rm_digest rm) ''operation'' (p_id p) (o_id x)) (clk 2)
         (set_applied (o_machine x) (p_release p) (rm_digest rm) db2) = Inr (rv, db3)"
    and cr: "close_reverted x p (ob_id ob) (clk 3) db3 = Inr (change, db')" and out: "se_outcome r = SettledCompleted"
    using assms(1,3) unfolding complete_def Let_def found_def by (simp split: option.split_asm) (elim tx_elims, fastforce)
  have ops: "operation_of (o_id x) db' = operation_of (o_id x) db2"
    using close_reverted_tables [OF cr] e by (auto simp: append_entry_ok operation_of_def)
  have "map_option o_state (operation_of (o_id x) db') = Some Completed"
    using ops move_operation_frame [OF m] classify_observed_frame [OF k] assms(2) by (simp add: operation_of_def)
  moreover have "mstates db' = mstates (set_applied (o_machine x) (p_release p) (rm_digest rm) db)"
    using close_reverted_tables [OF cr] e move_operation_frame [OF m] classify_observed_frame [OF k]
    by (auto simp: append_entry_ok set_applied_def)
  ultimately show ?thesis using rm ms out assms(4)
    by (auto simp: set_applied_def keyed_sql_update dest: keyed_Some)
qed

lemma settle_on_cases:
  assumes "settle_on c x v g clk db = Inr (r, db')"
  shows "unsettling x v db = None \<and> established v \<and> v_purpose v = Completion \<and> attempts_of (o_id x) db \<noteq> [] \<and>
      complete c x (v_obs v) g clk db = Inr (r, db') \<or>
    se_outcome r \<noteq> SettledCompleted \<and> mstates db' = mstates db"
proof (cases "unsettling x v db")
  case (Some cause)
  then show ?thesis using assms by (auto simp: settle_on_def stay_def)
next
  case None
  let ?s = "attempts_of (o_id x) db \<noteq> []"
  have un: "se_outcome r \<noteq> SettledCompleted \<and> mstates db' = mstates db" if "unresolve c x why w t db = Inr (r, db')" for why w t
    using that move_operation_frame unfolding unresolve_def stay_def by (fastforce simp: and_then_ok)
  have re: "se_outcome r \<noteq> SettledCompleted \<and> mstates db' = mstates db" if "retry_operation c x (v_obs v) g clk db = Inr (r, db')"
    using that unfolding retry_operation_def stay_def
    by (auto simp: and_then_ok split: if_split_asm dest!: classify_observed_frame move_operation_frame)
  have fa: "se_outcome r \<noteq> SettledCompleted \<and> mstates db' = mstates db" if "fail_operation c x (v_obs v) g clk db = Inr (r, db')"
    using that unfolding fail_operation_def stay_def
    by (auto simp: and_then_ok Let_def dest!: classify_observed_frame move_operation_frame apply_drift_mstates)
  show ?thesis
  proof (cases "established v \<and> v_purpose v = Completion \<and> ?s")
    case True
    then show ?thesis using assms None by (simp add: settle_on_def)
  next
    case False
    then show ?thesis using assms None un re fa
      by (auto simp: settle_on_def Let_def and_then_ok stay_def split: if_split_asm option.split_asm)
  qed
qed

text \<open>The settle completes an operation only as its owner, when every attempt is accounted for and a
  completion observation taken for this operation, not contradicted by a later one, establishes the
  bound identity, configuration digest and assignment. Completion and nothing else changes what is
  Applied on the machine: the plan's release and the digest of its artifact.\<close>

theorem settle_completes:
  assumes "reachable db" and "settle_operation c op g obs clk db = Inr (s, db')"
  shows "(se_outcome s \<noteq> SettledCompleted \<longrightarrow> mstates db' = mstates db) \<and>
    (se_outcome s = SettledCompleted \<longrightarrow>
      (\<exists>x v p rm ms. operation_of op db = Some x \<and> owns c db x g \<and> o_state x \<in> {Verifying, Unresolved} \<and>
        attempts_of op db \<noteq> [] \<and> list_all (\<lambda>a. accounted db (at_id a)) (attempts_of op db) \<and>
        settle_view_of obs x db = Some v \<and> established v \<and> v_purpose v = Completion \<and> v_for v = Some op \<and> blocking (v_obs v) db = None \<and>
        keyed p_id (o_plan x) (plans db) = Some p \<and>
        sql_row (\<lambda>rm. rm_release rm = p_release p \<and> rm_machine rm = o_machine x) (release_machines db) = Some rm \<and>
        map_option o_state (operation_of op db') = Some Completed \<and>
        keyed ms_machine (o_machine x) (mstates db') = Some ms \<and> ms_applied ms = Some (p_release p) \<and> ms_digest ms = Some (rm_digest rm)))"
proof -
  obtain x where x: "lock_operation c op db = Inr x" "owns c db x g" "o_state x \<in> {Verifying, Unresolved}"
    and rest: "(if \<exists>a \<in> set (attempts_of op db). \<not> accounted db (at_id a) then
          (if o_state x = Verifying
           then unresolve c x ''an attempt is not accounted for'' ''an attempt is not accounted for'' (clk 0) db
           else Inr (stay (o_state x) SettledUnresolved ''an attempt is not accounted for'', db))
        else and_then (found (OutcomeRefused ''settle'' ''no such observation of the operation's machine'')
            (settle_view_of obs x db)) (\<lambda>v. settle_on c x v g clk db)) = Inr (s, db')"
    using assms(2) unfolding settle_operation_def by (auto simp: and_then_ok split: if_splits)
  have ox: "operation_of op db = Some x" "o_id x = op" using owned_kind [OF x(1)] by auto
  show ?thesis
  proof (cases "\<exists>a \<in> set (attempts_of op db). \<not> accounted db (at_id a)")
    case True
    then show ?thesis using rest move_operation_frame unfolding unresolve_def stay_def
      by (fastforce simp: and_then_ok split: if_split_asm)
  next
    case False
    then obtain v where v: "settle_view_of obs x db = Some v" "settle_on c x v g clk db = Inr (s, db')"
      using rest by (auto simp: and_then_ok found_ok)
    show ?thesis
    proof (cases "se_outcome s = SettledCompleted")
      case True
      then have cm: "unsettling x v db = None" "established v" "v_purpose v = Completion" "attempts_of (o_id x) db \<noteq> []"
          "complete c x (v_obs v) g clk db = Inr (s, db')" using settle_on_cases [OF v(2)] by auto
      obtain p where p: "keyed p_id (o_plan x) (plans db) = Some p" using cm(5) by (auto simp: complete_def tx_simps)
      have "ops_ok (operations db) (plans db)" using reachable_inv [OF assms(1)] by (simp add: dispatch_inv_def core_ok_def)
      then have pm: "p_machine p = o_machine x" using plan_of_operation [OF _ ox(1) p] by blast
      have "v_for v = Some op" "blocking (v_obs v) db = None"
        using cm(1,3) ox(2) by (auto simp: unsettling_def split: if_split_asm)
      then show ?thesis using True complete_writes [OF cm(5) _ p pm] ox x(2,3) False v(1) cm(2-4) p
        by (auto simp: list_all_iff)
    next
      case no: False
      then show ?thesis using settle_on_cases [OF v(2)] complete_writes by (auto simp: complete_def tx_simps Let_def)
    qed
  qed
qed

theorem settle_completes_witness:
  "\<exists>s. settle_operation ex_ctl ''op1'' 1 ''o2'' (\<lambda>n. 32 + int n) ex_db8 = Inr (s, ex_db9) \<and> se_outcome s = SettledCompleted \<and>
     map_option o_state (operation_of ''op1'' ex_db9) = Some Completed"
proof -
  let ?r = "settle_operation ex_ctl ''op1'' 1 ''o2'' (\<lambda>n. 32 + int n) ex_db8"
  have "\<not> isl ?r" by code_simp
  then have r: "?r = Inr (fst (projr ?r), ex_db9)" unfolding ex_db9_def by (rule Inr_projr_pair)
  have "se_outcome (fst (projr ?r)) = SettledCompleted" by code_simp
  with settle_completes [OF ex_completed_reachable(3) r] r show ?thesis by blast
qed

section \<open>A refused attempt's settlement\<close>

lemma final_plan_cause_cong:
  assumes "plans db' = plans db" "plan_states db' = plan_states db" "approvals db' = approvals db" "principals db' = principals db"
    "cancellations db' = cancellations db" "approval_revocations db' = approval_revocations db"
  shows "final_plan_cause plan ep at db' = final_plan_cause plan ep at db"
  unfolding final_plan_cause_def assms by (rule refl)

lemma refusal_move_tables:
  assumes "refusal_move c m op g s1 s2 n cause at db = Inr db'"
  shows "map_option o_state (operation_of op db') = map_option (\<lambda>_. s2) (operation_of op db) \<and> attempts db' = attempts db \<and>
    final_plan_cause plan ep t db' = final_plan_cause plan ep t db"
proof -
  obtain rv e where db': "db' = entered m (inst_epoch db) e at rv (update_op op (\<lambda>x. x\<lparr>o_state := s2\<rparr>) db)"
    using assms by (auto simp: refusal_move_def tx_simps)
  have "final_plan_cause plan ep t db' = final_plan_cause plan ep t db"
    unfolding db' by (rule final_plan_cause_cong) (simp_all add: update_op_def)
  then show ?thesis unfolding db' by (simp add: operation_of_update option.map_comp o_def)
qed

lemma settle_refusal_moves_state:
  assumes "settle_refusal_moves c m plan op g (o_state x) n cause at at' at'' db = Inr db'"
    and x: "operation_of op db = Some x" "o_state x = Committed \<or> o_state x = Unresolved"
  shows "map_option o_state (operation_of op db') = Some
    (if attempts_of op db = [] \<and> (\<exists>why. final_plan_cause plan (inst_epoch db) at db = Inr (Some why)) then Cancelled else Unresolved)"
proof -
  obtain db2 where d2: "(if o_state x = Committed then refusal_move c m op g Committed Unresolved n cause at' db else Inr db) = Inr db2"
    and r2: "(if attempts_of op db2 \<noteq> [] then Inr db2
       else and_then (final_plan_cause plan (inst_epoch db) at db2) (\<lambda>dead.
         case dead of None \<Rightarrow> Inr db2
         | Some why \<Rightarrow> refusal_move c m op g Unresolved Cancelled 1 why at'' db2)) = Inr db'"
    using assms(1) unfolding settle_refusal_moves_def by (auto elim!: and_thenE split: if_split_asm)
  have u: "map_option o_state (operation_of op db2) = Some Unresolved \<and> attempts_of op db2 = attempts_of op db \<and>
      final_plan_cause plan (inst_epoch db) at db2 = final_plan_cause plan (inst_epoch db) at db"
  proof (cases "o_state x = Committed")
    case True
    then have mv: "refusal_move c m op g Committed Unresolved n cause at' db = Inr db2" using d2 by simp
    from refusal_move_tables [OF mv] x(1) show ?thesis by (simp add: attempts_of_def)
  qed (use d2 x in simp)
  show ?thesis
  proof (cases "attempts_of op db = [] \<and> (\<exists>why. final_plan_cause plan (inst_epoch db) at db = Inr (Some why))")
    case True
    then obtain why where "refusal_move c m op g Unresolved Cancelled 1 why at'' db2 = Inr db'" using r2 u by auto
    from refusal_move_tables [OF this] show ?thesis using u True by auto
  next
    case False
    then have "db' = db2" using r2 u by (auto simp: and_then_ok split: if_split_asm option.split_asm)
    then show ?thesis using u False by auto
  qed
qed

text \<open>The settlement of a refused attempt: a refusal by the plan, the assignment, the evidence or the
  scope (1, 2, 3, 6) under this process's token leaves the operation unresolved, or cancels it when it
  never sent anything and its plan is dead; every other refusal, and one under a lost token, leaves the
  operation as it was.\<close>

theorem refusal_settles:
  assumes "settle_attempt_refusal c m plan op g n cause obs at at' at'' db = Inr db'" and "operation_of op db = Some x"
  shows "map_option o_state (operation_of op db') = Some
    (if n \<in> {1, 2, 3, 6} \<and> owns c db x g \<and> o_state x \<in> {Committed, Unresolved} then
       (if attempts_of op db = [] \<and> (\<exists>why. final_plan_cause plan (inst_epoch db) at db = Inr (Some why)) then Cancelled else Unresolved)
     else o_state x)"
proof -
  obtain rv db1 where en: "append_entry m (inst_epoch db) (ERefusal n plan (Some op) cause (ctl_id c) (Some g) obs) at db = Inr (rv, db1)"
    and rest: "(if \<not> may_settle n \<or> \<not> owns c db x g \<or> o_state x \<noteq> Committed \<and> o_state x \<noteq> Unresolved then Inr db1
              else settle_refusal_moves c m plan op g (o_state x) n cause at at' at'' db1) = Inr db'"
    using assms unfolding settle_attempt_refusal_def by (auto simp: and_then_ok found_def split: if_split_asm)
  have d1: "operation_of op db1 = Some x" "attempts_of op db1 = attempts_of op db" "inst_epoch db1 = inst_epoch db"
      "final_plan_cause plan (inst_epoch db) at db1 = final_plan_cause plan (inst_epoch db) at db"
    using en assms(2) by (auto simp: append_entry_ok attempts_of_def intro: final_plan_cause_cong)
  show ?thesis
  proof (cases "may_settle n \<and> owns c db x g \<and> (o_state x = Committed \<or> o_state x = Unresolved)")
    case False
    then show ?thesis using rest d1 by (auto simp: may_settle_def)
  next
    case True
    then show ?thesis using settle_refusal_moves_state [of c m plan op g x n cause at at' at'' db1 db'] rest d1
      by (auto simp: may_settle_def)
  qed
qed

theorem refusal_settles_witness: "map_option o_state (operation_of ''op1'' ex_cancelled) = Some Cancelled"
proof -
  have r: "settle_attempt_refusal ex_ctl ''m1'' ''p1'' ''op1'' 1 1 ''the plan is cancelled'' None 22 23 24 ex_cancel = Inr ex_cancelled"
    unfolding ex_cancelled_def by (rule Inr_projr) code_simp
  have "list_all (\<lambda>x. owns ex_ctl ex_cancel x 1 \<and> o_state x = Committed) (operations ex_cancel)" "operation_of ''op1'' ex_cancel \<noteq> None"
      "attempts_of ''op1'' ex_cancel = []"
      "final_plan_cause ''p1'' (inst_epoch ex_cancel) 22 ex_cancel = Inr (Some ''the plan is cancelled'')" by code_simp+
  then obtain x where "operation_of ''op1'' ex_cancel = Some x" "owns ex_ctl ex_cancel x 1" "o_state x = Committed"
    by (auto simp: list_all_iff operation_of_def dest: keyed_Some)
  with refusal_settles [OF r] \<open>attempts_of _ _ = []\<close> \<open>final_plan_cause _ _ _ _ = _\<close> show ?thesis by simp
qed

section \<open>What the node said\<close>

lemma accounts_classify_apply:
  "accounts (classify_apply msgs err ended) \<longleftrightarrow>
     (case err of
        None \<Rightarrow> msgs = [(False, True)]
      | Some (e, whole) \<Rightarrow> msgs = [] \<and>
          ((\<exists>st. error_leaves e = [(True, st)]) \<or>
           (\<forall>l \<in> set (error_leaves e). \<not> fst l) \<and> (\<exists>g. whole = Some g \<and> gs_code g \<notin> set client_codes)))"
proof (cases err)
  case None
  then show ?thesis by (auto simp: classify_apply_def accounts_def unrecognised_def split: list.splits)
next
  case (Some p)
  obtain e whole where p: "p = (e, whole)" by (cases p)
  have sr: "accounts (status_response st True)" for st
    by (auto simp: status_response_def accounts_def code_response_def split: option.splits)
  have sc: "accounts (status_response whole False) \<longleftrightarrow> (\<exists>g. whole = Some g \<and> gs_code g \<notin> set client_codes)"
    by (auto simp: status_response_def accounts_def code_response_def transport_failure_def split: option.splits)
  have tr: "rs_class (status_response whole False) = Transport \<Longrightarrow> \<not> accounts (status_response whole False)"
    by (simp add: accounts_def)
  show ?thesis
  proof (cases "filter fst (error_leaves e)")
    case Nil
    then have none: "\<forall>l \<in> set (error_leaves e). \<not> fst l" by (simp add: filter_empty_conv)
    then have "error_leaves e \<noteq> [(True, st)]" for st by auto
    then show ?thesis using Some p Nil none sc tr
      by (auto simp: classify_apply_def Let_def unrecognised_def accounts_def split: option.splits)
  next
    case (Cons l ls)
    then have some: "\<not> (\<forall>l \<in> set (error_leaves e). \<not> fst l)" by (metis filter_False list.distinct(1))
    have "(\<exists>st. error_leaves e = [(True, st)]) \<longleftrightarrow> ls = [] \<and> filter (\<lambda>l. \<not> fst l) (error_leaves e) = []"
    proof
      assume "\<exists>st. error_leaves e = [(True, st)]"
      then show "ls = [] \<and> filter (\<lambda>l. \<not> fst l) (error_leaves e) = []" using Cons by auto
    next
      assume "ls = [] \<and> filter (\<lambda>l. \<not> fst l) (error_leaves e) = []"
      then have "filter fst (error_leaves e) = error_leaves e" by (simp add: filter_empty_conv filter_id_conv)
      then have "error_leaves e = [l]" using Cons \<open>ls = [] \<and> _\<close> by simp
      moreover have "fst l" using Cons by (metis filter_eq_ConsD)
      ultimately show "\<exists>st. error_leaves e = [(True, st)]" by (cases l) auto
    qed
    then show ?thesis using Some p Cons some sr
      by (cases l; cases ls) (auto simp: classify_apply_def Let_def unrecognised_def accounts_def)
  qed
qed

text \<open>What a send learned accounts for its attempt exactly when the node itself answered, once: one
  message without an error in the requested mode; one error the node put in a response and nothing
  beside it; or a gRPC status the client library does not produce by itself.\<close>

theorem only_the_node_accounts:
  "accounts (classify_apply msgs err ended) \<longleftrightarrow>
     (case err of
        None \<Rightarrow> msgs = [(False, True)]
      | Some (e, whole) \<Rightarrow> msgs = [] \<and>
          ((\<exists>st. error_leaves e = [(True, st)]) \<or>
           list_all (\<lambda>l. \<not> fst l) (error_leaves e) \<and> (\<exists>g. whole = Some g \<and> gs_code g \<notin> set client_codes)))"
  unfolding list_all_iff by (rule accounts_classify_apply)

lemma resource_form_nonempty: "resource_version_form rs \<Longrightarrow> nullable rs = Some rs"
  by (auto simp: resource_version_form_def nullable_def)

lemma version_form_nonempty: "running_version_form v \<Longrightarrow> nullable v = Some v"
  by (auto simp: running_version_form_def nullable_def split: list.splits)

lemma checked_cases:
  obtains (got) v where "r = Got v" "f v" "checked f r = Got v" | (failed) "checked f r = ReadError" | (silent) "checked f r = Unanswered"
proof (cases r)
  case (Got v)
  then show ?thesis using got [of v] failed by (cases "f v") (simp_all add: checked_def)
qed (use failed silent in \<open>simp_all add: checked_def\<close>)

lemma read_config_cases:
  obtains (read) dg rs where "resource_version_form rs" "read_config na ob = ob\<lparr>ob_digest := Some dg, ob_resource := Some rs\<rparr>"
  | (unread) cause where "read_config na ob = ob\<lparr>ob_unread := ob_unread ob @ [(''configuration'', cause)]\<rparr>"
proof (rule checked_cases [of "na_config na" "\<lambda>(dg, rs). resource_version_form rs"], goal_cases got failed silent)
  case (got v)
  then show ?case
    by (intro read [of "snd v" "fst v"]) (simp_all add: read_config_def resource_form_nonempty split_beta)
next
  case failed
  then show ?case by (intro unread) (simp add: read_config_def unread_all_def)
next
  case silent
  then show ?case by (intro unread) (simp add: read_config_def unread_all_def)
qed

lemma read_version_cases:
  obtains (read) v where "running_version_form v" "read_version na ob = read_config na (ob\<lparr>ob_version := Some v\<rparr>)"
  | (unread) cause where "read_version na ob = read_config na (ob\<lparr>ob_unread := ob_unread ob @ [(''runningVersion'', cause)]\<rparr>)"
  | (stop) cause where "read_version na ob = ob\<lparr>ob_unread := ob_unread ob @ [(''runningVersion'', cause), (''configuration'', cause)]\<rparr>"
proof (rule checked_cases [of "na_version na" running_version_form], goal_cases got failed silent)
  case (got v)
  then show ?case by (intro read [of v]) (simp_all add: read_version_def version_form_nonempty)
next
  case failed
  then show ?case by (intro unread) (simp add: read_version_def unread_all_def)
next
  case silent
  then show ?case by (intro stop) (simp add: read_version_def unread_all_def)
qed

lemma read_identity_cases:
  obtains (read) g :: talos_identity where "valid_identity g" "read_identity na ob =
    read_version na (ob\<lparr>ob_smbios := map_option (map to_lower) (nullable (ti_smbios g)),
      ob_node := Some (ti_node g), ob_cluster := Some (ti_cluster g)\<rparr>)"
  | (unread) cause where "read_identity na ob = read_version na (ob\<lparr>ob_unread := ob_unread ob @ [(''identity'', cause)]\<rparr>)"
  | (stop) cause where "read_identity na ob = ob\<lparr>ob_unread := ob_unread ob @
      [(''identity'', cause), (''runningVersion'', cause), (''configuration'', cause)]\<rparr>"
proof (rule checked_cases [of "na_identity na" valid_identity], goal_cases got failed silent)
  case (got v)
  then show ?case by (intro read [of v]) (simp_all add: read_identity_def)
next
  case failed
  then show ?case by (intro unread) (simp add: read_identity_def unread_all_def)
next
  case silent
  then show ?case by (intro stop) (simp add: read_identity_def unread_all_def)
qed

lemma read_config_null:
  assumes "ob_digest ob = None" "ob_resource ob = None" "value_read ''configuration'' ob" "distinct (map fst (ob_unread ob))"
    and "ob' = read_config na ob"
  shows "(value_read ''configuration'' ob' \<longleftrightarrow> ob_digest ob' \<noteq> None) \<and> (ob_digest ob' = None \<longleftrightarrow> ob_resource ob' = None) \<and>
    distinct (map fst (ob_unread ob')) \<and> ob_version ob' = ob_version ob \<and> ob_node ob' = ob_node ob \<and>
    ob_cluster ob' = ob_cluster ob \<and> ob_assignment ob' = ob_assignment ob \<and>
    (\<forall>n. n \<noteq> ''configuration'' \<longrightarrow> value_read n ob' = value_read n ob)"
  using assms by (cases na ob rule: read_config_cases) (auto simp: value_read_def)

lemma read_version_null:
  assumes "ob_digest ob = None" "ob_resource ob = None" "ob_version ob = None" "value_read ''configuration'' ob"
    "value_read ''runningVersion'' ob" "distinct (map fst (ob_unread ob))" and "ob' = read_version na ob"
  shows "(value_read ''configuration'' ob' \<longleftrightarrow> ob_digest ob' \<noteq> None) \<and> (ob_digest ob' = None \<longleftrightarrow> ob_resource ob' = None) \<and>
    (value_read ''runningVersion'' ob' \<longleftrightarrow> ob_version ob' \<noteq> None) \<and> (\<forall>v. ob_version ob' = Some v \<longrightarrow> running_version_form v) \<and>
    distinct (map fst (ob_unread ob')) \<and> ob_node ob' = ob_node ob \<and>
    ob_cluster ob' = ob_cluster ob \<and> ob_assignment ob' = ob_assignment ob \<and>
    (\<forall>n. n \<noteq> ''configuration'' \<and> n \<noteq> ''runningVersion'' \<longrightarrow> value_read n ob' = value_read n ob)"
proof (cases na ob rule: read_version_cases)
  case (read v)
  then show ?thesis using assms read_config_null [of "ob\<lparr>ob_version := Some v\<rparr>" ob' na] by (simp add: value_read_def del: not_None_eq)
next
  case (unread cause)
  then show ?thesis
    using assms read_config_null [of "ob\<lparr>ob_unread := ob_unread ob @ [(''runningVersion'', cause)]\<rparr>" ob' na]
    by (auto simp: value_read_def)
next
  case (stop cause)
  then show ?thesis using assms by (auto simp: value_read_def)
qed

lemma read_identity_null:
  assumes "ob_digest ob = None" "ob_resource ob = None" "ob_version ob = None" "ob_node ob = None" "ob_cluster ob = None"
    "value_read ''configuration'' ob" "value_read ''runningVersion'' ob" "value_read ''identity'' ob"
    "distinct (map fst (ob_unread ob))" and "ob' = read_identity na ob"
  shows "(value_read ''configuration'' ob' \<longleftrightarrow> ob_digest ob' \<noteq> None) \<and> (ob_digest ob' = None \<longleftrightarrow> ob_resource ob' = None) \<and>
    (value_read ''runningVersion'' ob' \<longleftrightarrow> ob_version ob' \<noteq> None) \<and> (\<forall>v. ob_version ob' = Some v \<longrightarrow> running_version_form v) \<and>
    (value_read ''identity'' ob' \<longleftrightarrow> ob_node ob' \<noteq> None) \<and> (ob_node ob' = None \<longleftrightarrow> ob_cluster ob' = None) \<and>
    distinct (map fst (ob_unread ob')) \<and> ob_assignment ob' = ob_assignment ob \<and>
    value_read ''assignmentEvidence'' ob' = value_read ''assignmentEvidence'' ob"
proof (cases na ob rule: read_identity_cases)
  case (read g)
  let ?o = "ob\<lparr>ob_smbios := map_option (map to_lower) (nullable (ti_smbios g)),
      ob_node := Some (ti_node g), ob_cluster := Some (ti_cluster g)\<rparr>"
  show ?thesis using assms read read_version_null [of ?o ob' na]
    by (simp add: value_read_def del: not_None_eq)
next
  case (unread cause)
  let ?o = "ob\<lparr>ob_unread := ob_unread ob @ [(''identity'', cause)]\<rparr>"
  have "value_read ''configuration'' ?o" "value_read ''runningVersion'' ?o" "\<not> value_read ''identity'' ?o"
    "distinct (map fst (ob_unread ?o))" "value_read ''assignmentEvidence'' ?o = value_read ''assignmentEvidence'' ob"
    using assms by (simp_all add: value_read_def)
  then show ?thesis using assms unread read_version_null [of ?o ob' na] by (simp del: not_None_eq)
next
  case (stop cause)
  then show ?thesis using assms by (simp add: value_read_def)
qed

text \<open>C36. An observation is null where it says so and nowhere else: each of the identity, the running
  version, the configuration and the assignment evidence is either recorded, in the form the record
  demands, or named once among the unread values with its cause. The hypothesis is that an assignment
  head is never the empty string.\<close>

theorem observation_null_iff_unread:
  assumes "head \<noteq> Some ''''" and "ob = observe i basis head acc dialled"
  shows "(value_read ''identity'' ob \<longleftrightarrow> ob_node ob \<noteq> None) \<and> (ob_node ob = None \<longleftrightarrow> ob_cluster ob = None) \<and>
    (value_read ''runningVersion'' ob \<longleftrightarrow> ob_version ob \<noteq> None) \<and>
    (\<forall>v. ob_version ob = Some v \<longrightarrow> running_version_form v) \<and>
    (value_read ''configuration'' ob \<longleftrightarrow> ob_digest ob \<noteq> None) \<and> (ob_digest ob = None \<longleftrightarrow> ob_resource ob = None) \<and>
    (value_read ''assignmentEvidence'' ob \<longleftrightarrow> ob_assignment ob \<noteq> None) \<and>
    distinct (map fst (ob_unread ob))"
proof (cases acc)
  case (Inl cause)
  then show ?thesis using assms by (simp add: observe_def blank_observation_def unread_all_def value_read_def)
next
  case (Inr v)
  show ?thesis
  proof (cases dialled)
    case None
    then show ?thesis using assms Inr
      by (cases head) (simp_all add: observe_def blank_observation_def unread_all_def value_read_def nullable_def)
  next
    case (Some na)
    obtain ob2 where ob2: "ob = read_identity na ob2" "ob_digest ob2 = None" "ob_resource ob2 = None" "ob_version ob2 = None"
      "ob_node ob2 = None" "ob_cluster ob2 = None" "value_read ''configuration'' ob2" "value_read ''runningVersion'' ob2"
      "value_read ''identity'' ob2" "distinct (map fst (ob_unread ob2))"
      "value_read ''assignmentEvidence'' ob2 \<longleftrightarrow> ob_assignment ob2 \<noteq> None"
      using assms Some Inr
      by (cases head) (simp_all add: observe_def blank_observation_def value_read_def nullable_def Let_def)
    then show ?thesis using read_identity_null [of ob2 ob na] by (simp del: not_None_eq)
  qed
qed

theorem observation_null_iff_unread_witness:
  "distinct (map fst (ob_unread (observe ''o1'' 3 None (Inr (''p'', 1, ''t'')) None)))"
  using observation_null_iff_unread [of None "observe ''o1'' 3 None (Inr (''p'', 1, ''t'')) None" "''o1''" 3 "Inr (''p'', 1, ''t'')" None]
  by simp

end
