(* ===== verification/Recovery.thy ===== *)
theory Recovery
  imports Dispatch_System
begin

text \<open>
  Recovery mode (\<^verbatim>\<open>internal/api/recovery_entries.go\<close>, \<^verbatim>\<open>recovery_accountings.go\<close>,
  \<^verbatim>\<open>recovery_marks.go\<close>, \<^verbatim>\<open>recovery_releases.go\<close>, \<^verbatim>\<open>recovery_exits.go\<close>, \<^verbatim>\<open>recovery_acts.go\<close> and
  the inventory of a machine, \<^verbatim>\<open>inventory.go\<close>): after a restore, a recovery-admin enters it, which mints
  an epoch, takes every operation over and closes every machine's scope; each scope is then accounted
  for, marked and released; and once all are released, recovery mode is left.

  The tables are those of the dispatch and the six that recovery mode writes. A publish job is a row
  of the operation table that the dispatch never reads, so those rows are a table of their own here,
  and the pass over the operations, which the code makes in one id order, is a pass over the jobs and
  one over the apply-config operations: they write different rows. The clock's reading for the entry
  that comes \<open>n\<close>-th on the timelines is \<open>clk n\<close>. The staging claims that the entry abandons are in
  \<^verbatim>\<open>Recovery_Staging\<close>.
\<close>

section \<open>The tables\<close>

record recovery_epoch_row =
  ep_id :: string
  ep_at :: int
  ep_by :: "string option"
  ep_reason :: "string option"
  ep_stopped :: "int option"

record restored_backup =
  rb_family :: string
  rb_backup :: string
  rb_taken :: int

record scope_accounting_row =
  sa_machine :: string
  sa_epoch :: string
  sa_by :: string
  sa_act :: string
  sa_start :: string
  sa_end :: string
  sa_facts :: settle_facts
  sa_at :: int
  sa_revision :: int

record scope_release_row =
  sr_machine :: string
  sr_epoch :: string
  sr_by :: string
  sr_act :: string
  sr_mark :: int
  sr_facts :: "(string \<times> string) list"
  sr_at :: int
  sr_revision :: int

record recovery_exit_row =
  rx_epoch :: string
  rx_by :: string
  rx_act :: string
  rx_facts :: "(string \<times> string) list"
  rx_at :: int

datatype job_state = JobQueued | JobRunning | JobSucceeded | JobFailed

record publish_job =
  pj_id :: string
  pj_seq :: int
  pj_draft :: string
  pj_draft_rev :: int
  pj_by :: string
  pj_role :: string
  pj_state :: job_state
  pj_gen :: int
  pj_owner :: "string option"
  pj_owner_epoch :: "string option"
  pj_lease :: "int option"
  pj_last :: int
  pj_result :: "string option" \<comment> \<open>the release\<close>
  pj_error :: "string option" \<comment> \<open>the code of its problem\<close>

datatype job_entry = JQueued | JClaimed int | JSucceeded string | JFailed string

record job_event =
  je_operation :: string
  je_number :: int
  je_epoch :: string
  je_entry :: job_entry
  je_at :: int

record recovery_db =
  disp :: dispatch_db
  epochs :: "recovery_epoch_row list"
  restores :: "(string \<times> restored_backup) list"
  scope_accts :: "scope_accounting_row list"
  scope_rels :: "scope_release_row list"
  exits :: "recovery_exit_row list"
  jobs :: "publish_job list"
  job_events :: "job_event list"

section \<open>Loops and scopes\<close>

fun each_row :: "('a \<Rightarrow> 's \<Rightarrow> ('e, 's) res) \<Rightarrow> 'a list \<Rightarrow> 's \<Rightarrow> ('e, 's) res" where
  "each_row f [] s = Inr s"
| "each_row f (x # xs) s = and_then (f x s) (each_row f xs)"

definition set_scope :: "string \<Rightarrow> scope_state \<Rightarrow> dispatch_db \<Rightarrow> dispatch_db" where
  "set_scope m st db = db\<lparr>machines := sql_update (\<lambda>r. m_id r = m) (\<lambda>r. r\<lparr>m_scope := st\<rparr>) (machines db)\<rparr>"

text \<open>A scope's new state and its entry, which every act on a scope ends with.\<close>

definition move_scope :: "actor \<Rightarrow> string \<Rightarrow> string \<Rightarrow> scope_state \<Rightarrow> scope_state \<Rightarrow> string \<Rightarrow> scope_detail \<Rightarrow> int
    \<Rightarrow> dispatch_db \<Rightarrow> (api_error, int \<times> dispatch_db) res" where
  "move_scope w ep m from to cause detail at db =
     append_entry m ep (EScope from to cause (w_principal w) (w_role w) (w_act w) detail) at (set_scope m to db)"

definition acting :: "actor \<Rightarrow> dispatch_db \<Rightarrow> (api_error, unit) res" where
  "acting w db =
     and_then (found ErrNoRows (keyed pr_id (w_principal w) (principals db))) (\<lambda>p.
       if pr_revoked p then Inl (ApiRefused 403 ''identity-revoked'') else Inr ())"

text \<open>The operations of a machine that hold its scope.\<close>

definition held_on :: "string \<Rightarrow> dispatch_db \<Rightarrow> bool" where
  "held_on m db \<longleftrightarrow> (\<exists>x \<in> set (operations db). o_kind x = ApplyConfig \<and> holding (o_state x) \<and> o_machine x = m)"

section \<open>Entry\<close>

record entry_request =
  en_restored :: "restored_backup list"
  en_stopped :: int
  en_reason :: string

record entry_body =
  eb_epoch :: string
  eb_previous :: string
  eb_machines :: nat
  eb_operations :: "string list"
  eb_at :: int

definition backup_families :: "string list" where
  "backup_families = [''database'', ''provider'', ''credential-store'']"

text \<open>\<^verbatim>\<open>text\<close>: bytes of ASCII text here, so that every string is valid UTF-8.\<close>

definition text_ok :: "string \<Rightarrow> nat \<Rightarrow> bool" where
  "text_ok v n \<longleftrightarrow> \<not> blank v \<and> length v \<le> n \<and>
     list_all (\<lambda>ch. \<not> ((of_char ch :: nat) < 32 \<or> 127 \<le> (of_char ch :: nat) \<and> (of_char ch :: nat) < 160)) v"

fun check_restored :: "int \<Rightarrow> string list \<Rightarrow> restored_backup list \<Rightarrow> bool" where
  "check_restored now seen [] \<longleftrightarrow> True"
| "check_restored now seen (b # bs) \<longleftrightarrow>
     rb_family b \<in> set backup_families \<and> rb_family b \<notin> set seen \<and> rb_taken b \<le> now \<and> text_ok (rb_backup b) 256 \<and>
     check_restored now (rb_family b # seen) bs"

definition max_reason :: nat where
  "max_reason = 1024"

definition check_entry :: "int \<Rightarrow> entry_request \<Rightarrow> bool" where
  "check_entry now rq \<longleftrightarrow> en_restored rq \<noteq> [] \<and> length (en_restored rq) \<le> length backup_families \<and>
     check_restored now [] (en_restored rq) \<and> en_stopped rq \<le> now \<and> text_ok (en_reason rq) max_reason"

definition fail_on_entry :: "string \<Rightarrow> (nat \<Rightarrow> int) \<Rightarrow> publish_job \<Rightarrow> recovery_db \<Rightarrow> (api_error, recovery_db) res" where
  "fail_on_entry ep clk j s =
     (let n = pj_last j + 1 in
      if \<exists>e \<in> set (job_events s). je_operation e = pj_id j \<and> je_number e = n then Inl ErrTaken
      else Inr (s\<lparr>jobs := sql_update (\<lambda>x. pj_id x = pj_id j)
             (\<lambda>x. x\<lparr>pj_state := JobFailed, pj_error := Some ''recovery-mode-entered'', pj_owner := None,
                pj_owner_epoch := None, pj_lease := None, pj_last := pj_last x + 1\<rparr>) (jobs s),
           job_events := job_events s @ [\<lparr>je_operation = pj_id j, je_number = n, je_epoch = ep,
             je_entry = JFailed ''recovery-mode-entered'', je_at = clk (length (job_events s))\<rparr>]\<rparr>))"

definition take_on_entry :: "controller \<Rightarrow> string \<Rightarrow> (nat \<Rightarrow> int) \<Rightarrow> operation_row \<Rightarrow> dispatch_db
    \<Rightarrow> (api_error, dispatch_db) res" where
  "take_on_entry c ep clk x db =
     and_then (append_entry (o_machine x) ep
         (EOwnership (o_id x) (owner_text x) (ctl_id c) (o_gen x + 1) (o_gen x)
           (case o_owner_epoch x of None \<Rightarrow> '''' | Some e \<Rightarrow> e) ep ''recovery-entry'') (clk (length (timeline db)))
         (update_op (o_id x) (\<lambda>y. y\<lparr>o_state := Unresolved, o_owner := Some (ctl_id c), o_gen := o_gen y + 1,
            o_owner_epoch := Some ep\<rparr>) db)) (\<lambda>(_, db1).
       if o_state x = Unresolved then Inr db1
       else and_then (append_entry (o_machine x) ep
           (EOpState (o_id x) (o_state x) Unresolved (ctl_id c) (o_gen x + 1) None None ''recovery-entry'')
           (clk (length (timeline db1))) db1) (\<lambda>(_, db2). Inr db2))"

definition close_on_entry :: "actor \<Rightarrow> string \<Rightarrow> (nat \<Rightarrow> int) \<Rightarrow> machine_row \<Rightarrow> dispatch_db
    \<Rightarrow> (api_error, dispatch_db) res" where
  "close_on_entry w ep clk m db =
     and_then (move_scope w ep (m_id m) (m_scope m) PreRestoreUnaccounted ''recovery-entry'' NoDetail
       (clk (length (timeline db))) db) (\<lambda>(_, db1). Inr db1)"

definition to_take :: "dispatch_db \<Rightarrow> operation_row list" where
  "to_take db = sort_key o_id (filter (\<lambda>x. o_kind x = ApplyConfig \<and> holding (o_state x)) (operations db))"

definition to_fail :: "recovery_db \<Rightarrow> publish_job list" where
  "to_fail s = sort_key pj_id (filter (\<lambda>j. pj_state j = JobQueued \<or> pj_state j = JobRunning) (jobs s))"

text \<open>\<open>start\<close> is the epoch this process started in, \<open>ep\<close> the epoch it draws, \<open>at\<close> the entry's time.\<close>

definition enter_recovery :: "controller \<Rightarrow> string \<Rightarrow> actor \<Rightarrow> string \<Rightarrow> entry_request \<Rightarrow> int \<Rightarrow> (nat \<Rightarrow> int) \<Rightarrow> recovery_db
    \<Rightarrow> (api_error, entry_body \<times> recovery_db) res" where
  "enter_recovery c start w ep rq at clk s =
     (if inst_epoch (disp s) \<noteq> start then Inl (ApiRefused 409 ''conflict'')
      else if ctl_id c = '''' then Inl (ApiRefused 503 ''dependency-unavailable'')
      else and_then (acting w (disp s)) (\<lambda>_.
        if ep \<in> ep_id ` set (epochs s) \<or> at < en_stopped rq \<or> \<not> distinct (map rb_family (en_restored rq))
        then Inl ErrTaken
        else
          let s1 = s\<lparr>epochs := epochs s @ [\<lparr>ep_id = ep, ep_at = at, ep_by = Some (w_principal w),
                       ep_reason = Some (en_reason rq), ep_stopped = Some (en_stopped rq)\<rparr>],
                     restores := restores s @ map (Pair ep) (en_restored rq),
                     disp := (disp s)\<lparr>inst_epoch := ep, recovery_mode := True\<rparr>\<rparr> in
          and_then (each_row (fail_on_entry ep clk) (to_fail s) s1) (\<lambda>s2.
          and_then (each_row (take_on_entry c ep clk) (to_take (disp s)) (disp s2)) (\<lambda>db3.
          and_then (each_row (close_on_entry w ep clk) (sort_key m_id (machines (disp s))) db3) (\<lambda>db4.
            Inr (\<lparr>eb_epoch = ep, eb_previous = inst_epoch (disp s), eb_machines = length (machines (disp s)),
                  eb_operations = map o_id (to_take (disp s)), eb_at = at\<rparr>, s2\<lparr>disp := db4\<rparr>))))))"

text \<open>What the process keeps of its entry: the epoch it minted, and whether it made it its own.\<close>

record entry_state =
  es_minted :: string
  es_adopted :: bool

definition mint :: "string \<Rightarrow> entry_state \<Rightarrow> entry_state" where
  "mint ep es = es\<lparr>es_minted := ep\<rparr>"

text \<open>\<^verbatim>\<open>entered\<close>: the state, the controller's epoch, and whether the gate opens.\<close>

definition adopt_entry :: "string \<Rightarrow> entry_state \<Rightarrow> controller \<Rightarrow> entry_state \<times> controller \<times> bool" where
  "adopt_entry ep es c =
     (if es_adopted es \<or> ep \<noteq> es_minted es then (es, c, False)
      else (es\<lparr>es_adopted := True\<rparr>, c\<lparr>ctl_epoch := ep\<rparr>, True))"

text \<open>\<^verbatim>\<open>entryReplay\<close>: a record of an epoch this process did not mint is refused; its own current one
  completes the entry.\<close>

definition entry_replay :: "string \<Rightarrow> bool \<Rightarrow> entry_state \<Rightarrow> controller \<Rightarrow> (api_error, entry_state \<times> controller) res" where
  "entry_replay rec_epoch rec_current es c =
     (if rec_epoch \<noteq> es_minted es then Inl (ApiRefused 409 ''conflict'')
      else if rec_current then (let (es', c', _) = adopt_entry rec_epoch es c in Inr (es', c'))
      else Inr (es, c))"

section \<open>The post-restore accounting decision\<close>

record scope_settle =
  ss_machine :: string
  ss_start :: string
  ss_end :: string

definition max_accounted_scopes :: nat where
  "max_accounted_scopes = 256"

definition max_facts :: nat where
  "max_facts = 16"

definition check_facts :: "(string \<times> string) list \<Rightarrow> bool" where
  "check_facts fs \<longleftrightarrow> length fs \<le> max_facts \<and> list_all (\<lambda>(k, v). text_ok k 64 \<and> text_ok v max_reason) fs"

text \<open>The identifiers' form is \<^verbatim>\<open>id.MustHave\<close>'s, given by \<open>is_machine\<close> and \<open>is_observation\<close>.\<close>

definition check_accounting :: "(string \<Rightarrow> bool) \<Rightarrow> (string \<Rightarrow> bool) \<Rightarrow> scope_settle list \<Rightarrow> (string \<times> string) list \<Rightarrow> bool" where
  "check_accounting is_machine is_observation scopes facts \<longleftrightarrow>
     scopes \<noteq> [] \<and> length scopes \<le> max_accounted_scopes \<and>
     list_all (\<lambda>q. is_machine (ss_machine q) \<and> is_observation (ss_start q) \<and> is_observation (ss_end q)) scopes \<and>
     distinct (map ss_machine scopes) \<and> check_facts facts"

definition restored_attempts :: "string \<Rightarrow> dispatch_db \<Rightarrow> attempt_row list" where
  "restored_attempts m db = sort_key at_id (filter (\<lambda>a. at_machine a = m \<and> \<not> accounted db (at_id a)) (attempts db))"

definition settle_deadline :: "int \<Rightarrow> attempt_row list \<Rightarrow> int" where
  "settle_deadline deadline as = fold (\<lambda>a d. if d < at_transport a then at_transport a else d) as deadline"

definition account_restored :: "decision \<Rightarrow> string \<Rightarrow> string \<Rightarrow> (nat \<Rightarrow> int) \<Rightarrow> attempt_row \<Rightarrow> dispatch_db
    \<Rightarrow> (api_error, dispatch_db) res" where
  "account_restored d ep m clk a db =
     (let at = clk (length (timeline db)) in
      and_then (append_entry m ep (EAccounting (at_operation a) (at_id a) (Some d) None) at db) (\<lambda>(rv, db1).
        if accounted db1 (at_id a) then Inl ErrTaken
        else Inr (db1\<lparr>accountings := accountings db1 @ [\<lparr>ac_attempt = at_id a, ac_machine = m, ac_decision = Some d,
          ac_epoch = ep, ac_at = at, ac_revision = rv\<rparr>]\<rparr>)))"

definition account_scope :: "controller \<Rightarrow> actor \<Rightarrow> int \<Rightarrow> (string \<times> string) list \<Rightarrow> (nat \<Rightarrow> int) \<Rightarrow> scope_settle
    \<Rightarrow> recovery_db \<Rightarrow> (api_error, recovery_db) res" where
  "account_scope c w floor_from given clk q s =
     (let db = disp s; m = ss_machine q; ep = inst_epoch db in
      and_then (found ErrNoRows (keyed m_id m (machines db))) (\<lambda>r.
      if m_scope r \<noteq> PreRestoreUnaccounted then Inl (ApiRefused 409 ''conflict'')
      else
        let as = restored_attempts m db; deadline = settle_deadline floor_from as in
        and_then (settled c m deadline deadline (ss_start q) (ss_end q) given db) (\<lambda>v.
          case v of
            Inl cause \<Rightarrow> Inl (ApiRefused 409 ''conflict'')
          | Inr facts \<Rightarrow>
              let d = \<lparr>d_by = w_principal w, d_act = w_act w, d_start = ss_start q, d_end = ss_end q, d_facts = facts\<rparr>;
                  held = held_on m db; st = (if held then ScopeUnresolved else Blocked) in
              and_then (each_row (account_restored d ep m clk) as db) (\<lambda>db1.
              let at = clk (length (timeline db1)) in
              and_then (move_scope w ep m (m_scope r) st ''post-restore-accounting''
                  (SettleDetail (ss_start q) (ss_end q) facts (map at_id as) (\<not> held)) at db1) (\<lambda>(rv, db2).
                if \<exists>x \<in> set (scope_accts s). sa_machine x = m \<and> sa_epoch x = ep then Inl ErrTaken
                else Inr (s\<lparr>disp := db2, scope_accts := scope_accts s @
                  [\<lparr>sa_machine = m, sa_epoch = ep, sa_by = w_principal w, sa_act = w_act w, sa_start = ss_start q,
                    sa_end = ss_end q, sa_facts = facts, sa_at = at, sa_revision = rv\<rparr>]\<rparr>))))))"

text \<open>Both observations of a scope must be its machine's.\<close>

definition settle_observed :: "dispatch_db \<Rightarrow> scope_settle \<Rightarrow> bool" where
  "settle_observed db q \<longleftrightarrow>
     length (filter (\<lambda>ob. ob_machine ob = ss_machine q \<and> (ob_id ob = ss_start q \<or> ob_id ob = ss_end q)) (observations db)) =
     (if ss_start q = ss_end q then 1 else 2)"

definition account_scopes :: "controller \<Rightarrow> actor \<Rightarrow> scope_settle list \<Rightarrow> (string \<times> string) list \<Rightarrow> (nat \<Rightarrow> int) \<Rightarrow> recovery_db
    \<Rightarrow> (api_error, recovery_db) res" where
  "account_scopes c w scopes given clk s =
     (let db = disp s; qs = sort_key ss_machine scopes in
      if superseded c db then Inl ErrNotController
      else and_then (found ErrNoRows (keyed ep_id (inst_epoch db) (epochs s))) (\<lambda>e.
        case ep_stopped e of
          None \<Rightarrow> Inl (ApiRefused 409 ''conflict'')
        | Some stopped \<Rightarrow>
            if \<not> recovery_mode db then Inl (ApiRefused 409 ''conflict'')
            else if \<not> list_all (settle_observed db) qs then Inl (ApiRefused 404 ''not-found'')
            else if \<not> list_all (\<lambda>q. keyed m_id (ss_machine q) (machines db) \<noteq> None) qs then Inl (ApiRefused 404 ''not-found'')
            else and_then (acting w db) (\<lambda>_.
              each_row (account_scope c w (stopped + max_transport c) given clk) qs s)))"

section \<open>The scope mark\<close>

text \<open>What the request reads before its transaction: the restoration observation and the result of
  each dependency. The order of \<^verbatim>\<open>checkDependencies\<close> is the access, then the artifact when the machine
  has a Desired release; \<open>seen\<close> is the access the observation read with.\<close>

record mark_evidence =
  me_machine :: string
  me_observation :: string
  me_release :: "string option"
  me_deps :: "(string \<times> dep_result) list"
  me_missing :: "string list"
  me_other :: bool

text \<open>\<^verbatim>\<open>checkDependencies\<close> on what was read: the access or the cause its read failed for, and, with
  an artifact bound under \<open>key\<close>, the decryption's result.\<close>

definition check_dependencies :: "(string, access) res \<Rightarrow> (string \<times> int) option \<Rightarrow> string \<Rightarrow> string option
    \<Rightarrow> (string \<times> dep_result) list" where
  "check_dependencies acc art executor_key decrypt_cause =
     (''access'', (case acc of Inl cause \<Rightarrow> DepFailed cause | Inr v \<Rightarrow> AccessPassed v)) #
     (case art of
        None \<Rightarrow> []
      | Some (key, version) \<Rightarrow>
          [(''artifact'',
            if key \<noteq> executor_key then DepFailed ''key-mismatch''
            else (case decrypt_cause of Some cause \<Rightarrow> DepFailed cause | None \<Rightarrow> ArtifactPassed key version))])"

definition dep_failed :: "dep_result \<Rightarrow> bool" where
  "dep_failed d \<longleftrightarrow> (case d of DepFailed _ \<Rightarrow> True | _ \<Rightarrow> False)"

definition failed_deps :: "(string \<times> dep_result) list \<Rightarrow> string list" where
  "failed_deps deps = map fst (filter (dep_failed \<circ> snd) deps)"

text \<open>\<^verbatim>\<open>markRefusal\<close>: none where the scope may be marked.\<close>

definition mark_refusal :: "scope_state \<Rightarrow> api_error option" where
  "mark_refusal st =
     (if st = Blocked \<or> st = ScopeUnresolved \<or> st = Ready then None
      else if st = PreRestoreUnaccounted then Some (ApiRefused 409 ''recovery-mode-active'')
      else Some (ApiRefused 409 ''conflict''))"

definition prepare_refusal :: "string \<Rightarrow> dispatch_db \<Rightarrow> (api_error, string option) res" where
  "prepare_refusal m db =
     and_then (found (ApiRefused 404 ''not-found'') (keyed m_id m (machines db))) (\<lambda>r.
     and_then (found (ApiRefused 404 ''not-found'') (keyed ms_machine m (mstates db))) (\<lambda>ms.
       if \<not> recovery_mode db then Inl (ApiRefused 409 ''conflict'')
       else case mark_refusal (m_scope r) of Some e \<Rightarrow> Inl e | None \<Rightarrow> Inr (ms_desired ms)))"

definition prepare_mark :: "string \<Rightarrow> string option \<Rightarrow> observation_row \<Rightarrow> (string \<times> dep_result) list \<Rightarrow> mark_evidence" where
  "prepare_mark m desired ob deps =
     \<lparr>me_machine = m, me_observation = ob_id ob, me_release = desired, me_deps = deps, me_missing = failed_deps deps,
      me_other = (case (map_of deps ''access'', ob_access ob) of
        (Some (AccessPassed v), Some u) \<Rightarrow> u \<noteq> v | _ \<Rightarrow> False)\<rparr>"

text \<open>What the mark's transaction reads of the observation: its identity read, the one the machine
  binds, begun after the accounting, with no operation change since, and no later observation of
  another identity.\<close>

fun op_change :: "entry \<Rightarrow> bool" where
  "op_change (ECommitment _ _ _ _ _ _) \<longleftrightarrow> True"
| "op_change (EOpState _ _ _ _ _ _ _ _) \<longleftrightarrow> True"
| "op_change _ \<longleftrightarrow> False"

definition mark_missing :: "mark_evidence \<Rightarrow> machine_row \<Rightarrow> cluster_row \<Rightarrow> observation_row \<Rightarrow> recovery_db \<Rightarrow> string list" where
  "mark_missing ev r cl ob s =
     (let db = disp s; m = me_machine ev;
          read = value_read ''identity'' ob;
          matches = identity_match ob r cl;
          after = (case sql_row (\<lambda>x. sa_machine x = m \<and> sa_epoch x = inst_epoch db) (scope_accts s) of
                     None \<Rightarrow> False | Some a \<Rightarrow> sa_revision a < ob_basis ob);
          quiet = (\<forall>e \<in> set (timeline db). \<not> (ev_machine e = m \<and> ob_basis ob \<le> ev_revision e \<and> op_change (ev_entry e)));
          contradicted = (\<exists>o' \<in> set (observations db). ob_machine o' = m \<and> ob_basis ob < ob_basis o' \<and>
                            value_read ''identity'' o' \<and> \<not> identity_match o' r cl) in
      (if \<not> read \<or> \<not> after \<or> \<not> quiet \<or> me_other ev then [''observation''] else []) @
      (if read \<and> \<not> matches \<or> contradicted then [''identity''] else []) @ me_missing ev)"

definition marked_state :: "bool \<Rightarrow> string list \<Rightarrow> scope_state" where
  "marked_state held missing = (if held then ScopeUnresolved else if missing \<noteq> [] then Blocked else Ready)"

definition mark_scope :: "controller \<Rightarrow> actor \<Rightarrow> mark_evidence \<Rightarrow> (string \<times> string) list \<Rightarrow> int \<Rightarrow> recovery_db
    \<Rightarrow> (api_error, scope_state \<times> recovery_db) res" where
  "mark_scope c w ev facts at s =
     (let db = disp s; m = me_machine ev in
      if \<not> recovery_mode db then Inl (ApiRefused 409 ''conflict'')
      else if superseded c db then Inl ErrNotController
      else and_then (found ErrNoRows (keyed m_id m (machines db))) (\<lambda>r.
        and_then (found ErrNoRows (keyed cl_id (m_cluster r) (clusters db))) (\<lambda>cl.
        and_then (found ErrNoRows (keyed ms_machine m (mstates db))) (\<lambda>ms.
        and_then (found ErrNoRows (sql_row (\<lambda>o'. ob_id o' = me_observation ev \<and> ob_machine o' = m) (observations db))) (\<lambda>ob.
        and_then (acting w db) (\<lambda>_.
          case mark_refusal (m_scope r) of
            Some e \<Rightarrow> Inl e
          | None \<Rightarrow>
              if ms_desired ms \<noteq> me_release ev then Inl (ApiRefused 409 ''conflict'')
              else
                let missing = mark_missing ev r cl ob s; st = marked_state (held_on m db) missing in
                and_then (move_scope w (inst_epoch db) m (m_scope r) st ''restoration-mark''
                    (MarkDetail (me_observation ev) (me_release ev) missing (me_deps ev) facts) at db) (\<lambda>(_, db1).
                  Inr (st, s\<lparr>disp := db1\<rparr>))))))))"

section \<open>The scope release and the exit\<close>

fun ready_mark :: "entry \<Rightarrow> string option option" where
  "ready_mark (EScope _ Ready cause _ _ _ (MarkDetail _ rel _ _ _)) =
     (if cause = ''restoration-mark'' then Some rel else None)"
| "ready_mark _ = None"

definition latest_mark :: "string \<Rightarrow> dispatch_db \<Rightarrow> (int \<times> string option) option" where
  "latest_mark m db =
     Option.bind (last_by ev_revision (\<lambda>e. ev_machine e = m \<and> ready_mark (ev_entry e) \<noteq> None) (timeline db))
       (\<lambda>e. map_option (Pair (ev_revision e)) (ready_mark (ev_entry e)))"

definition release_scope :: "controller \<Rightarrow> actor \<Rightarrow> string \<Rightarrow> (string \<times> string) list \<Rightarrow> int \<Rightarrow> recovery_db
    \<Rightarrow> (api_error, recovery_db) res" where
  "release_scope c w m facts at s =
     (let db = disp s; ep = inst_epoch db in
      if \<not> recovery_mode db then Inl (ApiRefused 409 ''conflict'')
      else if superseded c db then Inl ErrNotController
      else and_then (found (ApiRefused 404 ''not-found'') (keyed m_id m (machines db))) (\<lambda>r.
        and_then (found ErrNoRows (keyed ms_machine m (mstates db))) (\<lambda>ms.
        and_then (acting w db) (\<lambda>_.
          if m_scope r = PreRestoreUnaccounted then Inl (ApiRefused 409 ''recovery-mode-active'')
          else case latest_mark m db of
            None \<Rightarrow> Inl (ApiRefused 409 ''conflict'')
          | Some (mark, checked_release) \<Rightarrow>
              if m_scope r \<noteq> Ready then Inl (ApiRefused 409 ''conflict'')
              else if ms_desired ms \<noteq> checked_release then Inl (ApiRefused 409 ''conflict'')
              else and_then (move_scope w ep m (m_scope r) ScopeReleased ''release'' (ReleaseDetail mark facts) at db) (\<lambda>(rv, db1).
                if \<exists>x \<in> set (scope_rels s). sr_machine x = m \<and> sr_epoch x = ep then Inl ErrTaken
                else Inr (s\<lparr>disp := db1, scope_rels := scope_rels s @
                  [\<lparr>sr_machine = m, sr_epoch = ep, sr_by = w_principal w, sr_act = w_act w, sr_mark = mark,
                    sr_facts = facts, sr_at = at, sr_revision = rv\<rparr>]\<rparr>))))))"

definition reopen_on_exit :: "actor \<Rightarrow> string \<Rightarrow> (nat \<Rightarrow> int) \<Rightarrow> machine_row \<Rightarrow> dispatch_db \<Rightarrow> (api_error, dispatch_db) res" where
  "reopen_on_exit w ep clk m db =
     and_then (move_scope w ep (m_id m) ScopeReleased Normal ''exit'' NoDetail (clk (length (timeline db))) db)
       (\<lambda>(_, db1). Inr db1)"

definition leave_recovery :: "controller \<Rightarrow> actor \<Rightarrow> (string \<times> string) list \<Rightarrow> (nat \<Rightarrow> int) \<Rightarrow> int \<Rightarrow> recovery_db
    \<Rightarrow> (api_error, recovery_db) res" where
  "leave_recovery c w facts clk at s =
     (let db = disp s; ep = inst_epoch db in
      if \<not> recovery_mode db then Inl (ApiRefused 409 ''conflict'')
      else if superseded c db then Inl ErrNotController
      else and_then (acting w db) (\<lambda>_.
        if \<not> list_all (\<lambda>r. m_scope r = ScopeReleased) (machines db) then Inl (ApiRefused 409 ''conflict'')
        else and_then (each_row (reopen_on_exit w ep clk) (sort_key m_id (machines db)) (db\<lparr>recovery_mode := False\<rparr>)) (\<lambda>db1.
          if ep \<in> rx_epoch ` set (exits s) then Inl ErrTaken
          else Inr (s\<lparr>disp := db1, exits := exits s @
            [\<lparr>rx_epoch = ep, rx_by = w_principal w, rx_act = w_act w, rx_facts = facts, rx_at = at\<rparr>]\<rparr>))))"

section \<open>A recovery-admin's acts on one operation, and the inventory\<close>

definition operation_machine :: "string \<Rightarrow> dispatch_db \<Rightarrow> (api_error, string) res" where
  "operation_machine op db =
     and_then (found (ApiRefused 404 ''not-found'') (operation_of op db)) (\<lambda>x.
       if o_kind x = ApplyConfig then Inr (o_machine x) else Inl (ApiRefused 404 ''not-found''))"

definition lock_recovery_act :: "controller \<Rightarrow> actor \<Rightarrow> string \<Rightarrow> dispatch_db \<Rightarrow> (api_error, operation_row) res" where
  "lock_recovery_act c w op db = and_then (acting w db) (\<lambda>_. lock_operation c op db)"

definition conflict_of :: "api_error \<Rightarrow> api_error" where
  "conflict_of e = (case e of OutcomeRefused _ _ \<Rightarrow> ApiRefused 409 ''conflict'' | _ \<Rightarrow> e)"

definition answer_conflict :: "(api_error, 'a) res \<Rightarrow> (api_error, 'a) res" where
  "answer_conflict r = (case r of Inl e \<Rightarrow> Inl (conflict_of e) | Inr x \<Rightarrow> Inr x)"

definition request_takeover :: "controller \<Rightarrow> actor \<Rightarrow> string \<Rightarrow> int \<Rightarrow> string \<Rightarrow> (nat \<Rightarrow> int) \<Rightarrow> dispatch_db
    \<Rightarrow> (api_error, taken_over \<times> dispatch_db) res" where
  "request_takeover c w op generation reason clk db =
     and_then (operation_machine op db) (\<lambda>_.
     and_then (lock_recovery_act c w op db) (\<lambda>_.
       answer_conflict (take_over_tx c op generation reason clk db)))"

definition decide_accounting :: "controller \<Rightarrow> actor \<Rightarrow> string \<Rightarrow> string \<Rightarrow> string \<Rightarrow> string \<Rightarrow> (string \<times> string) list \<Rightarrow> int
    \<Rightarrow> dispatch_db \<Rightarrow> (api_error, int \<times> dispatch_db) res" where
  "decide_accounting c w op att start fin facts at db =
     and_then (operation_machine op db) (\<lambda>m.
       case keyed at_id att (attempts db) of
         None \<Rightarrow> Inl (ApiRefused 404 ''not-found'')
       | Some a \<Rightarrow>
           if at_operation a \<noteq> op then Inl (ApiRefused 404 ''not-found'')
           else if \<not> settle_observed db \<lparr>ss_machine = m, ss_start = start, ss_end = fin\<rparr>
             then Inl (ApiRefused 404 ''not-found'')
           else and_then (lock_recovery_act c w op db) (\<lambda>_.
             answer_conflict (account_by_decision c att (w_principal w) (w_act w) start fin facts at db)))"

definition resolve_by_decision :: "controller \<Rightarrow> actor \<Rightarrow> string \<Rightarrow> string \<Rightarrow> int \<Rightarrow> dispatch_db
    \<Rightarrow> (api_error, int \<times> dispatch_db) res" where
  "resolve_by_decision c w op reason at db =
     (if ctl_id c = '''' then Inl ErrNotController
      else and_then (operation_machine op db) (\<lambda>_.
        and_then (lock_recovery_act c w op db) (\<lambda>x.
          if o_state x \<noteq> Unresolved then Inl (ApiRefused 409 ''conflict'')
          else if attempts_of op db \<noteq> [] then Inl (ApiRefused 409 ''conflict'')
          else append_entry (o_machine x) (inst_epoch db)
            (EOpState op Unresolved Cancelled (owner_text x) (o_gen x) (Some (ctl_id c)) None ''resolution'') at
            (update_op op (\<lambda>y. y\<lparr>o_state := Cancelled\<rparr>) db))))"

text \<open>The row of a machine inventoried in recovery mode starts with its scope closed. The two identity
  keys are unique.\<close>

definition inventory_machine :: "string \<Rightarrow> string \<Rightarrow> string option \<Rightarrow> string option \<Rightarrow> string \<Rightarrow> dispatch_db
    \<Rightarrow> (api_error, dispatch_db) res" where
  "inventory_machine new cluster smbios node endpoint db =
     (if keyed cl_id cluster (clusters db) = None then Inl (ApiRefused 404 ''not-found'')
      else if \<exists>r \<in> set (machines db). m_id r = new \<or> smbios \<noteq> None \<and> m_smbios r = smbios \<or> node \<noteq> None \<and> m_node r = node
        then Inl (ApiRefused 409 ''conflict'')
      else Inr (db\<lparr>machines := machines db @ [\<lparr>m_id = new, m_cluster = cluster, m_smbios = smbios, m_node = node,
              m_frozen = False, m_scope = (if recovery_mode db then PreRestoreUnaccounted else Normal), m_rev = 0,
              m_endpoint = endpoint\<rparr>],
            mstates := mstates db @ [\<lparr>ms_machine = new, ms_revision = 1, ms_desired = None, ms_applied = None,
              ms_digest = None, ms_source = None, ms_baseline = None\<rparr>]\<rparr>))"

end
