(* ===== verification/Recovery_System.thy ===== *)
theory Recovery_System
  imports Recovery
begin

text \<open>
  The runs of an installation with recovery mode: every transaction of recovery mode keeps the
  invariant of the dispatch tables and lets each operation evolve along its transitions, as the
  dispatch's own do, and each machine's scope moves along \<open>scope_step\<close>. A loop over rows is treated
  once, by the locale \<open>row_loop\<close>, which the loops of the entry, the accounting and the exit interpret.
\<close>

section \<open>Loops\<close>

text \<open>\<open>P\<close> holds of the rows left and the state, \<open>R\<close> of the states before and after.\<close>

locale row_loop =
  fixes f :: "'a \<Rightarrow> 's \<Rightarrow> ('e, 's) res"
    and P :: "'a list \<Rightarrow> 's \<Rightarrow> bool"
    and R :: "'s \<Rightarrow> 's \<Rightarrow> bool"
  assumes row: "P (x # xs) s \<Longrightarrow> f x s = Inr s' \<Longrightarrow> P xs s' \<and> R s s'"
    and none: "P xs s \<Longrightarrow> R s s"
    and compose: "R a b \<Longrightarrow> R b c \<Longrightarrow> R a c"
begin

lemma loop: "each_row f xs s = Inr s' \<Longrightarrow> P xs s \<Longrightarrow> P [] s' \<and> R s s'"
proof (induction xs arbitrary: s)
  case (Cons x xs)
  then obtain t where "f x s = Inr t" "each_row f xs t = Inr s'" by (auto simp: and_then_ok)
  then show ?case using Cons.IH [of t] Cons.prems(2) row [of x xs s t] compose [of s t s'] by blast
qed (auto intro: none)

end

section \<open>Scopes\<close>

definition scope_of :: "string \<Rightarrow> dispatch_db \<Rightarrow> scope_state option" where
  "scope_of m db = map_option m_scope (keyed m_id m (machines db))"

lemma scope_of_entered [simp]: "scope_of m (entered m' ep e at rv db) = scope_of m db"
  by (cases "keyed m_id m (machines db)") (auto simp: scope_of_def entered_def keyed_sql_update)

lemma scope_of_update_op [simp]: "scope_of m (update_op op f db) = scope_of m db"
  by (simp add: scope_of_def)

lemma update_op_hidden [simp]: "recovery_mode (update_op op f db) = recovery_mode db"
    "observations (update_op op f db) = observations db" "clusters (update_op op f db) = clusters db"
  by (simp_all add: update_op_def)

lemma scope_of_set: "scope_of m' (set_scope m st db) =
    (if m' = m then map_option (\<lambda>_. st) (scope_of m' db) else scope_of m' db)"
  by (cases "keyed m_id m' (machines db)") (auto simp: scope_of_def set_scope_def keyed_sql_update dest: keyed_Some)

lemma set_scope_sel [simp]:
  "inst_epoch (set_scope m st db) = inst_epoch db" "recovery_mode (set_scope m st db) = recovery_mode db"
  "operations (set_scope m st db) = operations db" "plans (set_scope m st db) = plans db"
  "attempts (set_scope m st db) = attempts db" "accountings (set_scope m st db) = accountings db"
  "responses (set_scope m st db) = responses db" "classifications (set_scope m st db) = classifications db"
  "plan_states (set_scope m st db) = plan_states db" "drifts (set_scope m st db) = drifts db"
  "timeline (set_scope m st db) = timeline db" "map m_id (machines (set_scope m st db)) = map m_id (machines db)"
  "observations (set_scope m st db) = observations db" "principals (set_scope m st db) = principals db"
  by (simp_all add: set_scope_def map_key_sql_update)

lemma set_scope_revs: "map (\<lambda>r. (m_id r, m_rev r)) (machines (set_scope m st db)) = map (\<lambda>r. (m_id r, m_rev r)) (machines db)"
  by (simp add: set_scope_def map_key_sql_update)

lemma keyed_set_scope:
  "keyed m_id m' (machines (set_scope m st db)) =
     map_option (\<lambda>r. if m_id r = m then r\<lparr>m_scope := st\<rparr> else r) (keyed m_id m' (machines db))"
  by (simp add: set_scope_def keyed_sql_update)

text \<open>A change of the machines that keeps their counters, of the epoch and of the mode is invisible to
  the dispatch's invariant.\<close>

lemma good_hidden:
  assumes "dispatch_inv db" and "map (\<lambda>r. (m_id r, m_rev r)) (machines db') = map (\<lambda>r. (m_id r, m_rev r)) (machines db)"
    and "core_frame db db'" "plan_states db' = plan_states db" "drifts db' = drifts db" "timeline db' = timeline db"
  shows "good db db'"
proof (rule good_frame [OF assms(1,3)])
  show "tl_ext db db'" using machine_ids [OF assms(2)] tl_ok_cong [OF assms(2)] assms(6) by (auto simp: tl_ext_def)
qed (use assms in \<open>simp_all add: dispatch_inv_def\<close>)

lemma move_scope_ok:
  "move_scope w ep m from to cause d at db = Inr (rv, db') \<longleftrightarrow>
     (\<exists>r. keyed m_id m (machines db) = Some r \<and> rv = m_rev r + 1 \<and>
        db' = entered m ep (EScope from to cause (w_principal w) (w_role w) (w_act w) d) at rv (set_scope m to db))"
  by (cases "keyed m_id m (machines db)") (auto simp: move_scope_def append_entry_ok keyed_set_scope dest: keyed_Some)

lemma good_move_scope:
  assumes "move_scope w ep m from to cause d at db = Inr (rv, db')" and "dispatch_inv db"
  shows "good db db'"
proof -
  obtain r where r: "keyed m_id m (machines db) = Some r"
    and db': "db' = entered m ep (EScope from to cause (w_principal w) (w_role w) (w_act w) d) at (m_rev r + 1) (set_scope m to db)"
    using assms(1) by (auto simp: move_scope_ok)
  have g: "good db (set_scope m to db)"
    using assms(2) by (intro good_hidden set_scope_revs) (simp_all add: core_frame_def)
  have "keyed m_id m (machines (set_scope m to db)) = Some (r\<lparr>m_scope := to\<rparr>)"
    using r by (auto simp: keyed_set_scope dest: keyed_Some)
  then have "good (set_scope m to db) db'"
    using good_entered [OF good_inv [OF g]] db' by fastforce
  with g show ?thesis by (rule good_trans)
qed

lemma entered_ids [simp]: "map m_id (machines (entered m ep e at rv db)) = map m_id (machines db)"
  by (simp add: entered_def map_key_sql_update)

lemma move_scope_sel:
  assumes "move_scope w ep m from to cause d at db = Inr (rv, db')"
  shows "scope_of m' db' = (if m' = m then Some to else scope_of m' db)" and "inst_epoch db' = inst_epoch db"
    and "recovery_mode db' = recovery_mode db" and "operations db' = operations db"
    and "map m_id (machines db') = map m_id (machines db)"
proof -
  obtain r where r: "keyed m_id m (machines db) = Some r"
    and db': "db' = entered m ep (EScope from to cause (w_principal w) (w_role w) (w_act w) d) at (m_rev r + 1) (set_scope m to db)"
    using assms by (auto simp: move_scope_ok)
  then have "scope_of m db = Some (m_scope r)" by (simp add: scope_of_def)
  then show "scope_of m' db' = (if m' = m then Some to else scope_of m' db)" by (simp add: db' scope_of_set)
qed (use assms in \<open>auto simp: move_scope_ok\<close>)

section \<open>The rest of the system, seen from the scopes\<close>

text \<open>What the transactions of the dispatch and the rest of the program leave alone: the scopes, their
  entries, the epoch and the mode. Only the acts of recovery mode and the inventory write them.\<close>

fun is_scope_entry :: "entry \<Rightarrow> bool" where
  "is_scope_entry (EScope _ _ _ _ _ _ _) \<longleftrightarrow> True"
| "is_scope_entry _ \<longleftrightarrow> False"

definition scopes_kept :: "dispatch_db \<Rightarrow> dispatch_db \<Rightarrow> bool" where
  "scopes_kept db db' \<longleftrightarrow> map (\<lambda>r. (m_id r, m_scope r)) (machines db') = map (\<lambda>r. (m_id r, m_scope r)) (machines db) \<and>
     filter (\<lambda>e. is_scope_entry (ev_entry e)) (timeline db') = filter (\<lambda>e. is_scope_entry (ev_entry e)) (timeline db) \<and>
     inst_epoch db' = inst_epoch db \<and> recovery_mode db' = recovery_mode db"

lemma keyed_scope_cong:
  fixes ms ms' :: "machine_row list"
  shows "map (\<lambda>r. (m_id r, m_scope r)) ms' = map (\<lambda>r. (m_id r, m_scope r)) ms \<Longrightarrow>
   map_option m_scope (keyed m_id m ms') = map_option m_scope (keyed m_id m ms)"
proof (induction ms arbitrary: ms')
  case (Cons r ms)
  then obtain r' rs where "ms' = r' # rs" "m_id r' = m_id r" "m_scope r' = m_scope r"
      "map (\<lambda>r. (m_id r, m_scope r)) rs = map (\<lambda>r. (m_id r, m_scope r)) ms" by (cases ms') auto
  then show ?case using Cons.IH [of rs] by (simp add: keyed_Cons)
qed simp

lemma scopes_kept_of: "scopes_kept db db' \<Longrightarrow> scope_of m db' = scope_of m db"
  unfolding scopes_kept_def scope_of_def by (elim conjE) (rule keyed_scope_cong)

inductive recovery_step :: "recovery_db \<Rightarrow> recovery_db \<Rightarrow> bool" where
  work: "dispatch_step (disp s) db' \<Longrightarrow> scopes_kept (disp s) db' \<Longrightarrow> recovery_step s (s\<lparr>disp := db'\<rparr>)"
| job: "recovery_step s (s\<lparr>jobs := js, job_events := es\<rparr>)"
| inventory: "inventory_machine new cl sm nd en (disp s) = Inr db' \<Longrightarrow> recovery_step s (s\<lparr>disp := db'\<rparr>)"
| enter: "enter_recovery c start w ep rq at clk s = Inr (b, s') \<Longrightarrow> recovery_step s s'"
| account: "account_scopes c w scopes given clk s = Inr s' \<Longrightarrow> recovery_step s s'"
| mark: "mark_scope c w ev facts at s = Inr (st, s') \<Longrightarrow> recovery_step s s'"
| release: "release_scope c w m facts at s = Inr s' \<Longrightarrow> recovery_step s s'"
| leave: "leave_recovery c w facts clk at s = Inr s' \<Longrightarrow> recovery_step s s'"
| takeover: "request_takeover c w op generation reason clk (disp s) = Inr (t, db') \<Longrightarrow> recovery_step s (s\<lparr>disp := db'\<rparr>)"
| decide: "decide_accounting c w op att start fin facts at (disp s) = Inr (rv, db') \<Longrightarrow> recovery_step s (s\<lparr>disp := db'\<rparr>)"
| resolve: "resolve_by_decision c w op reason at (disp s) = Inr (rv, db') \<Longrightarrow> recovery_step s (s\<lparr>disp := db'\<rparr>)"

section \<open>The entry's and the exit's loops\<close>

definition quiet_good :: "dispatch_db \<Rightarrow> dispatch_db \<Rightarrow> bool" where
  "quiet_good db db' \<longleftrightarrow> good db db' \<and> (\<forall>m. scope_of m db' = scope_of m db) \<and> inst_epoch db' = inst_epoch db \<and>
     recovery_mode db' = recovery_mode db"

lemma quiet_good_refl: "dispatch_inv db \<Longrightarrow> quiet_good db db"
  by (simp add: quiet_good_def good_refl)

lemma quiet_good_trans: "quiet_good a b \<Longrightarrow> quiet_good b c \<Longrightarrow> quiet_good a c"
  by (auto simp: quiet_good_def intro: good_trans)

abbreviation (input) taken_by :: "controller \<Rightarrow> string \<Rightarrow> operation_row \<Rightarrow> operation_row" where
  "taken_by c ep y \<equiv> y\<lparr>o_state := Unresolved, o_owner := Some (ctl_id c), o_gen := o_gen y + 1, o_owner_epoch := Some ep\<rparr>"

lemma take_on_entry_row:
  assumes "take_on_entry c ep clk x db = Inr db'" and "dispatch_inv db" and "operation_of (o_id x) db = Some x"
    and "o_kind x = ApplyConfig" and "holding (o_state x)"
  shows "quiet_good db db'" and "operation_of op db' = (if op = o_id x then Some (taken_by c ep x) else operation_of op db)"
proof -
  obtain e rv db1 where en: "append_entry (o_machine x) ep e (clk (length (timeline db))) (update_op (o_id x) (taken_by c ep) db) = Inr (rv, db1)"
    and mv: "(if o_state x = Unresolved then Inr db1
       else and_then (append_entry (o_machine x) ep
           (EOpState (o_id x) (o_state x) Unresolved (ctl_id c) (o_gen x + 1) None None ''recovery-entry'')
           (clk (length (timeline db1))) db1) (\<lambda>(_, db2). Inr db2)) = Inr db'"
    using assms(1) unfolding take_on_entry_def by (elim tx_elims) blast
  obtain r where r: "keyed m_id (o_machine x) (machines db) = Some r"
    and db1: "db1 = entered (o_machine x) ep e (clk (length (timeline db))) (m_rev r + 1) (update_op (o_id x) (taken_by c ep) db)"
    using en by (auto simp: append_entry_ok)
  have db': "db' = db1 \<or> (\<exists>m ep e' at rv. append_entry m ep e' at db1 = Inr (rv, db'))"
    using mv by (cases "o_state x = Unresolved") (auto simp: and_then_ok)
  have g: "good db db1" unfolding db1 by (rule good_taken [OF assms(2-5) r])
  have "db' = db1 \<or> good db1 db'" using db' good_append [OF _ good_inv [OF g]] by blast
  with g have "good db db'" by (auto intro: good_trans)
  then show "quiet_good db db'" using db' by (auto simp: quiet_good_def db1 append_entry_ok)
  have "operation_of op (update_op (o_id x) (taken_by c ep) db) = (if op = o_id x then Some (taken_by c ep x) else operation_of op db)"
    using assms(3) by (auto simp: operation_of_def keyed_sql_update update_op_def map_option_case split: option.split dest: keyed_Some)
  then show "operation_of op db' = (if op = o_id x then Some (taken_by c ep x) else operation_of op db)"
    using db' by (auto simp: db1 append_entry_ok)
qed

definition takeable :: "operation_row list \<Rightarrow> dispatch_db \<Rightarrow> bool" where
  "takeable xs db \<longleftrightarrow> dispatch_inv db \<and> distinct (map o_id xs) \<and>
     (\<forall>x \<in> set xs. operation_of (o_id x) db = Some x \<and> o_kind x = ApplyConfig \<and> holding (o_state x))"

interpretation take_loop: row_loop "take_on_entry c ep clk" takeable quiet_good for c ep clk
proof unfold_locales
  fix x xs s s' assume t: "takeable (x # xs) s" and f: "take_on_entry c ep clk x s = Inr s'"
  then have x: "dispatch_inv s" "operation_of (o_id x) s = Some x" "o_kind x = ApplyConfig" "holding (o_state x)"
    by (simp_all add: takeable_def)
  have q: "quiet_good s s'" by (rule take_on_entry_row(1) [OF f x])
  moreover have "operation_of (o_id y) s' = operation_of (o_id y) s" if "y \<in> set xs" for y :: operation_row
  proof -
    have "o_id x \<notin> set (map o_id xs)" using t by (simp add: takeable_def)
    then have "o_id y \<noteq> o_id x" using that by (auto simp: image_iff)
    then show ?thesis by (simp only: take_on_entry_row(2) [OF f x] if_False)
  qed
  ultimately show "takeable xs s' \<and> quiet_good s s'" using t by (auto simp: takeable_def quiet_good_def good_def)
qed (auto simp: takeable_def intro: quiet_good_refl quiet_good_trans)

text \<open>Every machine not left to the loop has the scope state it gives.\<close>

definition moved_to :: "scope_state \<Rightarrow> machine_row list \<Rightarrow> dispatch_db \<Rightarrow> bool" where
  "moved_to st ms db \<longleftrightarrow> dispatch_inv db \<and> (\<forall>m. m \<notin> m_id ` set ms \<longrightarrow> scope_of m db = None \<or> scope_of m db = Some st)"

definition scope_good :: "dispatch_db \<Rightarrow> dispatch_db \<Rightarrow> bool" where
  "scope_good db db' \<longleftrightarrow> good db db' \<and> operations db' = operations db \<and> inst_epoch db' = inst_epoch db \<and>
     recovery_mode db' = recovery_mode db"

lemma scope_good_refl: "dispatch_inv db \<Longrightarrow> scope_good db db"
  by (simp add: scope_good_def good_refl)

lemma scope_good_trans: "scope_good a b \<Longrightarrow> scope_good b c \<Longrightarrow> scope_good a c"
  by (auto simp: scope_good_def intro: good_trans)

lemma moved_to_refl: "moved_to st ms db \<Longrightarrow> scope_good db db"
  by (simp add: moved_to_def scope_good_refl)

lemma moved_to_row:
  assumes "move_scope w ep (m_id x) from st cause d at db = Inr (rv, db')" and "moved_to st (x # xs) db"
  shows "moved_to st xs db' \<and> scope_good db db'"
proof -
  have g: "good db db'" using good_move_scope [OF assms(1)] assms(2) by (simp add: moved_to_def)
  then have "scope_good db db'" using move_scope_sel [OF assms(1)] by (simp add: scope_good_def)
  moreover have "moved_to st xs db'"
    using assms(2) good_inv [OF g] move_scope_sel(1) [OF assms(1)] by (auto simp: moved_to_def)
  ultimately show ?thesis by blast
qed

interpretation close_loop: row_loop "close_on_entry w ep clk" "moved_to PreRestoreUnaccounted" scope_good for w ep clk
  by unfold_locales (auto simp: close_on_entry_def and_then_ok intro: moved_to_refl scope_good_trans dest!: moved_to_row)

interpretation reopen_loop: row_loop "reopen_on_exit w ep clk" "moved_to Normal" scope_good for w ep clk
  by unfold_locales (auto simp: reopen_on_exit_def and_then_ok intro: moved_to_refl scope_good_trans dest!: moved_to_row)

section \<open>What the entry does\<close>

definition jobs_only :: "recovery_db \<Rightarrow> recovery_db \<Rightarrow> bool" where
  "jobs_only s s' \<longleftrightarrow> disp s' = disp s \<and> epochs s' = epochs s \<and> scope_accts s' = scope_accts s \<and>
     scope_rels s' = scope_rels s \<and> exits s' = exits s \<and> restores s' = restores s"

interpretation fail_loop: row_loop "fail_on_entry ep clk" "\<lambda>_ _. True" jobs_only for ep clk
  by unfold_locales (auto simp: fail_on_entry_def jobs_only_def Let_def split: if_splits)

lemma to_take_takeable:
  assumes "dispatch_inv db" and "operations db' = operations db" and "dispatch_inv db'"
  shows "takeable (to_take db) db'"
proof -
  have d: "distinct (map o_id (operations db))" using assms(1) by (simp add: dispatch_inv_def core_ok_def ops_ok_def)
  then have "distinct (map o_id (to_take db))"
    unfolding to_take_def by (simp add: distinct_map) (auto simp: inj_on_def)
  moreover have "operation_of (o_id x) db' = Some x" if "x \<in> set (operations db)" for x
    using that d assms(2) by (simp add: operation_of_def keyed_unique)
  ultimately show ?thesis using assms(3) by (auto simp: takeable_def to_take_def)
qed

lemma scope_of_None: "scope_of m db = None \<longleftrightarrow> m \<notin> m_id ` set (machines db)"
  by (simp add: scope_of_def keyed_None)

text \<open>After the loops over every machine, every scope has the state they give.\<close>

lemma moved_all:
  assumes "moved_to st [] db'" and "map m_id (machines db') = map m_id (machines db)"
  shows "scope_of m db' = map_option (\<lambda>_. st) (scope_of m db)"
proof -
  have "scope_of m db' = None \<longleftrightarrow> scope_of m db = None" using assms(2) by (metis scope_of_None set_map)
  moreover have "scope_of m db' = None \<or> scope_of m db' = Some st" using assms(1) by (simp add: moved_to_def)
  ultimately show ?thesis by (cases "scope_of m db") auto
qed

lemma good_ids: "good db db' \<Longrightarrow> map m_id (machines db') = map m_id (machines db)"
  by (simp add: good_def tl_ext_def)

lemma enter_recovery_effect:
  assumes "enter_recovery c start w ep rq at clk s = Inr (b, s')" and inv: "dispatch_inv (disp s)"
  shows "good (disp s) (disp s')" and "inst_epoch (disp s') = ep" and "recovery_mode (disp s')"
    and "scope_of m (disp s') = map_option (\<lambda>_. PreRestoreUnaccounted) (scope_of m (disp s))"
    and "ep \<notin> ep_id ` set (epochs s)" and "\<exists>e. epochs s' = epochs s @ [e] \<and> ep_id e = ep"
    and "scope_accts s' = scope_accts s" and "scope_rels s' = scope_rels s" and "exits s' = exits s"
proof -
  define db1 where "db1 = (disp s)\<lparr>inst_epoch := ep, recovery_mode := True\<rparr>"
  define s1 where "s1 = s\<lparr>epochs := epochs s @ [\<lparr>ep_id = ep, ep_at = at, ep_by = Some (w_principal w),
                       ep_reason = Some (en_reason rq), ep_stopped = Some (en_stopped rq)\<rparr>],
                     restores := restores s @ map (Pair ep) (en_restored rq), disp := db1\<rparr>"
  obtain s2 db3 db4 where ep: "ep \<notin> ep_id ` set (epochs s)"
    and l: "each_row (fail_on_entry ep clk) (to_fail s) s1 = Inr s2"
      "each_row (take_on_entry c ep clk) (to_take (disp s)) (disp s2) = Inr db3"
      "each_row (close_on_entry w ep clk) (sort_key m_id (machines (disp s))) db3 = Inr db4"
    and s': "s' = s2\<lparr>disp := db4\<rparr>"
    using assms(1) unfolding enter_recovery_def Let_def db1_def s1_def
    by (auto simp: and_then_ok split: if_split_asm)
  have s1: "disp s1 = db1" "\<exists>e. epochs s1 = epochs s @ [e] \<and> ep_id e = ep" "scope_accts s1 = scope_accts s"
      "scope_rels s1 = scope_rels s" "exits s1 = exits s" by (simp_all add: s1_def)
  have j: "disp s2 = db1" "epochs s2 = epochs s1" "scope_accts s2 = scope_accts s1" "scope_rels s2 = scope_rels s1" "exits s2 = exits s1"
    using fail_loop.loop [OF l(1) TrueI] s1 by (simp_all add: jobs_only_def)
  have g1: "good (disp s) db1" using inv by (intro good_hidden) (simp_all add: db1_def core_frame_def)
  have "takeable (to_take (disp s)) db1" using good_inv [OF g1] by (intro to_take_takeable [OF inv]) (simp_all add: db1_def)
  then have q: "quiet_good db1 db3" using take_loop.loop [OF l(2)] by (simp add: j)
  have sc1: "scope_of m db1 = scope_of m (disp s)" for m by (simp add: scope_of_def db1_def)
  have "moved_to PreRestoreUnaccounted (sort_key m_id (machines (disp s))) db3"
    using q sc1 by (auto simp: moved_to_def quiet_good_def good_def scope_of_None)
  then have c: "moved_to PreRestoreUnaccounted [] db4" "scope_good db3 db4" using close_loop.loop [OF l(3)] by auto
  show g: "good (disp s) (disp s')" using g1 q c(2) s' by (auto simp: quiet_good_def scope_good_def intro: good_trans)
  show "scope_of m (disp s') = map_option (\<lambda>_. PreRestoreUnaccounted) (scope_of m (disp s))"
    using moved_all [OF c(1)] good_ids [OF g] s' by simp
  show "inst_epoch (disp s') = ep" "recovery_mode (disp s')"
    using q c(2) s' by (auto simp: quiet_good_def scope_good_def db1_def)
  show "ep \<notin> ep_id ` set (epochs s)" by (rule ep)
  show "\<exists>e. epochs s' = epochs s @ [e] \<and> ep_id e = ep" "scope_accts s' = scope_accts s" "scope_rels s' = scope_rels s" "exits s' = exits s"
    using s1 s' j by simp_all
qed

section \<open>What the acts on scopes do\<close>

interpretation account_loop: row_loop "account_restored d ep m clk" "\<lambda>_. dispatch_inv"
  "\<lambda>db db'. quiet_good db db' \<and> operations db' = operations db" for d ep m clk
proof unfold_locales
  fix x xs s s' assume inv: "dispatch_inv s" and f: "account_restored d ep m clk x s = Inr s'"
  obtain rv db1 where en: "append_entry m ep (EAccounting (at_operation x) (at_id x) (Some d) None) (clk (length (timeline s))) s = Inr (rv, db1)"
    and new: "\<not> accounted db1 (at_id x)"
    and s': "s' = db1\<lparr>accountings := accountings db1 @ [\<lparr>ac_attempt = at_id x, ac_machine = m, ac_decision = Some d,
          ac_epoch = ep, ac_at = clk (length (timeline s)), ac_revision = rv\<rparr>]\<rparr>"
    using f unfolding account_restored_def Let_def by (elim tx_elims) (auto split: if_split_asm)
  have "\<not> accounted s (at_id x)" using new en by (auto simp: accounted_def append_entry_ok)
  then have g: "good s s'" using en s' by (intro good_accounting [OF inv])
  moreover have "scope_of n s' = scope_of n s" for n
    using en scope_of_entered by (auto simp: s' append_entry_ok scope_of_def)
  ultimately have "quiet_good s s'" using en by (auto simp: quiet_good_def s' append_entry_ok)
  then show "dispatch_inv s' \<and> quiet_good s s' \<and> operations s' = operations s"
    using g en by (auto simp: good_def s' append_entry_ok)
qed (auto intro: quiet_good_refl quiet_good_trans)

definition accounted_in :: "string \<Rightarrow> recovery_db \<Rightarrow> bool" where
  "accounted_in m s \<longleftrightarrow> (\<exists>a \<in> set (scope_accts s). sa_machine a = m \<and> sa_epoch a = inst_epoch (disp s))"

definition released_in :: "string \<Rightarrow> recovery_db \<Rightarrow> bool" where
  "released_in m s \<longleftrightarrow> (\<exists>a \<in> set (scope_rels s). sr_machine a = m \<and> sr_epoch a = inst_epoch (disp s))"

text \<open>An act within the epoch: the dispatch's tables are kept, the epoch and the mode stay, and the
  accountings and releases grow.\<close>

definition within_epoch :: "recovery_db \<Rightarrow> recovery_db \<Rightarrow> bool" where
  "within_epoch s s' \<longleftrightarrow> good (disp s) (disp s') \<and> inst_epoch (disp s') = inst_epoch (disp s) \<and>
     recovery_mode (disp s') = recovery_mode (disp s) \<and> epochs s' = epochs s \<and> exits s' = exits s \<and>
     set (scope_accts s) \<subseteq> set (scope_accts s') \<and> set (scope_rels s) \<subseteq> set (scope_rels s')"

lemma within_epoch_kept:
  "within_epoch s s' \<Longrightarrow> accounted_in m s \<Longrightarrow> accounted_in m s'" "within_epoch s s' \<Longrightarrow> released_in m s \<Longrightarrow> released_in m s'"
  by (auto simp: within_epoch_def accounted_in_def released_in_def)

lemma account_scope_written:
  assumes "account_scope c w fl given clk q s = Inr s'"
  obtains r facts d db1 rv db2 where "keyed m_id (ss_machine q) (machines (disp s)) = Some r" "m_scope r = PreRestoreUnaccounted"
    and "each_row (account_restored d (inst_epoch (disp s)) (ss_machine q) clk) (restored_attempts (ss_machine q) (disp s)) (disp s) = Inr db1"
    and "move_scope w (inst_epoch (disp s)) (ss_machine q) (m_scope r) (if held_on (ss_machine q) (disp s) then ScopeUnresolved else Blocked)
      ''post-restore-accounting'' (SettleDetail (ss_start q) (ss_end q) facts (map at_id (restored_attempts (ss_machine q) (disp s)))
        (\<not> held_on (ss_machine q) (disp s))) (clk (length (timeline db1))) db1 = Inr (rv, db2)"
    and "s' = s\<lparr>disp := db2, scope_accts := scope_accts s @ [\<lparr>sa_machine = ss_machine q, sa_epoch = inst_epoch (disp s),
      sa_by = w_principal w, sa_act = w_act w, sa_start = ss_start q, sa_end = ss_end q, sa_facts = facts,
      sa_at = clk (length (timeline db1)), sa_revision = rv\<rparr>]\<rparr>"
proof -
  let ?m = "ss_machine q" and ?db = "disp s"
  let ?as = "restored_attempts ?m ?db"
  obtain r v where r: "keyed m_id ?m (machines ?db) = Some r" "m_scope r = PreRestoreUnaccounted"
    and v: "settled c ?m (settle_deadline fl ?as) (settle_deadline fl ?as) (ss_start q) (ss_end q) given ?db = Inr v"
    using assms unfolding account_scope_def Let_def by (auto simp: and_then_ok found_ok split: if_split_asm)
  then obtain facts where f: "v = Inr facts" using assms unfolding account_scope_def Let_def by (cases v) simp_all
  obtain db1 rv db2 where l: "each_row (account_restored \<lparr>d_by = w_principal w, d_act = w_act w, d_start = ss_start q, d_end = ss_end q, d_facts = facts\<rparr>
        (inst_epoch ?db) ?m clk) ?as ?db = Inr db1"
    and mv: "move_scope w (inst_epoch ?db) ?m (m_scope r) (if held_on ?m ?db then ScopeUnresolved else Blocked)
      ''post-restore-accounting'' (SettleDetail (ss_start q) (ss_end q) facts (map at_id ?as) (\<not> held_on ?m ?db))
        (clk (length (timeline db1))) db1 = Inr (rv, db2)"
    and s': "s' = s\<lparr>disp := db2, scope_accts := scope_accts s @ [\<lparr>sa_machine = ?m, sa_epoch = inst_epoch (disp s),
      sa_by = w_principal w, sa_act = w_act w, sa_start = ss_start q, sa_end = ss_end q, sa_facts = facts,
      sa_at = clk (length (timeline db1)), sa_revision = rv\<rparr>]\<rparr>"
    using assms r v unfolding f account_scope_def Let_def
    by (simp only: found_simps and_then_Inr if_False sum.case not_True_eq_False simp_thms)
      (elim tx_elims, auto split: if_split_asm)
  show ?thesis by (rule that [OF r l mv s'])
qed

lemma account_scope_effect:
  assumes "account_scope c w fl given clk q s = Inr s'" and inv: "dispatch_inv (disp s)"
  shows "within_epoch s s'" and "scope_of (ss_machine q) (disp s) = Some PreRestoreUnaccounted" and "accounted_in (ss_machine q) s'"
    and "scope_of m (disp s') = (if m = ss_machine q
      then Some (if held_on (ss_machine q) (disp s) then ScopeUnresolved else Blocked) else scope_of m (disp s))"
proof -
  let ?m = "ss_machine q" and ?ep = "inst_epoch (disp s)"
  obtain r facts d db1 rv db2 where r: "keyed m_id ?m (machines (disp s)) = Some r" "m_scope r = PreRestoreUnaccounted"
    and l: "each_row (account_restored d ?ep ?m clk) (restored_attempts ?m (disp s)) (disp s) = Inr db1"
    and mv: "move_scope w ?ep ?m (m_scope r) (if held_on ?m (disp s) then ScopeUnresolved else Blocked) ''post-restore-accounting''
      (SettleDetail (ss_start q) (ss_end q) facts (map at_id (restored_attempts ?m (disp s))) (\<not> held_on ?m (disp s)))
      (clk (length (timeline db1))) db1 = Inr (rv, db2)"
    and s': "s' = s\<lparr>disp := db2, scope_accts := scope_accts s @ [\<lparr>sa_machine = ?m, sa_epoch = inst_epoch (disp s),
      sa_by = w_principal w, sa_act = w_act w, sa_start = ss_start q, sa_end = ss_end q, sa_facts = facts,
      sa_at = clk (length (timeline db1)), sa_revision = rv\<rparr>]\<rparr>"
    using assms(1) by (rule account_scope_written)
  have q: "quiet_good (disp s) db1" "operations db1 = operations (disp s)" using account_loop.loop [OF l inv] by auto
  have g: "good db1 db2" using good_move_scope [OF mv] q(1) by (simp add: quiet_good_def good_def)
  then have gg: "good (disp s) db2" using q(1) good_trans unfolding quiet_good_def by blast
  have e: "inst_epoch db2 = ?ep" "recovery_mode db2 = recovery_mode (disp s)"
    using q(1) move_scope_sel [OF mv] by (auto simp: quiet_good_def)
  show "within_epoch s s'" using gg e by (auto simp: within_epoch_def s')
  show "scope_of ?m (disp s) = Some PreRestoreUnaccounted" using r by (simp add: scope_of_def)
  show "accounted_in ?m s'" using e by (simp add: s' accounted_in_def)
  show "scope_of m (disp s') = (if m = ?m then Some (if held_on ?m (disp s) then ScopeUnresolved else Blocked) else scope_of m (disp s))"
    using move_scope_sel(1) [OF mv] q(1) by (simp add: s' quiet_good_def)
qed

lemma within_epoch_refl: "dispatch_inv (disp s) \<Longrightarrow> within_epoch s s"
  by (simp add: within_epoch_def good_refl)

lemma within_epoch_trans: "within_epoch a b \<Longrightarrow> within_epoch b c \<Longrightarrow> within_epoch a c"
  by (auto simp: within_epoch_def intro: good_trans)

text \<open>The decision moves a scope out of pre-restore unaccounted, with its accounting, and nothing else.\<close>

definition decided :: "recovery_db \<Rightarrow> recovery_db \<Rightarrow> bool" where
  "decided s s' \<longleftrightarrow> within_epoch s s' \<and> (\<forall>m. scope_of m (disp s') = scope_of m (disp s) \<or>
     scope_of m (disp s) = Some PreRestoreUnaccounted \<and> accounted_in m s' \<and>
     (scope_of m (disp s') = Some Blocked \<or> scope_of m (disp s') = Some ScopeUnresolved))"

lemma decided_trans:
  assumes ab: "decided a b" and bc: "decided b c"
  shows "decided a c"
proof -
  have w: "within_epoch a b" "within_epoch b c" using ab bc by (simp_all add: decided_def)
  have "scope_of m (disp c) = scope_of m (disp a) \<or>
     scope_of m (disp a) = Some PreRestoreUnaccounted \<and> accounted_in m c \<and>
     (scope_of m (disp c) = Some Blocked \<or> scope_of m (disp c) = Some ScopeUnresolved)" for m
  proof (cases "scope_of m (disp b) = scope_of m (disp a)")
    case True
    then show ?thesis using bc unfolding decided_def by metis
  next
    case False
    then have b: "scope_of m (disp a) = Some PreRestoreUnaccounted" "accounted_in m b"
        "scope_of m (disp b) = Some Blocked \<or> scope_of m (disp b) = Some ScopeUnresolved"
      using ab by (auto simp: decided_def)
    then have "scope_of m (disp c) = scope_of m (disp b)" using bc unfolding decided_def by (metis option.inject scope_state.simps)
    then show ?thesis using b within_epoch_kept(1) [OF w(2) b(2)] by simp
  qed
  then show ?thesis using within_epoch_trans [OF w] by (simp add: decided_def)
qed

interpretation decision_loop: row_loop "account_scope c w fl given clk" "\<lambda>_ s. dispatch_inv (disp s)" decided for c w fl given clk
proof unfold_locales
  fix q qs s s' assume i: "dispatch_inv (disp s)" and f: "account_scope c w fl given clk q s = Inr s'"
  note e = account_scope_effect [OF f i]
  then show "dispatch_inv (disp s') \<and> decided s s'" by (auto simp: decided_def within_epoch_def good_def)
next
  show "decided s s" if "dispatch_inv (disp s)" for s using within_epoch_refl [OF that] by (simp add: decided_def)
qed (rule decided_trans)

lemma account_scopes_effect:
  assumes "account_scopes c w scopes given clk s = Inr s'" and "dispatch_inv (disp s)"
  shows "decided s s'" and "inst_epoch (disp s) = ctl_epoch c" and "recovery_mode (disp s)"
proof -
  obtain fl where "each_row (account_scope c w fl given clk) (sort_key ss_machine scopes) s = Inr s'"
    and c: "inst_epoch (disp s) = ctl_epoch c" "recovery_mode (disp s)"
    using assms(1) unfolding account_scopes_def Let_def
    by (auto simp: and_then_ok found_ok split: if_split_asm option.split_asm)
  then show "decided s s'" using decision_loop.loop assms(2) by blast
  show "inst_epoch (disp s) = ctl_epoch c" "recovery_mode (disp s)" by (fact c)+
qed

text \<open>A scope moved alone.\<close>

lemma moved_within:
  assumes "move_scope w ep m from to cause d at (disp s) = Inr (rv, db')" and "dispatch_inv (disp s)"
    and "s' = s\<lparr>disp := db', scope_rels := scope_rels s @ rs\<rparr>"
  shows "within_epoch s s'" and "scope_of n (disp s') = (if n = m then Some to else scope_of n (disp s))"
  using good_move_scope [OF assms(1,2)] move_scope_sel [OF assms(1)] by (auto simp: within_epoch_def assms(3))

lemma mark_scope_written:
  assumes "mark_scope c w ev facts at s = Inr (st, s')"
  obtains r cl ms ob rv db1 where "recovery_mode (disp s)" "inst_epoch (disp s) = ctl_epoch c"
    and "keyed m_id (me_machine ev) (machines (disp s)) = Some r" "keyed cl_id (m_cluster r) (clusters (disp s)) = Some cl"
    and "keyed ms_machine (me_machine ev) (mstates (disp s)) = Some ms" "ms_desired ms = me_release ev"
    and "sql_row (\<lambda>o'. ob_id o' = me_observation ev \<and> ob_machine o' = me_machine ev) (observations (disp s)) = Some ob"
    and "mark_refusal (m_scope r) = None" "acting w (disp s) = Inr ()"
    and "st = marked_state (held_on (me_machine ev) (disp s)) (mark_missing ev r cl ob s)"
    and "move_scope w (inst_epoch (disp s)) (me_machine ev) (m_scope r) st ''restoration-mark''
      (MarkDetail (me_observation ev) (me_release ev) (mark_missing ev r cl ob s) (me_deps ev) facts) at (disp s) = Inr (rv, db1)"
    and "s' = s\<lparr>disp := db1\<rparr>"
  using assms unfolding mark_scope_def Let_def
  by (auto simp: and_then_ok found_ok split: if_split_asm option.split_asm)

lemma mark_scope_effect:
  assumes "mark_scope c w ev facts at s = Inr (st, s')" and "dispatch_inv (disp s)"
  shows "within_epoch s s'" and "\<exists>f. scope_of (me_machine ev) (disp s) = Some f \<and> f \<in> {Blocked, ScopeUnresolved, Ready}"
    and "st \<in> {Blocked, ScopeUnresolved, Ready}"
    and "scope_of m (disp s') = (if m = me_machine ev then Some st else scope_of m (disp s))"
proof -
  obtain r cl ob rv db1 where r: "keyed m_id (me_machine ev) (machines (disp s)) = Some r" "mark_refusal (m_scope r) = None"
    and st: "st = marked_state (held_on (me_machine ev) (disp s)) (mark_missing ev r cl ob s)"
    and mv: "move_scope w (inst_epoch (disp s)) (me_machine ev) (m_scope r) st ''restoration-mark''
      (MarkDetail (me_observation ev) (me_release ev) (mark_missing ev r cl ob s) (me_deps ev) facts) at (disp s) = Inr (rv, db1)"
    and s': "s' = s\<lparr>disp := db1, scope_rels := scope_rels s @ []\<rparr>"
    using assms(1) by (elim mark_scope_written) fastforce
  show "within_epoch s s'" by (rule moved_within(1) [OF mv assms(2) s'])
  show "scope_of m (disp s') = (if m = me_machine ev then Some st else scope_of m (disp s))"
    by (rule moved_within(2) [OF mv assms(2) s'])
  show "\<exists>f. scope_of (me_machine ev) (disp s) = Some f \<and> f \<in> {Blocked, ScopeUnresolved, Ready}"
    using r by (auto simp: scope_of_def mark_refusal_def split: if_split_asm)
  show "st \<in> {Blocked, ScopeUnresolved, Ready}" by (simp add: st marked_state_def)
qed

lemma release_scope_effect:
  assumes "release_scope c w m facts at s = Inr s'" and "dispatch_inv (disp s)"
  shows "within_epoch s s'" and "scope_of m (disp s) = Some Ready" and "released_in m s'"
    and "scope_of n (disp s') = (if n = m then Some ScopeReleased else scope_of n (disp s))"
proof -
  obtain r mark rv db1 q where r: "keyed m_id m (machines (disp s)) = Some r" "m_scope r = Ready"
    and mv: "move_scope w (inst_epoch (disp s)) m (m_scope r) ScopeReleased ''release'' (ReleaseDetail mark facts) at (disp s) = Inr (rv, db1)"
    and s': "s' = s\<lparr>disp := db1, scope_rels := scope_rels s @ [q]\<rparr>" and q: "sr_machine q = m" "sr_epoch q = inst_epoch (disp s)"
    using assms(1) unfolding release_scope_def Let_def
    by (auto simp: and_then_ok found_ok split: if_split_asm option.split_asm)
  show "within_epoch s s'" by (rule moved_within(1) [OF mv assms(2) s'])
  show "scope_of n (disp s') = (if n = m then Some ScopeReleased else scope_of n (disp s))"
    by (rule moved_within(2) [OF mv assms(2) s'])
  show "scope_of m (disp s) = Some Ready" using r by (simp add: scope_of_def)
  show "released_in m s'" using q move_scope_sel(2) [OF mv] by (simp add: released_in_def s')
qed

lemma leave_recovery_effect:
  assumes "leave_recovery c w facts clk at s = Inr s'" and inv: "dispatch_inv (disp s)"
  shows "good (disp s) (disp s')" and "inst_epoch (disp s') = inst_epoch (disp s)" and "\<not> recovery_mode (disp s')"
    and "recovery_mode (disp s)" and "epochs s' = epochs s"
    and "\<forall>m. scope_of m (disp s) = None \<or> scope_of m (disp s) = Some ScopeReleased"
    and "scope_of m (disp s') = map_option (\<lambda>_. Normal) (scope_of m (disp s))"
    and "\<exists>x. exits s' = exits s @ [x] \<and> rx_epoch x = inst_epoch (disp s)"
proof -
  define db0 where "db0 = (disp s)\<lparr>recovery_mode := False\<rparr>"
  obtain db1 x where rm: "recovery_mode (disp s)" and all: "list_all (\<lambda>r. m_scope r = ScopeReleased) (machines (disp s))"
    and l: "each_row (reopen_on_exit w (inst_epoch (disp s)) clk) (sort_key m_id (machines (disp s))) db0 = Inr db1"
    and s': "s' = s\<lparr>disp := db1, exits := exits s @ [x]\<rparr>" and x: "rx_epoch x = inst_epoch (disp s)"
    using assms(1) unfolding leave_recovery_def Let_def db0_def by (auto simp: and_then_ok split: if_split_asm)
  have g0: "good (disp s) db0" using inv by (intro good_hidden) (simp_all add: db0_def core_frame_def)
  have sc: "scope_of m db0 = scope_of m (disp s)" for m by (simp add: scope_of_def db0_def)
  have "moved_to Normal (sort_key m_id (machines (disp s))) db0"
    using good_inv [OF g0] by (auto simp: moved_to_def sc scope_of_None)
  then have c: "moved_to Normal [] db1" "scope_good db0 db1" using reopen_loop.loop [OF l] by auto
  show g: "good (disp s) (disp s')" using g0 c(2) s' by (auto simp: scope_good_def intro: good_trans)
  show "inst_epoch (disp s') = inst_epoch (disp s)" "\<not> recovery_mode (disp s')" "epochs s' = epochs s"
    using c(2) by (simp_all add: s' scope_good_def db0_def)
  show "\<forall>m. scope_of m (disp s) = None \<or> scope_of m (disp s) = Some ScopeReleased"
  proof
    fix m show "scope_of m (disp s) = None \<or> scope_of m (disp s) = Some ScopeReleased"
      using all by (cases "keyed m_id m (machines (disp s))") (auto simp: scope_of_def list_all_iff dest: keyed_Some)
  qed
  show "scope_of m (disp s') = map_option (\<lambda>_. Normal) (scope_of m (disp s))"
    using moved_all [OF c(1)] good_ids [OF g] s' by simp
  show "recovery_mode (disp s)" by (rule rm)
  show "\<exists>x. exits s' = exits s @ [x] \<and> rx_epoch x = inst_epoch (disp s)" using x by (simp add: s')
qed

section \<open>Acts on one operation, and the inventory\<close>

lemma answer_conflict_ok: "answer_conflict r = Inr x \<longleftrightarrow> r = Inr x"
  by (cases r) (auto simp: answer_conflict_def)

lemma good_request_takeover: "request_takeover c w op g reason clk db = Inr (t, db') \<Longrightarrow> dispatch_inv db \<Longrightarrow> good db db'"
  by (auto simp: request_takeover_def and_then_ok answer_conflict_ok intro: good_take_over)

lemma good_decide_accounting:
  "decide_accounting c w op att start fin facts at db = Inr (rv, db') \<Longrightarrow> dispatch_inv db \<Longrightarrow> good db db'"
  by (auto simp: decide_accounting_def and_then_ok answer_conflict_ok split: option.split_asm if_split_asm
      intro: good_account_by_decision)

lemma resolve_by_decision_written:
  assumes "resolve_by_decision c w op reason at db = Inr (rv, db')"
  obtains x e where "lock_operation c op db = Inr x" "o_state x = Unresolved" "attempts_of op db = []"
    and "append_entry (o_machine x) (inst_epoch db) e at (update_op op (\<lambda>y. y\<lparr>o_state := Cancelled\<rparr>) db) = Inr (rv, db')"
  using assms unfolding resolve_by_decision_def lock_recovery_act_def
  by (auto simp: and_then_ok split: if_split_asm)

lemma good_resolve_by_decision:
  assumes "resolve_by_decision c w op reason at db = Inr (rv, db')" and "dispatch_inv db"
  shows "good db db'"
proof -
  obtain x e where x: "lock_operation c op db = Inr x" "o_state x = Unresolved" "attempts_of op db = []"
    and en: "append_entry (o_machine x) (inst_epoch db) e at (update_op op (\<lambda>y. y\<lparr>o_state := Cancelled\<rparr>) db) = Inr (rv, db')"
    using assms(1) by (rule resolve_by_decision_written)
  have ow: "operation_of op db = Some x" "o_kind x = ApplyConfig" and id: "o_id x = op" using owned_kind [OF x(1)] by auto
  have st: "state_ok (attempts db) (accountings db) (x\<lparr>o_state := Cancelled\<rparr>)"
    using x(3) id by (simp add: state_ok_def attempts_of_def of_op_def)
  obtain r where r: "keyed m_id (o_machine x) (machines db) = Some r"
      "db' = entered (o_machine x) (inst_epoch db) e at (m_rev r + 1) (update_op op (\<lambda>y. y\<lparr>o_state := Cancelled\<rparr>) db)"
    using en by (auto simp: append_entry_ok)
  have "op_transition (o_state x) Cancelled" using x(2) by (simp add: op_transition_def)
  then show ?thesis unfolding r(2)
    by (rule good_move [OF assms(2) ow _ st r(1), where a = o_result and b = o_error]) simp
qed

lemma inventory_effect:
  assumes "inventory_machine new cl sm nd en db = Inr db'" and inv: "dispatch_inv db"
  shows "dispatch_inv db'" and "evolves db db'" and "timeline db' = timeline db" and "inst_epoch db' = inst_epoch db"
    and "recovery_mode db' = recovery_mode db" and "scope_of new db = None"
    and "scope_of m db' = (if m = new then Some (if recovery_mode db then PreRestoreUnaccounted else Normal) else scope_of m db)"
proof -
  define r where "r = \<lparr>m_id = new, m_cluster = cl, m_smbios = sm, m_node = nd, m_frozen = False,
      m_scope = (if recovery_mode db then PreRestoreUnaccounted else Normal), m_rev = 0, m_endpoint = en\<rparr>"
  define n where "n = \<lparr>ms_machine = new, ms_revision = 1, ms_desired = None, ms_applied = None, ms_digest = None,
      ms_source = None, ms_baseline = None\<rparr>"
  have r: "m_id r = new" "m_scope r = (if recovery_mode db then PreRestoreUnaccounted else Normal)" by (simp_all add: r_def)
  have new: "new \<notin> m_id ` set (machines db)" and db': "db' = db\<lparr>machines := machines db @ [r], mstates := mstates db @ [n]\<rparr>"
    using assms(1) unfolding inventory_machine_def r_def n_def by (auto split: if_split_asm)
  have "tl_ok (machines db) (timeline db)" using inv by (simp add: dispatch_inv_def)
  then have "tl_ok (machines db @ [r]) (timeline db)" using new r(1) by (auto simp: tl_ok_def)
  then show "dispatch_inv db'" using inv by (simp add: db' dispatch_inv_def core_ok_def)
  show "evolves db db'" by (rule evolves_frame) (simp add: db')
  show "timeline db' = timeline db" "inst_epoch db' = inst_epoch db" "recovery_mode db' = recovery_mode db" by (simp_all add: db')
  show none: "scope_of new db = None" using new by (simp add: scope_of_None)
  show "scope_of m db' = (if m = new then Some (if recovery_mode db then PreRestoreUnaccounted else Normal) else scope_of m db)"
  proof (cases "m = new")
    case True
    then show ?thesis using none r by (simp add: db' scope_of_def keyed_append keyed_Cons)
  next
    case False
    then show ?thesis using r(1) by (simp add: db' scope_of_def keyed_append keyed_Cons keyed_def [of _ _ "[]"] sql_row_def split: option.split)
  qed
qed

section \<open>The life of a scope\<close>

inductive scope_step :: "scope_state option \<Rightarrow> scope_state option \<Rightarrow> bool" where
  inventoried: "st \<in> {Normal, PreRestoreUnaccounted} \<Longrightarrow> scope_step None (Some st)"
| entered: "scope_step (Some st) (Some PreRestoreUnaccounted)"
| accounted: "st \<in> {Blocked, ScopeUnresolved} \<Longrightarrow> scope_step (Some PreRestoreUnaccounted) (Some st)"
| marked: "st \<in> {Blocked, ScopeUnresolved, Ready} \<Longrightarrow> st' \<in> {Blocked, ScopeUnresolved, Ready} \<Longrightarrow> scope_step (Some st) (Some st')"
| released: "scope_step (Some Ready) (Some ScopeReleased)"
| left: "scope_step (Some ScopeReleased) (Some Normal)"

definition scope_evidence :: "string \<Rightarrow> recovery_db \<Rightarrow> bool" where
  "scope_evidence m s \<longleftrightarrow> (case scope_of m (disp s) of
     None \<Rightarrow> True
   | Some st \<Rightarrow> (st = Normal \<longleftrightarrow> \<not> recovery_mode (disp s)) \<and>
       (st \<in> {Blocked, ScopeUnresolved, Ready, ScopeReleased} \<longrightarrow> accounted_in m s) \<and>
       (st = ScopeReleased \<longrightarrow> released_in m s))"

text \<open>An epoch is left at most once, and recovery mode is of an epoch not left.\<close>

definition exits_ok :: "recovery_db \<Rightarrow> bool" where
  "exits_ok s \<longleftrightarrow> rx_epoch ` set (exits s) \<subseteq> ep_id ` set (epochs s) \<and>
     (recovery_mode (disp s) \<longrightarrow> inst_epoch (disp s) \<notin> rx_epoch ` set (exits s))"

definition recovery_inv :: "recovery_db \<Rightarrow> bool" where
  "recovery_inv s \<longleftrightarrow> dispatch_inv (disp s) \<and> inst_epoch (disp s) \<in> ep_id ` set (epochs s) \<and> exits_ok s \<and>
     (\<forall>m. scope_evidence m s)"

text \<open>What a step does: it keeps the invariant, lets every operation and every scope evolve, and only
  adds epochs, a new current one never being an old one.\<close>

definition recovery_effect :: "recovery_db \<Rightarrow> recovery_db \<Rightarrow> bool" where
  "recovery_effect s s' \<longleftrightarrow> recovery_inv s' \<and> evolves (disp s) (disp s') \<and>
     (\<exists>es. timeline (disp s') = timeline (disp s) @ es) \<and>
     (\<forall>m. scope_of m (disp s') = scope_of m (disp s) \<or> scope_step (scope_of m (disp s)) (scope_of m (disp s'))) \<and>
     ep_id ` set (epochs s) \<subseteq> ep_id ` set (epochs s') \<and>
     (inst_epoch (disp s') = inst_epoch (disp s) \<or> inst_epoch (disp s') \<notin> ep_id ` set (epochs s))"

lemma good_parts: "good db db' \<Longrightarrow> dispatch_inv db' \<and> evolves db db' \<and> (\<exists>es. timeline db' = timeline db @ es)"
  by (auto simp: good_def tl_ext_def)

text \<open>Acts within the epoch whose new scope states have their evidence.\<close>

lemma effect_within:
  assumes "recovery_inv s" and w: "within_epoch s s'"
    and st: "\<And>m. scope_of m (disp s') = scope_of m (disp s) \<or>
      scope_step (scope_of m (disp s)) (scope_of m (disp s')) \<and> scope_evidence m s'"
  shows "recovery_effect s s'"
proof -
  have "scope_evidence m s'" for m
  proof (cases "scope_of m (disp s') = scope_of m (disp s)")
    case True
    have "scope_evidence m s" using assms(1) by (simp add: recovery_inv_def)
    then show ?thesis using True w within_epoch_kept [OF w, of m]
      by (auto simp: scope_evidence_def within_epoch_def split: option.splits)
  qed (use st in blast)
  moreover have "dispatch_inv (disp s') \<and> evolves (disp s) (disp s') \<and> (\<exists>es. timeline (disp s') = timeline (disp s) @ es)"
    using w by (intro good_parts) (simp add: within_epoch_def)
  moreover have "exits_ok s'" using assms(1) w by (simp add: recovery_inv_def exits_ok_def within_epoch_def)
  ultimately show ?thesis using assms(1) w st unfolding recovery_effect_def recovery_inv_def within_epoch_def by auto
qed

lemma disp_within:
  assumes "good (disp s) db'" and "inst_epoch db' = inst_epoch (disp s)" and "recovery_mode db' = recovery_mode (disp s)"
  shows "within_epoch s (s\<lparr>disp := db'\<rparr>)"
  using assms by (simp add: within_epoch_def)

section \<open>Every step\<close>

definition scope_frame :: "dispatch_db \<Rightarrow> dispatch_db \<Rightarrow> bool" where
  "scope_frame db db' \<longleftrightarrow> (\<forall>m. scope_of m db' = scope_of m db) \<and> inst_epoch db' = inst_epoch db \<and> recovery_mode db' = recovery_mode db"

lemma scope_frame_append: "append_entry m ep e at db = Inr (rv, db') \<Longrightarrow> scope_frame db db'"
  by (auto simp: append_entry_ok scope_frame_def)

lemma scope_frame_update: "append_entry m ep e at (update_op op f db) = Inr (rv, db') \<Longrightarrow> scope_frame db db'"
  by (auto simp: append_entry_ok scope_frame_def)

lemma scope_frame_trans: "scope_frame a b \<Longrightarrow> scope_frame b c \<Longrightarrow> scope_frame a c"
  by (simp add: scope_frame_def)

lemma scope_frame_takeover: "request_takeover c w op g reason clk db = Inr (t, db') \<Longrightarrow> scope_frame db db'"
proof -
  assume "request_takeover c w op g reason clk db = Inr (t, db')"
  then have "take_over_tx c op g reason clk db = Inr (t, db')"
    by (auto simp: request_takeover_def and_then_ok answer_conflict_ok)
  then obtain m ep e f rv db1 at where "append_entry m ep e at (update_op op f db) = Inr (rv, db1)"
    and "db' = db1 \<or> (\<exists>m ep e rv. append_entry m ep e (clk 1) db1 = Inr (rv, db'))" by (rule take_over_written) blast
  then show ?thesis using scope_frame_update scope_frame_append scope_frame_trans by metis
qed

lemma scope_frame_decide: "decide_accounting c w op att start fin facts at db = Inr (rv, db') \<Longrightarrow> scope_frame db db'"
proof -
  assume "decide_accounting c w op att start fin facts at db = Inr (rv, db')"
  then have "account_by_decision c att (w_principal w) (w_act w) start fin facts at db = Inr (rv, db')"
    by (auto simp: decide_accounting_def and_then_ok answer_conflict_ok split: option.split_asm if_split_asm)
  then obtain m ep e db1 k where en: "append_entry m ep e at db = Inr (rv, db1)"
    and db': "db' = db1\<lparr>accountings := accountings db1 @ [k]\<rparr>"
    unfolding account_by_decision_def and_then_ok found_ok Let_def
    by (elim exE conjE) (auto simp: and_then_ok case_sum_ok split: if_splits)
  have "scope_frame db1 db'" by (simp add: db' scope_frame_def scope_of_def)
  with scope_frame_append [OF en] show ?thesis by (rule scope_frame_trans)
qed

lemma scope_frame_resolve: "resolve_by_decision c w op reason at db = Inr (rv, db') \<Longrightarrow> scope_frame db db'"
  by (erule resolve_by_decision_written) (rule scope_frame_update)

lemma effect_frame:
  assumes "recovery_inv s" "good (disp s) db'" "scope_frame (disp s) db'"
  shows "recovery_effect s (s\<lparr>disp := db'\<rparr>)"
  using assms by (intro effect_within disp_within) (simp_all add: scope_frame_def)

lemma effect_enter:
  assumes "enter_recovery c start w ep rq at clk s = Inr (b, s')" and "recovery_inv s"
  shows "recovery_effect s s'"
proof -
  have inv: "dispatch_inv (disp s)" using assms(2) by (simp add: recovery_inv_def)
  note e = enter_recovery_effect [OF assms(1) inv]
  have "scope_evidence m s'" for m using e(3,4) by (cases "scope_of m (disp s)") (simp_all add: scope_evidence_def)
  moreover have "inst_epoch (disp s') \<in> ep_id ` set (epochs s')" using e(2,6) by auto
  moreover have "ep_id ` set (epochs s) \<subseteq> ep_id ` set (epochs s')" using e(6) by auto
  moreover have "scope_of m (disp s') = scope_of m (disp s) \<or> scope_step (scope_of m (disp s)) (scope_of m (disp s'))" for m
    using e(4) [of m] by (cases "scope_of m (disp s)") (auto intro: scope_step.intros)
  moreover have "exits_ok s'" using assms(2) e(2,5,6,9) by (auto simp: recovery_inv_def exits_ok_def)
  ultimately show ?thesis using good_parts [OF e(1)] e(2,5) by (simp add: recovery_effect_def recovery_inv_def)
qed

lemma effect_leave:
  assumes "leave_recovery c w facts clk at s = Inr s'" and "recovery_inv s"
  shows "recovery_effect s s'"
proof -
  have inv: "dispatch_inv (disp s)" using assms(2) by (simp add: recovery_inv_def)
  note e = leave_recovery_effect [OF assms(1) inv]
  have "scope_evidence m s'" for m using e(3,7) by (cases "scope_of m (disp s)") (simp_all add: scope_evidence_def)
  moreover have "scope_of m (disp s') = scope_of m (disp s) \<or> scope_step (scope_of m (disp s)) (scope_of m (disp s'))" for m
    using spec [OF e(6), of m] e(7) [of m] by (auto intro: scope_step.left)
  moreover obtain x where "exits s' = exits s @ [x]" "rx_epoch x = inst_epoch (disp s)" using e(8) by blast
  then have "exits_ok s'" using assms(2) e(3,5) by (simp add: recovery_inv_def exits_ok_def)
  ultimately show ?thesis using good_parts [OF e(1)] e(2,5) assms(2) by (simp add: recovery_effect_def recovery_inv_def)
qed

lemma effect_account:
  assumes "account_scopes c w scopes given clk s = Inr s'" and inv: "recovery_inv s"
  shows "recovery_effect s s'"
proof (rule effect_within [OF inv])
  have e: "decided s s'" "recovery_mode (disp s)"
    using account_scopes_effect [OF assms(1)] inv by (simp_all add: recovery_inv_def)
  then show w: "within_epoch s s'" by (simp add: decided_def)
  then have rm: "recovery_mode (disp s')" using e(2) by (simp add: within_epoch_def)
  show "scope_of m (disp s') = scope_of m (disp s) \<or>
      scope_step (scope_of m (disp s)) (scope_of m (disp s')) \<and> scope_evidence m s'" for m
  proof (cases "scope_of m (disp s') = scope_of m (disp s)")
    case False
    then have "scope_of m (disp s) = Some PreRestoreUnaccounted" "accounted_in m s'"
        "scope_of m (disp s') = Some Blocked \<or> scope_of m (disp s') = Some ScopeUnresolved"
      using e(1) by (simp_all add: decided_def) metis+
    then show ?thesis using rm by (auto simp: scope_evidence_def intro: scope_step.accounted)
  qed simp
qed

lemma effect_mark:
  assumes "mark_scope c w ev facts at s = Inr (st, s')" and inv: "recovery_inv s"
  shows "recovery_effect s s'"
proof (rule effect_within [OF inv])
  have i: "dispatch_inv (disp s)" using inv by (simp add: recovery_inv_def)
  note e = mark_scope_effect [OF assms(1) i]
  then show w: "within_epoch s s'" by blast
  obtain f where f: "scope_of (me_machine ev) (disp s) = Some f" "f \<in> {Blocked, ScopeUnresolved, Ready}" using e(2) by blast
  have "scope_evidence (me_machine ev) s" using inv by (simp add: recovery_inv_def)
  then have "accounted_in (me_machine ev) s'" "recovery_mode (disp s')"
    using f w within_epoch_kept(1) [OF w] by (auto simp: scope_evidence_def within_epoch_def)
  then show "scope_of m (disp s') = scope_of m (disp s) \<or>
      scope_step (scope_of m (disp s)) (scope_of m (disp s')) \<and> scope_evidence m s'" for m
    using e(3,4) f by (cases "m = me_machine ev") (auto simp: scope_evidence_def intro: scope_step.marked)
qed

lemma effect_release:
  assumes "release_scope c w m facts at s = Inr s'" and inv: "recovery_inv s"
  shows "recovery_effect s s'"
proof (rule effect_within [OF inv])
  have i: "dispatch_inv (disp s)" using inv by (simp add: recovery_inv_def)
  note e = release_scope_effect [OF assms(1) i]
  then show w: "within_epoch s s'" by blast
  have "scope_evidence m s" using inv by (simp add: recovery_inv_def)
  then have "accounted_in m s'" "recovery_mode (disp s')"
    using e(2) w within_epoch_kept(1) [OF w] by (auto simp: scope_evidence_def within_epoch_def)
  then show "scope_of n (disp s') = scope_of n (disp s) \<or>
      scope_step (scope_of n (disp s)) (scope_of n (disp s')) \<and> scope_evidence n s'" for n
    using e(2,3,4) by (cases "n = m") (auto simp: scope_evidence_def intro: scope_step.released)
qed

lemma effect_work:
  assumes "dispatch_step (disp s) db'" "scopes_kept (disp s) db'" and inv: "recovery_inv s"
  shows "recovery_effect s (s\<lparr>disp := db'\<rparr>)"
proof (rule effect_frame [OF inv])
  show "good (disp s) db'" using good_step [OF assms(1)] inv by (simp add: recovery_inv_def)
  show "scope_frame (disp s) db'" using assms(2) scopes_kept_of [OF assms(2)] by (simp add: scope_frame_def scopes_kept_def)
qed

lemma effect_inventory:
  assumes "inventory_machine new cl sm nd en (disp s) = Inr db'" and inv: "recovery_inv s"
  shows "recovery_effect s (s\<lparr>disp := db'\<rparr>)"
proof -
  have i: "dispatch_inv (disp s)" using inv by (simp add: recovery_inv_def)
  note e = inventory_effect [OF assms(1) i]
  have "scope_evidence m (s\<lparr>disp := db'\<rparr>)" for m
  proof (cases "m = new")
    case True
    then show ?thesis using e(5,7) by (simp add: scope_evidence_def)
  next
    case False
    moreover have "scope_evidence m s" using inv by (simp add: recovery_inv_def)
    ultimately show ?thesis using e(4,5,7)
      by (cases "scope_of m (disp s)") (simp_all add: scope_evidence_def accounted_in_def released_in_def)
  qed
  moreover have "scope_of m db' = scope_of m (disp s) \<or> scope_step (scope_of m (disp s)) (scope_of m db')" for m
    using e(6,7) by (cases "m = new") (auto intro: scope_step.inventoried)
  moreover have "exits_ok (s\<lparr>disp := db'\<rparr>)" using inv e(4,5) by (simp add: recovery_inv_def exits_ok_def)
  ultimately show ?thesis using e(1,2,3,4) inv by (simp add: recovery_effect_def recovery_inv_def)
qed

lemma effect_job: "recovery_inv s \<Longrightarrow> recovery_effect s (s\<lparr>jobs := js, job_events := es\<rparr>)"
  by (rule effect_within) (simp_all add: within_epoch_def recovery_inv_def good_refl)

lemma recovery_step_effect: "recovery_step s s' \<Longrightarrow> recovery_inv s \<Longrightarrow> recovery_effect s s'"
proof (induction rule: recovery_step.induct)
  case (takeover c w op g reason clk s t db')
  then show ?case using good_request_takeover scope_frame_takeover by (intro effect_frame) (auto simp: recovery_inv_def)
next
  case (decide c w op att start fin facts at s rv db')
  then show ?case using good_decide_accounting scope_frame_decide by (intro effect_frame) (auto simp: recovery_inv_def)
next
  case (resolve c w op reason at s rv db')
  then show ?case using good_resolve_by_decision scope_frame_resolve by (intro effect_frame) (auto simp: recovery_inv_def)
qed (auto intro: effect_work effect_job effect_inventory effect_enter effect_account effect_mark effect_release effect_leave)

text \<open>An installation before anything was committed: its own epoch, every scope normal.\<close>

definition installed :: "recovery_db \<Rightarrow> bool" where
  "installed s \<longleftrightarrow> initial (disp s) \<and> inst_epoch (disp s) \<in> ep_id ` set (epochs s) \<and> \<not> recovery_mode (disp s) \<and>
     list_all (\<lambda>r. m_scope r = Normal) (machines (disp s)) \<and> exits s = []"

definition recovery_reachable :: "recovery_db \<Rightarrow> bool" where
  "recovery_reachable s \<longleftrightarrow> (\<exists>s0. installed s0 \<and> recovery_step\<^sup>*\<^sup>* s0 s)"

lemma installed_inv: "installed s \<Longrightarrow> recovery_inv s"
  by (auto simp: installed_def recovery_inv_def exits_ok_def scope_evidence_def scope_of_def list_all_iff
      intro: initial_inv dest: keyed_Some split: option.splits)

interpretation scope_life: forward_sim recovery_step recovery_inv scope_step "\<lambda>s. scope_of m (disp s)" for m
  by unfold_locales (auto dest!: recovery_step_effect simp: recovery_effect_def)

interpretation operation_in_recovery: forward_sim recovery_step recovery_inv op_life
  "\<lambda>s. map_option abs_op (operation_of op (disp s))" for op
proof unfold_locales
  show "recovery_inv t" if "recovery_inv s" "recovery_step s t" for s t
    using recovery_step_effect [OF that(2,1)] by (simp add: recovery_effect_def)
  show "map_option abs_op (operation_of op (disp t)) = map_option abs_op (operation_of op (disp s)) \<or>
      op_life (map_option abs_op (operation_of op (disp s))) (map_option abs_op (operation_of op (disp t)))"
    if "recovery_inv s" "recovery_step s t" for s t
    using recovery_step_effect [OF that(2,1)] by (intro evolves_life) (simp add: recovery_effect_def)
qed

lemma recovery_reachable_inv: "recovery_reachable s \<Longrightarrow> recovery_inv s"
  unfolding recovery_reachable_def using installed_inv scope_life.inv_run by blast

end
