(* ===== verification/Recovery_Example.thy ===== *)
theory Recovery_Example
  imports Recovery_System Dispatch_Example
begin

text \<open>
  A recovery evaluated: an installation with one machine is restored and entered; the recovery reads
  are taken, the scope accounted for, observed again, marked ready and released, and recovery mode is
  left. A second run enters with an operation in flight.
\<close>

definition rx_epoch1 :: recovery_epoch_row where
  "rx_epoch1 = \<lparr>ep_id = ''e1'', ep_at = 0, ep_by = None, ep_reason = None, ep_stopped = None\<rparr>"

definition rx_on :: "dispatch_db \<Rightarrow> recovery_db" where
  "rx_on db = \<lparr>disp = db, epochs = [rx_epoch1], restores = [], scope_accts = [], scope_rels = [], exits = [],
     jobs = [\<lparr>pj_id = ''j1'', pj_seq = 1, pj_draft = ''drf_a'', pj_draft_rev = 1, pj_by = ''bob'', pj_role = ''publisher'',
       pj_state = JobRunning, pj_gen = 1, pj_owner = Some ''c1'', pj_owner_epoch = Some ''e1'', pj_lease = Some 90,
       pj_last = 2, pj_result = None, pj_error = None\<rparr>], job_events = []\<rparr>"

definition rx_who :: "string \<Rightarrow> actor" where
  "rx_who act = \<lparr>w_principal = ''ann'', w_role = ''recovery-admin'', w_act = act\<rparr>"

definition rx_ctl :: controller where
  "rx_ctl = ex_ctl\<lparr>ctl_epoch := ''e2''\<rparr>"

definition rx_request :: entry_request where
  "rx_request = \<lparr>en_restored = [\<lparr>rb_family = ''database'', rb_backup = ''b1'', rb_taken = 5\<rparr>], en_stopped = 30, en_reason = ''restore''\<rparr>"

definition rx_for :: "purpose \<Rightarrow> observe_for" where
  "rx_for pu = \<lparr>of_purpose = pu, of_plan = None, of_operation = None, of_paced = False, of_generation = 0\<rparr>"

definition rx_start :: "purpose \<Rightarrow> int \<Rightarrow> recovery_db \<Rightarrow> recovery_db" where
  "rx_start pu t s = s\<lparr>disp := snd (projr (start_observation rx_ctl ''m1'' (rx_for pu) None t t (disp s)))\<rparr>"

definition rx_record :: "purpose \<Rightarrow> string \<Rightarrow> int \<Rightarrow> int \<Rightarrow> recovery_db \<Rightarrow> recovery_db" where
  "rx_record pu i basis t s = s\<lparr>disp := projr (record_observation rx_ctl ''m1'' (rx_for pu) None (ex_read i basis [1]) t t (disp s))\<rparr>"

definition rx_evidence :: mark_evidence where
  "rx_evidence = prepare_mark ''m1'' (Some ''r1'') (ex_read ''o3'' 7 [1])
     (check_dependencies (Inr (''p'', 1, ''t'')) (Some (''key'', 1)) ''key'' None)"

definition rx0 :: recovery_db where "rx0 = rx_on ex_db0"
definition rx1 :: recovery_db where
  "rx1 = snd (projr (enter_recovery ex_ctl ''e1'' (rx_who ''act1'') ''e2'' rx_request 40 (\<lambda>n. 41 + int n) rx0))"
definition rx2 :: recovery_db where "rx2 = rx_start Recovery 50 rx1"
definition rx3 :: recovery_db where "rx3 = rx_record Recovery ''o1'' 2 51 rx2"
definition rx4 :: recovery_db where "rx4 = rx_start Recovery 65 rx3"
definition rx5 :: recovery_db where "rx5 = rx_record Recovery ''o2'' 4 66 rx4"
definition rx6 :: recovery_db where
  "rx6 = projr (account_scopes rx_ctl (rx_who ''act2'') [\<lparr>ss_machine = ''m1'', ss_start = ''o1'', ss_end = ''o2''\<rparr>] []
     (\<lambda>n. 70 + int n) rx5)"
definition rx7 :: recovery_db where "rx7 = rx_start Restoration 80 rx6"
definition rx8 :: recovery_db where "rx8 = rx_record Restoration ''o3'' 7 81 rx7"
definition rx9 :: recovery_db where "rx9 = snd (projr (mark_scope rx_ctl (rx_who ''act3'') rx_evidence [] 82 rx8))"
definition rx10 :: recovery_db where "rx10 = projr (release_scope rx_ctl (rx_who ''act4'') ''m1'' [] 83 rx9)"
definition rx11 :: recovery_db where "rx11 = projr (leave_recovery rx_ctl (rx_who ''act5'') [] (\<lambda>n. 84 + int n) 99 rx10)"

definition rx_flight :: recovery_db where
  "rx_flight = snd (projr (enter_recovery ex_ctl ''e1'' (rx_who ''act1'') ''e2'' rx_request 40 (\<lambda>n. 41 + int n) (rx_on ex_db5)))"

lemma rx_scopes:
  "map (\<lambda>s. scope_of ''m1'' (disp s)) [rx0, rx1, rx5, rx6, rx8, rx9, rx10, rx11] =
     [Some Normal, Some PreRestoreUnaccounted, Some PreRestoreUnaccounted, Some Blocked, Some Blocked, Some Ready, Some ScopeReleased, Some Normal]"
  by code_simp

section \<open>The states are reachable\<close>

lemma rx_start_step:
  assumes "\<not> isl (start_observation rx_ctl ''m1'' (rx_for pu) None t t (disp s))" and "scopes_kept (disp s) (disp (rx_start pu t s))"
  shows "recovery_step s (rx_start pu t s)"
  using recovery_step.work [OF dispatch_step.start_observation [OF Inr_projr_pair [OF assms(1)]]] assms(2) by (simp add: rx_start_def)

lemma rx_record_step:
  assumes "\<not> isl (record_observation rx_ctl ''m1'' (rx_for pu) None (ex_read i b [1]) t t (disp s))"
    and "scopes_kept (disp s) (disp (rx_record pu i b t s))"
  shows "recovery_step s (rx_record pu i b t s)"
  using recovery_step.work [OF dispatch_step.record_observation [OF Inr_projr [OF assms(1)]]] assms(2) by (simp add: rx_record_def)

lemma rx_step1: "recovery_step rx0 rx1"
  unfolding rx1_def by (rule recovery_step.enter [OF Inr_projr_pair]) code_simp

lemma rx_step2: "recovery_step rx1 rx2" unfolding rx2_def by (rule rx_start_step) code_simp+
lemma rx_step3: "recovery_step rx2 rx3" unfolding rx3_def by (rule rx_record_step) code_simp+
lemma rx_step4: "recovery_step rx3 rx4" unfolding rx4_def by (rule rx_start_step) code_simp+
lemma rx_step5: "recovery_step rx4 rx5" unfolding rx5_def by (rule rx_record_step) code_simp+

lemma rx_step6: "recovery_step rx5 rx6"
  unfolding rx6_def by (rule recovery_step.account [OF Inr_projr]) code_simp

lemma rx_step7: "recovery_step rx6 rx7" unfolding rx7_def by (rule rx_start_step) code_simp+
lemma rx_step8: "recovery_step rx7 rx8" unfolding rx8_def by (rule rx_record_step) code_simp+

lemma rx_step9: "recovery_step rx8 rx9"
  unfolding rx9_def by (rule recovery_step.mark [OF Inr_projr_pair]) code_simp

lemma rx_step10: "recovery_step rx9 rx10"
  unfolding rx10_def by (rule recovery_step.release [OF Inr_projr]) code_simp

lemma rx_step11: "recovery_step rx10 rx11"
  unfolding rx11_def by (rule recovery_step.leave [OF Inr_projr]) code_simp

lemma rx_on_work: "dispatch_step db db' \<Longrightarrow> scopes_kept db db' \<Longrightarrow> recovery_step (rx_on db) (rx_on db')"
  using recovery_step.work [of "rx_on db" db'] by (simp add: rx_on_def)

lemma rx_flight_steps:
  "recovery_step (rx_on ex_db0) (rx_on ex_db1)" "recovery_step (rx_on ex_db1) (rx_on ex_db2)"
  "recovery_step (rx_on ex_db2) (rx_on ex_db3)" "recovery_step (rx_on ex_db3) (rx_on ex_db4)"
  "recovery_step (rx_on ex_db4) (rx_on ex_db5)" "recovery_step (rx_on ex_db5) rx_flight"
proof -
  show "recovery_step (rx_on ex_db0) (rx_on ex_db1)" by (rule rx_on_work [OF ex_step_db1]) code_simp
  show "recovery_step (rx_on ex_db1) (rx_on ex_db2)" by (rule rx_on_work [OF ex_step_db2]) code_simp
  show "recovery_step (rx_on ex_db2) (rx_on ex_db3)" by (rule rx_on_work [OF ex_step_db3]) code_simp
  show "recovery_step (rx_on ex_db3) (rx_on ex_db4)" by (rule rx_on_work [OF ex_step_db4]) code_simp
  show "recovery_step (rx_on ex_db4) (rx_on ex_db5)" by (rule rx_on_work [OF ex_step_db5]) code_simp
  show "recovery_step (rx_on ex_db5) rx_flight"
    unfolding rx_flight_def by (rule recovery_step.enter [OF Inr_projr_pair]) code_simp
qed

lemma rx_installed: "installed rx0"
  using ex_initial by (simp add: installed_def rx0_def rx_on_def rx_epoch1_def) (simp add: ex_db0_def)

lemma recovery_reachable_step: "recovery_reachable s \<Longrightarrow> recovery_step s s' \<Longrightarrow> recovery_reachable s'"
  unfolding recovery_reachable_def by (metis rtranclp.rtrancl_into_rtrancl)

lemma rx_reachable:
  "recovery_reachable rx0" "recovery_reachable rx5" "recovery_reachable rx8" "recovery_reachable rx9" "recovery_reachable rx10"
proof -
  show 0: "recovery_reachable rx0" using rx_installed unfolding recovery_reachable_def by blast
  note 1 = recovery_reachable_step [OF recovery_reachable_step [OF recovery_reachable_step [OF 0 rx_step1] rx_step2] rx_step3]
  show 5: "recovery_reachable rx5" by (rule recovery_reachable_step [OF recovery_reachable_step [OF 1 rx_step4] rx_step5])
  show 8: "recovery_reachable rx8"
    by (rule recovery_reachable_step [OF recovery_reachable_step [OF recovery_reachable_step [OF 5 rx_step6] rx_step7] rx_step8])
  show 9: "recovery_reachable rx9" by (rule recovery_reachable_step [OF 8 rx_step9])
  show "recovery_reachable rx10" by (rule recovery_reachable_step [OF 9 rx_step10])
qed

lemma rx_flight_reachable: "recovery_reachable (rx_on ex_db3)" "recovery_reachable (rx_on ex_db5)" "recovery_reachable rx_flight"
proof -
  have "recovery_reachable (rx_on ex_db0)" using rx_reachable(1) by (simp add: rx0_def)
  note 2 = recovery_reachable_step [OF recovery_reachable_step [OF this rx_flight_steps(1)] rx_flight_steps(2)]
  show 3: "recovery_reachable (rx_on ex_db3)" by (rule recovery_reachable_step [OF 2 rx_flight_steps(3)])
  show 5: "recovery_reachable (rx_on ex_db5)"
    by (rule recovery_reachable_step [OF recovery_reachable_step [OF 3 rx_flight_steps(4)] rx_flight_steps(5)])
  show "recovery_reachable rx_flight" by (rule recovery_reachable_step [OF 5 rx_flight_steps(6)])
qed

end
