(* ===== verification/Recovery_Props.thy ===== *)
theory Recovery_Props
  imports Recovery_Example
begin

text \<open>
  What recovery mode promises: the scopes' life, the gate it closes, the fence of earlier epochs, what
  the entry, the mark and the exit do.
\<close>

section \<open>The life of scopes and operations\<close>



section \<open>The gate\<close>

lemma commit_gate:
  assumes "commit_tx c plan new at db = Inr (cm, db')"
  obtains p r where "keyed p_id plan (plans db) = Some p" "keyed m_id (p_machine p) (machines db) = Some r"
    "inst_epoch db = ctl_epoch c"
    "scope_gate (m_frozen r) (open_drift (p_machine p) db) (p_drift p) (m_scope r) (recovery_mode db) = None"
proof -
  obtain p r ms s ap ob where p: "keyed p_id plan (plans db) = Some p" "keyed m_id (p_machine p) (machines db) = Some r"
      "inst_epoch db = ctl_epoch c" and c: "commit_compare6 p r db = None"
    using assms unfolding commit_tx_def commit_compare_def
    by (auto simp: and_then_ok found_ok refuse_if_ok split: if_split_asm option.split_asm)
  have "scope_gate (m_frozen r) (open_drift (p_machine p) db) (p_drift p) (m_scope r) (recovery_mode db) = None"
    using c by (simp add: commit_compare6_def split: option.splits)
  with p show ?thesis by (rule that)
qed

lemma attempt_gate:
  assumes "record_attempt_tx c op g new at db = Inr (t, db')"
  obtains x p r where "operation_of op db = Some x" "keyed p_id (o_plan x) (plans db) = Some p"
    "keyed m_id (p_machine p) (machines db) = Some r" "inst_epoch db = ctl_epoch c"
    "scope_gate (m_frozen r) (open_drift (p_machine p) db) (p_drift p) (m_scope r) (recovery_mode db) = None"
proof -
  obtain x p r where p: "operation_of op db = Some x" "keyed p_id (o_plan x) (plans db) = Some p"
      "keyed m_id (p_machine p) (machines db) = Some r" "inst_epoch db = ctl_epoch c" and c: "attempt_compare6 p r db = None"
    using assms unfolding record_attempt_tx_def attempt_compare_def
    by (auto simp: and_then_ok found_ok refuse_if_ok split: if_split_asm)
  have "scope_gate (m_frozen r) (open_drift (p_machine p) db) (p_drift p) (m_scope r) (recovery_mode db) = None"
    using c by (simp add: attempt_compare6_def split: option.splits)
  with p show ?thesis by (rule that)
qed

text \<open>A scope whose gate is open: released with its evidence in this epoch, or normal outside recovery mode.\<close>

definition scope_open :: "string \<Rightarrow> recovery_db \<Rightarrow> bool" where
  "scope_open m s \<longleftrightarrow> (if recovery_mode (disp s)
     then scope_of m (disp s) = Some ScopeReleased \<and> accounted_in m s \<and> released_in m s
     else scope_of m (disp s) = Some Normal)"

lemma gate_open:
  assumes "recovery_inv s" and "keyed m_id m (machines (disp s)) = Some r"
    and "scope_gate (m_frozen r) od bound (m_scope r) (recovery_mode (disp s)) = None"
  shows "scope_open m s"
proof -
  have "scope_evidence m s" using assms(1) by (simp add: recovery_inv_def)
  then show ?thesis using assms(2,3)
    by (auto simp: scope_open_def scope_evidence_def scope_of_def scope_gate_def split: if_split_asm)
qed

text \<open>C12. The gate: in recovery mode nothing is committed and nothing is sent on a machine unless its scope
  was accounted for and released in the current epoch; outside it, only on a normal scope.\<close>

theorem recovery_gate_holds:
  assumes "recovery_reachable s"
  shows "(commit_tx c plan new at (disp s) = Inr (cm, db') \<longrightarrow>
      (\<exists>p. keyed p_id plan (plans (disp s)) = Some p \<and> scope_open (p_machine p) s)) \<and>
    (record_attempt_tx c op g att at (disp s) = Inr (t, db'') \<longrightarrow>
      (\<exists>x p. operation_of op (disp s) = Some x \<and> keyed p_id (o_plan x) (plans (disp s)) = Some p \<and> scope_open (p_machine p) s))"
proof (intro conjI impI)
  have inv: "recovery_inv s" using assms by (rule recovery_reachable_inv)
  show "\<exists>p. keyed p_id plan (plans (disp s)) = Some p \<and> scope_open (p_machine p) s"
    if "commit_tx c plan new at (disp s) = Inr (cm, db')"
    using that by (rule commit_gate) (use gate_open [OF inv] in blast)
  show "\<exists>x p. operation_of op (disp s) = Some x \<and> keyed p_id (o_plan x) (plans (disp s)) = Some p \<and> scope_open (p_machine p) s"
    if "record_attempt_tx c op g att at (disp s) = Inr (t, db'')"
    using that by (rule attempt_gate) (use gate_open [OF inv] in blast)
qed

theorem recovery_gate_holds_witness: "scope_open ''m1'' (rx_on ex_db3)"
proof -
  have "\<not> isl (commit_tx ex_ctl ''p1'' ''op1'' 20 (disp (rx_on ex_db3)))" by code_simp
  from Inr_projr_pair [OF this] obtain p :: plan_row where p: "keyed p_id ''p1'' (plans (disp (rx_on ex_db3))) = Some p"
      "scope_open (p_machine p) (rx_on ex_db3)"
    using recovery_gate_holds [OF rx_flight_reachable(1)] by blast
  have "map_option p_machine (keyed p_id ''p1'' (plans (disp (rx_on ex_db3)))) = Some ''m1''" by code_simp
  with p show ?thesis by simp
qed

section \<open>The fence of earlier epochs\<close>

lemma epochs_run:
  assumes "recovery_step\<^sup>*\<^sup>* s s'" and "recovery_inv s" and "old \<subseteq> ep_id ` set (epochs s)" and "inst_epoch (disp s) \<notin> old"
  shows "old \<subseteq> ep_id ` set (epochs s') \<and> inst_epoch (disp s') \<notin> old"
  using assms(1)
proof (induction rule: rtranclp_induct)
  case (step t u)
  have "recovery_inv t" using scope_life.inv_run [OF step.hyps(1) assms(2)] .
  then have "recovery_effect t u" using recovery_step_effect [OF step.hyps(2)] by blast
  with step.IH show ?case by (auto simp: recovery_effect_def)
qed (use assms in blast)

lemma lock_epoch: "lock_operation c op db = Inr x \<Longrightarrow> inst_epoch db = ctl_epoch c"
  by (simp add: lock_operation_def split: if_split_asm)

lemma epoch_needed:
  "\<not> isl (commit_tx c plan new at db) \<Longrightarrow> inst_epoch db = ctl_epoch c"
  "\<not> isl (record_attempt_tx c op g att at db) \<Longrightarrow> inst_epoch db = ctl_epoch c"
  "\<not> isl (take_over_tx c op g reason clk db) \<Longrightarrow> inst_epoch db = ctl_epoch c"
  "\<not> isl (settle_operation c op g obs clk db) \<Longrightarrow> inst_epoch db = ctl_epoch c"
  "\<not> isl (start_observation c m f pub t at db) \<Longrightarrow> inst_epoch db = ctl_epoch c"
  "\<not> isl (record_observation c m f pub ob at at' db) \<Longrightarrow> inst_epoch db = ctl_epoch c"
proof -
  show "inst_epoch db = ctl_epoch c" if "\<not> isl (commit_tx c plan new at db)"
    using Inr_projr_pair [OF that] by (rule commit_gate)
  show "inst_epoch db = ctl_epoch c" if "\<not> isl (record_attempt_tx c op g att at db)"
    using Inr_projr_pair [OF that] by (rule attempt_gate)
  show "inst_epoch db = ctl_epoch c" if "\<not> isl (take_over_tx c op g reason clk db)"
    using Inr_projr_pair [OF that] by (rule take_over_written) (rule lock_epoch)
  show "inst_epoch db = ctl_epoch c" if "\<not> isl (settle_operation c op g obs clk db)"
    using that lock_epoch [of c op db] by (cases "lock_operation c op db") (auto simp: settle_operation_def split: if_split_asm)
qed (auto simp: start_observation_def record_observation_def split: if_split_asm)

lemma entry_epoch_gone:
  assumes "recovery_reachable s" and "enter_recovery c start w ep rq at clk s = Inr (b, s1)" and "recovery_step\<^sup>*\<^sup>* s1 s2"
    and "ctl_epoch old \<in> ep_id ` set (epochs s)"
  shows "inst_epoch (disp s2) \<noteq> ctl_epoch old"
proof -
  have inv: "recovery_inv s" using assms(1) by (rule recovery_reachable_inv)
  then have i: "dispatch_inv (disp s)" by (simp add: recovery_inv_def)
  note e = enter_recovery_effect [OF assms(2) i]
  have inv1: "recovery_inv s1" using effect_enter [OF assms(2) inv] by (simp add: recovery_effect_def)
  have "ep_id ` set (epochs s) \<subseteq> ep_id ` set (epochs s1)" using e(6) by auto
  moreover have "inst_epoch (disp s1) \<notin> ep_id ` set (epochs s)" using e(2,5) by simp
  ultimately have "inst_epoch (disp s2) \<notin> ep_id ` set (epochs s)" using epochs_run [OF assms(3) inv1] by blast
  then show ?thesis using assms(4) by auto
qed

text \<open>Fencing: once an entry has minted an epoch, in every later state no process of an epoch that was
  recorded before it commits, attempts, takes over, settles or observes, nor accounts for, marks or
  releases a scope, nor leaves recovery mode.\<close>

theorem entry_fences_earlier_epochs:
  assumes "recovery_reachable s" and "enter_recovery c start w ep rq at clk s = Inr (b, s1)" and "recovery_step\<^sup>*\<^sup>* s1 s2"
    and "ctl_epoch old \<in> ep_id ` set (epochs s)"
  shows "isl (commit_tx old plan new t (disp s2)) \<and> isl (record_attempt_tx old op g att t (disp s2)) \<and>
    isl (take_over_tx old op g reason clk' (disp s2)) \<and> isl (settle_operation old op g obs clk' (disp s2)) \<and>
    isl (start_observation old m f pub t t' (disp s2)) \<and> isl (record_observation old m f pub ob t t' (disp s2)) \<and>
    isl (account_scopes old w' scopes given clk' s2) \<and> isl (mark_scope old w' ev facts t s2) \<and>
    isl (release_scope old w' m facts t s2) \<and> isl (leave_recovery old w' facts clk' t s2)"
proof -
  have ne: "inst_epoch (disp s2) \<noteq> ctl_epoch old" by (rule entry_epoch_gone [OF assms])
  then have "isl (account_scopes old w' scopes given clk' s2)" "isl (mark_scope old w' ev facts t s2)"
      "isl (release_scope old w' m facts t s2)" "isl (leave_recovery old w' facts clk' t s2)"
    by (auto simp: account_scopes_def mark_scope_def release_scope_def leave_recovery_def Let_def)
  then show ?thesis using epoch_needed(1) [of old plan new t "disp s2"] epoch_needed(2) [of old op g att t "disp s2"]
      epoch_needed(3) [of old op g reason clk' "disp s2"] epoch_needed(4) [of old op g obs clk' "disp s2"]
      epoch_needed(5) [of old m f pub t t' "disp s2"] epoch_needed(6) [of old m f pub ob t t' "disp s2"] ne by blast
qed

theorem entry_fences_earlier_epochs_witness: "isl (commit_tx ex_ctl ''p2'' ''op2'' 50 (disp rx_flight))"
proof -
  have "\<not> isl (enter_recovery ex_ctl ''e1'' (rx_who ''act1'') ''e2'' rx_request 40 (\<lambda>n. 41 + int n) (rx_on ex_db5))" by code_simp
  note e = Inr_projr_pair [OF this]
  have "ctl_epoch ex_ctl \<in> ep_id ` set (epochs (rx_on ex_db5))" by (simp add: ex_ctl_def rx_on_def rx_epoch1_def)
  then show ?thesis
    using entry_fences_earlier_epochs [OF rx_flight_reachable(2) e rtranclp.rtrancl_refl, of ex_ctl] unfolding rx_flight_def by blast
qed

section \<open>What the entry, the mark and the exit do\<close>

lemma take_loop_rows:
  "each_row (take_on_entry c ep clk) xs db = Inr db' \<Longrightarrow> takeable xs db \<Longrightarrow>
   operation_of op db' = (if op \<in> o_id ` set xs then map_option (taken_by c ep) (operation_of op db) else operation_of op db)"
proof (induction xs arbitrary: db)
  case (Cons x xs)
  obtain db1 where f: "take_on_entry c ep clk x db = Inr db1" and r: "each_row (take_on_entry c ep clk) xs db1 = Inr db'"
    using Cons.prems(1) by (auto simp: and_then_ok)
  have x: "dispatch_inv db" "operation_of (o_id x) db = Some x" "o_kind x = ApplyConfig" "holding (o_state x)"
    and d: "o_id x \<notin> o_id ` set xs" using Cons.prems(2) by (simp_all add: takeable_def)
  have "takeable xs db1" using take_loop.row [OF Cons.prems(2) f] by blast
  note ih = Cons.IH [OF r this]
  show ?case using ih x(2) d by (simp add: take_on_entry_row(2) [OF f x])
qed simp

lemma fail_loop_jobs:
  "each_row (fail_on_entry ep clk) js s = Inr s' \<Longrightarrow> j \<in> set (jobs s') \<Longrightarrow> pj_state j \<noteq> JobFailed \<Longrightarrow>
   j \<in> set (jobs s) \<and> pj_id j \<notin> pj_id ` set js"
proof (induction js arbitrary: s)
  case (Cons x js)
  obtain s1 where f: "fail_on_entry ep clk x s = Inr s1" and r: "each_row (fail_on_entry ep clk) js s1 = Inr s'"
    using Cons.prems(1) by (auto simp: and_then_ok)
  have j: "j \<in> set (jobs s1)" "pj_id j \<notin> pj_id ` set js" using Cons.IH [OF r Cons.prems(2,3)] by auto
  then have "j \<in> set (jobs s) \<and> pj_id j \<noteq> pj_id x"
    using f Cons.prems(3) unfolding fail_on_entry_def Let_def
    by (auto split: if_split_asm elim!: in_sql_updateE)
  with j(2) show ?case by simp
qed simp

lemma enter_recovery_rows:
  assumes "enter_recovery c start w ep rq at clk s = Inr (b, s')" and inv: "dispatch_inv (disp s)"
  shows "operation_of op (disp s') = (if op \<in> o_id ` set (to_take (disp s))
      then map_option (taken_by c ep) (operation_of op (disp s)) else operation_of op (disp s))"
    and "j \<in> set (jobs s') \<Longrightarrow> pj_state j \<notin> {JobQueued, JobRunning}"
proof -
  define db1 where "db1 = (disp s)\<lparr>inst_epoch := ep, recovery_mode := True\<rparr>"
  define s1 where "s1 = s\<lparr>epochs := epochs s @ [\<lparr>ep_id = ep, ep_at = at, ep_by = Some (w_principal w),
                       ep_reason = Some (en_reason rq), ep_stopped = Some (en_stopped rq)\<rparr>],
                     restores := restores s @ map (Pair ep) (en_restored rq), disp := db1\<rparr>"
  obtain s2 db3 db4 where l: "each_row (fail_on_entry ep clk) (to_fail s) s1 = Inr s2"
      "each_row (take_on_entry c ep clk) (to_take (disp s)) (disp s2) = Inr db3"
      "each_row (close_on_entry w ep clk) (sort_key m_id (machines (disp s))) db3 = Inr db4"
    and s': "s' = s2\<lparr>disp := db4\<rparr>"
    using assms(1) unfolding enter_recovery_def Let_def db1_def s1_def
    by (auto simp: and_then_ok split: if_split_asm)
  have d2: "disp s2 = db1" using fail_loop.loop [OF l(1) TrueI] by (simp add: jobs_only_def s1_def)
  have g1: "good (disp s) db1" using inv by (intro good_hidden) (simp_all add: db1_def core_frame_def)
  then have t: "takeable (to_take (disp s)) db1" by (intro to_take_takeable [OF inv]) (simp_all add: db1_def good_inv)
  have ops: "operation_of op db1 = operation_of op (disp s)" by (simp add: operation_of_def db1_def)
  have "dispatch_inv db3" using take_loop.loop [OF l(2)] t by (simp add: d2 takeable_def)
  moreover have "scope_of m db3 = scope_of m (disp s)" for m
    using take_loop.loop [OF l(2)] t by (simp add: d2 quiet_good_def) (simp add: scope_of_def db1_def)
  ultimately have "moved_to PreRestoreUnaccounted (sort_key m_id (machines (disp s))) db3"
    by (auto simp: moved_to_def scope_of_None)
  then have "operations db4 = operations db3" using close_loop.loop [OF l(3)] by (simp add: scope_good_def)
  then have "operation_of op (disp s') = operation_of op db3" by (simp add: s' operation_of_def)
  then show "operation_of op (disp s') = (if op \<in> o_id ` set (to_take (disp s))
      then map_option (taken_by c ep) (operation_of op (disp s)) else operation_of op (disp s))"
    using take_loop_rows [OF l(2), of op] t by (simp add: d2 ops)
  show "pj_state j \<notin> {JobQueued, JobRunning}" if "j \<in> set (jobs s')"
  proof
    assume q: "pj_state j \<in> {JobQueued, JobRunning}"
    then have "j \<in> set (jobs s1) \<and> pj_id j \<notin> pj_id ` set (to_fail s)"
      using fail_loop_jobs [OF l(1), of j] that by (auto simp: s')
    then show False using q by (auto simp: to_fail_def s1_def)
  qed
qed



text \<open>A mark makes a scope ready exactly when nothing holds it and nothing is missing: its restoration
  observation read the identity, the one the machine binds, was begun after the scope's accounting in
  this epoch, and is followed by no commitment and no operation change; no later observation read
  another identity; the observation used the access that the check read; and no dependency failed.\<close>

theorem mark_is_ready_iff:
  assumes "mark_scope c w ev facts at s = Inr (st, s')"
  shows "\<exists>r cl ob. keyed m_id (me_machine ev) (machines (disp s)) = Some r \<and> keyed cl_id (m_cluster r) (clusters (disp s)) = Some cl \<and>
    sql_row (\<lambda>o'. ob_id o' = me_observation ev \<and> ob_machine o' = me_machine ev) (observations (disp s)) = Some ob \<and>
    (st = Ready \<longleftrightarrow> \<not> held_on (me_machine ev) (disp s) \<and> value_read ''identity'' ob \<and> identity_match ob r cl \<and>
      (\<exists>a. sql_row (\<lambda>x. sa_machine x = me_machine ev \<and> sa_epoch x = inst_epoch (disp s)) (scope_accts s) = Some a \<and>
         sa_revision a < ob_basis ob) \<and>
      (\<forall>e \<in> set (timeline (disp s)). ev_machine e = me_machine ev \<and> op_change (ev_entry e) \<longrightarrow> ev_revision e < ob_basis ob) \<and>
      (\<forall>o' \<in> set (observations (disp s)). ob_machine o' = me_machine ev \<and> ob_basis ob < ob_basis o' \<and> value_read ''identity'' o' \<longrightarrow>
         identity_match o' r cl) \<and>
      \<not> me_other ev \<and> me_missing ev = [])"
proof -
  obtain r cl ob where r: "keyed m_id (me_machine ev) (machines (disp s)) = Some r" "keyed cl_id (m_cluster r) (clusters (disp s)) = Some cl"
      "sql_row (\<lambda>o'. ob_id o' = me_observation ev \<and> ob_machine o' = me_machine ev) (observations (disp s)) = Some ob"
    and st: "st = marked_state (held_on (me_machine ev) (disp s)) (mark_missing ev r cl ob s)"
    using assms by (rule mark_scope_written)
  let ?after = "case sql_row (\<lambda>x. sa_machine x = me_machine ev \<and> sa_epoch x = inst_epoch (disp s)) (scope_accts s) of
      None \<Rightarrow> False | Some a \<Rightarrow> sa_revision a < ob_basis ob"
  have "st = Ready \<longleftrightarrow> \<not> held_on (me_machine ev) (disp s) \<and> mark_missing ev r cl ob s = []"
    by (simp add: st marked_state_def)
  moreover have "mark_missing ev r cl ob s = [] \<longleftrightarrow> value_read ''identity'' ob \<and> identity_match ob r cl \<and> ?after \<and>
      (\<forall>e \<in> set (timeline (disp s)). \<not> (ev_machine e = me_machine ev \<and> ob_basis ob \<le> ev_revision e \<and> op_change (ev_entry e))) \<and>
      \<not> (\<exists>o' \<in> set (observations (disp s)). ob_machine o' = me_machine ev \<and> ob_basis ob < ob_basis o' \<and>
         value_read ''identity'' o' \<and> \<not> identity_match o' r cl) \<and> \<not> me_other ev \<and> me_missing ev = []"
    unfolding mark_missing_def Let_def by (simp split: if_split) blast
  moreover have "?after \<longleftrightarrow> (\<exists>a. sql_row (\<lambda>x. sa_machine x = me_machine ev \<and> sa_epoch x = inst_epoch (disp s)) (scope_accts s) = Some a \<and>
      sa_revision a < ob_basis ob)" by (simp split: option.split)
  moreover have "(\<forall>e \<in> set (timeline (disp s)). \<not> (ev_machine e = me_machine ev \<and> ob_basis ob \<le> ev_revision e \<and> op_change (ev_entry e))) \<longleftrightarrow>
      (\<forall>e \<in> set (timeline (disp s)). ev_machine e = me_machine ev \<and> op_change (ev_entry e) \<longrightarrow> ev_revision e < ob_basis ob)"
    by (meson not_le)
  ultimately show ?thesis using r by blast
qed

theorem mark_is_ready_iff_witness: "\<not> held_on ''m1'' (disp rx8) \<and> me_missing rx_evidence = [] \<and> \<not> me_other rx_evidence"
proof -
  have "\<not> isl (mark_scope rx_ctl (rx_who ''act3'') rx_evidence [] 82 rx8)" by code_simp
  note m = Inr_projr_pair [OF this]
  have "fst (projr (mark_scope rx_ctl (rx_who ''act3'') rx_evidence [] 82 rx8)) = Ready" "me_machine rx_evidence = ''m1''" by code_simp+
  then show ?thesis using mark_is_ready_iff [OF m] by auto
qed

lemma reopen_total:
  "set (map m_id ms) \<subseteq> m_id ` set (machines db) \<Longrightarrow> \<exists>db'. each_row (reopen_on_exit w ep clk) ms db = Inr db'"
proof (induction ms arbitrary: db)
  case (Cons x ms)
  then obtain r where "keyed m_id (m_id x) (machines db) = Some r" by (cases "keyed m_id (m_id x) (machines db)") (auto simp: keyed_None)
  then obtain rv db1 where mv: "move_scope w ep (m_id x) ScopeReleased Normal ''exit'' NoDetail (clk (length (timeline db))) db = Inr (rv, db1)"
    by (auto simp: move_scope_ok)
  have "m_id ` set (machines db1) = m_id ` set (machines db)" using move_scope_sel(5) [OF mv] by (metis set_map)
  then obtain db' where "each_row (reopen_on_exit w ep clk) ms db1 = Inr db'" using Cons.IH [of db1] Cons.prems by auto
  moreover have "reopen_on_exit w ep clk x db = Inr db1" using mv by (simp add: reopen_on_exit_def)
  ultimately show ?case by simp
qed simp

text \<open>C35. Recovery mode can be left once, and only once, everything is released: for a process of the
  current epoch and an identity that is not revoked, the exit succeeds exactly when recovery mode is on and
  every machine's scope is released. It then turns the mode off and returns every scope to normal.\<close>

theorem exit_succeeds_iff_released:
  assumes "recovery_reachable s" and "inst_epoch (disp s) = ctl_epoch c" and "acting w (disp s) = Inr ()"
  shows "(\<not> isl (leave_recovery c w facts clk at s) \<longleftrightarrow>
      recovery_mode (disp s) \<and> list_all (\<lambda>r. m_scope r = ScopeReleased) (machines (disp s))) \<and>
    (\<forall>s'. leave_recovery c w facts clk at s = Inr s' \<longrightarrow> \<not> recovery_mode (disp s') \<and> inst_epoch (disp s') = inst_epoch (disp s) \<and>
      (\<forall>m. scope_of m (disp s') = map_option (\<lambda>_. Normal) (scope_of m (disp s))))"
proof -
  have inv: "recovery_inv s" using assms(1) by (rule recovery_reachable_inv)
  then have i: "dispatch_inv (disp s)" and ex: "recovery_mode (disp s) \<Longrightarrow> inst_epoch (disp s) \<notin> rx_epoch ` set (exits s)"
    by (simp_all add: recovery_inv_def exits_ok_def)
  obtain db' where "each_row (reopen_on_exit w (inst_epoch (disp s)) clk) (sort_key m_id (machines (disp s)))
      ((disp s)\<lparr>recovery_mode := False\<rparr>) = Inr db'"
    using reopen_total [of "sort_key m_id (machines (disp s))" "(disp s)\<lparr>recovery_mode := False\<rparr>" w "inst_epoch (disp s)" clk] by auto
  then have "\<not> isl (leave_recovery c w facts clk at s) \<longleftrightarrow>
      recovery_mode (disp s) \<and> list_all (\<lambda>r. m_scope r = ScopeReleased) (machines (disp s))"
    using assms(2,3) ex by (simp add: leave_recovery_def Let_def)
  then show ?thesis using leave_recovery_effect(2,3,7) [OF _ i] by auto
qed

theorem exit_succeeds_iff_released_witness:
  "\<not> isl (leave_recovery rx_ctl (rx_who ''act5'') [] (\<lambda>n. 84 + int n) 99 rx10)"
proof -
  have "inst_epoch (disp rx10) = ctl_epoch rx_ctl" "acting (rx_who ''act5'') (disp rx10) = Inr ()"
      "recovery_mode (disp rx10) \<and> list_all (\<lambda>r. m_scope r = ScopeReleased) (machines (disp rx10))" by code_simp+
  then show ?thesis using exit_succeeds_iff_released [OF rx_reachable(5)] by blast
qed

end
