(* ===== verification/Recovery_Staging.thy ===== *)
theory Recovery_Staging
  imports Staging_Claim
begin

text \<open>
  What the recovery entry does to the staging claims (\<^verbatim>\<open>internal/api/recovery_entries.go\<close>, steps 2 and 3
  of \<^verbatim>\<open>enterRecovery\<close>, and \<^verbatim>\<open>failOnEntry\<close>): the installation moves to the minted epoch, every live claim is
  abandoned with its payload cleared, and its running ingest operation fails. In every later state no
  owner statement on a claim of before the entry is taken.
\<close>

section \<open>The entry\<close>

definition ingests_to_fail :: "staging_db \<Rightarrow> op_row list" where
  "ingests_to_fail db = sort_key o_id (filter (\<lambda>x. o_state x = Running \<and>
     list_ex (\<lambda>r. live_state (c_state r) \<and> c_id r = o_ingestion x) (claims db)) (ops db))"

fun fail_ingests :: "string \<Rightarrow> (nat \<Rightarrow> int) \<Rightarrow> op_row list \<Rightarrow> staging_db \<Rightarrow> (staging_error, staging_db) res" where
  "fail_ingests ep clk [] db = Inr db"
| "fail_ingests ep clk (x # xs) db =
     (if list_ex (\<lambda>v. e_op v = o_id x \<and> e_number v = o_last x + 1) (events db) then Inl ErrSchema
      else fail_ingests ep clk xs
        (db\<lparr>ops := sql_update (\<lambda>y. o_id y = o_id x) failed_op (ops db),
            events := events db @ [\<lparr>e_op = o_id x, e_number = o_last x + 1, e_epoch = ep, e_entry = abandoned_entry,
              e_at = clk (length (events db))\<rparr>]\<rparr>))"

definition enter_staging :: "string \<Rightarrow> (nat \<Rightarrow> int) \<Rightarrow> staging_db \<Rightarrow> (staging_error, staging_db) res" where
  "enter_staging ep clk db =
     fail_ingests ep clk (ingests_to_fail db)
       (db\<lparr>epoch := ep, claims := sql_update (\<lambda>r. live_state (c_state r)) abandoned_row (claims db)\<rparr>)"

section \<open>No claim survives\<close>

lemma fail_ingests_claims: "fail_ingests ep clk xs db = Inr db' \<Longrightarrow> claims db' = claims db \<and> epoch db' = epoch db"
  by (induction xs arbitrary: db) (auto split: if_split_asm)

lemma enter_staging_claims:
  "enter_staging ep clk db = Inr db' \<Longrightarrow> claims db' = sql_update (\<lambda>r. live_state (c_state r)) abandoned_row (claims db) \<and> epoch db' = ep"
  unfolding enter_staging_def by (auto dest!: fail_ingests_claims)

lemma claim_check_abandoned: "claim_check r \<Longrightarrow> claim_check (abandoned_row r)"
  by (auto simp: claim_check_def abandoned_row_def)

lemma enter_staging_ids: "enter_staging ep clk db = Inr db' \<Longrightarrow> map c_id (claims db') = map c_id (claims db)"
  by (drule enter_staging_claims) (simp add: map_key_sql_update abandoned_row_def)

lemma enter_staging_ended:
  assumes "enter_staging ep clk db = Inr db'" and "r \<in> set (claims db')"
  shows "c_state r = Released \<or> c_state r = Abandoned"
proof -
  have "r \<in> set (sql_update (\<lambda>r. live_state (c_state r)) abandoned_row (claims db))"
    using assms(2) conjunct1 [OF enter_staging_claims [OF assms(1)]] by (simp only:)
  then show ?thesis
  proof (rule in_sql_updateE)
    fix q assume "r = abandoned_row q"
    then show ?thesis by (simp add: abandoned_row_def)
  next
    fix q assume "\<not> live_state (c_state q)" "r = q"
    then show ?thesis by (cases "c_state q") simp_all
  qed
qed

lemma enter_staging_inv:
  assumes "enter_staging ep clk db = Inr db'" and "staging_inv db"
  shows "staging_inv db'"
proof -
  let ?f = "\<lambda>r. live_state (c_state r)"
  have cl: "claims db' = sql_update ?f abandoned_row (claims db)" using enter_staging_claims [OF assms(1)] by blast
  have "map c_id (claims db') = map c_id (claims db)" by (rule enter_staging_ids [OF assms(1)])
  moreover have "list_all claim_check (claims db')"
    unfolding cl list_all_iff using assms(2) by (auto simp: staging_inv_def list_all_iff claim_check_abandoned elim!: in_sql_updateE)
  moreover have "\<not> same_live_key r q" if "r \<in> set (claims db')" for r q
    using enter_staging_ended [OF assms(1) that] by (auto simp: same_live_key_def)
  ultimately show ?thesis using assms(2) unfolding staging_inv_def live_keys_ok_def by auto
qed

lemma ended_row_run:
  assumes "staging_step\<^sup>*\<^sup>* db db'" and "staging_inv db" and "keyed c_id k (claims db) = Some r"
    and "c_state r = Released \<or> c_state r = Abandoned"
  shows "keyed c_id k (claims db') = Some r"
  using assms(1)
proof (induction rule: rtranclp_induct)
  case (step x y)
  then have "staging_inv x" using claim_sim.inv_run assms(2) by blast
  then show ?case using step assms(4) by (intro staging_step_ended [of x y]) auto
qed (rule assms(3))

lemma no_statement_after_entry:
  assumes "staging_inv db" and "enter_staging ep clk db = Inr db1" and "staging_step\<^sup>*\<^sup>* db1 db2"
    and "g_id c \<in> c_id ` set (claims db)" and "owner_statement w c t st"
  shows "\<exists>e. st db2 = Inl e"
proof (cases "st db2")
  case (Inr db3)
  have inv: "staging_inv db1" by (rule enter_staging_inv [OF assms(2,1)])
  then have inv2: "staging_inv db2" using claim_sim.inv_run assms(3) by blast
  have "c_id ` set (claims db1) = c_id ` set (claims db)"
    using arg_cong [OF enter_staging_ids [OF assms(2)], of set] by simp
  then obtain r where r: "keyed c_id (g_id c) (claims db1) = Some r"
    using assms(4) by (cases "keyed c_id (g_id c) (claims db1)") (auto simp: keyed_None)
  then have ended: "c_state r = Released \<or> c_state r = Abandoned" using enter_staging_ended [OF assms(2)] by (auto dest: keyed_Some)
  have "keyed c_id (g_id c) (claims db2) = Some r" by (rule ended_row_run [OF assms(3) inv r ended])
  moreover obtain q where "keyed c_id (g_id c) (claims db2) = Some q" "fence w c t (epoch db2) q"
    using owner_statement_needs_fence [OF assms(5) Inr staging_inv_distinct [OF inv2]] by blast
  ultimately have False using ended by (auto simp: fence_def)
  then show ?thesis ..
qed auto

end
