(* ===== verification/Executor.thy ===== *)
theory Executor
  imports Recovery
begin

text \<open>
  The executor of one controller (\<^verbatim>\<open>internal/api/executor.go\<close> and \<^verbatim>\<open>dispatch.go\<close>): the loop's passes, and
  the dispatch of a plan and the advance of an operation as the sequences of transactions they are.

  A procedure is a function of a \<open>world\<close>, which supplies what the process does not decide, and of a
  point of the run: the number of accesses to the database so far and its tables. At the \<open>n\<close>-th access
  the other processes have committed \<open>w_other n\<close> since the last one, the clock's readings are
  \<open>w_clk n\<close>, the identifier drawn is \<open>w_new n\<close>; the provider, the node and the sent request answer
  \<open>w_access n\<close>, \<open>w_decrypt n\<close>, \<open>w_node n\<close> and \<open>w_send n\<close>, the process's own clock reads \<open>w_now n\<close>, and
  \<open>w_lost n\<close> lists the tries to record a response whose reply is lost. A failed transaction changes nothing, but what
  the procedure committed before it stays. The end of the process's context and a lost connection
  outside \<^verbatim>\<open>respond\<close> are not modelled, nor is the log.
\<close>

section \<open>Procedures\<close>

record world =
  w_other :: "nat \<Rightarrow> dispatch_db \<Rightarrow> dispatch_db"
  w_clk :: "nat \<Rightarrow> nat \<Rightarrow> int"
  w_new :: "nat \<Rightarrow> string"
  w_access :: "nat \<Rightarrow> string \<Rightarrow> (string, access) res"
  w_decrypt :: "nat \<Rightarrow> string option"
  w_node :: "nat \<Rightarrow> node_answers option"
  w_send :: "nat \<Rightarrow> response"
  w_lost :: "nat \<Rightarrow> bool list"
  w_now :: "nat \<Rightarrow> int"
  w_key :: string

type_synonym point = "nat \<times> dispatch_db"
type_synonym 'a proc = "world \<Rightarrow> point \<Rightarrow> (api_error, 'a) res \<times> point"

definition ret :: "'a \<Rightarrow> 'a proc" where
  "ret x w s = (Inr x, s)"

definition fail :: "api_error \<Rightarrow> 'a proc" where
  "fail e w s = (Inl e, s)"

definition bnd :: "'a proc \<Rightarrow> ('a \<Rightarrow> 'b proc) \<Rightarrow> 'b proc" where
  "bnd p f w s = (case p w s of (Inl e, s') \<Rightarrow> (Inl e, s') | (Inr x, s') \<Rightarrow> f x w s')"

text \<open>A read, and a transaction.\<close>

definition look :: "(world \<Rightarrow> nat \<Rightarrow> dispatch_db \<Rightarrow> (api_error, 'a) res) \<Rightarrow> 'a proc" where
  "look f w s = (let db = w_other w (fst s) (snd s) in (f w (fst s) db, (Suc (fst s), db)))"

definition tx :: "(world \<Rightarrow> nat \<Rightarrow> dispatch_db \<Rightarrow> (api_error, 'a \<times> dispatch_db) res) \<Rightarrow> 'a proc" where
  "tx f w s = (let db = w_other w (fst s) (snd s) in
     case f w (fst s) db of
       Inl e \<Rightarrow> (Inl e, (Suc (fst s), db))
     | Inr (x, db') \<Rightarrow> (Inr x, (Suc (fst s), db')))"

text \<open>A procedure of \<^verbatim>\<open>commit.go\<close> and \<^verbatim>\<open>attempt.go\<close> that records its refusal in a second transaction.\<close>

definition tx2 :: "(world \<Rightarrow> nat \<Rightarrow> dispatch_db \<Rightarrow> (api_error, 'a) res \<times> dispatch_db) \<Rightarrow> 'a proc" where
  "tx2 f w s = (let db = w_other w (fst s) (snd s); (r, db') = f w (fst s) db in (r, (Suc (Suc (fst s)), db')))"

section \<open>What the loop reads\<close>

record dispatch_candidate =
  dc_plan :: string
  dc_machine :: string
  dc_cluster :: string

record held_operation =
  h_id :: string
  h_machine :: string
  h_cluster :: string
  h_plan :: string
  h_state :: ostate
  h_gen :: int
  h_sent :: bool
  h_unaccounted :: bool
  h_retry :: "access option"

definition current_epoch :: "controller \<Rightarrow> dispatch_db \<Rightarrow> (api_error, string) res" where
  "current_epoch c db = (if superseded c db then Inl ErrNotController else Inr (inst_epoch db))"

text \<open>\<^verbatim>\<open>ORDER BY created_at, id\<close>.\<close>

definition by_creation :: "operation_row list \<Rightarrow> operation_row list" where
  "by_creation xs = sort_key (\<lambda>x. (o_created x, o_id x)) xs"

definition foreign_operations :: "controller \<Rightarrow> dispatch_db \<Rightarrow> (api_error, (string \<times> int) list) res" where
  "foreign_operations c db =
     and_then (current_epoch c db) (\<lambda>_.
       Inr (map (\<lambda>x. (o_id x, o_gen x)) (by_creation (filter (\<lambda>x. o_kind x = ApplyConfig \<and> holding (o_state x) \<and>
         o_owner x \<noteq> Some (ctl_id c)) (operations db)))))"

text \<open>The access of the observation a retry rests on: the operation's latest classification is this
  token's safe-to-retry, within the plan's age, with nothing of the operation since.\<close>

definition retry_access :: "int \<Rightarrow> operation_row \<Rightarrow> plan_row \<Rightarrow> dispatch_db \<Rightarrow> access option" where
  "retry_access now x p db =
     (case latest_classification (o_id x) db of
        None \<Rightarrow> None
      | Some k \<Rightarrow>
          if k_outcome k = SafeToRetry \<and> o_owner x = Some (k_owner k) \<and> o_gen x = k_gen k \<and> o_owner_epoch x = Some (k_epoch k) \<and>
             later_entry (o_machine x) (o_id x) (k_revision k) db = None
          then Option.bind (Option.bind (k_observation k) (\<lambda>i. keyed ob_id i (observations db))) (\<lambda>ob.
            Option.bind (event_at (ob_machine ob) (ob_basis ob) db) (\<lambda>e.
              if now - ev_at e \<le> p_max_age p then ob_access ob else None))
          else None)"

definition held_of :: "int \<Rightarrow> dispatch_db \<Rightarrow> operation_row \<Rightarrow> held_operation option" where
  "held_of now db x = map_option (\<lambda>p.
     \<lparr>h_id = o_id x, h_machine = o_machine x, h_cluster = o_cluster x, h_plan = o_plan x, h_state = o_state x, h_gen = o_gen x,
      h_sent = (attempts_of (o_id x) db \<noteq> []),
      h_unaccounted = list_ex (\<lambda>a. \<not> accounted db (at_id a)) (attempts_of (o_id x) db),
      h_retry = retry_access now x p db\<rparr>) (keyed p_id (o_plan x) (plans db))"

definition held_operations :: "controller \<Rightarrow> int \<Rightarrow> dispatch_db \<Rightarrow> (api_error, held_operation list) res" where
  "held_operations c now db =
     and_then (current_epoch c db) (\<lambda>ep.
       Inr (List.map_filter (held_of now db) (by_creation (filter (\<lambda>x. o_kind x = ApplyConfig \<and>
         (o_state x = Committed \<or> o_state x = Verifying \<or> o_state x = Unresolved) \<and>
         o_owner x = Some (ctl_id c) \<and> o_owner_epoch x = Some ep) (operations db)))))"

definition candidate :: "int \<Rightarrow> dispatch_db \<Rightarrow> plan_row \<Rightarrow> bool" where
  "candidate now db p \<longleftrightarrow> p_kind p = ApplyConfig \<and> now < p_expires p \<and>
     (case (keyed s_plan (p_id p) (plan_states db), keyed m_id (p_machine p) (machines db)) of
        (Some s, Some m) \<Rightarrow>
          s_state s = Approved \<and>
          (case Option.bind (s_approval s) (\<lambda>a. keyed ap_id a (approvals db)) of
             None \<Rightarrow> False
           | Some ap \<Rightarrow>
               (case keyed pr_id (ap_approver ap) (principals db) of None \<Rightarrow> False | Some pr \<Rightarrow> \<not> pr_revoked pr) \<and>
               ap_epoch ap = inst_epoch db \<and> \<not> (\<exists>r \<in> set (approval_revocations db). ar_approval r = ap_id ap)) \<and>
          (m_scope m = Normal \<or> m_scope m = ScopeReleased) \<and> \<not> m_frozen m \<and>
          \<not> (recovery_mode db \<and> m_scope m \<noteq> ScopeReleased)
      | _ \<Rightarrow> False) \<and>
     \<not> (\<exists>x \<in> set (operations db). o_kind x = ApplyConfig \<and> holding (o_state x) \<and>
          (o_machine x = p_machine p \<or> o_cluster x = p_cluster p))"

text \<open>\<open>only\<close> is the one plan to read again, the empty string for every plan.\<close>

definition dispatch_candidates :: "controller \<Rightarrow> string \<Rightarrow> int \<Rightarrow> dispatch_db \<Rightarrow> (api_error, dispatch_candidate list) res" where
  "dispatch_candidates c only now db =
     and_then (current_epoch c db) (\<lambda>_.
       Inr (map (\<lambda>p. \<lparr>dc_plan = p_id p, dc_machine = p_machine p, dc_cluster = p_cluster p\<rparr>)
         (sort_key p_id (filter (\<lambda>p. candidate now db p \<and> (only = '''' \<or> p_id p = only)) (plans db)))))"

definition recovery_read_due :: "controller \<Rightarrow> string \<Rightarrow> int \<Rightarrow> dispatch_db \<Rightarrow> (api_error, bool) res" where
  "recovery_read_due c op now db =
     (case (max_of (map at_transport (attempts_of op db)), attempts_of op db) of
        (Some d, a # _) \<Rightarrow>
          Inr (d < now \<and> \<not> (\<exists>s \<in> set (obs_starts db). st_machine s = at_machine a \<and> st_purpose s = Recovery \<and>
            (case event_at (at_machine a) (st_revision s) db of
               None \<Rightarrow> False
             | Some e \<Rightarrow> d < ev_at e \<and>
                 now - settle_floor c < (case sql_row (\<lambda>ob. ob_machine ob = at_machine a \<and> ob_basis ob = st_revision s) (observations db) of
                   Some ob \<Rightarrow> ob_at ob | None \<Rightarrow> ev_at e))))
      | _ \<Rightarrow> Inl ErrNoRows)"

section \<open>The use-time check and an observation\<close>

definition record_use_time_check :: "controller \<Rightarrow> string \<Rightarrow> entry \<Rightarrow> int \<Rightarrow> dispatch_db \<Rightarrow> (api_error, unit \<times> dispatch_db) res" where
  "record_use_time_check c m e at db =
     (if superseded c db then Inl ErrNotController
      else and_then (append_entry m (inst_epoch db) e at db) (\<lambda>(_, db1). Inr ((), db1)))"

definition bound_artifact :: "string \<Rightarrow> dispatch_db \<Rightarrow> (api_error, string \<times> int) res" where
  "bound_artifact plan db =
     and_then (found ErrNoRows (keyed p_id plan (plans db))) (\<lambda>p.
     and_then (found ErrNoRows (sql_row (\<lambda>rm. rm_release rm = p_release p \<and> rm_machine rm = p_machine p) (release_machines db)))
       (\<lambda>rm. Inr (rm_key rm, rm_version rm)))"

definition passed_access :: "(string \<times> dep_result) list \<Rightarrow> access option" where
  "passed_access deps = (case map_of deps ''access'' of Some (AccessPassed v) \<Rightarrow> Some v | _ \<Rightarrow> None)"

text \<open>\<open>given\<close> is the access its caller read, \<open>began\<close> the time before that read.\<close>

definition use_time_check :: "controller \<Rightarrow> string \<Rightarrow> string \<Rightarrow> string \<Rightarrow> string option \<Rightarrow> access option \<Rightarrow> int option \<Rightarrow> access proc" where
  "use_time_check c m cluster plan op given began =
     bnd (case began of None \<Rightarrow> look (\<lambda>w n db. Inr (w_clk w n 0)) | Some t \<Rightarrow> ret t) (\<lambda>started.
     bnd (look (\<lambda>w n db. map_sum id (Pair n) (bound_artifact plan db))) (\<lambda>(n, art).
     bnd (\<lambda>w. ret (check_dependencies (case given of Some v \<Rightarrow> Inr v | None \<Rightarrow> w_access w n cluster) (Some art) (w_key w)
            (w_decrypt w n)) w) (\<lambda>deps.
     let passed = (failed_deps deps = []) in
     bnd (tx (\<lambda>w n. record_use_time_check c m (EUseTime plan (ctl_id c) passed (passed_access deps) started op) (w_clk w n 0)))
       (\<lambda>_. if passed then (case passed_access deps of Some v \<Rightarrow> ret v | None \<Rightarrow> fail ErrUseTime) else fail ErrUseTime))))"

text \<open>The start entry's transaction, the reads of the node, the observation's transaction.\<close>

definition take_observation :: "controller \<Rightarrow> string \<Rightarrow> observe_for \<Rightarrow> access option \<Rightarrow> observation_row proc" where
  "take_observation c m f given =
     (if ctl_id c = '''' then fail ErrNotController
      else bnd (tx (\<lambda>w n. start_observation c m f None (w_clk w n 0) (w_clk w n 1))) (\<lambda>(basis, _, cluster, head).
        bnd (\<lambda>w s. (Inr (observe (w_new w (fst s)) basis head
               (case given of Some v \<Rightarrow> Inr v | None \<Rightarrow> w_access w (fst s) cluster) (w_node w (fst s))), s)) (\<lambda>ob.
        bnd (tx (\<lambda>w n db. map_sum id (Pair ()) (record_observation c m f None ob (w_clk w n 0) (w_clk w n 1) db)))
          (\<lambda>_. ret ob))))"

section \<open>Sending\<close>

definition settle :: "controller \<Rightarrow> string \<Rightarrow> int \<Rightarrow> string \<Rightarrow> settlement proc" where
  "settle c op generation obs = tx (\<lambda>w n. settle_operation c op generation obs (w_clk w n))"

definition verify :: "controller \<Rightarrow> string \<Rightarrow> int \<Rightarrow> string \<Rightarrow> string \<Rightarrow> purpose \<Rightarrow> settlement proc" where
  "verify c op generation m plan purp =
     bnd (take_observation c m \<lparr>of_purpose = purp, of_plan = Some plan, of_operation = Some op, of_paced = False, of_generation = 0\<rparr> None)
       (\<lambda>ob. settle c op generation (ob_id ob))"

text \<open>The recording of a response, tried until its reply is not lost: each lost try committed or did not.
  A retry that finds the response recorded met a commit whose reply was lost.\<close>

fun respond_tries :: "controller \<Rightarrow> string \<Rightarrow> response \<Rightarrow> bool \<Rightarrow> bool list \<Rightarrow> ostate option proc" where
  "respond_tries c att resp again [] = (\<lambda>w s.
     case tx (\<lambda>w n. record_response c att resp (w_clk w n)) w s of
       (Inr rd, s') \<Rightarrow> (Inr (Some (rd_state rd)), s')
     | (Inl e, s') \<Rightarrow>
         if again \<and> e = OutcomeRefused ''response'' already_responded then (Inr None, s') else (Inl e, s'))"
| "respond_tries c att resp again (committed # ls) = (\<lambda>w s.
     if committed then respond_tries c att resp True ls w (snd (tx (\<lambda>w n. record_response c att resp (w_clk w n)) w s))
     else respond_tries c att resp True ls w (snd (look (\<lambda>w n db. Inr ()) w s)))"

definition respond :: "controller \<Rightarrow> string \<Rightarrow> string \<Rightarrow> int \<Rightarrow> string \<Rightarrow> string \<Rightarrow> response \<Rightarrow> unit proc" where
  "respond c att op generation m plan resp =
     bnd (\<lambda>w s. respond_tries c att resp False (w_lost w (fst s)) w s) (\<lambda>st.
       if st = Some Verifying then bnd (verify c op generation m plan Completion) (\<lambda>_. ret ()) else ret ())"

definition attempt_and_send :: "controller \<Rightarrow> string \<Rightarrow> int \<Rightarrow> string \<Rightarrow> string \<Rightarrow> unit proc" where
  "attempt_and_send c op generation m plan =
     bnd (tx2 (\<lambda>w n. record_attempt c op generation (w_new w n) (w_clk w n 0) (w_other w (Suc n))
            (w_clk w (Suc n) 0, w_clk w (Suc n) 1, w_clk w (Suc n) 2))) (\<lambda>a.
     bnd (\<lambda>w s. (Inr (w_send w (fst s)), s)) (\<lambda>resp.
       respond c (r_attempt a) op generation m plan resp))"

section \<open>Dispatch and advance\<close>

definition dispatch_plan :: "controller \<Rightarrow> dispatch_candidate \<Rightarrow> unit proc" where
  "dispatch_plan c d =
     bnd (look (\<lambda>w n. dispatch_candidates c (dc_plan d) (w_clk w n 0))) (\<lambda>now.
       if now = [] then ret ()
       else
         bnd (use_time_check c (dc_machine d) (dc_cluster d) (dc_plan d) None None None) (\<lambda>acc.
         bnd (take_observation c (dc_machine d) \<lparr>of_purpose = Evidence, of_plan = Some (dc_plan d), of_operation = None,
                of_paced = False, of_generation = 0\<rparr> (Some acc)) (\<lambda>_.
         bnd (tx2 (\<lambda>w n. commit_plan c (dc_plan d) (w_new w n) (w_clk w n 0) (w_other w (Suc n)) (w_clk w (Suc n) 0) (w_clk w (Suc n) 1)))
           (\<lambda>cm. attempt_and_send c (cm_operation cm) 1 (dc_machine d) (dc_plan d)))))"

text \<open>The three ways of an unresolved operation: a paced recovery read while an attempt is unaccounted
  for, the attempt its classification allows, or an observation to settle it on.\<close>

definition recovery_read :: "controller \<Rightarrow> held_operation \<Rightarrow> unit proc" where
  "recovery_read c h =
     bnd (look (\<lambda>w n. recovery_read_due c (h_id h) (w_clk w n 0))) (\<lambda>due.
       if \<not> due then ret ()
       else (\<lambda>w s. case take_observation c (h_machine h) \<lparr>of_purpose = Recovery, of_plan = Some (h_plan h), of_operation = Some (h_id h),
               of_paced = True, of_generation = 0\<rparr> None w s of
           (Inl ErrReadNotDue, s') \<Rightarrow> (Inr (), s')
         | (Inl e, s') \<Rightarrow> (Inl e, s')
         | (Inr _, s') \<Rightarrow> (Inr (), s')))"

definition check_and_attempt :: "controller \<Rightarrow> held_operation \<Rightarrow> access option \<Rightarrow> int option \<Rightarrow> access option \<Rightarrow> unit proc" where
  "check_and_attempt c h given began need =
     bnd (use_time_check c (h_machine h) (h_cluster h) (h_plan h) (Some (h_id h)) given began) (\<lambda>acc.
       if need \<noteq> None \<and> need \<noteq> Some acc then fail ErrAccessMoved
       else attempt_and_send c (h_id h) (h_gen h) (h_machine h) (h_plan h))"

definition advance_unresolved :: "controller \<Rightarrow> held_operation \<Rightarrow> unit proc" where
  "advance_unresolved c h =
     bnd (look (\<lambda>w n db. Inr (w_clk w n 0))) (\<lambda>began.
     bnd (\<lambda>w s. (Inr (w_access w (fst s) (h_cluster h)), s)) (\<lambda>acc.
     let given = (case acc of Inr v \<Rightarrow> Some v | Inl _ \<Rightarrow> None) in
     if h_retry h \<noteq> None \<and> (given = None \<or> given = h_retry h)
     then check_and_attempt c h given (Some began) (h_retry h)
     else
       bnd (take_observation c (h_machine h) \<lparr>of_purpose = (if h_sent h then Completion else Recovery), of_plan = Some (h_plan h),
              of_operation = Some (h_id h), of_paced = False, of_generation = 0\<rparr> given) (\<lambda>ob.
       bnd (settle c (h_id h) (h_gen h) (ob_id ob)) (\<lambda>r.
         if se_outcome r \<noteq> SettledRetry \<or> given = None then ret ()
         else check_and_attempt c h given (Some began) None))))"

definition advance :: "controller \<Rightarrow> held_operation \<Rightarrow> unit proc" where
  "advance c h =
     bnd (if \<not> h_sent h \<and> h_state h \<noteq> Verifying
          then tx2 (\<lambda>w n. cancel_unattempted c (h_machine h) (h_plan h) (h_id h) (h_gen h) (w_clk w n 0) (w_other w (Suc n))
                 (w_clk w (Suc n) 0, w_clk w (Suc n) 1, w_clk w (Suc n) 2))
          else ret False) (\<lambda>ended.
       if ended then ret ()
       else if h_state h = Committed then check_and_attempt c h None None None
       else if h_state h = Verifying then bnd (verify c (h_id h) (h_gen h) (h_machine h) (h_plan h) Completion) (\<lambda>_. ret ())
       else if h_unaccounted h then recovery_read c h
       else advance_unresolved c h)"

section \<open>The loop\<close>

text \<open>What the loop keeps between passes: whether the controller-start read is still owed, the operations
  read and not yet taken over, the retry times, and the plans a refusal ended. Its clock is the
  process's own.\<close>

record executor_state =
  xs_takeover :: bool
  xs_owed :: "(string \<times> int) list"
  xs_retry :: "string \<rightharpoonup> int"
  xs_ended :: "string list"

definition fresh_executor :: executor_state where
  "fresh_executor = \<lparr>xs_takeover = True, xs_owed = [], xs_retry = Map.empty, xs_ended = []\<rparr>"

definition waits :: "executor_state \<Rightarrow> string \<Rightarrow> int \<Rightarrow> bool" where
  "waits st key now \<longleftrightarrow> (case xs_retry st key of Some at \<Rightarrow> now < at | None \<Rightarrow> False)"

definition retry_after :: "int \<Rightarrow> string \<Rightarrow> executor_state \<Rightarrow> executor_state" where
  "retry_after at key st = st\<lparr>xs_retry := (xs_retry st)(key \<mapsto> at)\<rparr>"

definition forget_retry :: "string \<Rightarrow> executor_state \<Rightarrow> executor_state" where
  "forget_retry key st = st\<lparr>xs_retry := (xs_retry st)(key := None)\<rparr>"

text \<open>A refusal whose record failed carries that failure's error.\<close>

fun not_controller :: "api_error \<Rightarrow> bool" where
  "not_controller ErrNotController \<longleftrightarrow> True"
| "not_controller (Unrecorded e) \<longleftrightarrow> not_controller e"
| "not_controller _ \<longleftrightarrow> False"

text \<open>\<^verbatim>\<open>step\<close>: what an error does to the loop. It answers whether the loop goes on; \<open>at\<close> is a lease
  from now.\<close>

definition pass_step :: "int \<Rightarrow> string \<Rightarrow> api_error option \<Rightarrow> executor_state \<Rightarrow> bool \<times> executor_state" where
  "pass_step at key err st =
     (case err of
        None \<Rightarrow> (True, st)
      | Some e \<Rightarrow>
          if not_controller e then (False, st)
          else if e = ErrAlreadyCommitted then (True, st)
          else (case e of
                  CommitRefused n cause obs drift \<Rightarrow>
                    if n \<in> {1, 2, 3} then (True, st\<lparr>xs_ended := key # xs_ended st\<rparr>) else (True, retry_after at key st)
                | _ \<Rightarrow> (True, retry_after at key st)))"

definition error_of :: "(api_error, 'a) res \<Rightarrow> api_error option" where
  "error_of r = (case r of Inl e \<Rightarrow> Some e | Inr _ \<Rightarrow> None)"

type_synonym pass = "world \<Rightarrow> executor_state \<Rightarrow> point \<Rightarrow> bool \<times> executor_state \<times> point"

definition after_step :: "int \<Rightarrow> string \<Rightarrow> (api_error, 'a) res \<Rightarrow> world \<Rightarrow> executor_state \<Rightarrow> point \<Rightarrow> bool \<times> executor_state \<times> point" where
  "after_step lease key r w st s =
     (let (go, st') = pass_step (w_now w (fst s) + lease) key (error_of r) st in (go, st', s))"

text \<open>The takeovers owed: a refused one another process took over first, or it ended; one that failed
  short of a refusal is kept, with the generation read.\<close>

definition outcome_refused :: "(api_error, 'a) res \<Rightarrow> bool" where
  "outcome_refused r \<longleftrightarrow> (case r of Inl (OutcomeRefused _ _) \<Rightarrow> True | _ \<Rightarrow> False)"

fun takeover_pass :: "controller \<Rightarrow> int \<Rightarrow> (string \<times> int) list \<Rightarrow> (string \<times> int) list \<Rightarrow> pass" where
  "takeover_pass c lease kept [] = (\<lambda>w st s. (True, st\<lparr>xs_owed := kept\<rparr>, s))"
| "takeover_pass c lease kept ((op, generation) # ops) = (\<lambda>w st s.
     if waits st op (w_now w (fst s)) then takeover_pass c lease (kept @ [(op, generation)]) ops w st s
     else
       let (r, s1) = tx (\<lambda>w n. take_over_tx c op generation ''controller-start'' (w_clk w n)) w s in
       if outcome_refused r then takeover_pass c lease kept ops w (forget_retry op st) s1
       else
         let (go, st2, s2) = after_step lease op r w (forget_retry op st) s1 in
         if go then takeover_pass c lease (if error_of r = None then kept else kept @ [(op, generation)]) ops w st2 s2
         else (False, st2, s2))"

text \<open>The work of a list, each item unless it is skipped or its key waits.\<close>

fun work_pass :: "(executor_state \<Rightarrow> 'a \<Rightarrow> bool) \<Rightarrow> ('a \<Rightarrow> string) \<Rightarrow> ('a \<Rightarrow> unit proc) \<Rightarrow> int \<Rightarrow> 'a list \<Rightarrow> pass" where
  "work_pass skip key work lease [] = (\<lambda>w st s. (True, st, s))"
| "work_pass skip key work lease (x # xs) = (\<lambda>w st s.
     if skip st x \<or> waits st (key x) (w_now w (fst s)) then work_pass skip key work lease xs w st s
     else
       let (r, s1) = work x w s; (go, st1, s2) = after_step lease (key x) r w (forget_retry (key x) st) s1 in
       if go then work_pass skip key work lease xs w st1 s2 else (False, st1, s2))"

definition advance_pass :: "controller \<Rightarrow> int \<Rightarrow> held_operation list \<Rightarrow> pass" where
  "advance_pass c lease = work_pass (\<lambda>_ _. False) h_id (advance c) lease"

definition dispatch_pass :: "controller \<Rightarrow> int \<Rightarrow> dispatch_candidate list \<Rightarrow> pass" where
  "dispatch_pass c lease = work_pass (\<lambda>st d. dc_plan d \<in> set (xs_ended st)) dc_plan (dispatch_plan c) lease"

text \<open>\<open>then_pass\<close> goes on with the second part unless the first ended the loop; \<open>with_list\<close> reads a list
  and works on it, a failed read ending the pass.\<close>

definition then_pass :: "pass \<Rightarrow> pass \<Rightarrow> pass" where
  "then_pass p q w st s = (case p w st s of (False, st1, s1) \<Rightarrow> (False, st1, s1) | (True, st1, s1) \<Rightarrow> q w st1 s1)"

definition with_list :: "int \<Rightarrow> string \<Rightarrow> 'a list proc \<Rightarrow> ('a list \<Rightarrow> pass) \<Rightarrow> pass \<Rightarrow> pass" where
  "with_list lease name rd work rest w st s =
     (case rd w s of
        (Inl e, s1) \<Rightarrow> after_step lease name (Inl e :: (api_error, unit) res) w st s1
      | (Inr xs, s1) \<Rightarrow> then_pass (work xs) rest w st s1)"

text \<open>What is no longer a candidate keeps no time.\<close>

definition drop_past :: pass where
  "drop_past w st s = (True, st\<lparr>xs_retry := (\<lambda>k. case xs_retry st k of
     Some at \<Rightarrow> if w_now w (fst s) < at then Some at else None | None \<Rightarrow> None)\<rparr>, s)"

definition owed_pass :: "controller \<Rightarrow> int \<Rightarrow> pass" where
  "owed_pass c lease w st s = takeover_pass c lease [] (xs_owed st) w st s"

definition work_lists :: "controller \<Rightarrow> int \<Rightarrow> pass" where
  "work_lists c lease =
     then_pass (owed_pass c lease)
      (with_list lease ''operations'' (look (\<lambda>w n. held_operations c (w_clk w n 0))) (advance_pass c lease)
      (with_list lease ''candidates'' (look (\<lambda>w n. dispatch_candidates c '''' (w_clk w n 0))) (dispatch_pass c lease)
       drop_past))"

definition executor_pass :: "controller \<Rightarrow> int \<Rightarrow> pass" where
  "executor_pass c lease w st s =
     (if xs_takeover st
      then with_list lease ''takeover'' (look (\<lambda>w n. foreign_operations c))
        (\<lambda>ops w st s. (True, st\<lparr>xs_takeover := False, xs_owed := ops\<rparr>, s)) (work_lists c lease) w st s
      else work_lists c lease w st s)"

text \<open>The passes of a process whose context ends at the \<open>k\<close>-th wait for a wake or a heartbeat.\<close>

fun executor_loop :: "controller \<Rightarrow> int \<Rightarrow> nat \<Rightarrow> pass" where
  "executor_loop c lease 0 = executor_pass c lease"
| "executor_loop c lease (Suc k) = then_pass (executor_pass c lease) (executor_loop c lease k)"

end
