(* ===== verification/Executor_Run.thy ===== *)
theory Executor_Run
  imports Executor Dispatch_Props Dispatch_Guards
begin

text \<open>
  The executor's procedures as runs of the dispatch: whatever a procedure, a pass or the whole loop
  commits is a sequence of the transactions of \<open>Dispatch_System\<close>, interleaved with what the other
  processes commit. So every property of the dispatch's runs holds of the executor.
\<close>

named_theorems runs_intros \<open>what composes procedures that are runs\<close>

section \<open>Worlds and runs\<close>

definition world_ok :: "world \<Rightarrow> bool" where
  "world_ok w \<longleftrightarrow> (\<forall>n db. dispatch_inv db \<longrightarrow> dispatch_step\<^sup>*\<^sup>* db (w_other w n db))"

definition applies :: "dispatch_db \<Rightarrow> string \<Rightarrow> bool" where
  "applies db op \<longleftrightarrow> (\<exists>x. operation_of op db = Some x \<and> o_kind x = ApplyConfig)"

text \<open>A run from a point, the operations of \<open>K\<close> being known there.\<close>

definition ready_at :: "world \<Rightarrow> string set \<Rightarrow> point \<Rightarrow> bool" where
  "ready_at w K s \<longleftrightarrow> world_ok w \<and> dispatch_inv (snd s) \<and> (\<forall>op \<in> K. applies (snd s) op)"

definition runs_to :: "point \<Rightarrow> point \<Rightarrow> bool" where
  "runs_to s s' \<longleftrightarrow> dispatch_step\<^sup>*\<^sup>* (snd s) (snd s')"

definition runs :: "string set \<Rightarrow> 'a proc \<Rightarrow> bool" where
  "runs K p \<longleftrightarrow> (\<forall>w s. ready_at w K s \<longrightarrow> runs_to s (snd (p w s)))"

lemma applies_run:
  assumes "dispatch_inv db" "dispatch_step\<^sup>*\<^sup>* db db'" "applies db op"
  shows "applies db' op"
proof -
  obtain x where x: "operation_of op db = Some x" "o_kind x = ApplyConfig" using assms(3) by (auto simp: applies_def)
  then obtain y where "operation_of op db' = Some y" "row_evolves x y"
    using good_run [OF assms(2,1)] unfolding good_def evolves_def by blast
  then show ?thesis using x by (auto simp: applies_def row_evolves_def op_binding_def)
qed

lemma run_inv: "dispatch_inv db \<Longrightarrow> dispatch_step\<^sup>*\<^sup>* db db' \<Longrightarrow> dispatch_inv db'"
  using good_run good_inv by blast

lemma ready_runs_to: "ready_at w K s \<Longrightarrow> runs_to s s' \<Longrightarrow> ready_at w K s'"
  unfolding ready_at_def runs_to_def using applies_run run_inv by blast

lemma runs_to_refl: "runs_to s s"
  by (simp add: runs_to_def)

lemma runs_to_trans: "runs_to s s' \<Longrightarrow> runs_to s' s'' \<Longrightarrow> runs_to s s''"
  unfolding runs_to_def by (rule rtranclp_trans)

lemma ready_other: "ready_at w K s \<Longrightarrow> dispatch_step\<^sup>*\<^sup>* (snd s) (w_other w n (snd s))"
  by (simp add: ready_at_def world_ok_def)

lemma ready_other': "ready_at w K s \<Longrightarrow> ready_at w K (n', w_other w n (snd s))"
  using ready_runs_to [of w K s] ready_other [of w K s n] by (auto simp: runs_to_def)

lemma ready_subset: "ready_at w K s \<Longrightarrow> L \<subseteq> K \<Longrightarrow> ready_at w L s"
  by (auto simp: ready_at_def)

section \<open>Composition\<close>

lemma runsI: "(\<And>w s. ready_at w K s \<Longrightarrow> runs_to s (snd (p w s))) \<Longrightarrow> runs K p"
  by (simp add: runs_def)

lemma runsD: "runs K p \<Longrightarrow> ready_at w K s \<Longrightarrow> p w s = (r, s') \<Longrightarrow> runs_to s s' \<and> ready_at w K s'"
  unfolding runs_def by (metis ready_runs_to snd_conv)

lemma runs_ret [runs_intros]: "runs K (ret x)"
  by (rule runsI) (simp add: ret_def runs_to_refl)

lemma runs_fail [runs_intros]: "runs K (fail e)"
  by (rule runsI) (simp add: fail_def runs_to_refl)

lemma runs_pure [runs_intros]: "runs K (\<lambda>w s. (f w s, s))"
  by (rule runsI) (simp add: runs_to_refl)

lemma runs_world [runs_intros]: "runs K (\<lambda>w. ret (f w) w)"
  by (rule runsI) (simp add: ret_def runs_to_refl)

lemma runs_bnd [runs_intros]:
  assumes "runs K p" and "\<And>x. runs K (f x)"
  shows "runs K (bnd p f)"
proof (rule runsI)
  fix w s assume rd: "ready_at w K s"
  obtain r s' where p: "p w s = (r, s')" by (cases "p w s")
  have s': "runs_to s s'" "ready_at w K s'" using runsD [OF assms(1) rd p] by simp_all
  show "runs_to s (snd (bnd p f w s))"
  proof (cases r)
    case (Inr x)
    have "runs_to s' (snd (f x w s'))" using assms(2) [of x] s'(2) unfolding runs_def by blast
    then show ?thesis using s'(1) by (simp add: bnd_def p Inr runs_to_trans)
  qed (use s' in \<open>simp add: bnd_def p\<close>)
qed

lemma runs_look [runs_intros]: "runs K (look f)"
  by (rule runsI) (use ready_other in \<open>force simp: look_def runs_to_def Let_def\<close>)

lemma runs_if [runs_intros]: "runs K p \<Longrightarrow> runs K q \<Longrightarrow> runs K (if b then p else q)"
  by simp

lemma runs_case_option [runs_intros]:
  "runs K p \<Longrightarrow> (\<And>x. runs K (q x)) \<Longrightarrow> runs K (case o' of None \<Rightarrow> p | Some x \<Rightarrow> q x)"
  by (cases o') auto

lemma runs_tx [runs_intros]:
  assumes "\<And>w n db x db'. f w n db = Inr (x, db') \<Longrightarrow> dispatch_step db db'"
  shows "runs K (tx f)"
proof (rule runsI)
  fix w s assume rd: "ready_at w K s"
  let ?db = "w_other w (fst s) (snd s)"
  have o: "dispatch_step\<^sup>*\<^sup>* (snd s) ?db" using rd by (rule ready_other)
  show "runs_to s (snd (tx f w s))"
    using o assms [of w "fst s" ?db] by (auto simp: tx_def runs_to_def Let_def split: sum.split intro: rtranclp.rtrancl_into_rtrancl)
qed

lemma runs_tx2:
  assumes "\<And>w n db. ready_at w K (n, db) \<Longrightarrow> dispatch_step\<^sup>*\<^sup>* db (snd (f w n db))"
  shows "runs K (tx2 f)"
proof (rule runsI)
  fix w s assume rd: "ready_at w K s"
  let ?db = "w_other w (fst s) (snd s)"
  have "dispatch_step\<^sup>*\<^sup>* ?db (snd (f w (fst s) ?db))" using ready_other' [OF rd] by (rule assms)
  with ready_other [OF rd, of "fst s"] show "runs_to s (snd (tx2 f w s))"
    by (auto simp: tx2_def runs_to_def Let_def split: prod.split intro: rtranclp_trans)
qed

section \<open>The procedures\<close>

lemma runs_use_time [runs_intros]: "runs K (use_time_check c m cluster plan op given began)"
proof -
  have "dispatch_step db db'" if "record_use_time_check c m (EUseTime a b d e f g) at db = Inr (x, db')" for a b d e f g at db x db'
    using that by (auto simp: record_use_time_check_def and_then_ok split: if_split_asm
        intro: dispatch_step.env_entry [of m _ "EUseTime a b d e f g"])
  then show ?thesis unfolding use_time_check_def Let_def
    by (auto intro!: runs_intros)
qed

lemma runs_take_observation [runs_intros]: "runs K (take_observation c m f given)"
  unfolding take_observation_def
  by (auto intro!: runs_intros intro: dispatch_step.intros simp: map_sum_def split: sum.splits)

lemma runs_settle [runs_intros]: "runs K (settle c op generation obs)"
  unfolding settle_def by (rule runs_tx) (rule dispatch_step.settle)

lemma runs_verify [runs_intros]: "runs K (verify c op generation m plan purp)"
  unfolding verify_def by (intro runs_intros)

lemma runs_then:
  assumes "runs K p" "runs K q" "ready_at w K s"
  shows "runs_to s (snd (q w (snd (p w s))))"
  using runsD [OF assms(1,3), of "fst (p w s)" "snd (p w s)"] assms(2) runs_to_trans unfolding runs_def by fastforce

lemma runs_respond_tries [runs_intros]: "runs K (respond_tries c att resp again ls)"
proof (induction ls arbitrary: again)
  case Nil
  have t: "runs K (tx (\<lambda>w n. record_response c att resp (w_clk w n)))"
    by (rule runs_tx) (rule dispatch_step.response)
  show ?case
    by (rule runsI) (use t in \<open>auto simp: runs_def split: prod.split sum.split; metis snd_conv\<close>)
next
  case (Cons lost ls)
  have t: "runs K (tx (\<lambda>w n. record_response c att resp (w_clk w n)))"
    by (rule runs_tx) (rule dispatch_step.response)
  show ?case
  proof (rule runsI)
    fix w s assume rd: "ready_at w K s"
    show "runs_to s (snd (respond_tries c att resp again (lost # ls) w s))"
      by (auto intro: runs_then [OF t Cons.IH rd] runs_then [OF runs_look Cons.IH rd])
  qed
qed

lemma runs_respond [runs_intros]: "runs K (respond c att op generation m plan resp)"
proof -
  have "runs K (\<lambda>w s. respond_tries c att resp False (w_lost w (fst s)) w s)"
    using runs_respond_tries by (auto simp: runs_def)
  then show ?thesis unfolding respond_def by (auto intro!: runs_intros)
qed

section \<open>The refusals' second transactions\<close>

lemma attempt_refused_kind:
  assumes "record_attempt_tx c op generation new at db = Inl (AttemptRefused n cause obs)"
  shows "applies db op"
  using assms unfolding record_attempt_tx_def applies_def
  by (auto simp: refused_simps found_ok split: if_split_asm)

lemma settle_refusal_step:
  assumes "settle_attempt_refusal c m plan op generation n cause obs t1 t2 t3 db1 = Inr db2" "dispatch_step\<^sup>*\<^sup>* db db1" "applies db1 op"
  shows "dispatch_step\<^sup>*\<^sup>* db db2"
proof -
  have "dispatch_step db1 db2" using assms(1,3) by (auto simp: applies_def intro: dispatch_step.attempt_refusal)
  with assms(2) show ?thesis by (rule rtranclp.rtrancl_into_rtrancl)
qed

lemma record_attempt_run:
  assumes "ready_at w K (n, db)"
  shows "dispatch_step\<^sup>*\<^sup>* db (snd (record_attempt c op generation new at (w_other w k) ts db))"
proof (cases "ctl_id c = ''''")
  case False
  have o: "dispatch_step\<^sup>*\<^sup>* db (w_other w k db)" using ready_other [OF assms, of k] by simp
  show ?thesis
  proof (cases "record_attempt_tx c op generation new at db")
    case (Inr r)
    then show ?thesis using False by (cases r) (auto simp: record_attempt_def intro: dispatch_step.attempt)
  next
    case (Inl e)
    show ?thesis
    proof (cases "\<exists>n cause obs. e = AttemptRefused n cause obs")
      case True
      then have "applies (w_other w k db) op"
        using Inl attempt_refused_kind assms o applies_run by (auto simp: ready_at_def)
      then show ?thesis using True False Inl o
        by (auto simp: record_attempt_def Let_def split: option.split prod.split sum.split intro: settle_refusal_step)
    qed (use Inl False in \<open>auto simp: record_attempt_def split: api_error.split\<close>)
  qed
qed (simp add: record_attempt_def)

lemma cancel_unattempted_run:
  assumes "ready_at w K (n, db)" "op \<in> K"
  shows "dispatch_step\<^sup>*\<^sup>* db (snd (cancel_unattempted c m plan op generation at (w_other w k) ts db))"
proof -
  have o: "dispatch_step\<^sup>*\<^sup>* db (w_other w k db)" using ready_other [OF assms(1), of k] by simp
  have "applies (w_other w k db) op" using assms o applies_run by (auto simp: ready_at_def)
  then show ?thesis using o
    by (auto simp: cancel_unattempted_def Let_def split: option.split prod.split sum.split intro: settle_refusal_step)
qed

lemma commit_plan_run:
  assumes "ready_at w K (n, db)"
  shows "dispatch_step\<^sup>*\<^sup>* db (snd (commit_plan c plan new at (w_other w k) t1 t2 db))"
proof (cases "ctl_id c = ''''")
  case False
  have o: "dispatch_step\<^sup>*\<^sup>* db (w_other w k db)" using ready_other [OF assms, of k] by simp
  show ?thesis
  proof (cases "commit_tx c plan new at db")
    case (Inr r)
    then show ?thesis using False by (cases r) (auto simp: commit_plan_def intro: dispatch_step.commit)
  next
    case (Inl e)
    then show ?thesis using False o
      by (cases e) (auto simp: commit_plan_def record_commit_refusal_def Let_def split: option.split prod.split sum.split api_error.split
          intro: rtranclp.rtrancl_into_rtrancl dispatch_step.refusal)
  qed
qed (simp add: commit_plan_def)

section \<open>Dispatch and advance\<close>

lemma runs_attempt_and_send [runs_intros]: "runs K (attempt_and_send c op generation m plan)"
  unfolding attempt_and_send_def by (auto intro!: runs_intros runs_tx2 record_attempt_run)

lemma runs_dispatch_plan [runs_intros]: "runs K (dispatch_plan c d)"
  unfolding dispatch_plan_def by (auto intro!: runs_intros runs_tx2 commit_plan_run)

lemma runs_check_and_attempt [runs_intros]: "runs K (check_and_attempt c h given began need)"
  unfolding check_and_attempt_def by (auto intro!: runs_intros)

lemma runs_recovery_read [runs_intros]: "runs K (recovery_read c h)"
proof -
  have "runs K (\<lambda>w s. case take_observation c m f given w s of
      (Inl ErrReadNotDue, s') \<Rightarrow> (Inr (), s') | (Inl e, s') \<Rightarrow> (Inl e, s') | (Inr _, s') \<Rightarrow> (Inr (), s'))" for m f given
  proof (rule runsI)
    fix w s assume "ready_at w K s"
    then have "runs_to s (snd (take_observation c m f given w s))" using runs_take_observation unfolding runs_def by blast
    then show "runs_to s (snd (case take_observation c m f given w s of
      (Inl ErrReadNotDue, s') \<Rightarrow> (Inr (), s') | (Inl e, s') \<Rightarrow> (Inl e, s') | (Inr _, s') \<Rightarrow> (Inr (), s')))"
      by (auto split: prod.split sum.split api_error.split)
  qed
  then show ?thesis unfolding recovery_read_def by (auto intro!: runs_intros)
qed

lemma runs_advance_unresolved [runs_intros]: "runs K (advance_unresolved c h)"
  unfolding advance_unresolved_def Let_def by (auto intro!: runs_intros)

lemma runs_advance: "h_id h \<in> K \<Longrightarrow> runs K (advance c h)"
  unfolding advance_def by (auto intro!: runs_intros runs_tx2 cancel_unattempted_run)

section \<open>The passes\<close>

definition pass_runs :: "string set \<Rightarrow> pass \<Rightarrow> bool" where
  "pass_runs K p \<longleftrightarrow> (\<forall>w st s. ready_at w K s \<longrightarrow> runs_to s (snd (snd (p w st s))))"

lemma pass_runsI: "(\<And>w st s. ready_at w K s \<Longrightarrow> runs_to s (snd (snd (p w st s)))) \<Longrightarrow> pass_runs K p"
  by (simp add: pass_runs_def)

lemma pass_runsD: "pass_runs K p \<Longrightarrow> ready_at w K s \<Longrightarrow> p w st s = (go, st', s') \<Longrightarrow> runs_to s s' \<and> ready_at w K s'"
  unfolding pass_runs_def by (metis ready_runs_to snd_conv)

lemma after_step_point: "snd (snd (after_step lease key r w st s)) = s"
  by (simp add: after_step_def split: prod.split)

lemma pass_runs_then:
  assumes "pass_runs K p" "pass_runs K q"
  shows "pass_runs K (then_pass p q)"
proof (rule pass_runsI)
  fix w st s assume rd: "ready_at w K s"
  obtain go st1 s1 where p: "p w st s = (go, st1, s1)" by (metis prod.exhaust)
  have s1: "runs_to s s1" "ready_at w K s1" using pass_runsD [OF assms(1) rd p] by simp_all
  obtain go2 st2 s2 where q: "q w st1 s1 = (go2, st2, s2)" by (metis prod.exhaust)
  have "runs_to s1 s2" using pass_runsD [OF assms(2) s1(2) q] by simp
  then show "runs_to s (snd (snd (then_pass p q w st s)))"
    using s1(1) by (cases go) (auto simp: then_pass_def p q intro: runs_to_trans)
qed

text \<open>A list that was read, and what its items are known to be.\<close>

lemma pass_runs_list:
  assumes "runs K rd" and "\<And>w s xs s'. ready_at w K s \<Longrightarrow> rd w s = (Inr xs, s') \<Longrightarrow> \<forall>op \<in> L xs. applies (snd s') op"
    and "\<And>xs. pass_runs (K \<union> L xs) (work xs)" and "\<And>xs. pass_runs (K \<union> L xs) rest"
  shows "pass_runs K (with_list lease name rd work rest)"
proof (rule pass_runsI)
  fix w st s assume rd: "ready_at w K s"
  obtain r s1 where p: "rd w s = (r, s1)" by (cases "rd w s")
  have s1: "runs_to s s1" "ready_at w K s1" using runsD [OF assms(1) rd p] by simp_all
  show "runs_to s (snd (snd (with_list lease name rd work rest w st s)))"
  proof (cases r)
    case (Inr xs)
    have "ready_at w (K \<union> L xs) s1" using s1(2) assms(2) [OF rd] p Inr by (auto simp: ready_at_def)
    then have "runs_to s1 (snd (snd (then_pass (work xs) rest w st s1)))"
      using pass_runs_then [OF assms(3,4), of xs] unfolding pass_runs_def by blast
    then show ?thesis using s1(1) by (auto simp: with_list_def p Inr intro: runs_to_trans)
  qed (use s1 in \<open>simp add: with_list_def p after_step_point\<close>)
qed

lemma pass_runs_work:
  assumes "\<And>x. x \<in> set xs \<Longrightarrow> runs K (work x)"
  shows "pass_runs K (work_pass skip key work lease xs)"
  using assms
proof (induction xs)
  case (Cons x xs)
  have IH: "pass_runs K (work_pass skip key work lease xs)" using Cons by simp
  show ?case
  proof (rule pass_runsI)
    fix w st s assume rd: "ready_at w K s"
    obtain r s1 where p: "work x w s = (r, s1)" by (cases "work x w s")
    have s1: "runs_to s s1" "ready_at w K s1" using runsD [of K "work x", OF _ rd p] Cons.prems by auto
    obtain go st1 s2 where a: "after_step lease (key x) r w (forget_retry (key x) st) s1 = (go, st1, s2)" by (metis prod.exhaust)
    have "s2 = s1" using after_step_point [of lease "key x" r w "forget_retry (key x) st" s1] by (simp add: a)
    moreover have "runs_to s (snd (snd (work_pass skip key work lease xs w st' s1)))" for st'
      using IH s1 runs_to_trans unfolding pass_runs_def by blast
    moreover have "runs_to s (snd (snd (work_pass skip key work lease xs w st' s)))" for st'
      using IH rd unfolding pass_runs_def by blast
    ultimately show "runs_to s (snd (snd (work_pass skip key work lease (x # xs) w st s)))"
      using s1 by (auto simp: p a)
  qed
qed (auto intro: pass_runsI simp: runs_to_refl)

lemma pass_runs_takeover: "pass_runs K (takeover_pass c lease kept ops)"
proof (induction ops arbitrary: kept)
  case (Cons o' ops)
  obtain op generation where o: "o' = (op, generation)" by (cases o')
  have t: "runs K (tx (\<lambda>w n. take_over_tx c op generation ''controller-start'' (w_clk w n)))"
    by (rule runs_tx) (rule dispatch_step.takeover)
  show ?case
  proof (rule pass_runsI)
    fix w st s assume rd: "ready_at w K s"
    obtain r s1 where p: "tx (\<lambda>w n. take_over_tx c op generation ''controller-start'' (w_clk w n)) w s = (r, s1)"
      by (metis prod.exhaust)
    have s1: "runs_to s s1" "ready_at w K s1" using runsD [OF t rd p] by simp_all
    obtain go st1 s2 where a: "after_step lease op r w (forget_retry op st) s1 = (go, st1, s2)" by (metis prod.exhaust)
    have "s2 = s1" using after_step_point [of lease op r w "forget_retry op st" s1] by (simp add: a)
    moreover have "runs_to s (snd (snd (takeover_pass c lease k ops w st' s1)))" for k st'
      using Cons.IH s1 runs_to_trans unfolding pass_runs_def by blast
    moreover have "runs_to s (snd (snd (takeover_pass c lease k ops w st' s)))" for k st'
      using Cons.IH rd unfolding pass_runs_def by blast
    ultimately show "runs_to s (snd (snd (takeover_pass c lease kept (o' # ops) w st s)))"
      using s1 by (auto simp: o p a)
  qed
qed (auto intro: pass_runsI simp: runs_to_refl)

lemma pass_runs_drop_past: "pass_runs K drop_past"
  by (rule pass_runsI) (simp add: drop_past_def runs_to_refl)

section \<open>The loop\<close>

lemma held_operations_apply:
  assumes "held_operations c now db = Inr hs" "dispatch_inv db" "h \<in> set hs"
  shows "applies db (h_id h)"
proof -
  obtain x where x: "x \<in> set (operations db)" "o_kind x = ApplyConfig" "o_id x = h_id h"
    using assms(1,3) by (auto simp: held_operations_def and_then_ok by_creation_def held_of_def map_filter_def)
  moreover have "distinct (map o_id (operations db))" using assms(2) by (simp add: dispatch_inv_def core_ok_def ops_ok_def)
  ultimately show ?thesis using keyed_unique [of o_id "operations db" x] unfolding applies_def operation_of_def by blast
qed

lemma pass_runs_lists: "pass_runs K (work_lists c lease)"
proof -
  have cand: "pass_runs K' (with_list lease ''candidates'' (look (\<lambda>w n. dispatch_candidates c '''' (w_clk w n 0)))
      (dispatch_pass c lease) drop_past)" for K'
    by (rule pass_runs_list [where L = "\<lambda>_. {}"]) (auto simp: dispatch_pass_def intro!: pass_runs_work pass_runs_drop_past runs_intros)
  have "pass_runs K (with_list lease ''operations'' (look (\<lambda>w n. held_operations c (w_clk w n 0))) (advance_pass c lease)
      (with_list lease ''candidates'' (look (\<lambda>w n. dispatch_candidates c '''' (w_clk w n 0))) (dispatch_pass c lease) drop_past))"
  proof (rule pass_runs_list [where L = "\<lambda>hs. h_id ` set hs"])
    fix w :: world and s s' :: point and hs
    assume rd: "ready_at w K s" and "look (\<lambda>w n. held_operations c (w_clk w n 0)) w s = (Inr hs, s')"
    then have "held_operations c (w_clk w (fst s) 0) (snd s') = Inr hs" "snd s' = w_other w (fst s) (snd s)"
      by (auto simp: look_def Let_def)
    then show "\<forall>op \<in> h_id ` set hs. applies (snd s') op"
      using held_operations_apply ready_other' [OF rd] by (auto simp: ready_at_def)
  qed (auto simp: advance_pass_def intro!: pass_runs_work runs_advance cand runs_intros)
  moreover have "pass_runs K (owed_pass c lease)"
    using pass_runs_takeover unfolding owed_pass_def pass_runs_def by blast
  ultimately show ?thesis unfolding work_lists_def by (intro pass_runs_then)
qed

lemma pass_runs_executor: "pass_runs K (executor_pass c lease)"
proof -
  have "pass_runs K (with_list lease ''takeover'' (look (\<lambda>w n. foreign_operations c))
      (\<lambda>ops w st s. (True, st\<lparr>xs_takeover := False, xs_owed := ops\<rparr>, s)) (work_lists c lease))"
    by (rule pass_runs_list [where L = "\<lambda>_. {}"]) (auto intro!: runs_intros pass_runs_lists pass_runsI runs_to_refl)
  then show ?thesis using pass_runs_lists unfolding executor_pass_def pass_runs_def by simp
qed

lemma pass_runs_loop: "pass_runs K (executor_loop c lease k)"
  by (induction k) (auto intro: pass_runs_executor pass_runs_then)

end
