(* ===== verification/Executor_Props.thy ===== *)
theory Executor_Props
  imports Executor_Run
begin

text \<open>
  The properties of the executor's loop, on the procedures of \<open>Executor\<close> and the runs of
  \<open>Executor_Run\<close>.
\<close>

section \<open>A loop evaluated\<close>

definition xx_cluster :: string where
  "xx_cluster = ''AAAAAAAAAAAAAAAAAAAAAAAAAAAAAAAAAAAAAAAAAAA=''"

definition xx_db0 :: dispatch_db where
  "xx_db0 = ex_db0\<lparr>machines := [\<lparr>m_id = ''m1'', m_cluster = ''k1'', m_smbios = None, m_node = Some ''n1'', m_frozen = False,
       m_scope = Normal, m_rev = 0, m_endpoint = ''10.0.0.1''\<rparr>],
     clusters := [\<lparr>cl_id = ''k1'', cl_talos = Some xx_cluster\<rparr>]\<rparr>"

definition xx_db1 :: dispatch_db where
  "xx_db1 = projr (approve_plan \<lparr>w_principal = ''ann'', w_role = ''approver'', w_act = ''act1''\<rparr> ''p1'' ''ap1'' [] 10 11 xx_db0)"

text \<open>Nothing else commits; the node takes the artifact at the first request, whose recording commits
  although its reply is lost.\<close>

definition xx_world :: world where
  "xx_world = \<lparr>w_other = (\<lambda>n db. db), w_clk = (\<lambda>n k. 20 + 10 * int n + int k), w_new = (\<lambda>n. [char_of (65 + n)]),
     w_access = (\<lambda>n cl. Inr (''kv'', 1, ''t'')), w_decrypt = (\<lambda>n. None),
     w_node = (\<lambda>n. Some \<lparr>na_identity = Got \<lparr>ti_smbios = '''', ti_node = ''n1'', ti_cluster = xx_cluster\<rparr>,
        na_version = Got ''v1.9.2'', na_config = Got (if n < 11 then [1] else [2], ''7'')\<rparr>),
     w_send = (\<lambda>n. ex_accepted), w_lost = (\<lambda>n. [True]), w_now = (\<lambda>n. 20 + 10 * int n), w_key = ''key''\<rparr>"

definition xx_end :: "nat \<Rightarrow> bool \<times> executor_state \<times> point" where
  "xx_end k = executor_loop ex_ctl 5 k xx_world fresh_executor (0, xx_db1)"

lemma xx_world_ok: "world_ok xx_world"
  by (simp add: world_ok_def xx_world_def)

lemma xx_reachable: "reachable xx_db1"
proof -
  have "initial xx_db0" by code_simp
  then have "reachable xx_db0" unfolding reachable_def by blast
  moreover have "dispatch_step xx_db0 xx_db1"
    unfolding xx_db1_def by (rule dispatch_step.approve [OF Inr_projr]) code_simp
  ultimately show ?thesis by (rule reachable_step)
qed

section \<open>The loop is a run\<close>



section \<open>A superseded executor\<close>

text \<open>Under a later epoch every read of the loop and every takeover answers \<open>ErrNotController\<close>.\<close>

lemma superseded_reads:
  assumes "superseded c db"
  shows "foreign_operations c db = Inl ErrNotController" "held_operations c now db = Inl ErrNotController"
    "dispatch_candidates c only now db = Inl ErrNotController" "take_over_tx c op generation reason clk db = Inl ErrNotController"
  using assms by (simp_all add: foreign_operations_def held_operations_def dispatch_candidates_def current_epoch_def
      take_over_tx_def lock_operation_def)

lemma after_not_controller: "after_step lease key (Inl ErrNotController) w st s = (False, st, s)"
  by (simp add: after_step_def pass_step_def error_of_def)

lemma takeover_superseded:
  assumes "superseded c (w_other w (fst s) (snd s))"
  shows "(\<exists>st'. takeover_pass c lease kept ops w st s = (False, st', (Suc (fst s), w_other w (fst s) (snd s)))) \<or>
    (\<exists>st'. takeover_pass c lease kept ops w st s = (True, st', s))"
  using assms
proof (induction ops arbitrary: kept st)
  case (Cons o' ops)
  obtain op generation where o: "o' = (op, generation)" by (cases o')
  show ?case
  proof (cases "waits st op (w_now w (fst s))")
    case True
    then show ?thesis using Cons by (simp add: o)
  next
    case False
    then show ?thesis
      using superseded_reads(4) [OF Cons.prems] by (simp add: o tx_def after_not_controller outcome_refused_def)
  qed
qed simp

lemma superseded_loop:
  assumes "superseded c (w_other w n db)"
  shows "\<exists>st'. executor_loop c lease k w st (n, db) = (False, st', (Suc n, w_other w n db))"
proof -
  have lists: "\<exists>st'. work_lists c lease w st (n, db) = (False, st', (Suc n, w_other w n db))" for st
    using takeover_superseded [where c = c and w = w and s = "(n, db)" and lease = lease and kept = "[]" and ops = "xs_owed st" and st = st] assms
    by (auto simp: work_lists_def then_pass_def owed_pass_def with_list_def look_def superseded_reads after_not_controller)
  have pass: "\<exists>st'. executor_pass c lease w st (n, db) = (False, st', (Suc n, w_other w n db))"
    using lists assms by (simp add: executor_pass_def with_list_def look_def superseded_reads after_not_controller)
  then show ?thesis by (cases k) (auto simp: then_pass_def)
qed

section \<open>A response is recorded once\<close>

lemma move_on_response_responses: "move_on_response c a x resp clk db = Inr (st, db') \<Longrightarrow> responses db' = responses db"
  unfolding move_on_response_def
  by (auto simp: tx_simps classify_def move_operation_def Let_def split: if_split_asm option.split_asm)

lemma one_keyed: "distinct (map key rs) \<Longrightarrow> k \<in> key ` set rs \<Longrightarrow> length (filter (\<lambda>r. key r = k) rs) = 1"
  by (induction rs) (auto simp: filter_empty_conv image_iff)

text \<open>The writes of a response fail only on a missing row.\<close>

lemma append_entry_error: "append_entry m ep e at db = Inl y \<Longrightarrow> y = ErrNoRows"
  by (auto simp: append_entry_def next_entry_def split: option.split_asm)

lemma account_response_error: "account_response a x resp at db = Inl y \<Longrightarrow> y = ErrNoRows"
  by (auto simp: account_response_def refused_simps dest: append_entry_error split: if_split_asm)

lemma move_operation_error: "move_operation c x to cause result failure at db = Inl y \<Longrightarrow> y = ErrNoRows"
  by (auto simp: move_operation_def refused_simps dest: append_entry_error)

lemma classify_error: "classify c x outcome obs relied generation at db = Inl y \<Longrightarrow> y = ErrNoRows"
  by (auto simp: classify_def refused_simps dest: append_entry_error)

lemma move_on_response_error: "move_on_response c a x resp clk db = Inl y \<Longrightarrow> y = ErrNoRows"
  by (auto simp: move_on_response_def refused_simps dest: classify_error move_operation_error
      split: if_split_asm option.split_asm)

lemma lock_operation_error: "lock_operation c op db = Inl y \<Longrightarrow> y = ErrNoRows \<or> y = ErrNotController"
  by (auto simp: lock_operation_def split: if_split_asm option.split_asm)

lemma record_response_recorded:
  assumes "record_response c att resp clk db = Inr (rd, db') \<or>
    record_response c att resp clk db = Inl (OutcomeRefused ''response'' already_responded) \<and> db' = db"
  shows "att \<in> re_attempt ` set (responses db')"
  using assms
proof
  assume "record_response c att resp clk db = Inr (rd, db')"
  then show ?thesis
  proof (rule response_steps)
    fix a x db1 db2 rv
    assume a: "keyed at_id att (attempts db) = Some a"
      and db1: "responses db1 = responses db @ [response_row_of a (o_machine x) resp (clk 0) rv]"
      and "account_response a x resp (clk 1) db1 = Inr (rd_accounted rd, db2)"
        "move_on_response c a x resp clk db2 = Inr (rd_state rd, db')"
    then have "responses db' = responses db1" using account_response_tables move_on_response_responses by metis
    moreover have "re_attempt (response_row_of a (o_machine x) resp (clk 0) rv) = att"
      using a by (auto simp: response_row_of_def dest: keyed_Some)
    ultimately show ?thesis using db1 by simp
  qed
next
  assume "record_response c att resp clk db = Inl (OutcomeRefused ''response'' already_responded) \<and> db' = db"
  then show ?thesis unfolding record_response_def
    by (auto simp: refused_simps already_responded_def split: if_split_asm
        dest!: append_entry_error account_response_error move_on_response_error lock_operation_error)
qed

lemma respond_tries_recorded:
  "respond_tries c att resp again ls w s = (Inr st, s') \<Longrightarrow> att \<in> re_attempt ` set (responses (snd s'))"
proof (induction ls arbitrary: again s)
  case Nil
  let ?db = "w_other w (fst s) (snd s)"
  show ?case using Nil record_response_recorded [of c att resp "w_clk w (fst s)" ?db _ "snd s'"]
    by (cases "record_response c att resp (w_clk w (fst s)) ?db") (auto simp: tx_def Let_def split: if_split_asm)
qed (auto split: if_split_asm)

text \<open>C25. Exactly once: however many of the tries to record an attempt's response lose their reply,
  whether or not each had committed, and whatever runs in between, an executor that goes on holds exactly
  one response of the attempt on record.\<close>

theorem response_recorded_once:
  assumes "reachable db" and "world_ok w"
    and "respond_tries c att resp again ls w (n, db) = (Inr st, (n', db'))"
  shows "length (filter (\<lambda>r. re_attempt r = att) (responses db')) = 1"
proof -
  have "runs_to (n, db) (n', db')"
    using runs_respond_tries [of "{}" c att resp again ls] assms reachable_inv unfolding runs_def ready_at_def
    by (metis empty_iff snd_conv)
  then have "dispatch_inv db'" using assms(1) reachable_inv run_inv by (auto simp: runs_to_def)
  then have "distinct (map re_attempt (responses db'))" by (simp add: dispatch_inv_def core_ok_def resps_ok_def)
  moreover have "att \<in> re_attempt ` set (responses db')" using respond_tries_recorded [OF assms(3)] by simp
  ultimately show ?thesis by (rule one_keyed)
qed

theorem response_recorded_once_witness:
  "length (filter (\<lambda>r. re_attempt r = ''at1'') (responses (snd (snd (respond_tries ex_ctl ''at1'' ex_accepted False [False, True, False] xx_world (0, ex_db5)))))) = 1"
proof (rule response_recorded_once [OF ex_reachable(6) xx_world_ok])
  have "\<not> isl (fst (respond_tries ex_ctl ''at1'' ex_accepted False [False, True, False] xx_world (0, ex_db5)))" by code_simp
  then show "respond_tries ex_ctl ''at1'' ex_accepted False [False, True, False] xx_world (0, ex_db5) =
    (Inr (projr (fst (respond_tries ex_ctl ''at1'' ex_accepted False [False, True, False] xx_world (0, ex_db5)))),
     fst (snd (respond_tries ex_ctl ''at1'' ex_accepted False [False, True, False] xx_world (0, ex_db5))),
     snd (snd (respond_tries ex_ctl ''at1'' ex_accepted False [False, True, False] xx_world (0, ex_db5))))"
    by (simp add: Inr_projr [symmetric])
qed

section \<open>The candidates\<close>

text \<open>The candidates' query and the commitment's comparisons agree: an apply-config plan is a
  candidate exactly when, of the comparisons its commitment would make now, 1, 4 and 5 pass and 6 passes
  but for drift, its approver stands and its approval is not revoked.\<close>

theorem candidate_iff_comparisons:
  assumes "keyed s_plan (p_id p) (plan_states db) = Some s" "keyed m_id (p_machine p) (machines db) = Some m"
    and "s_approval s = Some a" "keyed ap_id a (approvals db) = Some ap" "keyed pr_id (ap_approver ap) (principals db) = Some pr"
  shows "candidate now db p \<longleftrightarrow>
    p_kind p = ApplyConfig \<and> commit_compare1 (projected p s now db) (s_state s) (ap_epoch ap) (inst_epoch db) = None \<and>
    commit_compare45 p db = None \<and> scope_gate (m_frozen m) None None (m_scope m) (recovery_mode db) = None \<and>
    \<not> pr_revoked pr \<and> \<not> (\<exists>r \<in> set (approval_revocations db). ar_approval r = ap_id ap)"
  using assms unfolding candidate_def commit_compare1_def commit_compare45_def scope_held_def rollout_held_def scope_gate_open projected_def approver_of_def approval_of_def
  by (auto split: option.split)

definition xx_approval :: approval_row where
  "xx_approval = hd (approvals xx_db1)"

theorem candidate_iff_comparisons_witness:
  "candidate 12 xx_db1 ex_plan \<and> \<not> candidate 1000 xx_db1 ex_plan \<and>
   commit_compare1 (projected ex_plan (hd (plan_states xx_db1)) 12 xx_db1) Approved ''e1'' ''e1'' = None"
proof -
  let ?s = "hd (plan_states xx_db1)" and ?m = "hd (machines xx_db1)" and ?pr = "hd (principals xx_db1)"
  have h: "keyed s_plan (p_id ex_plan) (plan_states xx_db1) = Some ?s" "keyed m_id (p_machine ex_plan) (machines xx_db1) = Some ?m"
    "s_approval ?s = Some ''ap1''" "keyed ap_id ''ap1'' (approvals xx_db1) = Some xx_approval"
    "keyed pr_id (ap_approver xx_approval) (principals xx_db1) = Some ?pr" by code_simp+
  have now: "candidate 12 xx_db1 ex_plan" by code_simp
  have eq: "s_state ?s = Approved" "ap_epoch xx_approval = ''e1''" "inst_epoch xx_db1 = ''e1''" by code_simp+
  have late: "commit_compare1 (projected ex_plan ?s 1000 xx_db1) (s_state ?s) (ap_epoch xx_approval) (inst_epoch xx_db1) \<noteq> None"
    by code_simp
  show ?thesis
    using now late candidate_iff_comparisons [OF h, of 12] candidate_iff_comparisons [OF h, of 1000] by (simp add: eq)
qed

end
