(* ===== verification/Mutation.thy ===== *)
theory Mutation
  imports Recovery
begin

text \<open>
  How a mutating request commits (\<^verbatim>\<open>internal/api\<close>: \<^verbatim>\<open>authorize\<close>, \<^verbatim>\<open>preconditions\<close>, \<^verbatim>\<open>handle\<close> and
  \<^verbatim>\<open>staleToken\<close> of api.go, tx.go and idempotency.go): the checks before any transaction, the key's
  lookup, the transaction that runs the route's effect and writes the act and the idempotency record,
  its retries after a deadlock, the read back of a lost COMMIT, and the answer from a record.

  A transaction is one step on the store; what other transactions do in between, and what the
  database reports of each of them, are arguments. The route's effect is an argument as well: its
  writes at the act-order lock are part of it. The provider's keyed digest, a human's first-use row
  (\<^verbatim>\<open>admit\<close>), a route's own preparation and the decoding of the body come with the request.
\<close>

section \<open>Requests and routes\<close>

datatype ckind = Human | Service

record caller =
  ca_kind :: ckind
  ca_id :: string
  ca_epoch :: string
  ca_roles :: "string list"

record route =
  rt_method :: string
  rt_pattern :: string
  rt_roles :: "string list"
  rt_human_only :: bool
  rt_if_match :: bool
  rt_normal_start :: bool
  rt_action :: string
  rt_keyed :: string

record request =
  q_id :: string
  q_route :: route
  q_caller :: caller
  q_role :: string
  q_epoch :: string
  q_recovery :: bool
  q_key :: string
  q_if_match :: string
  q_expected :: string
  q_fingerprint :: string
  q_fp_key :: string
  q_act :: string

record refusal =
  rf_status :: nat
  rf_code :: string
  rf_detail :: string
  rf_extra :: "(string \<times> string) list"

definition refuse :: "nat \<Rightarrow> string \<Rightarrow> string \<Rightarrow> refusal" where
  "refuse st code detail = \<lparr>rf_status = st, rf_code = code, rf_detail = detail, rf_extra = []\<rparr>"

text \<open>The details that say what became of the request; the others are left empty.\<close>

definition not_committed :: string where
  "not_committed = ''nothing of the request's own transaction was committed''"

definition outcome_unknown :: string where
  "outcome_unknown = ''the outcome is unknown; retrying with the same Idempotency-Key answers it''"

definition with_extra :: "string \<Rightarrow> string \<Rightarrow> refusal \<Rightarrow> refusal" where
  "with_extra n v r = r\<lparr>rf_extra := rf_extra r @ [(n, v)]\<rparr>"

definition stale_token :: "request \<Rightarrow> refusal option" where
  "stale_token q = (if ca_kind (q_caller q) = Service \<and> ca_epoch (q_caller q) \<noteq> q_epoch q
     then Some (refuse 401 ''unauthenticated'' []) else None)"

definition authorize :: "request \<Rightarrow> (refusal, request) res" where
  "authorize q =
     (if rt_human_only (q_route q) \<and> ca_kind (q_caller q) \<noteq> Human then Inl (refuse 403 ''forbidden'' [])
      else case List.find (\<lambda>r. r \<in> set (ca_roles (q_caller q))) (rt_roles (q_route q)) of
        Some want \<Rightarrow> Inr (q\<lparr>q_role := want\<rparr>)
      | None \<Rightarrow> Inl (refuse 403 ''forbidden'' []))"

definition key_char :: "char \<Rightarrow> bool" where
  "key_char c \<longleftrightarrow> CHR ''A'' \<le> c \<and> c \<le> CHR ''Z'' \<or> CHR ''a'' \<le> c \<and> c \<le> CHR ''z'' \<or> digit c \<or> c = CHR ''_'' \<or> c = CHR ''-''"

definition key_shape :: "string \<Rightarrow> bool" where
  "key_shape k \<longleftrightarrow> 16 \<le> length k \<and> length k \<le> 128 \<and> list_all key_char k"

text \<open>The headers of a mutating request, each with its values: the key, \<^verbatim>\<open>If-Match\<close> and the epoch the
  client expects.\<close>

definition check_key :: "string list \<Rightarrow> request \<Rightarrow> (refusal, request) res" where
  "check_key ks q =
     (if ks = [] \<or> ks = [[]] then Inl (refuse 428 ''idempotency-key-required'' [])
      else if length ks > 1 \<or> \<not> key_shape (hd ks) then Inl (refuse 400 ''invalid-request'' [])
      else Inr (q\<lparr>q_key := hd ks\<rparr>))"

definition check_if_match :: "string list \<Rightarrow> request \<Rightarrow> (refusal, request) res" where
  "check_if_match ms q =
     (if \<not> rt_if_match (q_route q) then Inr q
      else if ms = [] \<or> ms = [[]] then Inl (refuse 428 ''precondition-required'' [])
      else if length ms > 1 then Inl (refuse 400 ''invalid-request'' [])
      else Inr (q\<lparr>q_if_match := hd ms\<rparr>))"

definition check_expected :: "string list \<Rightarrow> request \<Rightarrow> (refusal, request) res" where
  "check_expected es q =
     (if length es > 1 \<or> es = [[]] then Inl (refuse 400 ''invalid-request'' [])
      else if es = [] then Inr q else Inr (q\<lparr>q_expected := hd es\<rparr>))"

definition preconditions :: "string list \<Rightarrow> string list \<Rightarrow> string list \<Rightarrow> request \<Rightarrow> (refusal, request) res" where
  "preconditions ks ms es q =
     and_then (check_key ks q) (\<lambda>q1. and_then (check_if_match ms q1) (check_expected es))"

definition entry_pattern :: string where
  "entry_pattern = ''/recovery/entries''"

definition identity_pattern :: string where
  "identity_pattern = ''/identity''"

text \<open>What the process is: whether it started for recovery, and whether its entry is still to commit.\<close>

definition handle :: "bool \<Rightarrow> bool \<Rightarrow> string list \<Rightarrow> string list \<Rightarrow> string list \<Rightarrow> request \<Rightarrow> (refusal, request) res" where
  "handle recovery_start pre_entry ks ms es q =
     (let rt = q_route q in
      and_then (case authorize q of
          Inl r \<Rightarrow> if rt_pattern rt \<noteq> identity_pattern then Inl r else Inr q
        | Inr q' \<Rightarrow> Inr q') (\<lambda>q1.
      if pre_entry \<and> rt_pattern rt \<noteq> entry_pattern then Inl (refuse 409 ''recovery-mode-active'' [])
      else if recovery_start \<and> rt_normal_start rt then Inl (refuse 409 ''recovery-mode-active'' [])
      else if rt_pattern rt = entry_pattern \<and> \<not> recovery_start then Inl (refuse 409 ''conflict'' [])
      else if rt_method rt \<noteq> ''GET'' then preconditions ks ms es q1 else Inr q1))"

section \<open>Errors\<close>

text \<open>An error as a request's transaction meets it: a refusal, what PostgreSQL or the connection
  reported, and the package's own errors, two of which wrap their cause.\<close>

datatype merr =
    Refused refusal
  | PgError string
  | NetError
  | EpochSuperseded
  | NotController
  | OtherError
  | Transient merr
  | Unavailable merr
  | UnknownOutcome

fun cause :: "merr \<Rightarrow> merr" where
  "cause (Transient e) = cause e"
| "cause (Unavailable e) = cause e"
| "cause e = e"

fun is_transient :: "merr \<Rightarrow> bool" where
  "is_transient (Transient e) = True"
| "is_transient (Unavailable e) = is_transient e"
| "is_transient e = False"

fun is_unavailable :: "merr \<Rightarrow> bool" where
  "is_unavailable (Unavailable e) = True"
| "is_unavailable (Transient e) = is_unavailable e"
| "is_unavailable e = False"

definition as_refusal :: "merr \<Rightarrow> refusal option" where
  "as_refusal e = (case cause e of Refused r \<Rightarrow> Some r | _ \<Rightarrow> None)"

definition conn_lost :: "merr \<Rightarrow> bool" where
  "conn_lost e = (case cause e of
     PgError c \<Rightarrow> take 2 c = ''08'' \<or> c = ''57P01'' \<or> c = ''57P02'' \<or> c = ''57P03''
   | NetError \<Rightarrow> True | _ \<Rightarrow> False)"

definition is_pg :: "merr \<Rightarrow> bool" where
  "is_pg e = (case cause e of PgError c \<Rightarrow> True | _ \<Rightarrow> False)"

definition is_deadlock :: "merr \<Rightarrow> bool" where
  "is_deadlock e \<longleftrightarrow> cause e = PgError ''40P01''"

text \<open>\<^verbatim>\<open>fail\<close>: the answer of an error.\<close>

definition failure :: "merr \<Rightarrow> refusal" where
  "failure e =
     (case as_refusal e of
        Some r \<Rightarrow> r
      | None \<Rightarrow>
          if cause e = EpochSuperseded \<or> cause e = NotController then refuse 503 ''epoch-superseded'' not_committed
          else if is_transient e then refuse 503 ''transient-conflict'' not_committed
          else if cause e = UnknownOutcome then refuse 500 ''internal-error'' outcome_unknown
          else if is_unavailable e \<or> conn_lost e then refuse 503 ''dependency-unavailable'' not_committed
          else refuse 500 ''internal-error'' not_committed)"

section \<open>The store and the key's lookup\<close>

text \<open>The times of an act and of a record are not kept: nothing here reads them.\<close>

record idem_row =
  rc_principal :: string
  rc_key :: string
  rc_fingerprint :: string
  rc_fp_key :: string
  rc_request :: string
  rc_epoch :: string
  rc_status :: nat
  rc_location :: string
  rc_etag :: string
  rc_body :: string
  rc_operation :: string

record act_row =
  ac_id :: string
  ac_principal :: string
  ac_kind :: ckind
  ac_role :: string
  ac_action :: string
  ac_subjects :: "string list"
  ac_key :: string
  ac_request :: string
  ac_epoch :: string

record store =
  st_dom :: recovery_db
  st_records :: "idem_row list"
  st_acts :: "act_row list"

record result =
  rs_status :: nat
  rs_location :: string
  rs_etag :: string
  rs_body :: string
  rs_subjects :: "string list"
  rs_operation :: string

type_synonym effect = "request \<Rightarrow> recovery_db \<Rightarrow> (merr, request \<times> result \<times> recovery_db) res"

abbreviation st_epoch :: "store \<Rightarrow> string" where
  "st_epoch s \<equiv> inst_epoch (disp (st_dom s))"

definition record_for :: "string \<Rightarrow> string \<Rightarrow> store \<Rightarrow> idem_row option" where
  "record_for who key s = List.find (\<lambda>r. rc_principal r = who \<and> rc_key r = key) (st_records s)"

text \<open>A record comes with whether its epoch is the current one.\<close>

definition lookup :: "request \<Rightarrow> store \<Rightarrow> request \<times> (merr, (idem_row \<times> bool) option) res" where
  "lookup q s =
     (let q1 = q\<lparr>q_epoch := st_epoch s, q_recovery := recovery_mode (disp (st_dom s))\<rparr> in
      (q1, case stale_token q1 of
         Some r \<Rightarrow> Inl (Refused r)
       | None \<Rightarrow>
          (case record_for (ca_id (q_caller q)) (q_key q) s of
             None \<Rightarrow> if q_expected q \<noteq> [] \<and> q_expected q \<noteq> q_epoch q1
                      then Inl (Refused (with_extra ''epoch'' (q_epoch q1) (refuse 412 ''epoch-mismatch'' not_committed)))
                      else Inr None
           | Some r \<Rightarrow> Inr (Some (r, rc_epoch r = q_epoch q1)))))"

section \<open>The transaction\<close>

text \<open>What the database reports of one attempt: nothing amiss; a failure to begin, of the key's lock or
  the lookup, of a statement of the effect, of the act's or the record's insert; or of the COMMIT, with
  whether the server committed all the same and the failure of the read back, if any. A COMMIT the
  server itself refused did not commit.\<close>

datatype fault =
    NoFault
  | AtBegin merr
  | AtLock merr
  | AtEffect merr
  | AtRecord merr
  | AtCommit merr bool "merr option"

definition record_of :: "request \<Rightarrow> result \<Rightarrow> idem_row" where
  "record_of q r = \<lparr>rc_principal = ca_id (q_caller q), rc_key = q_key q, rc_fingerprint = q_fingerprint q,
     rc_fp_key = q_fp_key q, rc_request = q_id q, rc_epoch = q_epoch q, rc_status = rs_status r,
     rc_location = rs_location r, rc_etag = rs_etag r, rc_body = rs_body r, rc_operation = rs_operation r\<rparr>"

definition act_of :: "request \<Rightarrow> result \<Rightarrow> act_row" where
  "act_of q r = \<lparr>ac_id = q_act q, ac_principal = ca_id (q_caller q), ac_kind = ca_kind (q_caller q), ac_role = q_role q,
     ac_action = rt_action (q_route q), ac_subjects = rs_subjects r, ac_key = q_key q, ac_request = q_id q,
     ac_epoch = q_epoch q\<rparr>"

definition write_act :: "request \<Rightarrow> result \<Rightarrow> recovery_db \<Rightarrow> store \<Rightarrow> store" where
  "write_act q r d s = s\<lparr>st_dom := d, st_records := st_records s @ [record_of q r], st_acts := st_acts s @ [act_of q r]\<rparr>"

type_synonym outcome = "(merr, (idem_row \<times> bool) \<times> bool) res" \<comment> \<open>the record, current, and fresh\<close>

definition resolve_commit :: "request \<Rightarrow> idem_row \<Rightarrow> merr \<Rightarrow> bool \<Rightarrow> merr option \<Rightarrow> store \<Rightarrow> store \<Rightarrow> outcome \<times> store" where
  "resolve_commit q rec cerr landed readback s s' =
     (if is_pg cerr \<and> \<not> conn_lost cerr then (Inl cerr, s)
      else
        let t = (if landed then s' else s) in
        case readback of
          Some e \<Rightarrow> (Inl UnknownOutcome, t)
        | None \<Rightarrow>
            if length (filter (\<lambda>r. rc_principal r = ca_id (q_caller q) \<and> rc_key r = q_key q \<and> rc_request r = q_id q) (st_records t)) = 1
            then (Inr ((rec, True), True), t) else (Inl (Unavailable cerr), t))"

definition attempt_act :: "effect \<Rightarrow> string \<Rightarrow> fault \<Rightarrow> request \<Rightarrow> store \<Rightarrow> request \<times> outcome \<times> store" where
  "attempt_act eff act f q s =
     (case f of
        AtBegin e \<Rightarrow> (q, Inl (Unavailable e), s)
      | AtLock e \<Rightarrow> (q, Inl e, s)
      | _ \<Rightarrow>
         (case lookup q s of
            (q1, Inl e) \<Rightarrow> (q1, Inl e, s)
          | (q1, Inr (Some rec)) \<Rightarrow> (q1, Inr (rec, False), s)
          | (q1, Inr None) \<Rightarrow>
              (let q2 = q1\<lparr>q_act := act\<rparr> in
               case (case f of AtEffect e \<Rightarrow> Inl e | _ \<Rightarrow> eff q2 (st_dom s)) of
                 Inl e \<Rightarrow> (q2, Inl e, s)
               | Inr (q3, r, d) \<Rightarrow>
                  (case f of
                     AtRecord e \<Rightarrow> (q3, Inl e, s)
                   | AtCommit cerr landed readback \<Rightarrow>
                       (q3, resolve_commit q3 (record_of q3 r) cerr landed readback s (write_act q3 r d s))
                   | _ \<Rightarrow> (q3, Inr ((record_of q3 r, True), True), write_act q3 r d s)))))"

definition max_attempts :: nat where
  "max_attempts = 4"

text \<open>Before attempt \<open>n\<close> other transactions move the store by \<open>env n\<close>. The loop's \<open>n\<close> starts at 1, so it
  meets the bound.\<close>

function run_from :: "effect \<Rightarrow> (nat \<Rightarrow> store \<Rightarrow> store) \<Rightarrow> (nat \<Rightarrow> string) \<Rightarrow> (nat \<Rightarrow> fault) \<Rightarrow> nat \<Rightarrow> request \<Rightarrow> store
    \<Rightarrow> request \<times> outcome \<times> store" where
  "run_from eff env act fs n q s =
     (case attempt_act eff (act n) (fs n) q (env n s) of
        (q', Inl e, s') \<Rightarrow>
          if \<not> is_deadlock e then (q', Inl e, s')
          else if n \<ge> max_attempts then (q', Inl (Transient e), s')
          else run_from eff env act fs (Suc n) q' s'
      | r \<Rightarrow> r)"
  by pat_completeness auto

termination by (relation "measure (\<lambda>(_, _, _, _, n, _, _). max_attempts - n)") auto

declare run_from.simps [simp del]

definition run :: "effect \<Rightarrow> (nat \<Rightarrow> store \<Rightarrow> store) \<Rightarrow> (nat \<Rightarrow> string) \<Rightarrow> (nat \<Rightarrow> fault) \<Rightarrow> request \<Rightarrow> store
    \<Rightarrow> request \<times> outcome \<times> store" where
  "run eff env act fs q s = run_from eff env act fs 1 q s"

section \<open>The answer\<close>

text \<open>The text before and after the last \<^verbatim>\<open>@v\<close>.\<close>

fun last_at_v :: "string \<Rightarrow> (string \<times> string) option" where
  "last_at_v [] = None"
| "last_at_v (c # cs) =
     (case last_at_v cs of
        Some (a, b) \<Rightarrow> Some (c # a, b)
      | None \<Rightarrow> if take 2 (c # cs) = ''@v'' then Some ([], drop 2 (c # cs)) else None)"

definition recorded_version :: "string \<Rightarrow> string \<Rightarrow> nat option" where
  "recorded_version recorded current =
     (case (last_at_v recorded, last_at_v current) of
        (Some (rk, n), Some (ck, _)) \<Rightarrow>
          if rk \<noteq> ck \<or> take 8 recorded \<noteq> ''transit/'' then None
          else if decimal n \<and> dec_val n < 2 ^ 63 \<and> 1 \<le> dec_val n then Some (dec_val n) else None
      | _ \<Rightarrow> None)"

text \<open>The provider's keyed digest of the request under a version, 0 for the latest: a fingerprint with its
  key's reference, or \<^verbatim>\<open>keyedFingerprint\<close>'s refusal.\<close>

type_synonym digester = "nat \<Rightarrow> (refusal, string \<times> string) res"

definition same :: "digester \<Rightarrow> request \<Rightarrow> idem_row \<Rightarrow> refusal option" where
  "same digest q rec =
     (let reused = with_extra ''request'' (rc_request rec) (refuse 422 ''idempotency-key-reused'' []) in
      if rc_fp_key rec = q_fp_key q then (if rc_fingerprint rec = q_fingerprint q then None else Some reused)
      else
        (case recorded_version (rc_fp_key rec) (q_fp_key q) of
           None \<Rightarrow> Some reused
         | Some v \<Rightarrow>
             if rt_keyed (q_route q) = [] then Some reused
             else
               (case digest v of
                  Inl r \<Rightarrow> if rf_code r = ''dependency-unavailable'' then Some r else Some reused
                | Inr (fp, key) \<Rightarrow> if key \<noteq> rc_fp_key rec \<or> fp \<noteq> rc_fingerprint rec then Some reused else None)))"

text \<open>An answer: the problem of a refusal, or a record's response with its replay mark.\<close>

record stored_answer =
  sa_status :: nat
  sa_location :: string
  sa_etag :: string
  sa_body :: string
  sa_replayed :: bool

datatype reply = Problem refusal | Stored stored_answer

text \<open>\<open>minted\<close> is the epoch the process minted, which an entry's record must be in. Completing the
  process's own entry, the other half of \<^verbatim>\<open>entryReplay\<close>, is \<open>entry_replay\<close> of Recovery.\<close>

definition entry_refusal :: "string \<Rightarrow> request \<Rightarrow> idem_row \<Rightarrow> refusal option" where
  "entry_refusal minted q rec =
     (if rt_pattern (q_route q) = entry_pattern \<and> rc_epoch rec \<noteq> minted
      then Some (with_extra ''epoch'' (rc_epoch rec) (with_extra ''request'' (rc_request rec) (refuse 409 ''conflict'' [])))
      else None)"

definition answer :: "string \<Rightarrow> digester \<Rightarrow> request \<Rightarrow> idem_row \<times> bool \<Rightarrow> bool \<Rightarrow> reply" where
  "answer minted digest q rc replayed =
     (let rec = fst rc in
      case entry_refusal minted q rec of
        Some r \<Rightarrow> Problem r
      | None \<Rightarrow>
          if \<not> snd rc
          then Problem (with_extra ''epoch'' (rc_epoch rec) (with_extra ''request'' (rc_request rec) (refuse 409 ''conflict'' [])))
          else
            (case same digest q rec of
               Some r \<Rightarrow> Problem r
             | None \<Rightarrow> Stored \<lparr>sa_status = rc_status rec, sa_location = rc_location rec, sa_etag = rc_etag rec,
                               sa_body = rc_body rec, sa_replayed = replayed\<rparr>))"

section \<open>The whole request\<close>

text \<open>Everything a request meets that is not the store: what its body's decoding and check refuse, the
  digests, the outcome of \<^verbatim>\<open>admit\<close> and of the route's preparation, what other transactions do before
  each of its own, what the database reports of them, and the acts' identifiers.\<close>

record world =
  wd_query :: bool
  wd_body :: "refusal option"
  wd_digest :: digester
  wd_admit :: "(refusal, string) res"
  wd_before :: "store \<Rightarrow> store"
  wd_lookup :: "merr option"
  wd_again :: "store \<Rightarrow> store"
  wd_relock :: "merr option"
  wd_prepare :: "merr option"
  wd_env :: "nat \<Rightarrow> store \<Rightarrow> store"
  wd_fault :: "nat \<Rightarrow> fault"
  wd_act :: "nat \<Rightarrow> string"

definition fingerprinted :: "world \<Rightarrow> request \<Rightarrow> (refusal, request) res" where
  "fingerprinted w q =
     (if rt_keyed (q_route q) = [] then Inr q
      else case wd_digest w 0 of Inl r \<Rightarrow> Inl r | Inr (fp, key) \<Rightarrow> Inr (q\<lparr>q_fingerprint := fp, q_fp_key := key\<rparr>))"

definition admitted :: "world \<Rightarrow> request \<Rightarrow> (refusal, request) res" where
  "admitted w q =
     (if ca_kind (q_caller q) \<noteq> Human then Inr q
      else case wd_admit w of Inl r \<Rightarrow> Inl r | Inr i \<Rightarrow> Inr (q\<lparr>q_caller := (q_caller q)\<lparr>ca_id := i\<rparr>\<rparr>))"

definition reading :: "merr option \<Rightarrow> request \<Rightarrow> store \<Rightarrow> request \<times> (merr, (idem_row \<times> bool) option) res" where
  "reading e q s = (case e of Some x \<Rightarrow> (q, Inl x) | None \<Rightarrow> lookup q s)"

definition mismatch :: "merr \<Rightarrow> bool" where
  "mismatch e \<longleftrightarrow> (case as_refusal e of Some r \<Rightarrow> rf_code r = ''epoch-mismatch'' | None \<Rightarrow> False)"

text \<open>The lookup without the key's lock, and again under it when it met an epoch mismatch.\<close>

definition first_lookup :: "world \<Rightarrow> request \<Rightarrow> store \<Rightarrow> (request \<times> (merr, (idem_row \<times> bool) option) res) \<times> store" where
  "first_lookup w q s =
     (let s1 = wd_before w s in
      case reading (wd_lookup w) q s1 of
        (q1, Inl e) \<Rightarrow> if mismatch e then (let s2 = wd_again w s1 in (reading (wd_relock w) q1 s2, s2)) else ((q1, Inl e), s1)
      | r \<Rightarrow> (r, s1))"

text \<open>The reply, the store, and whether the request's own commit is confirmed, when the effect's work
  after the commit, if it has any, runs.\<close>

definition execute :: "string \<Rightarrow> effect \<Rightarrow> world \<Rightarrow> request \<Rightarrow> store \<Rightarrow> reply \<times> store \<times> bool" where
  "execute minted eff w q s =
     (case run eff (wd_env w) (wd_act w) (wd_fault w) q s of
        (q', Inl e, s') \<Rightarrow> (Problem (failure e), s', False)
      | (q', Inr (rc, fresh), s') \<Rightarrow> (answer minted (wd_digest w) q' rc (\<not> fresh), s', fresh))"

definition mutate :: "string \<Rightarrow> effect \<Rightarrow> world \<Rightarrow> request \<Rightarrow> store \<Rightarrow> reply \<times> store \<times> bool" where
  "mutate minted eff w q s =
     (if wd_query w then (Problem (refuse 400 ''invalid-request'' []), s, False)
      else case wd_body w of
        Some r \<Rightarrow> (Problem r, s, False)
      | None \<Rightarrow>
          (case and_then (fingerprinted w q) (admitted w) of
             Inl r \<Rightarrow> (Problem r, s, False)
           | Inr q0 \<Rightarrow>
               (case first_lookup w q0 s of
                  ((q1, Inl e), s1) \<Rightarrow> (Problem (failure (Unavailable e)), s1, False)
                | ((q1, Inr (Some rc)), s1) \<Rightarrow> (answer minted (wd_digest w) q1 rc True, s1, False)
                | ((q1, Inr None), s1) \<Rightarrow>
                    (case wd_prepare w of
                       Some e \<Rightarrow> (Problem (failure e), s1, False)
                     | None \<Rightarrow> execute minted eff w q1 s1))))"

section \<open>Routes whose effects are modelled\<close>

text \<open>An effect's error as the transaction returns it.\<close>

fun of_api :: "api_error \<Rightarrow> merr" where
  "of_api (ApiRefused st code) = Refused (refuse st code [])"
| "of_api ErrNotController = NotController"
| "of_api _ = OtherError"

definition actor_of :: "request \<Rightarrow> actor" where
  "actor_of q = \<lparr>w_principal = ca_id (q_caller q), w_role = q_role q, w_act = q_act q\<rparr>"

text \<open>Freezing and unfreezing a machine, with the body's encoding as an argument.\<close>

definition freeze_effect :: "(freeze_row \<Rightarrow> string) \<Rightarrow> string \<Rightarrow> string \<Rightarrow> bool \<Rightarrow> int \<Rightarrow> effect" where
  "freeze_effect enc m reason freeze at q d =
     (case set_freeze (actor_of q) m reason freeze at (disp d) of
        Inl e \<Rightarrow> Inl (of_api e)
      | Inr db \<Rightarrow> Inr (q, \<lparr>rs_status = 201, rs_location = ''/api/v1/machines/'' @ m, rs_etag = [],
                         rs_body = enc (last (freezes db)), rs_subjects = [m], rs_operation = []\<rparr>, d\<lparr>disp := db\<rparr>))"

text \<open>Entering recovery: the transaction's epoch becomes the one it mints.\<close>

definition entry_effect :: "(entry_body \<Rightarrow> string) \<Rightarrow> controller \<Rightarrow> string \<Rightarrow> string \<Rightarrow> entry_request \<Rightarrow> int \<Rightarrow> (nat \<Rightarrow> int) \<Rightarrow> effect" where
  "entry_effect enc c started ep rq at clk q d =
     (case enter_recovery c started (actor_of q) ep rq at clk d of
        Inl e \<Rightarrow> Inl (of_api e)
      | Inr (b, d') \<Rightarrow> Inr (q\<lparr>q_epoch := ep, q_recovery := True\<rparr>,
                         \<lparr>rs_status = 201, rs_location = ''/api/v1/recovery'', rs_etag = [], rs_body = enc b,
                          rs_subjects = [ep], rs_operation = []\<rparr>, d'))"

end
