(* ===== verification/Mutation_Props.thy ===== *)
theory Mutation_Props
  imports Mutation Recovery_Example
begin

text \<open>
  What the commit of a mutating request promises. The locale \<open>keyed_effect\<close> is what the transaction
  needs of a route's effect; the freeze and the recovery entry interpret it. From it: a request's effect
  is applied in at most one transaction whatever the database reports, the reply says whether it was,
  and a retry under the same key is answered from the record without a second effect.
\<close>

section \<open>The contract of an effect\<close>

text \<open>An effect changes nothing of the request but the epoch and the mode it reads, leaves the request in
  the epoch of the installation it leaves, and never reports a deadlock of its own: the database does.\<close>

locale keyed_effect =
  fixes eff :: effect
  assumes keeps: "eff q d = Inr (q', r, d') \<Longrightarrow> q'\<lparr>q_epoch := [], q_recovery := False\<rparr> = q\<lparr>q_epoch := [], q_recovery := False\<rparr>"
    and epoch: "eff q d = Inr (q', r, d') \<Longrightarrow> q_epoch q = inst_epoch (disp d) \<Longrightarrow> q_epoch q' = inst_epoch (disp d')"
    and no_deadlock: "eff q d = Inl e \<Longrightarrow> \<not> is_deadlock e"

section \<open>One attempt\<close>

text \<open>The request as it enters the effect of an attempt on \<open>t\<close>.\<close>

definition looked :: "request \<Rightarrow> store \<Rightarrow> request" where
  "looked q t = q\<lparr>q_epoch := st_epoch t, q_recovery := recovery_mode (disp (st_dom t))\<rparr>"

definition entering :: "request \<Rightarrow> string \<Rightarrow> store \<Rightarrow> request" where
  "entering q a t = (looked q t)\<lparr>q_act := a\<rparr>"

lemma lookup_looked: "fst (lookup q t) = looked q t"
  by (simp add: lookup_def looked_def Let_def)

lemma looked_epoch [simp]: "q_epoch (looked q t) = st_epoch t" "q_epoch (entering q a t) = st_epoch t"
  by (simp_all add: looked_def entering_def)

definition base :: "request \<Rightarrow> request" where
  "base q = q\<lparr>q_epoch := [], q_recovery := False, q_act := []\<rparr>"

abbreviation alike :: "request \<Rightarrow> request \<Rightarrow> bool" where
  "alike q q' \<equiv> base q' = base q"

text \<open>The attempt on \<open>t\<close> applied the effect once and wrote its record.\<close>

definition committed :: "effect \<Rightarrow> string \<Rightarrow> request \<Rightarrow> store \<Rightarrow> store \<Rightarrow> idem_row \<times> bool \<Rightarrow> bool" where
  "committed eff a q t s' rc \<longleftrightarrow>
     record_for (ca_id (q_caller q)) (q_key q) t = None \<and>
     (\<exists>q3 r d. eff (entering q a t) (st_dom t) = Inr (q3, r, d) \<and> s' = write_act q3 r d t \<and> rc = (record_of q3 r, True))"

text \<open>What an outcome says of the store: a fresh record was written here, a found one was there, and an
  error left the store as it was unless the outcome is unknown.\<close>

definition truthful :: "effect \<Rightarrow> string \<Rightarrow> request \<Rightarrow> store \<Rightarrow> outcome \<Rightarrow> store \<Rightarrow> bool" where
  "truthful eff a q t out s' =
     (case out of
        Inr (rc, fresh) \<Rightarrow>
          if fresh then committed eff a q t s' rc
          else s' = t \<and> record_for (ca_id (q_caller q)) (q_key q) t = Some (fst rc) \<and> snd rc = (rc_epoch (fst rc) = st_epoch t)
      | Inl e \<Rightarrow> s' = t \<or> e = UnknownOutcome \<and> (\<exists>rc. committed eff a q t s' rc))"

lemma base_fields:
  "q_caller (base q) = q_caller q" "q_key (base q) = q_key q" "q_fingerprint (base q) = q_fingerprint q"
  "q_fp_key (base q) = q_fp_key q" "q_id (base q) = q_id q" "q_route (base q) = q_route q" "q_expected (base q) = q_expected q"
  by (simp_all add: base_def)

lemma alike_fields:
  assumes "alike q q'"
  shows "q_caller q' = q_caller q" "q_key q' = q_key q" "q_fingerprint q' = q_fingerprint q" "q_fp_key q' = q_fp_key q"
    "q_id q' = q_id q" "q_route q' = q_route q" "q_expected q' = q_expected q"
  using assms base_fields by metis+

lemma snd_lookup_base: "snd (lookup (base q) t) = snd (lookup q t)"
  by (auto simp: base_def lookup_def stale_token_def Let_def split: option.split)

lemma entering_base: "entering (base q) a t = entering q a t"
  by (simp add: base_def looked_def entering_def)

lemma lookup_alike:
  assumes "alike q q'"
  shows "snd (lookup q' t) = snd (lookup q t)" "entering q' a t = entering q a t"
  using assms snd_lookup_base entering_base by metis+

lemma alike_entering [simp]: "base (entering q a t) = base q" "base (looked q t) = base q"
  by (simp_all add: base_def looked_def entering_def)

lemma lookup_cases:
  obtains (refused) r where "lookup q t = (looked q t, Inl (Refused r))"
  | (found) r where "record_for (ca_id (q_caller q)) (q_key q) t = Some r"
      "lookup q t = (looked q t, Inr (Some (r, rc_epoch r = st_epoch t)))"
  | (absent) "record_for (ca_id (q_caller q)) (q_key q) t = None" "lookup q t = (looked q t, Inr None)"
proof (cases "snd (lookup q t)")
  case (Inl e)
  then obtain r where "e = Refused r" by (auto simp: lookup_def Let_def split: option.split_asm if_split_asm)
  then show ?thesis using refused Inl by (simp add: lookup_looked [symmetric] prod_eq_iff)
next
  case (Inr x)
  then show ?thesis using found absent lookup_looked [of q t]
    by (cases "record_for (ca_id (q_caller q)) (q_key q) t")
       (auto simp: lookup_def Let_def split: option.split_asm if_split_asm)
qed

lemma record_for_new:
  "record_for who key s = None \<Longrightarrow> ca_id (q_caller q) = who \<Longrightarrow> q_key q = key \<Longrightarrow>
   record_for who key (write_act q r d s) = Some (record_of q r)"
  by (auto simp: record_for_def write_act_def record_of_def find_None_iff find_Some_iff nth_append)

context keyed_effect
begin

lemma effect_alike: "eff (entering q a t) d = Inr (q3, r, d') \<Longrightarrow> alike q q3"
proof -
  assume "eff (entering q a t) d = Inr (q3, r, d')"
  then have "(q3\<lparr>q_epoch := [], q_recovery := False\<rparr>)\<lparr>q_act := []\<rparr> = ((entering q a t)\<lparr>q_epoch := [], q_recovery := False\<rparr>)\<lparr>q_act := []\<rparr>"
    using keeps by metis
  then have "base q3 = base (entering q a t)" by (simp add: base_def)
  then show ?thesis by simp
qed

text \<open>The lost COMMIT: the read back finds the record exactly when the server committed.\<close>

lemma resolve_commit_truthful:
  assumes e: "eff (entering q a t) (st_dom t) = Inr (q3, r, d)" and none: "record_for (ca_id (q_caller q)) (q_key q) t = None"
    and out: "resolve_commit q3 (record_of q3 r) cerr landed rb t (write_act q3 r d t) = (out, s')"
  shows "truthful eff a q t out s'"
proof -
  note f = alike_fields [OF effect_alike [OF e]]
  let ?mine = "\<lambda>x. rc_principal x = ca_id (q_caller q3) \<and> rc_key x = q_key q3 \<and> rc_request x = q_id q3"
  have "filter ?mine (st_records t) = []"
    using none f(1,2) by (auto simp: record_for_def find_None_iff filter_empty_conv)
  then have count: "length (filter ?mine (st_records (if b then write_act q3 r d t else t))) = (if b then 1 else 0)" for b
    by (simp add: write_act_def record_of_def)
  show ?thesis
    using out e none count [of landed] unfolding resolve_commit_def truthful_def committed_def
    by (cases rb; cases "landed") (auto simp: Let_def split: if_split_asm)
qed

lemma attempt_truthful:
  assumes "attempt_act eff a f q t = (q', out, s')"
  shows "truthful eff a q t out s' \<and> alike q q'"
proof (cases "(\<exists>e. f = AtBegin e) \<or> (\<exists>e. f = AtLock e)")
  case True
  then show ?thesis using assms by (auto simp: attempt_act_def truthful_def)
next
  case False
  note f = False
  show ?thesis
  proof (cases q t rule: lookup_cases)
    case (refused r)
    then show ?thesis using assms f by (cases f) (auto simp: attempt_act_def truthful_def)
  next
    case (found r)
    then show ?thesis using assms f by (cases f) (auto simp: attempt_act_def truthful_def)
  next
    case absent
    have enter: "(looked q t)\<lparr>q_act := a\<rparr> = entering q a t" by (simp add: entering_def)
    show ?thesis
    proof (cases "eff (entering q a t) (st_dom t)")
      case (Inl e)
      then show ?thesis using assms absent f by (cases f) (auto simp: attempt_act_def enter truthful_def)
    next
      case (Inr x)
      obtain q3 r d where x: "eff (entering q a t) (st_dom t) = Inr (q3, r, d)" using Inr by (cases x) auto
      note al = effect_alike [OF x]
      show ?thesis
      proof (cases "\<exists>c l rb. f = AtCommit c l rb")
        case True
        then show ?thesis using assms x al absent(2)
          by (auto simp: attempt_act_def enter intro: resolve_commit_truthful [OF x absent(1)])
      next
        case False
        then show ?thesis using assms x al absent f
          by (cases f) (auto simp: attempt_act_def enter truthful_def committed_def)
      qed
    qed
  qed
qed

end

section \<open>The retries\<close>

primrec before :: "(nat \<Rightarrow> store \<Rightarrow> store) \<Rightarrow> nat \<Rightarrow> store \<Rightarrow> store" where
  "before env 0 s = s"
| "before env (Suc k) s = env (Suc k) (before env k s)"

lemma truthful_alike:
  assumes "alike q q'"
  shows "truthful eff a q' t out s' = truthful eff a q t out s'"
  unfolding truthful_def committed_def alike_fields(1,2) [OF assms] lookup_alike(2) [OF assms] by (rule refl)

lemma cause_deadlock: "is_deadlock e \<Longrightarrow> e \<noteq> UnknownOutcome"
  by (auto simp: is_deadlock_def)

definition deadlocking :: "fault \<Rightarrow> bool" where
  "deadlocking f = (case f of AtLock e \<Rightarrow> is_deadlock e | AtEffect e \<Rightarrow> is_deadlock e | AtRecord e \<Rightarrow> is_deadlock e
     | AtCommit e landed rb \<Rightarrow> e = PgError ''40P01'' | _ \<Rightarrow> False)"

context keyed_effect
begin

lemma run_from_truthful:
  "run_from eff env act fs n q' (before env (n - 1) s) = (q'', out, s') \<Longrightarrow> alike q q' \<Longrightarrow> 1 \<le> n \<Longrightarrow> n \<le> max_attempts \<Longrightarrow>
   \<exists>k. n \<le> k \<and> k \<le> max_attempts \<and> truthful eff (act k) q (before env k s) out s' \<and> alike q q''"
proof (induction "max_attempts - n" arbitrary: n q' rule: less_induct)
  case (less n q')
  have env: "env n (before env (n - 1) s) = before env n s" using less.prems(3) by (cases n) auto
  obtain q1 o1 s1 where a: "attempt_act eff (act n) (fs n) q' (before env n s) = (q1, o1, s1)" using prod_cases3 by blast
  have t: "truthful eff (act n) q (before env n s) o1 s1" and al: "alike q q1"
    using attempt_truthful [OF a] truthful_alike [OF less.prems(2)] less.prems(2) by auto
  consider (retry) e where "o1 = Inl e" "is_deadlock e" "n < max_attempts" | (last) e where "o1 = Inl e" "is_deadlock e" "\<not> n < max_attempts"
    | (ended) "run_from eff env act fs n q' (before env (n - 1) s) = (q1, o1, s1)"
    using a env less.prems(4) by (cases o1) (force simp: run_from.simps [of _ _ _ _ n])+
  then show ?case
  proof cases
    case retry
    then have "s1 = before env n s" using t cause_deadlock by (auto simp: truthful_def)
    then have "run_from eff env act fs (Suc n) q1 (before env (Suc n - 1) s) = (q'', out, s')"
      using less.prems(1) a env retry by (simp add: run_from.simps [of _ _ _ _ n])
    then obtain k where "Suc n \<le> k" "k \<le> max_attempts" "truthful eff (act k) q (before env k s) out s'" "alike q q''"
      using less.hyps [of "Suc n" q1] retry(3) al by fastforce
    then show ?thesis by (intro exI [of _ k]) simp
  next
    case last
    then have "out = Inl (Transient e)" "q'' = q1" "s' = s1" using less.prems(1) a env by (auto simp: run_from.simps [of _ _ _ _ n])
    moreover have "s1 = before env n s" using t cause_deadlock last by (auto simp: truthful_def)
    ultimately show ?thesis using al less.prems(4) by (intro exI [of _ n]) (simp add: truthful_def)
  next
    case ended
    then show ?thesis using t al less.prems(1,4) by (intro exI [of _ n]) simp
  qed
qed

text \<open>A faultless attempt is not a deadlock, and one that meets a deadlock either fails with it or ends
  before it is met, as a faultless one does.\<close>

lemma faultless_no_deadlock: "attempt_act eff a NoFault q t = (q', Inl e, s') \<Longrightarrow> \<not> is_deadlock e"
  using no_deadlock by (cases q t rule: lookup_cases)
    (auto simp: attempt_act_def Let_def is_deadlock_def split: sum.split_asm prod.split_asm)

lemma deadlocking_attempt:
  assumes "deadlocking f"
  shows "(\<exists>q' e. attempt_act eff a f q t = (q', Inl e, t) \<and> is_deadlock e) \<or> attempt_act eff a f q t = attempt_act eff a NoFault q t"
proof (cases q t rule: lookup_cases)
  case absent
  then show ?thesis using assms
    by (cases f) (auto simp: attempt_act_def Let_def resolve_commit_def deadlocking_def is_deadlock_def is_pg_def conn_lost_def split: sum.split prod.split)
qed (use assms in \<open>cases f; auto simp: attempt_act_def deadlocking_def\<close>)+

lemma attempt_alike:
  assumes "alike q q'"
  shows "snd (attempt_act eff a NoFault q' t) = snd (attempt_act eff a NoFault q t)"
proof -
  have e: "(looked q' t)\<lparr>q_act := a\<rparr> = (looked q t)\<lparr>q_act := a\<rparr>" using lookup_alike(2) [OF assms] by (simp add: entering_def)
  have "lookup q' t = (looked q' t, snd (lookup q t))" "lookup q t = (looked q t, snd (lookup q t))"
    using lookup_alike(1) [OF assms] by (simp_all add: prod_eq_iff lookup_looked)
  then show ?thesis using e
    by (cases "snd (lookup q t)") (auto simp: attempt_act_def Let_def split: option.split sum.split prod.split)
qed

lemma run_from_ends:
  "alike q q' \<Longrightarrow> 1 \<le> n \<Longrightarrow> n \<le> k \<Longrightarrow> k \<le> max_attempts \<Longrightarrow> fs k = NoFault \<Longrightarrow> (\<And>i. n \<le> i \<Longrightarrow> i < k \<Longrightarrow> deadlocking (fs i)) \<Longrightarrow>
   \<exists>j. n \<le> j \<and> j \<le> k \<and>
     snd (run_from eff env act fs n q' (before env (n - 1) s)) = snd (attempt_act eff (act j) NoFault q (before env j s))"
proof (induction "k - n" arbitrary: n q' rule: less_induct)
  case (less n q')
  have env: "env n (before env (n - 1) s) = before env n s" using less.prems(2) by (cases n) auto
  let ?a = "\<lambda>f. attempt_act eff (act n) f q' (before env n s)"
  show ?case
  proof (cases "?a (fs n) = ?a NoFault")
    case True
    obtain q1 o1 s1 where a: "?a NoFault = (q1, o1, s1)" using prod_cases3 by blast
    then have "run_from eff env act fs n q' (before env (n - 1) s) = (q1, o1, s1)"
      using True env faultless_no_deadlock by (cases o1) (fastforce simp: run_from.simps [of _ _ _ _ n])+
    then show ?thesis using a attempt_alike [OF less.prems(1), of "act n" "before env n s"] less.prems(3)
      by (intro exI [of _ n]) simp
  next
    case False
    then have lt: "n < k" using less.prems(3,5) by (cases "n = k") auto
    then obtain q1 e where a: "?a (fs n) = (q1, Inl e, before env n s)" "is_deadlock e"
      using deadlocking_attempt [OF less.prems(6) [of n]] False by blast
    have "alike q q1" using attempt_truthful [OF a(1)] less.prems(1) by simp
    then obtain j where "Suc n \<le> j" "j \<le> k"
      "snd (run_from eff env act fs (Suc n) q1 (before env n s)) = snd (attempt_act eff (act j) NoFault q (before env j s))"
      using less.hyps [OF diff_less_mono2 [of n "Suc n" k], of q1] less.prems lt by auto
    moreover have "run_from eff env act fs n q' (before env (n - 1) s) = run_from eff env act fs (Suc n) q1 (before env n s)"
      using a env lt less.prems(4) by (simp add: run_from.simps [of _ _ _ _ n])
    ultimately show ?thesis by (intro exI [of _ j]) simp
  qed
qed

end

section \<open>The modelled routes keep the contract\<close>

lemma of_api_no_deadlock: "\<not> is_deadlock (of_api e)"
  by (cases e rule: of_api.cases) (simp_all add: is_deadlock_def)

lemma set_freeze_epoch: "set_freeze w m reason fz at db = Inr db' \<Longrightarrow> inst_epoch db' = inst_epoch db"
  by (auto simp: set_freeze_def and_then_ok Let_def add_event_def split: if_split_asm)

interpretation freezing: keyed_effect "freeze_effect enc m reason fz at"
  by unfold_locales
     (auto simp: freeze_effect_def of_api_no_deadlock set_freeze_epoch split: sum.split_asm)

lemma each_row_keeps:
  assumes "\<And>x s s'. f x s = Inr s' \<Longrightarrow> g s' = g s"
  shows "each_row f xs s = Inr s' \<Longrightarrow> g s' = g s"
  using assms by (induction xs arbitrary: s) (auto simp: and_then_ok)

lemma append_entry_epoch: "append_entry m ep e at db = Inr (rv, db') \<Longrightarrow> inst_epoch db' = inst_epoch db"
  by (auto simp: append_entry_def next_entry_def add_event_def and_then_ok split: option.split_asm)

lemma entry_rows_epoch:
  "fail_on_entry ep clk j s = Inr s' \<Longrightarrow> inst_epoch (disp s') = inst_epoch (disp s)"
  "take_on_entry c ep clk x db = Inr db' \<Longrightarrow> inst_epoch db' = inst_epoch db"
  "close_on_entry w ep clk m db = Inr db' \<Longrightarrow> inst_epoch db' = inst_epoch db"
  by (auto simp: fail_on_entry_def take_on_entry_def close_on_entry_def move_scope_def set_scope_def update_op_def Let_def
      and_then_ok dest!: append_entry_epoch split: if_split_asm prod.split_asm)

lemma enter_recovery_epoch:
  assumes "enter_recovery c start w ep rq at clk s = Inr (b, s')"
  shows "inst_epoch (disp s') = ep"
  using assms each_row_keeps [of "fail_on_entry ep clk" "\<lambda>s. inst_epoch (disp s)", OF entry_rows_epoch(1)]
    each_row_keeps [of "take_on_entry c ep clk" inst_epoch, OF entry_rows_epoch(2)]
    each_row_keeps [of "close_on_entry w ep clk" inst_epoch, OF entry_rows_epoch(3)]
  by (fastforce simp: enter_recovery_def Let_def and_then_ok split: if_split_asm)

interpretation entry: keyed_effect "entry_effect enc c started ep rq at clk"
  by unfold_locales
     (auto simp: entry_effect_def of_api_no_deadlock enter_recovery_epoch split: sum.split_asm)

section \<open>Facts the effect writes with its act\<close>

text \<open>An effect that writes one row with the act's identifier: over any run, the rows it adds are the
  acts added.\<close>

locale act_rows = keyed_effect +
  fixes rows :: "recovery_db \<Rightarrow> string list"
  assumes writes_act: "eff q d = Inr (q', r, d') \<Longrightarrow> rows d' = rows d @ [q_act q]"
begin

lemma effect_act:
  assumes "eff q d = Inr (q', r, d')"
  shows "q_act q' = q_act q"
  using arg_cong [OF keeps [OF assms], of q_act] by simp

lemma truthful_rows:
  assumes "truthful eff a q t out s'"
  shows "rows (st_dom s') = rows (st_dom t) @ map ac_id (drop (length (st_acts t)) (st_acts s')) \<and>
    length (st_acts s') \<le> Suc (length (st_acts t)) \<and> length (st_records s') + length (st_acts t) = length (st_records t) + length (st_acts s')"
proof -
  have "s' = t \<or> (\<exists>rc. committed eff a q t s' rc)" using assms by (auto simp: truthful_def split: sum.split_asm if_split_asm)
  then show ?thesis
  proof
    assume "\<exists>rc. committed eff a q t s' rc"
    then obtain q3 r d where e: "eff (entering q a t) (st_dom t) = Inr (q3, r, d)" "s' = write_act q3 r d t" by (auto simp: committed_def)
    then show ?thesis using writes_act [OF e(1)] effect_act [OF e(1)] by (simp add: write_act_def act_of_def entering_def)
  qed simp
qed

lemma run_rows:
  assumes "run eff (\<lambda>_ s. s) act fs q s = (q', out, s')"
  shows "rows (st_dom s') = rows (st_dom s) @ map ac_id (drop (length (st_acts s)) (st_acts s')) \<and>
    length (st_acts s') \<le> Suc (length (st_acts s)) \<and> length (st_records s') + length (st_acts s) = length (st_records s) + length (st_acts s')"
proof -
  have "before (\<lambda>_ s. s) k s = s" for k by (induction k) auto
  then show ?thesis
    using run_from_truthful [of "\<lambda>_ s. s" act fs 1 q s q' out s' q] assms truthful_rows
    by (auto simp: run_def max_attempts_def)
qed

end

lemma set_freeze_rows: "set_freeze w m reason fz at db = Inr db' \<Longrightarrow> map fz_act (freezes db') = map fz_act (freezes db) @ [w_act w]"
  by (auto simp: set_freeze_def and_then_ok Let_def add_event_def split: if_split_asm)

interpretation freeze_facts: act_rows "freeze_effect enc m reason fz at" "\<lambda>d. map fz_act (freezes (disp d))"
  by unfold_locales (auto simp: freeze_effect_def set_freeze_rows actor_of_def split: sum.split_asm)

section \<open>What a request and its retries see\<close>

text \<open>Records are immutable: whatever else commits, a key's record stays.\<close>

definition keeps_records :: "store \<Rightarrow> store \<Rightarrow> bool" where
  "keeps_records s s' \<longleftrightarrow> (\<forall>who key r. record_for who key s = Some r \<longrightarrow> record_for who key s' = Some r)"

text \<open>The request past the checks that need no transaction.\<close>

definition ready :: "world \<Rightarrow> request \<Rightarrow> request \<Rightarrow> bool" where
  "ready w q q0 \<longleftrightarrow> \<not> wd_query w \<and> wd_body w = None \<and> and_then (fingerprinted w q) (admitted w) = Inr q0"

definition same_request :: "request \<Rightarrow> request \<Rightarrow> bool" where
  "same_request q q' \<longleftrightarrow> q_caller q' = q_caller q \<and> q_key q' = q_key q \<and> q_route q' = q_route q \<and>
     q_fingerprint q' = q_fingerprint q \<and> q_fp_key q' = q_fp_key q"

lemma answer_same_request:
  assumes "same_request q q'"
  shows "answer minted digest q' rc b = answer minted digest q rc b"
proof -
  have f: "q_route q' = q_route q" "q_fingerprint q' = q_fingerprint q" "q_fp_key q' = q_fp_key q"
    using assms by (simp_all add: same_request_def)
  show ?thesis unfolding answer_def entry_refusal_def same_def f ..
qed

lemma alike_same_request:
  assumes "alike q q'"
  shows "same_request q q'"
  using alike_fields [OF assms] unfolding same_request_def by blast

lemma answer_stored:
  "answer minted digest q rc b = Stored a \<Longrightarrow>
   snd rc \<and> (\<forall>b'. answer minted digest q rc b' = Stored (a\<lparr>sa_replayed := b'\<rparr>))"
  by (auto simp: answer_def Let_def split: option.split_asm if_split_asm)

lemma first_lookup_cases:
  assumes "first_lookup w q s = ((q1, Inr x), s1)"
  shows "alike q q1 \<and> snd (lookup q1 s1) = Inr x"
proof -
  have r: "alike q q1 \<and> snd (lookup q1 t) = Inr x" if "reading e q' t = (q1, Inr x)" "alike q q'" for e q' t
  proof -
    have l: "lookup q' t = (q1, Inr x)" using that(1) by (simp add: reading_def split: option.split_asm)
    then have "q1 = looked q' t" using lookup_looked [of q' t] by simp
    then have "alike q' q1" by simp
    then show ?thesis using l that(2) lookup_alike(1) [of q' q1 t] by simp
  qed
  show ?thesis
  proof (cases "snd (reading (wd_lookup w) q (wd_before w s))")
    case (Inl e)
    then obtain q2 where q2: "reading (wd_lookup w) q (wd_before w s) = (q2, Inl e)" by (metis prod.collapse)
    then have "alike q q2" using lookup_looked [of q "wd_before w s"] by (auto simp: reading_def split: option.split_asm)
    then show ?thesis using assms q2 r by (auto simp: first_lookup_def Let_def split: if_split_asm)
  next
    case (Inr y)
    then obtain q2 where "reading (wd_lookup w) q (wd_before w s) = (q2, Inr y)" by (metis prod.collapse)
    then show ?thesis using assms r [of "wd_lookup w" q "wd_before w s"] by (auto simp: first_lookup_def Let_def)
  qed
qed

context keyed_effect
begin

lemma truthful_found:
  assumes t: "truthful eff a q t (Inr (rc, fresh)) s'" and cur: "snd rc"
  shows "record_for (ca_id (q_caller q)) (q_key q) s' = Some (fst rc) \<and> rc_epoch (fst rc) = st_epoch s'"
proof (cases fresh)
  case True
  then obtain q3 r d where e: "eff (entering q a t) (st_dom t) = Inr (q3, r, d)" "s' = write_act q3 r d t" "fst rc = record_of q3 r"
    and none: "record_for (ca_id (q_caller q)) (q_key q) t = None"
    using t by (auto simp: truthful_def committed_def)
  have f: "q_caller q3 = q_caller q" "q_key q3 = q_key q" using alike_fields [OF effect_alike [OF e(1)]] by blast+
  have "q_epoch q3 = inst_epoch (disp d)" using epoch [OF e(1)] by simp
  then show ?thesis using record_for_new [OF none, of q3 r d] e f by (simp add: write_act_def record_of_def)
qed (use t cur in \<open>simp add: truthful_def\<close>)

text \<open>A stored answer is a record's that is in the store and of its epoch.\<close>

lemma stored_answer:
  assumes "ready w q q0" and "mutate minted eff w q s = (Stored a, s', confirmed)"
  obtains r b where "record_for (ca_id (q_caller q0)) (q_key q0) s' = Some r" "rc_epoch r = st_epoch s'"
    "answer minted (wd_digest w) q0 (r, True) b = Stored a"
proof -
  obtain q1 x s1 where l: "first_lookup w q0 s = ((q1, Inr x), s1)"
    and m: "(case x of Some rc \<Rightarrow> (answer minted (wd_digest w) q1 rc True, s1, False)
             | None \<Rightarrow> execute minted eff w q1 s1) = (Stored a, s', confirmed)"
    using assms by (auto simp: ready_def mutate_def split: prod.split_asm sum.split_asm option.split_asm)
  have al: "alike q0 q1" and lk: "snd (lookup q1 s1) = Inr x" using first_lookup_cases [OF l] by auto
  note f = alike_fields [OF al]
  show ?thesis
  proof (cases x)
    case (Some rc)
    then have ans: "answer minted (wd_digest w) q0 rc True = Stored a" "s' = s1"
      using m answer_same_request [OF alike_same_request [OF al]] by auto
    moreover have "record_for (ca_id (q_caller q0)) (q_key q0) s1 = Some (fst rc)" "snd rc = (rc_epoch (fst rc) = st_epoch s1)"
      using lk Some f by (cases q1 s1 rule: lookup_cases; auto)+
    moreover have "snd rc" using answer_stored [OF ans(1)] by blast
    ultimately show ?thesis using that [of "fst rc" True] by (cases rc) auto
  next
    case None
    then obtain q2 rc fresh where run: "run eff (wd_env w) (wd_act w) (wd_fault w) q1 s1 = (q2, Inr (rc, fresh), s')"
      and ans: "answer minted (wd_digest w) q2 rc (\<not> fresh) = Stored a"
      using m by (auto simp: execute_def split: prod.split_asm sum.split_asm)
    obtain k where t: "truthful eff (wd_act w k) q1 (before (wd_env w) k s1) (Inr (rc, fresh)) s'" and al2: "alike q1 q2"
      using run_from_truthful [of "wd_env w" "wd_act w" "wd_fault w" 1 q1 s1 q2 "Inr (rc, fresh)" s' q1] run
      by (auto simp: run_def max_attempts_def)
    have "alike q0 q2" using al al2 by simp
    then have ans0: "answer minted (wd_digest w) q0 rc (\<not> fresh) = Stored a"
      using ans answer_same_request [OF alike_same_request] by metis
    moreover have "snd rc" using answer_stored [OF ans] by blast
    ultimately show ?thesis using truthful_found [OF t] f that [of "fst rc" "\<not> fresh"] by (cases rc) auto
  qed
qed

end

lemma recorded_key:
  assumes "ready w q q0" and "wd_lookup w = None" and "stale_token (looked q0 (wd_before w s)) = None"
    and "record_for (ca_id (q_caller q0)) (q_key q0) (wd_before w s) = Some r"
  shows "mutate minted eff w q s =
    (answer minted (wd_digest w) q0 (r, rc_epoch r = st_epoch (wd_before w s)) True, wd_before w s, False)"
proof -
  let ?s = "wd_before w s"
  have "snd (lookup q0 ?s) = Inr (Some (r, rc_epoch r = st_epoch ?s))"
    using assms(3,4) by (simp add: lookup_def looked_def Let_def)
  then have l: "lookup q0 ?s = (looked q0 ?s, Inr (Some (r, rc_epoch r = st_epoch ?s)))"
    using lookup_looked [of q0 ?s] by (metis prod.collapse)
  have "same_request q0 (looked q0 ?s)" by (rule alike_same_request) simp
  note answer_same_request [OF this]
  then show ?thesis using assms(1,2) l by (simp add: mutate_def ready_def first_lookup_def reading_def Let_def)
qed

section \<open>A freeze and its retry\<close>

definition mx_route :: route where
  "mx_route = \<lparr>rt_method = ''POST'', rt_pattern = ''/machines/{id}/freezes'', rt_roles = [''author'', ''approver''], rt_human_only = False,
     rt_if_match = False, rt_normal_start = False, rt_action = ''machine.freeze'', rt_keyed = []\<rparr>"

definition mx_q :: request where
  "mx_q = \<lparr>q_id = ''req1'', q_route = mx_route,
     q_caller = \<lparr>ca_kind = Human, ca_id = ''ann'', ca_epoch = [], ca_roles = [''approver'']\<rparr>, q_role = ''approver'',
     q_epoch = ''e1'', q_recovery = False, q_key = ''key-0123456789ab'', q_if_match = [], q_expected = [], q_fingerprint = ''fp'',
     q_fp_key = [], q_act = []\<rparr>"

definition mx_store :: store where
  "mx_store = \<lparr>st_dom = rx0, st_records = [], st_acts = []\<rparr>"

abbreviation mx_eff :: effect where
  "mx_eff \<equiv> freeze_effect (\<lambda>_. ''{}'') ''m1'' ''stop'' True 40"

text \<open>A world in which the first attempt deadlocks and the second's COMMIT is lost, with \<open>rb\<close> the failure of
  its read back.\<close>

definition mx_world :: "merr option \<Rightarrow> world" where
  "mx_world rb = \<lparr>wd_query = False, wd_body = None, wd_digest = (\<lambda>_. Inl (refuse 503 ''dependency-unavailable'' [])),
     wd_admit = Inr ''ann'', wd_before = id, wd_lookup = None, wd_again = id, wd_relock = None, wd_prepare = None,
     wd_env = (\<lambda>_. id), wd_fault = (\<lambda>n. if n = 1 then AtLock (PgError ''40P01'') else AtCommit NetError True rb),
     wd_act = (\<lambda>n. if n = 1 then ''act1'' else ''act2'')\<rparr>"

definition mx_after :: store where
  "mx_after = fst (snd (mutate [] mx_eff (mx_world None) mx_q mx_store))"

lemma mx_reply:
  "mutate [] mx_eff (mx_world None) mx_q mx_store =
     (Stored \<lparr>sa_status = 201, sa_location = ''/api/v1/machines/m1'', sa_etag = [], sa_body = ''{}'', sa_replayed = False\<rparr>, mx_after, True)"
  unfolding prod_eq_iff mx_after_def by code_simp

lemma mx_ready: "ready (mx_world rb) mx_q mx_q"
  by (simp add: ready_def mx_world_def fingerprinted_def admitted_def mx_q_def mx_route_def and_then_def)

section \<open>Properties\<close>



text \<open>C13. A request answered by a stored response is answered by it again: sent again under the same key in
  the same epoch, as long as records are kept, it gets the same status, headers and body, marked as
  replayed, and its effect does not run again.\<close>

theorem retry_is_replayed:
  assumes "keyed_effect eff" and "ready w q q0" and "mutate minted eff w q s = (Stored a, s1, confirmed)"
    and "ready w2 q2 q02" and "same_request q0 q02" and "wd_digest w2 = wd_digest w" and "wd_lookup w2 = None"
    and "keeps_records s1 (wd_before w2 s2)" and "st_epoch (wd_before w2 s2) = st_epoch s1"
    and "stale_token (looked q02 (wd_before w2 s2)) = None"
  shows "mutate minted eff2 w2 q2 s2 = (Stored (a\<lparr>sa_replayed := True\<rparr>), wd_before w2 s2, False)"
proof -
  obtain r b where r: "record_for (ca_id (q_caller q0)) (q_key q0) s1 = Some r" "rc_epoch r = st_epoch s1"
    "answer minted (wd_digest w) q0 (r, True) b = Stored a"
    using keyed_effect.stored_answer [OF assms(1-3)] by blast
  have "record_for (ca_id (q_caller q02)) (q_key q02) (wd_before w2 s2) = Some r"
    using r(1) assms(5,8) by (simp add: same_request_def keeps_records_def)
  note m = recorded_key [OF assms(4,7,10) this, of minted eff2]
  have "answer minted (wd_digest w) q02 (r, True) True = Stored (a\<lparr>sa_replayed := True\<rparr>)"
    using answer_stored [OF r(3)] answer_same_request [OF assms(5)] by simp
  then show ?thesis using m r(2) assms(6,9) by simp
qed

theorem retry_is_replayed_witness:
  "mutate [] mx_eff (mx_world (Some NetError)) mx_q mx_after =
     (Stored \<lparr>sa_status = 201, sa_location = ''/api/v1/machines/m1'', sa_etag = [], sa_body = ''{}'', sa_replayed = True\<rparr>, mx_after, False)"
proof -
  have "stale_token (looked mx_q (wd_before (mx_world (Some NetError)) mx_after)) = None"
    by (simp add: stale_token_def looked_def mx_q_def)
  then show ?thesis
    using retry_is_replayed [OF freezing.keyed_effect_axioms mx_ready mx_reply mx_ready [of "Some NetError"], of mx_after mx_eff]
    by (simp add: same_request_def mx_world_def keeps_records_def)
qed

text \<open>C26. Deadlocks do not lose a request: when one of the first four attempts meets no fault and the
  earlier ones only deadlocks, the request ends as one faultless attempt ends, on the store as the
  other transactions made it by then.\<close>

theorem run_survives_deadlocks:
  assumes "keyed_effect eff" and "1 \<le> k" and "k \<le> max_attempts" and "fs k = NoFault"
    and "\<And>i. 1 \<le> i \<Longrightarrow> i < k \<Longrightarrow> deadlocking (fs i)"
  shows "\<exists>j \<in> {1..k}. snd (run eff env act fs q s) = snd (attempt_act eff (act j) NoFault q (before env j s))"
  using keyed_effect.run_from_ends [OF assms(1), of q q 1 k fs env act s] assms(2-5)
  by (auto simp: run_def)

theorem run_survives_deadlocks_witness:
  "\<exists>j \<in> {1..4}. snd (run mx_eff (\<lambda>_. id) (\<lambda>n. ''act'') (\<lambda>n. if n < 4 then AtRecord (PgError ''40P01'') else NoFault) mx_q mx_store) =
     snd (attempt_act mx_eff ''act'' NoFault mx_q (before (\<lambda>_. id) j mx_store))"
  by (rule run_survives_deadlocks [OF freezing.keyed_effect_axioms])
     (auto simp: max_attempts_def deadlocking_def is_deadlock_def)

text \<open>A freeze is recorded once with its act: over a request's attempts, whatever the database reports
  of them, the freeze facts added are the acts added, as many as the idempotency records, and at most
  one.\<close>

theorem freeze_facts_are_acts:
  assumes "run (freeze_effect enc m reason fz at) (\<lambda>_ s. s) act fs q s = (q', out, s')"
  shows "map fz_act (freezes (disp (st_dom s'))) =
      map fz_act (freezes (disp (st_dom s))) @ map ac_id (drop (length (st_acts s)) (st_acts s')) \<and>
    length (st_acts s') \<le> Suc (length (st_acts s)) \<and>
    length (st_records s') + length (st_acts s) = length (st_records s) + length (st_acts s')"
  using freeze_facts.run_rows [OF assms] .

theorem freeze_facts_are_acts_witness:
  "length (freezes (disp (st_dom (snd (snd (run mx_eff (\<lambda>_ s. s) (\<lambda>n. ''act'') (\<lambda>n. AtCommit NetError True None) mx_q mx_store)))))) = 1"
proof -
  let ?r = "run mx_eff (\<lambda>_ s. s) (\<lambda>n. ''act'') (\<lambda>n. AtCommit NetError True None) mx_q mx_store"
  have e: "?r = (fst ?r, fst (snd ?r), snd (snd ?r))" by simp
  have "map ac_id (st_acts (snd (snd ?r))) = [''act'']" by code_simp
  moreover have "freezes (disp (st_dom mx_store)) = []" "st_acts mx_store = []" by code_simp+
  ultimately show ?thesis using freeze_facts_are_acts [OF e] by (metis append_Nil drop_0 length_map list.map(1) list.size(3,4) One_nat_def add.commute plus_1_eq_Suc)
qed

text \<open>A key with a record runs nothing: a request under it is refused as a conflict when the record is of
  an earlier epoch, refused as another request's when the fingerprints differ, and answered from the
  record otherwise; the store is not touched.\<close>

theorem recorded_key_runs_nothing:
  assumes "ready w q q0" and "wd_lookup w = None" and "stale_token (looked q0 (wd_before w s)) = None"
    and "record_for (ca_id (q_caller q0)) (q_key q0) (wd_before w s) = Some r"
    and "rt_pattern (q_route q0) \<noteq> entry_pattern" and "rc_fp_key r = q_fp_key q0"
  shows "snd (mutate minted eff w q s) = (wd_before w s, False) \<and>
    (case fst (mutate minted eff w q s) of
       Problem p \<Rightarrow> (rf_status p, rf_code p) = (if rc_epoch r \<noteq> st_epoch (wd_before w s) then (409, ''conflict'') else (422, ''idempotency-key-reused'')) \<and>
         (rc_epoch r \<noteq> st_epoch (wd_before w s) \<or> rc_fingerprint r \<noteq> q_fingerprint q0)
     | Stored a \<Rightarrow> rc_epoch r = st_epoch (wd_before w s) \<and> rc_fingerprint r = q_fingerprint q0 \<and> sa_replayed a \<and>
         sa_status a = rc_status r \<and> sa_body a = rc_body r)"
  using assms(5,6) unfolding recorded_key [OF assms(1-4), of minted eff]
  by (auto simp: answer_def entry_refusal_def same_def Let_def with_extra_def refuse_def)

theorem recorded_key_runs_nothing_witness:
  "snd (mutate [] mx_eff (mx_world None) (mx_q\<lparr>q_fingerprint := ''other''\<rparr>) mx_after) = (mx_after, False)"
proof -
  let ?q = "mx_q\<lparr>q_fingerprint := ''other''\<rparr>"
  obtain r where r: "record_for ''ann'' ''key-0123456789ab'' mx_after = Some r" "rc_fp_key r = []"
  proof -
    have "map_option rc_fp_key (record_for ''ann'' ''key-0123456789ab'' mx_after) = Some []" unfolding mx_after_def by code_simp
    then show ?thesis using that by auto
  qed
  have "ready (mx_world None) ?q ?q"
    by (simp add: ready_def mx_world_def fingerprinted_def admitted_def mx_q_def mx_route_def and_then_def)
  then show ?thesis using recorded_key_runs_nothing [of "mx_world None" ?q ?q mx_after r "[]" mx_eff] r
    by (simp add: stale_token_def looked_def mx_q_def mx_route_def mx_world_def entry_pattern_def)
qed

end
