(* ===== verification/Dep_Classify.thy ===== *)
theory Dep_Classify
  imports BW_Prelude
begin

text \<open>
  The classification of a dependency (\<^verbatim>\<open>internal/classify/classify.go\<close>): one provider answer judged
  against the recorded dependency by the first matching row of a table.

  A time is the nanoseconds since year 1, the zero time being 0, as \<^verbatim>\<open>time.Time\<close> has it. The decoding of
  a JSON body into its fields (an absent one \<open>None\<close>), and the parsing and writing of times in a
  layout, are arguments.
\<close>

section \<open>The answer\<close>

type_synonym time = int

datatype provider = KV | Transit | OtherProvider

datatype dclass = Retained | BlockedClass | Lost | Unknown

datatype reason =
    NoReason | Malformed | Denied | Absent | Unavailable | Unreachable | Unreadable | Destroyed | Pruned
  | InsufficientEvidence | IdentityMismatch | DeletionTimeUndecidable | SoftDeleted | DeletionScheduled
  | SoftDeleteUnobserved | TrimmedUnverified | BelowDecryptionFloorUnverified | Trimmed | BelowDecryptionFloor

record dependency =
  dp_provider :: provider
  dp_object :: string
  dp_version :: int
  dp_created :: time

record kv_entry =
  ke_created :: "string option"
  ke_deletion :: "string option"
  ke_destroyed :: "bool option"

text \<open>A version's own member may fail to decode: it is then \<open>None\<close>.\<close>

record kv_data =
  kd_current :: "int option"
  kd_oldest :: "int option"
  kd_versions :: "(string \<times> kv_entry option) list option"

record transit_data =
  td_keys :: "(string \<times> int option) list option"
  td_latest :: "int option"
  td_min_available :: "int option"
  td_min_decryption :: "int option"
  td_soft_deleted :: string

text \<open>The body as each provider's data: \<open>None\<close> when it is not one JSON object with a data object in it.\<close>

record provider_answer =
  an_status :: int
  an_date :: string
  an_kv :: "kv_data option"
  an_transit :: "transit_data option"
  an_unreachable :: bool

record verdict =
  vd_class :: dclass
  vd_reason :: reason
  vd_created :: time
  vd_deletion :: time
  vd_date :: time

text \<open>Times in text: the layouts of a Date header, each with its parser and its writer, and RFC 3339.\<close>

record clocks =
  ck_layouts :: "((string \<Rightarrow> time option) \<times> (time \<Rightarrow> string)) list"
  ck_rfc3339 :: "string \<Rightarrow> time option"

section \<open>The classification\<close>

definition judged :: "dclass \<Rightarrow> reason \<Rightarrow> verdict" where
  "judged c r = \<lparr>vd_class = c, vd_reason = r, vd_created = 0, vd_deletion = 0, vd_date = 0\<rparr>"

fun parse_layouts :: "((string \<Rightarrow> time option) \<times> (time \<Rightarrow> string)) list \<Rightarrow> string \<Rightarrow> time option" where
  "parse_layouts [] s = None"
| "parse_layouts ((p, f) # ls) s =
     (case p s of Some t \<Rightarrow> if f t = s then Some t else parse_layouts ls s | None \<Rightarrow> parse_layouts ls s)"

definition parse_date :: "clocks \<Rightarrow> string \<Rightarrow> time option" where
  "parse_date ck s = parse_layouts (ck_layouts ck) s"

definition status_reason :: "provider_answer \<Rightarrow> reason" where
  "status_reason a =
     (if an_unreachable a then Unreachable
      else if an_status a = 403 then Denied
      else if an_status a = 404 then Absent
      else if an_status a = 503 then Unavailable
      else if an_status a \<noteq> 200 then Unreadable
      else NoReason)"

text \<open>\<^verbatim>\<open>strconv.FormatInt\<close> in base 10.\<close>

definition format_int :: "int \<Rightarrow> string" where
  "format_int n = (if n < 0 then CHR ''-'' # dec_nat (nat (- n)) else dec_nat (nat n))"

definition decode_kv :: "provider_answer \<Rightarrow> kv_data option" where
  "decode_kv a = (case an_kv a of
     Some d \<Rightarrow> if kd_current d = None \<or> kd_oldest d = None \<or> kd_versions d = None then None else Some d
   | None \<Rightarrow> None)"

definition kv_created :: "clocks \<Rightarrow> string option \<Rightarrow> time option" where
  "kv_created ck s = (case s of None \<Rightarrow> None | Some x \<Rightarrow> ck_rfc3339 ck x)"

text \<open>A version's entry with its deletion time, zero when it has none; \<open>None\<close> when it is unreadable.\<close>

definition read_entry :: "clocks \<Rightarrow> kv_entry option \<Rightarrow> (kv_entry \<times> time) option" where
  "read_entry ck x =
     (case x of
        None \<Rightarrow> None
      | Some e \<Rightarrow>
          if ke_destroyed e = None then None
          else (case ke_deletion e of
             None \<Rightarrow> None
           | Some s \<Rightarrow> if s = [] then Some (e, 0) else map_option (Pair e) (ck_rfc3339 ck s)))"

definition second :: int where
  "second = 1000000000"

definition judge_entry :: "clocks \<Rightarrow> dependency \<Rightarrow> kv_entry \<Rightarrow> time \<Rightarrow> time \<Rightarrow> verdict" where
  "judge_entry ck d e deletion date =
     (case kv_created ck (ke_created e) of
        None \<Rightarrow> judged Unknown IdentityMismatch
      | Some created \<Rightarrow>
          if dp_created d \<noteq> 0 \<and> created \<noteq> dp_created d then judged Unknown IdentityMismatch
          else
            (let r = (judged Retained NoReason)\<lparr>vd_created := created, vd_deletion := deletion\<rparr> in
             if ke_deletion e = Some [] then r
             else if date = 0 \<or> deletion - deletion mod second = date
             then r\<lparr>vd_class := Unknown, vd_reason := DeletionTimeUndecidable\<rparr>
             else if deletion < date then r\<lparr>vd_class := BlockedClass, vd_reason := SoftDeleted\<rparr>
             else r\<lparr>vd_reason := DeletionScheduled\<rparr>))"

text \<open>\<open>None\<close> is the unreadable answer.\<close>

definition classify_kv :: "clocks \<Rightarrow> dependency \<Rightarrow> provider_answer \<Rightarrow> time \<Rightarrow> verdict option" where
  "classify_kv ck d a date =
     (case decode_kv a of
        None \<Rightarrow> None
      | Some kd \<Rightarrow>
         (let raw = map_of (the (kd_versions kd)) (format_int (dp_version d));
              entry = (case raw of None \<Rightarrow> None | Some x \<Rightarrow> read_entry ck x) in
          if raw \<noteq> None \<and> entry = None then None
          else Some
            (case entry of
               Some (e, deletion) \<Rightarrow>
                 if ke_destroyed e = Some True then judged Lost Destroyed
                 else if 0 < the (kd_oldest kd) \<and> dp_version d < the (kd_oldest kd) then judged Lost Pruned
                 else if the (kd_current kd) < dp_version d then judged Unknown InsufficientEvidence
                 else judge_entry ck d e deletion date
             | None \<Rightarrow>
                 if 0 < the (kd_oldest kd) \<and> dp_version d < the (kd_oldest kd) then judged Lost Pruned
                 else judged Unknown InsufficientEvidence)))"

text \<open>Seconds of the Unix epoch, which began that many seconds after year 1.\<close>

definition unix_time :: "int \<Rightarrow> time" where
  "unix_time s = (s + 62135596800) * second"

definition decode_transit :: "provider_answer \<Rightarrow> transit_data option" where
  "decode_transit a = (case an_transit a of
     Some d \<Rightarrow> if td_keys d = None then None else Some d | None \<Rightarrow> None)"

definition judge_key :: "dependency \<Rightarrow> transit_data \<Rightarrow> int option \<Rightarrow> verdict" where
  "judge_key d td listed =
     (let created = (case listed of Some secs \<Rightarrow> unix_time secs | None \<Rightarrow> 0);
          r = (judged Retained NoReason)\<lparr>vd_created := created\<rparr> in
      if listed \<noteq> None \<and> dp_created d \<noteq> 0 \<and> created \<noteq> dp_created d then judged Unknown IdentityMismatch
      else if td_soft_deleted td \<noteq> ''false'' then judged Unknown SoftDeleteUnobserved
      else if td_min_available td = None \<or> td_min_decryption td = None \<or> td_latest td = None
      then judged Unknown InsufficientEvidence
      else if the (td_latest td) < dp_version d then judged Unknown InsufficientEvidence
      else
        (let below_available = 0 < the (td_min_available td) \<and> dp_version d < the (td_min_available td);
             below_decryption = dp_version d < the (td_min_decryption td) in
         if listed = None then
           (if below_available then judged Unknown TrimmedUnverified
            else if below_decryption then judged Unknown BelowDecryptionFloorUnverified
            else judged Unknown InsufficientEvidence)
         else if below_available then r\<lparr>vd_class := Lost, vd_reason := Trimmed\<rparr>
         else if below_decryption then r\<lparr>vd_class := BlockedClass, vd_reason := BelowDecryptionFloor\<rparr>
         else r))"

definition classify_transit :: "dependency \<Rightarrow> provider_answer \<Rightarrow> verdict option" where
  "classify_transit d a =
     (case decode_transit a of
        None \<Rightarrow> None
      | Some td \<Rightarrow>
         (case map_of (the (td_keys td)) (format_int (dp_version d)) of
            None \<Rightarrow> Some (judge_key d td None)
          | Some None \<Rightarrow> None
          | Some (Some secs) \<Rightarrow> Some (judge_key d td (Some secs))))"

definition classify :: "clocks \<Rightarrow> dependency \<Rightarrow> provider_answer \<Rightarrow> verdict" where
  "classify ck d a =
     (let date = (case parse_date ck (an_date a) of Some t \<Rightarrow> t | None \<Rightarrow> 0);
          unknown = (\<lambda>r. (judged Unknown r)\<lparr>vd_date := date\<rparr>) in
      if dp_version d < 1 then unknown Malformed
      else if status_reason a \<noteq> NoReason then unknown (status_reason a)
      else
        (case (case dp_provider d of KV \<Rightarrow> classify_kv ck d a date | Transit \<Rightarrow> classify_transit d a | OtherProvider \<Rightarrow> None) of
           None \<Rightarrow> unknown Unreadable
         | Some r \<Rightarrow> r\<lparr>vd_date := date\<rparr>))"

definition answer_reason :: "provider \<Rightarrow> provider_answer \<Rightarrow> reason" where
  "answer_reason p a =
     (if status_reason a \<noteq> NoReason then status_reason a
      else if (case p of KV \<Rightarrow> decode_kv a = None | Transit \<Rightarrow> decode_transit a = None | OtherProvider \<Rightarrow> True)
      then Unreadable else NoReason)"

section \<open>What a class rests on\<close>

text \<open>A KV version is retained on an entry of its own, not destroyed, not pruned, reached by the object, of
  the recorded identity, and with no deletion or one in a later second than the answer's.\<close>

definition not_deleted :: "clocks \<Rightarrow> kv_entry \<Rightarrow> provider_answer \<Rightarrow> bool" where
  "not_deleted ck e a \<longleftrightarrow>
     ke_deletion e = Some [] \<or>
     (\<exists>s del date. ke_deletion e = Some s \<and> s \<noteq> [] \<and> ck_rfc3339 ck s = Some del \<and> parse_date ck (an_date a) = Some date \<and>
        date \<noteq> 0 \<and> date \<le> del \<and> del - del mod second \<noteq> date)"

definition kv_retained :: "clocks \<Rightarrow> dependency \<Rightarrow> provider_answer \<Rightarrow> bool" where
  "kv_retained ck d a \<longleftrightarrow>
     (\<exists>kd e cur old vs created.
        an_kv a = Some kd \<and> kd_current kd = Some cur \<and> kd_oldest kd = Some old \<and> kd_versions kd = Some vs \<and>
        map_of vs (format_int (dp_version d)) = Some (Some e) \<and> ke_destroyed e = Some False \<and>
        (old \<le> 0 \<or> old \<le> dp_version d) \<and> dp_version d \<le> cur \<and>
        kv_created ck (ke_created e) = Some created \<and> (dp_created d = 0 \<or> created = dp_created d) \<and>
        not_deleted ck e a)"

text \<open>A Transit key version is retained when its key lists it under the recorded identity, was seen not
  soft-deleted, has reached it, and holds it above both of its floors.\<close>

definition transit_retained :: "dependency \<Rightarrow> provider_answer \<Rightarrow> bool" where
  "transit_retained d a \<longleftrightarrow>
     (\<exists>td ks secs la ma md.
        an_transit a = Some td \<and> td_keys td = Some ks \<and> map_of ks (format_int (dp_version d)) = Some (Some secs) \<and>
        (dp_created d = 0 \<or> unix_time secs = dp_created d) \<and> td_soft_deleted td = ''false'' \<and>
        td_latest td = Some la \<and> td_min_available td = Some ma \<and> td_min_decryption td = Some md \<and>
        dp_version d \<le> la \<and> (ma \<le> 0 \<or> ma \<le> dp_version d) \<and> md \<le> dp_version d)"

text \<open>A version is lost when its entry says it was destroyed, when a readable entry or none stands below
  the oldest kept version, or when a listed key version of the recorded identity was trimmed.\<close>

definition kv_lost :: "clocks \<Rightarrow> dependency \<Rightarrow> provider_answer \<Rightarrow> bool" where
  "kv_lost ck d a \<longleftrightarrow>
     (\<exists>kd old vs. an_kv a = Some kd \<and> kd_current kd \<noteq> None \<and> kd_oldest kd = Some old \<and> kd_versions kd = Some vs \<and>
        (case map_of vs (format_int (dp_version d)) of
           None \<Rightarrow> 0 < old \<and> dp_version d < old
         | Some x \<Rightarrow> (\<exists>e del. read_entry ck x = Some (e, del) \<and> (ke_destroyed e = Some True \<or> 0 < old \<and> dp_version d < old))))"

definition transit_lost :: "dependency \<Rightarrow> provider_answer \<Rightarrow> bool" where
  "transit_lost d a \<longleftrightarrow>
     (\<exists>td ks secs la ma. an_transit a = Some td \<and> td_keys td = Some ks \<and> map_of ks (format_int (dp_version d)) = Some (Some secs) \<and>
        (dp_created d = 0 \<or> unix_time secs = dp_created d) \<and> td_soft_deleted td = ''false'' \<and>
        td_latest td = Some la \<and> td_min_available td = Some ma \<and> td_min_decryption td \<noteq> None \<and>
        dp_version d \<le> la \<and> dp_version d < ma)"

definition answered :: "dependency \<Rightarrow> provider_answer \<Rightarrow> bool" where
  "answered d a \<longleftrightarrow> 1 \<le> dp_version d \<and> \<not> an_unreachable a \<and> an_status a = 200"

lemma status_none: "status_reason a = NoReason \<longleftrightarrow> \<not> an_unreachable a \<and> an_status a = 200"
  by (simp add: status_reason_def)

lemma classify_class:
  "vd_class (classify ck d a) =
     (if answered d a
      then (case (case dp_provider d of KV \<Rightarrow> classify_kv ck d a (case parse_date ck (an_date a) of Some t \<Rightarrow> t | None \<Rightarrow> 0)
                  | Transit \<Rightarrow> classify_transit d a | OtherProvider \<Rightarrow> None) of
              None \<Rightarrow> Unknown | Some r \<Rightarrow> vd_class r)
      else Unknown)"
  by (auto simp: classify_def Let_def answered_def status_none judged_def split: option.split)

lemma judge_entry_class:
  "vd_class (judge_entry ck d e deletion date) \<noteq> Lost"
  by (simp add: judge_entry_def judged_def Let_def split: option.split)

lemma classify_kv_lost:
  "(\<exists>v. classify_kv ck d a date = Some v \<and> vd_class v = Lost) \<longleftrightarrow> kv_lost ck d a"
proof (cases "decode_kv a")
  case None
  then show ?thesis by (auto simp: classify_kv_def kv_lost_def decode_kv_def split: option.split_asm if_split_asm)
next
  case (Some kd)
  then obtain cur old vs where kd: "an_kv a = Some kd" "kd_current kd = Some cur" "kd_oldest kd = Some old" "kd_versions kd = Some vs"
    by (auto simp: decode_kv_def split: option.split_asm if_split_asm)
  show ?thesis
  proof (cases "map_of vs (format_int (dp_version d))")
    case None
    then show ?thesis using Some kd by (auto simp: classify_kv_def kv_lost_def judged_def)
  next
    case m: (Some x)
    show ?thesis
    proof (cases "read_entry ck x")
      case None
      then show ?thesis using Some kd m by (simp add: classify_kv_def kv_lost_def)
    next
      case r: (Some p)
      then obtain e del where "read_entry ck x = Some (e, del)" by (cases p) auto
      then show ?thesis using Some kd m judge_entry_class [of ck d e del date] by (auto simp: classify_kv_def kv_lost_def judged_def)
    qed
  qed
qed

lemma judge_entry_retained:
  "vd_class (judge_entry ck d e deletion date) = Retained \<longleftrightarrow>
    (\<exists>created. kv_created ck (ke_created e) = Some created \<and> (dp_created d = 0 \<or> created = dp_created d)) \<and>
    (ke_deletion e = Some [] \<or> date \<noteq> 0 \<and> date \<le> deletion \<and> deletion - deletion mod second \<noteq> date)"
  by (auto simp: judge_entry_def judged_def Let_def split: option.split)

lemma read_entry_some:
  "read_entry ck x = Some (e, del) \<longleftrightarrow>
     x = Some e \<and> ke_destroyed e \<noteq> None \<and>
     (\<exists>s. ke_deletion e = Some s \<and> (if s = [] then del = 0 else ck_rfc3339 ck s = Some del))"
  by (auto simp: read_entry_def split: option.split if_split_asm)

lemma kv_deletion_known:
  assumes "\<exists>s. ke_deletion e = Some s \<and> (if s = [] then del = 0 else ck_rfc3339 ck s = Some del)"
  shows "not_deleted ck e a \<longleftrightarrow>
    (ke_deletion e = Some [] \<or> (case parse_date ck (an_date a) of Some t \<Rightarrow> t | None \<Rightarrow> 0) \<noteq> 0 \<and>
       (case parse_date ck (an_date a) of Some t \<Rightarrow> t | None \<Rightarrow> 0) \<le> del \<and>
       del - del mod second \<noteq> (case parse_date ck (an_date a) of Some t \<Rightarrow> t | None \<Rightarrow> 0))"
  using assms by (cases "parse_date ck (an_date a)") (auto simp: not_deleted_def)

lemma not_deleted_read: "not_deleted ck e a \<Longrightarrow> ke_destroyed e = Some b \<Longrightarrow> read_entry ck (Some e) \<noteq> None"
  by (auto simp: not_deleted_def read_entry_def)

lemma classify_kv_retained:
  "(\<exists>v. classify_kv ck d a (case parse_date ck (an_date a) of Some t \<Rightarrow> t | None \<Rightarrow> 0) = Some v \<and> vd_class v = Retained) \<longleftrightarrow>
   kv_retained ck d a"
  (is "(\<exists>v. classify_kv ck d a ?date = Some v \<and> _) \<longleftrightarrow> _")
proof (cases "decode_kv a")
  case None
  then show ?thesis by (auto simp: classify_kv_def kv_retained_def decode_kv_def split: option.split_asm if_split_asm)
next
  case (Some kd)
  then obtain cur old vs where kd: "an_kv a = Some kd" "kd_current kd = Some cur" "kd_oldest kd = Some old" "kd_versions kd = Some vs"
    by (auto simp: decode_kv_def split: option.split_asm if_split_asm)
  show ?thesis
  proof (cases "map_of vs (format_int (dp_version d))")
    case None
    then show ?thesis using Some kd by (auto simp: classify_kv_def kv_retained_def judged_def)
  next
    case m: (Some x)
    show ?thesis
    proof (cases "read_entry ck x")
      case None
      then have "\<not> kv_retained ck d a" using kd m by (auto simp: kv_retained_def dest!: not_deleted_read)
      then show ?thesis using Some kd m None by (simp add: classify_kv_def)
    next
      case r: (Some p)
      then obtain e del where r: "read_entry ck x = Some (e, del)" by (cases p) auto
      then have x: "x = Some e" and s: "ke_destroyed e \<noteq> None" "\<exists>s. ke_deletion e = Some s \<and> (if s = [] then del = 0 else ck_rfc3339 ck s = Some del)"
        by (simp_all add: read_entry_some)
      have "kv_retained ck d a \<longleftrightarrow> ke_destroyed e = Some False \<and> (old \<le> 0 \<or> old \<le> dp_version d) \<and> dp_version d \<le> cur \<and>
          (\<exists>created. kv_created ck (ke_created e) = Some created \<and> (dp_created d = 0 \<or> created = dp_created d)) \<and>
          (ke_deletion e = Some [] \<or> ?date \<noteq> 0 \<and> ?date \<le> del \<and> del - del mod second \<noteq> ?date)"
        unfolding kv_deletion_known [OF s(2), symmetric] using kd m x by (auto simp: kv_retained_def)
      moreover have "vd_class (judge_entry ck d e del ?date) = Retained \<longleftrightarrow>
          (\<exists>created. kv_created ck (ke_created e) = Some created \<and> (dp_created d = 0 \<or> created = dp_created d)) \<and>
          (ke_deletion e = Some [] \<or> ?date \<noteq> 0 \<and> ?date \<le> del \<and> del - del mod second \<noteq> ?date)"
        by (rule judge_entry_retained)
      ultimately have iff: "kv_retained ck d a \<longleftrightarrow> ke_destroyed e = Some False \<and> (old \<le> 0 \<or> old \<le> dp_version d) \<and> dp_version d \<le> cur \<and>
          vd_class (judge_entry ck d e del ?date) = Retained" by blast
      have "classify_kv ck d a ?date = Some (if ke_destroyed e = Some True then judged Lost Destroyed
          else if 0 < old \<and> dp_version d < old then judged Lost Pruned
          else if cur < dp_version d then judged Unknown InsufficientEvidence else judge_entry ck d e del ?date)"
        using Some kd m r by (simp add: classify_kv_def)
      then show ?thesis unfolding iff using s(1) by (auto simp: judged_def)
    qed
  qed
qed

lemma judge_key_class:
  "vd_class (judge_key d td listed) = Retained \<longleftrightarrow>
     (\<exists>secs la ma md. listed = Some secs \<and> (dp_created d = 0 \<or> unix_time secs = dp_created d) \<and> td_soft_deleted td = ''false'' \<and>
        td_latest td = Some la \<and> td_min_available td = Some ma \<and> td_min_decryption td = Some md \<and>
        dp_version d \<le> la \<and> (ma \<le> 0 \<or> ma \<le> dp_version d) \<and> md \<le> dp_version d)"
  "1 \<le> dp_version d \<Longrightarrow> vd_class (judge_key d td listed) = Lost \<longleftrightarrow>
     (\<exists>secs la ma. listed = Some secs \<and> (dp_created d = 0 \<or> unix_time secs = dp_created d) \<and> td_soft_deleted td = ''false'' \<and>
        td_latest td = Some la \<and> td_min_available td = Some ma \<and> td_min_decryption td \<noteq> None \<and>
        dp_version d \<le> la \<and> dp_version d < ma)"
  by (cases listed; cases "td_latest td"; cases "td_min_available td"; cases "td_min_decryption td"; simp add: judge_key_def judged_def Let_def; linarith?)+

lemma classify_transit_class:
  assumes "1 \<le> dp_version d"
  shows "(\<exists>v. classify_transit d a = Some v \<and> vd_class v = Retained) \<longleftrightarrow> transit_retained d a"
    "(\<exists>v. classify_transit d a = Some v \<and> vd_class v = Lost) \<longleftrightarrow> transit_lost d a"
proof -
  have "(\<exists>v. classify_transit d a = Some v \<and> P v) \<longleftrightarrow>
      (\<exists>td ks. an_transit a = Some td \<and> td_keys td = Some ks \<and>
         (map_of ks (format_int (dp_version d)) = None \<and> P (judge_key d td None) \<or>
          (\<exists>secs. map_of ks (format_int (dp_version d)) = Some (Some secs) \<and> P (judge_key d td (Some secs)))))" for P
    by (auto simp: classify_transit_def decode_transit_def split: option.splits)
  note this [of "\<lambda>v. vd_class v = Retained"] this [of "\<lambda>v. vd_class v = Lost"]
  then show "(\<exists>v. classify_transit d a = Some v \<and> vd_class v = Retained) \<longleftrightarrow> transit_retained d a"
    "(\<exists>v. classify_transit d a = Some v \<and> vd_class v = Lost) \<longleftrightarrow> transit_lost d a"
    using assms by (simp_all add: judge_key_class transit_retained_def transit_lost_def)
qed

text \<open>C27. A dependency is classified retained exactly when the provider answered with positive evidence that
  the recorded version is held and readable, and lost exactly when the answer proves it destroyed,
  pruned or trimmed: no failed, denied or partial answer ever makes it either.\<close>

theorem class_iff_evidence:
  "(vd_class (classify ck d a) = Retained \<longleftrightarrow> answered d a \<and>
      (case dp_provider d of KV \<Rightarrow> kv_retained ck d a | Transit \<Rightarrow> transit_retained d a | OtherProvider \<Rightarrow> False)) \<and>
   (vd_class (classify ck d a) = Lost \<longleftrightarrow> answered d a \<and>
      (case dp_provider d of KV \<Rightarrow> kv_lost ck d a | Transit \<Rightarrow> transit_lost d a | OtherProvider \<Rightarrow> False))"
proof (cases "answered d a")
  case True
  then have "1 \<le> dp_version d" by (simp add: answered_def)
  note t = classify_transit_class [OF this, of a]
  show ?thesis
  proof (cases "dp_provider d")
    case KV
    let ?date = "case parse_date ck (an_date a) of Some t \<Rightarrow> t | None \<Rightarrow> 0"
    show ?thesis using True KV classify_kv_retained [of ck d a] classify_kv_lost [of ck d a ?date]
      by (cases "classify_kv ck d a ?date") (simp_all add: classify_class)
  next
    case Transit
    then show ?thesis using True t by (cases "classify_transit d a") (simp_all add: classify_class)
  qed (use True in \<open>simp add: classify_class\<close>)
qed (simp add: classify_class)

end
