(* ===== verification/Dep_Monitor.thy ===== *)
theory Dep_Monitor
  imports Dep_Classify
begin

text \<open>
  The dependency monitor (\<^verbatim>\<open>internal/monitor\<close>: transition.go, timing.go, watchdog.go, monitor.go and
  logger.go): the status a classification moves to and the alerts it raises, the transaction that
  records them, a pass over every dependency, the watchdog and the logger.

  The database's clock is read where the code reads it; a stored time is cut to microseconds. A
  dependency's references by releases are kept by its identifier, which stands for its provider,
  object, version and creation time (unique in the schema). Sessions, their locks and their timeouts
  show only as the outcome of a dependency's turn. The sequence of alerts is allocated without gaps.
\<close>

section \<open>The transition of a status\<close>

datatype kind = KindLost | KindBlocked | KindRegression | KindPersistent | KindDeletion | KindStalled

record status =
  sx_class :: dclass
  sx_reason :: reason
  sx_first_retained :: time
  sx_unknown_since :: time
  sx_persistent_at :: time
  sx_deletion_observed :: time
  sx_deletion_warned :: time

record timings =
  tm_interval :: int
  tm_persistent :: int
  tm_no_last_alert :: bool

definition defaults :: timings where
  "defaults = \<lparr>tm_interval = 60 * second, tm_persistent = 900 * second, tm_no_last_alert = False\<rparr>"

definition transition :: "status \<Rightarrow> verdict \<Rightarrow> time \<Rightarrow> timings \<Rightarrow> status \<times> kind list" where
  "transition old r at t =
     (let s = old\<lparr>sx_class := vd_class r, sx_reason := vd_reason r,
               sx_deletion_observed := (if vd_reason r = DeletionScheduled then vd_deletion r else 0)\<rparr> in
      case vd_class r of
        Retained \<Rightarrow>
          (s\<lparr>sx_first_retained := (if sx_first_retained s = 0 then at else sx_first_retained s),
             sx_unknown_since := 0, sx_persistent_at := 0\<rparr>, [])
      | Lost \<Rightarrow> (s\<lparr>sx_unknown_since := 0, sx_persistent_at := 0\<rparr>, if sx_class old \<noteq> Lost then [KindLost] else [])
      | BlockedClass \<Rightarrow>
          (s\<lparr>sx_unknown_since := 0, sx_persistent_at := 0\<rparr>, if sx_class old \<noteq> BlockedClass then [KindBlocked] else [])
      | Unknown \<Rightarrow>
          (let s1 = (if sx_class old \<noteq> Unknown then s\<lparr>sx_unknown_since := at, sx_persistent_at := 0\<rparr> else s);
               ks = (if sx_class old = Retained \<or> sx_class old = BlockedClass then [KindRegression] else []);
               from = (if sx_persistent_at s1 = 0 \<or> tm_no_last_alert t then sx_unknown_since s1 else sx_persistent_at s1) in
           if from + tm_persistent t \<le> at then (s1\<lparr>sx_persistent_at := at\<rparr>, ks @ [KindPersistent]) else (s1, ks)))"

definition unwarned :: "string list \<Rightarrow> string list \<Rightarrow> string list" where
  "unwarned releases warned = filter (\<lambda>r. r \<notin> set warned) releases"

definition stall_intervals :: int where
  "stall_intervals = 3"

definition stale :: "timings \<Rightarrow> int" where
  "stale t = stall_intervals * tm_interval t"

definition next_wait :: "time \<Rightarrow> time \<Rightarrow> int \<Rightarrow> int" where
  "next_wait start ended interval = (if start + interval - ended > 0 then start + interval - ended else 0)"

section \<open>The monitor's tables\<close>

record dep_row =
  dr_id :: string
  dr_dep :: dependency
  dr_status :: status
  dr_from :: time
  dr_recorded :: time
  dr_date :: time

record alert =
  al_seq :: nat
  al_kind :: kind
  al_dep :: "string option"
  al_class :: "dclass option"
  al_reason :: reason
  al_releases :: "string list"
  al_deletion :: time
  al_at :: time

record monitor_db =
  md_deps :: "dep_row list"
  md_refs :: "(string \<times> string) list" \<comment> \<open>release, dependency\<close>
  md_alerts :: "alert list"
  md_progress :: time
  md_last_pass :: "time option"
  md_last_stalled :: "time option"
  md_last_logged :: nat

definition micro :: "time \<Rightarrow> time" where
  "micro t = t - t mod 1000"

definition next_seq :: "monitor_db \<Rightarrow> nat" where
  "next_seq m = Suc (length (md_alerts m))"

definition add_alert :: "kind \<Rightarrow> string option \<Rightarrow> dclass option \<Rightarrow> reason \<Rightarrow> string list \<Rightarrow> time \<Rightarrow> time \<Rightarrow> monitor_db \<Rightarrow> monitor_db" where
  "add_alert k dep c r rels deletion at m = m\<lparr>md_alerts := md_alerts m @
     [\<lparr>al_seq = next_seq m, al_kind = k, al_dep = dep, al_class = c, al_reason = r, al_releases = rels, al_deletion = deletion, al_at = at\<rparr>]\<rparr>"

definition references :: "string \<Rightarrow> monitor_db \<Rightarrow> string list" where
  "references i m = sort (remdups (map fst (filter (\<lambda>x. snd x = i) (md_refs m))))"

definition warned_of :: "string \<Rightarrow> time \<Rightarrow> monitor_db \<Rightarrow> string list" where
  "warned_of i t m = concat (map al_releases (filter (\<lambda>a. al_dep a = Some i \<and> al_kind a = KindDeletion \<and> al_deletion a = t) (md_alerts m)))"

section \<open>Recording a classification\<close>

definition progress :: "time \<Rightarrow> monitor_db \<Rightarrow> monitor_db" where
  "progress now m = m\<lparr>md_progress := max (md_progress m) now\<rparr>"

definition completed :: "time \<Rightarrow> monitor_db \<Rightarrow> monitor_db" where
  "completed now m = (progress now m)\<lparr>md_last_pass := Some (case md_last_pass m of None \<Rightarrow> now | Some t \<Rightarrow> max t now)\<rparr>"

datatype monitor_error = MissingStatus | ConstraintViolated | NotAsked

definition alerts_for :: "string list \<Rightarrow> kind list \<Rightarrow> (kind \<times> string list) list" where
  "alerts_for releases ks = map (\<lambda>k. (k, releases)) ks"

fun insert_alerts :: "dep_row \<Rightarrow> status \<Rightarrow> time \<Rightarrow> (kind \<times> string list) list \<Rightarrow> monitor_db \<Rightarrow> (monitor_error, monitor_db) res" where
  "insert_alerts row s at [] m = Inr m"
| "insert_alerts row s at ((k, rels) # as) m =
     (if rels = [] then Inl ConstraintViolated
      else insert_alerts row s at as
        (add_alert k (Some (dr_id row)) (Some (sx_class s)) (sx_reason s) rels
           (if k = KindDeletion then micro (sx_deletion_observed s) else 0) at m))"

text \<open>The status with its warned time and the alerts of one classification.\<close>

definition decide :: "timings \<Rightarrow> dep_row \<Rightarrow> verdict \<Rightarrow> time \<Rightarrow> monitor_db \<Rightarrow> status \<times> (kind \<times> string list) list" where
  "decide t row r at m =
     (let (s, ks) = transition (dr_status row) r at t;
          releases = references (dr_id row) m;
          names = unwarned releases (warned_of (dr_id row) (micro (sx_deletion_observed s)) m) in
      if sx_reason s = DeletionScheduled \<and> names \<noteq> []
      then (s\<lparr>sx_deletion_warned := sx_deletion_observed s\<rparr>, alerts_for releases ks @ [(KindDeletion, names)])
      else (s, alerts_for releases ks))"

definition stored :: "status \<Rightarrow> status" where
  "stored s = s\<lparr>sx_deletion_observed := micro (sx_deletion_observed s), sx_deletion_warned := micro (sx_deletion_warned s)\<rparr>"

text \<open>\<open>from\<close> is when the request began, \<open>at\<close> when the row's lock was held and \<open>pt\<close> when the progress is
  recorded. The schema refuses a class recorded before it was observed.\<close>

definition record_class :: "timings \<Rightarrow> string \<Rightarrow> time \<Rightarrow> verdict \<Rightarrow> time \<Rightarrow> time \<Rightarrow> monitor_db \<Rightarrow> (monitor_error, bool \<times> monitor_db) res" where
  "record_class t i from r at pt m =
     (case keyed dr_id i (md_deps m) of
        None \<Rightarrow> Inl MissingStatus
      | Some row \<Rightarrow>
          if at < from then Inl ConstraintViolated
          else
            (let (s, alerts) = decide t row r at m;
                 m1 = m\<lparr>md_deps := map (\<lambda>x. if dr_id x = i then x\<lparr>dr_status := stored s, dr_from := from, dr_recorded := at,
                          dr_date := vd_date r\<rparr> else x) (md_deps m)\<rparr> in
             case insert_alerts row s at alerts m1 of
               Inl e \<Rightarrow> Inl e
             | Inr m2 \<Rightarrow> Inr (alerts \<noteq> [], progress pt m2)))"

text \<open>A dependency's turn in a pass: another instance holds it, asking or recording it fails, or the
  provider's answer is classified and recorded.\<close>

datatype turn = Held | Fails | Answers time provider_answer time time

definition classify_one :: "clocks \<Rightarrow> timings \<Rightarrow> turn \<Rightarrow> dep_row \<Rightarrow> monitor_db \<Rightarrow> (monitor_error, bool \<times> monitor_db) res" where
  "classify_one ck t x d m =
     (case x of
        Held \<Rightarrow> Inr (False, m)
      | Fails \<Rightarrow> Inl NotAsked
      | Answers from a at pt \<Rightarrow> record_class t (dr_id d) from (classify ck (dr_dep d) a) at pt m)"

fun pass_over :: "clocks \<Rightarrow> timings \<Rightarrow> (string \<Rightarrow> turn) \<Rightarrow> dep_row list \<Rightarrow> monitor_db \<Rightarrow> monitor_db" where
  "pass_over ck t f [] m = m"
| "pass_over ck t f (d # ds) m =
     pass_over ck t f ds (case classify_one ck t (f (dr_id d)) d m of Inl e \<Rightarrow> m | Inr (alerted, m') \<Rightarrow> m')"

definition pass :: "clocks \<Rightarrow> timings \<Rightarrow> (string \<Rightarrow> turn) \<Rightarrow> time \<Rightarrow> monitor_db \<Rightarrow> monitor_db" where
  "pass ck t f now m = completed now (pass_over ck t f (sort_key dr_id (md_deps m)) m)"

section \<open>The watchdog\<close>

definition stall_due :: "timings \<Rightarrow> time \<Rightarrow> monitor_db \<Rightarrow> bool" where
  "stall_due t now m \<longleftrightarrow> stale t \<le> now - (case md_last_stalled m of None \<Rightarrow> md_progress m | Some x \<Rightarrow> max (md_progress m) x)"

text \<open>Read without the row's lock at \<open>now\<close>, and again under it at \<open>at\<close>.\<close>

definition watchdog :: "timings \<Rightarrow> time \<Rightarrow> time \<Rightarrow> monitor_db \<Rightarrow> bool \<times> monitor_db" where
  "watchdog t now at m =
     (if \<not> stall_due t now m \<or> \<not> stall_due t at m then (False, m)
      else (True, (add_alert KindStalled None None NoReason [] 0 at m)\<lparr>md_last_stalled := Some at\<rparr>))"

section \<open>The logger\<close>

definition batch :: nat where
  "batch = 100"

definition unlogged :: "nat \<Rightarrow> monitor_db \<Rightarrow> alert list" where
  "unlogged after m = take batch (sort_key al_seq (filter (\<lambda>a. after < al_seq a) (md_alerts m)))"

text \<open>What a batch meets: whether it gets the loggers' lock, how many lines the sink takes before it fails
  or the batch's time is over (\<open>None\<close> when it takes them all), and whether the cursor commits.\<close>

record sink =
  sk_lock :: bool
  sk_fails :: "nat option"
  sk_commit :: bool

datatype log_error = LogFailed

definition log_batch :: "sink \<Rightarrow> monitor_db \<times> alert list \<Rightarrow> (log_error, nat) res \<times> monitor_db \<times> alert list" where
  "log_batch k mo =
     (case mo of (m, out) \<Rightarrow>
       if \<not> sk_lock k then (Inr 0, m, out)
       else
         (let lines = unlogged (md_last_logged m) m in
          if lines = [] then (Inr 0, m, out)
          else case sk_fails k of
            Some n \<Rightarrow> (Inl LogFailed, m, out @ take n lines)
          | None \<Rightarrow>
              if \<not> sk_commit k then (Inl LogFailed, m, out @ lines)
              else (Inr (length lines), m\<lparr>md_last_logged := al_seq (last lines)\<rparr>, out @ lines)))"

lemma unlogged_members: "a \<in> set (unlogged after m) \<Longrightarrow> a \<in> set (md_alerts m) \<and> after < al_seq a"
  by (auto simp: unlogged_def dest!: in_set_takeD)

lemma log_batch_full:
  assumes "log_batch k (m, out) = (Inr n, m', out')" and "batch \<le> n"
  shows "md_alerts m' = md_alerts m \<and> (\<exists>a \<in> set (md_alerts m). md_last_logged m < al_seq a \<and> md_last_logged m' = al_seq a)"
proof -
  let ?l = "unlogged (md_last_logged m) m"
  have ne: "?l \<noteq> []" using assms by (auto simp: log_batch_def batch_def Let_def split: if_split_asm option.split_asm)
  then have "m' = m\<lparr>md_last_logged := al_seq (last ?l)\<rparr>"
    using assms by (auto simp: log_batch_def batch_def Let_def split: if_split_asm option.split_asm)
  moreover have "last ?l \<in> set ?l" using ne by simp
  ultimately show ?thesis using unlogged_members by fastforce
qed

text \<open>\<open>ks\<close> gives each batch of the loop what it meets.\<close>

function log_alerts :: "(nat \<Rightarrow> sink) \<Rightarrow> nat \<Rightarrow> monitor_db \<times> alert list \<Rightarrow> monitor_db \<times> alert list" where
  "log_alerts ks i mo =
     (case log_batch (ks i) mo of
        (Inl e, mo') \<Rightarrow> mo'
      | (Inr n, mo') \<Rightarrow> if n < batch then mo' else log_alerts ks (Suc i) mo')"
  by pat_completeness auto

termination
proof (relation "measure (\<lambda>(_, _, m, _). length (filter (\<lambda>a. md_last_logged m < al_seq a) (md_alerts m)))", goal_cases)
  case 1
  show ?case by simp
next
  case (2 ks i mo x mo' n)
  obtain m out m' out' where mo: "mo = (m, out)" "mo' = (m', out')" by (cases mo; cases mo')
  then have "log_batch (ks i) (m, out) = (Inr n, m', out')" "batch \<le> n" using 2 by auto
  then obtain a where a: "md_alerts m' = md_alerts m" "a \<in> set (md_alerts m)" "md_last_logged m < al_seq a" "md_last_logged m' = al_seq a"
    using log_batch_full by blast
  have "length (filter (\<lambda>x. al_seq a < al_seq x) (filter (\<lambda>x. md_last_logged m < al_seq x) (md_alerts m)))
      < length (filter (\<lambda>x. md_last_logged m < al_seq x) (md_alerts m))"
    by (rule length_filter_less [of a]) (use a in auto)
  moreover have "filter (\<lambda>x. al_seq a < al_seq x) (filter (\<lambda>x. md_last_logged m < al_seq x) (md_alerts m)) =
      filter (\<lambda>x. al_seq a < al_seq x) (md_alerts m)"
    using a(3) by (auto simp: intro!: filter_cong)
  ultimately show ?case using a mo by simp
qed

declare log_alerts.simps [simp del]

section \<open>What publication does to the statuses\<close>

definition names_version :: "dependency \<Rightarrow> dependency \<Rightarrow> bool" where
  "names_version d e \<longleftrightarrow> dp_provider d = dp_provider e \<and> dp_object d = dp_object e \<and> dp_version d = dp_version e"

text \<open>\<^verbatim>\<open>seedStatuses\<close>, for one classification: a version of its identity, or a KV version under any, keeps its row.
  The key and the identifier are unique.\<close>

definition seed_status :: "string \<Rightarrow> dependency \<Rightarrow> verdict \<Rightarrow> time \<Rightarrow> time \<Rightarrow> monitor_db \<Rightarrow> (monitor_error, monitor_db) res" where
  "seed_status i d r began at m =
     (if vd_class r \<noteq> Retained then Inl NotAsked
      else if (\<exists>x \<in> set (md_deps m). dr_id x = i \<or> dr_dep x = d \<or> names_version (dr_dep x) d \<and> dp_provider d = KV) then Inr m
      else if at < began then Inl ConstraintViolated
      else Inr (m\<lparr>md_deps := md_deps m @ [\<lparr>dr_id = i, dr_dep = d,
             dr_status = \<lparr>sx_class = Retained, sx_reason = vd_reason r, sx_first_retained = began, sx_unknown_since = 0,
               sx_persistent_at = 0, sx_deletion_observed = (if vd_reason r = DeletionScheduled then micro (vd_deletion r) else 0),
               sx_deletion_warned = 0\<rparr>, dr_from = began, dr_recorded = at, dr_date = vd_date r\<rparr>]\<rparr>))"

text \<open>\<^verbatim>\<open>recheckStatuses\<close>: the first status, by identifier, that refuses the publication of the dependencies named,
  each with the time its classification began.\<close>

datatype recheck_refusal = CreatedChanged string | RecordedSince string dclass

definition recheck_row :: "(dependency \<times> time) list \<Rightarrow> dep_row \<Rightarrow> recheck_refusal option" where
  "recheck_row named row =
     (case List.find (\<lambda>(d, _). names_version d (dr_dep row)) named of
        None \<Rightarrow> None
      | Some (d, began) \<Rightarrow>
          if dp_created (dr_dep row) \<noteq> dp_created d
          then (if dp_provider d = KV then Some (CreatedChanged (dr_id row)) else None)
          else if sx_class (dr_status row) \<noteq> Retained \<and> began \<le> dr_recorded row
          then Some (RecordedSince (dr_id row) (sx_class (dr_status row)))
          else None)"

definition recheck_statuses :: "(dependency \<times> time) list \<Rightarrow> monitor_db \<Rightarrow> recheck_refusal option" where
  "recheck_statuses named m =
     (case List.map_filter (recheck_row named) (sort_key dr_id (md_deps m)) of [] \<Rightarrow> None | r # _ \<Rightarrow> Some r)"

end
