(* ===== verification/Dep_Monitor_Props.thy ===== *)
theory Dep_Monitor_Props
  imports Dep_Monitor
begin

text \<open>
  What the monitor promises over every run of passes, watchdogs, loggers and publications: its alerts
  of one kind are spaced, no release is warned twice of one deletion, and every alert is logged.
\<close>

section \<open>Runs\<close>

text \<open>A run's state is the tables and the lines written. The database's clock does not run backwards
  between two recordings of one status.\<close>

inductive monitor_run :: "timings \<Rightarrow> monitor_db \<Rightarrow> alert list \<Rightarrow> bool" for t where
  fresh: "md_deps m = [] \<Longrightarrow> md_alerts m = [] \<Longrightarrow> md_last_stalled m = None \<Longrightarrow> md_last_logged m = 0 \<Longrightarrow> monitor_run t m []"
| classified: "monitor_run t m out \<Longrightarrow> record_class t i from r at pt m = Inr (b, m') \<Longrightarrow> 0 < at \<Longrightarrow>
    (\<And>row. keyed dr_id i (md_deps m) = Some row \<Longrightarrow> dr_recorded row \<le> at) \<Longrightarrow> monitor_run t m' out"
| seeded: "monitor_run t m out \<Longrightarrow> seed_status i d r began at m = Inr m' \<Longrightarrow> monitor_run t m' out"
| referenced: "monitor_run t m out \<Longrightarrow> monitor_run t (m\<lparr>md_refs := md_refs m @ refs\<rparr>) out"
| passed: "monitor_run t m out \<Longrightarrow> monitor_run t (completed now m) out"
| watched: "monitor_run t m out \<Longrightarrow> watchdog t now at m = (b, m') \<Longrightarrow> monitor_run t m' out"
| logged: "monitor_run t m out \<Longrightarrow> log_batch k (m, out) = (res, m', out') \<Longrightarrow> monitor_run t m' out'"

section \<open>Spaced times\<close>

definition spaced :: "int \<Rightarrow> time list \<Rightarrow> bool" where
  "spaced gap ts \<longleftrightarrow> sorted_wrt (\<lambda>x y. x + gap \<le> y) ts"

lemma spaced_snoc: "spaced gap (ts @ [x]) \<longleftrightarrow> spaced gap ts \<and> (\<forall>y \<in> set ts. y + gap \<le> x)"
  by (auto simp: spaced_def sorted_wrt_append)

lemma spaced_nil [simp]: "spaced gap []"
  by (simp add: spaced_def)

text \<open>When an unknown status was last alerted of, or since when it is unknown; else when it was recorded.\<close>

definition anchor :: "dep_row \<Rightarrow> time" where
  "anchor x = (if sx_class (dr_status x) \<noteq> Unknown then dr_recorded x
     else if sx_persistent_at (dr_status x) = 0 then sx_unknown_since (dr_status x) else sx_persistent_at (dr_status x))"

definition persistent_times :: "string \<Rightarrow> monitor_db \<Rightarrow> time list" where
  "persistent_times i m = map al_at (filter (\<lambda>a. al_dep a = Some i \<and> al_kind a = KindPersistent) (md_alerts m))"

definition stalled_times :: "monitor_db \<Rightarrow> time list" where
  "stalled_times m = map al_at (filter (\<lambda>a. al_kind a = KindStalled) (md_alerts m))"

definition row_spaced :: "timings \<Rightarrow> monitor_db \<Rightarrow> dep_row \<Rightarrow> bool" where
  "row_spaced t m x \<longleftrightarrow> anchor x \<le> dr_recorded x \<and> spaced (tm_persistent t) (persistent_times (dr_id x) m) \<and>
     (\<forall>y \<in> set (persistent_times (dr_id x) m). y \<le> anchor x) \<and>
     (sx_class (dr_status x) = Unknown \<longrightarrow> dr_recorded x < anchor x + tm_persistent t)"

section \<open>One recording\<close>

definition alert_of :: "dep_row \<Rightarrow> status \<Rightarrow> time \<Rightarrow> nat \<Rightarrow> kind \<times> string list \<Rightarrow> alert" where
  "alert_of row s at n x = \<lparr>al_seq = n, al_kind = fst x, al_dep = Some (dr_id row), al_class = Some (sx_class s), al_reason = sx_reason s,
     al_releases = snd x, al_deletion = (if fst x = KindDeletion then micro (sx_deletion_observed s) else 0), al_at = at\<rparr>"

primrec new_alerts :: "dep_row \<Rightarrow> status \<Rightarrow> time \<Rightarrow> nat \<Rightarrow> (kind \<times> string list) list \<Rightarrow> alert list" where
  "new_alerts row s at n [] = []"
| "new_alerts row s at n (x # xs) = alert_of row s at n x # new_alerts row s at (Suc n) xs"

lemma insert_alerts_ok:
  "insert_alerts row s at as m = Inr m' \<Longrightarrow> m' = m\<lparr>md_alerts := md_alerts m @ new_alerts row s at (next_seq m) as\<rparr>"
  by (induction row s at as m rule: insert_alerts.induct) (auto simp: add_alert_def next_seq_def alert_of_def split: if_split_asm)

lemma new_alerts_kind: "a \<in> set (new_alerts row s at n as) \<Longrightarrow> al_kind a \<in> fst ` set as"
  by (induction as arbitrary: n) (auto simp: alert_of_def)

lemma new_alerts_seq: "map al_seq (new_alerts row s at n as) = [n..<n + length as]"
  by (induction as arbitrary: n) (auto simp: alert_of_def upt_rec)

lemma new_alerts_length [simp]: "length (new_alerts row s at n as) = length as"
  by (induction as arbitrary: n) auto

lemma new_alerts_each:
  "a \<in> set (new_alerts row s at n as) \<Longrightarrow> al_dep a = Some (dr_id row) \<and> al_at a = at \<and> n \<le> al_seq a"
  by (induction as arbitrary: n) (auto simp: alert_of_def, force)

lemma new_alerts_times:
  "map al_at (filter (\<lambda>a. al_dep a = Some i \<and> al_kind a = k) (new_alerts row s at n as)) =
     (if i = dr_id row then map (\<lambda>_. at) (filter (\<lambda>x. fst x = k) as) else [])"
  by (induction as arbitrary: n) (auto simp: alert_of_def)

lemma new_alerts_warned:
  "concat (map al_releases (filter (\<lambda>a. al_dep a = Some i \<and> al_kind a = KindDeletion \<and> al_deletion a = d) (new_alerts row s at n as))) =
     (if i = dr_id row \<and> d = micro (sx_deletion_observed s) then concat (map snd (filter (\<lambda>x. fst x = KindDeletion) as)) else [])"
  by (induction as arbitrary: n) (auto simp: alert_of_def)

lemma transition_kinds:
  assumes "transition old r at t = (s, ks)"
  shows "KindDeletion \<notin> set ks" "KindStalled \<notin> set ks" "filter (\<lambda>k. k = KindPersistent) ks = (if KindPersistent \<in> set ks then [KindPersistent] else [])"
  using assms by (auto simp: transition_def Let_def split: dclass.split_asm if_split_asm)

lemma transition_anchor:
  assumes "transition (dr_status row) r at t = (s, ks)" and "\<not> tm_no_last_alert t" and "0 < tm_persistent t" and "0 < at"
    and "dr_recorded row \<le> at" and "anchor row \<le> dr_recorded row" and "dr_status row' = w" and "dr_recorded row' = at"
    and "sx_class w = sx_class s" "sx_persistent_at w = sx_persistent_at s" "sx_unknown_since w = sx_unknown_since s"
  shows "KindPersistent \<in> set ks \<Longrightarrow> anchor row + tm_persistent t \<le> at \<and> anchor row' = at"
    "anchor row \<le> anchor row'" "anchor row' \<le> at" "sx_class s = Unknown \<Longrightarrow> at < anchor row' + tm_persistent t"
  using assms by (auto simp: transition_def Let_def anchor_def split: dclass.split_asm if_split_asm)

lemma decide_parts:
  assumes "decide t row r at m = (s, as)"
  obtains s0 ks where "transition (dr_status row) r at t = (s0, ks)" "sx_deletion_observed s = sx_deletion_observed s0"
    "sx_class s = sx_class s0" "sx_persistent_at s = sx_persistent_at s0" "sx_unknown_since s = sx_unknown_since s0"
    "sx_reason s = sx_reason s0"
    "as = alerts_for (references (dr_id row) m) ks @
       (let names = unwarned (references (dr_id row) m) (warned_of (dr_id row) (micro (sx_deletion_observed s)) m) in
        if sx_reason s = DeletionScheduled \<and> names \<noteq> [] then [(KindDeletion, names)] else [])"
proof -
  obtain s0 ks where "transition (dr_status row) r at t = (s0, ks)" by (cases "transition (dr_status row) r at t")
  then show ?thesis using assms that by (auto simp: decide_def Let_def split: if_split_asm)
qed

lemma record_class_ok:
  assumes "record_class t i from r at pt m = Inr (b, m')"
  obtains row s as where "keyed dr_id i (md_deps m) = Some row" "decide t row r at m = (s, as)" "from \<le> at"
    "md_deps m' = map (\<lambda>x. if dr_id x = i then x\<lparr>dr_status := stored s, dr_from := from, dr_recorded := at, dr_date := vd_date r\<rparr> else x) (md_deps m)"
    "md_alerts m' = md_alerts m @ new_alerts row s at (Suc (length (md_alerts m))) as"
    "md_last_stalled m' = md_last_stalled m" "md_last_logged m' = md_last_logged m" "b = (as \<noteq> [])"
proof -
  obtain row where row: "keyed dr_id i (md_deps m) = Some row" "from \<le> at"
    using assms by (auto simp: record_class_def split: option.split_asm if_split_asm)
  obtain s as where d: "decide t row r at m = (s, as)" by (cases "decide t row r at m")
  let ?m1 = "m\<lparr>md_deps := map (\<lambda>x. if dr_id x = i then x\<lparr>dr_status := stored s, dr_from := from, dr_recorded := at,
                dr_date := vd_date r\<rparr> else x) (md_deps m)\<rparr>"
  obtain m2 where m2: "insert_alerts row s at as ?m1 = Inr m2" "m' = progress pt m2" "b = (as \<noteq> [])"
    using assms row d by (auto simp: record_class_def split: sum.split_asm)
  show ?thesis using that [OF row(1) d row(2)] insert_alerts_ok [OF m2(1)] m2(2,3) by (simp add: progress_def next_seq_def)
qed

section \<open>Invariants of a run\<close>

lemma watchdog_cases:
  assumes "watchdog t now at m = (b, m')"
  obtains "\<not> b" "m' = m"
  | "b" "stall_due t now m" "stall_due t at m" "md_deps m' = md_deps m" "md_last_stalled m' = Some at" "md_last_logged m' = md_last_logged m"
    "md_alerts m' = md_alerts m @ [\<lparr>al_seq = Suc (length (md_alerts m)), al_kind = KindStalled, al_dep = None, al_class = None,
       al_reason = NoReason, al_releases = [], al_deletion = 0, al_at = at\<rparr>]"
  using assms by (auto simp: watchdog_def add_alert_def next_seq_def split: if_split_asm)

lemma seed_cases:
  assumes "seed_status i d r began at m = Inr m'"
  obtains "m' = m"
  | row where "m' = m\<lparr>md_deps := md_deps m @ [row]\<rparr>" "dr_id row = i" "i \<notin> dr_id ` set (md_deps m)" "sx_class (dr_status row) = Retained"
proof (cases "m' = m")
  case False
  then have "i \<notin> dr_id ` set (md_deps m)" "\<exists>row. m' = m\<lparr>md_deps := md_deps m @ [row]\<rparr> \<and> dr_id row = i \<and> sx_class (dr_status row) = Retained"
    using assms unfolding seed_status_def by (force split: if_split_asm)+
  then show ?thesis using that(2) by blast
qed (use that(1) in simp)

lemma log_batch_cases:
  assumes "log_batch k (m, out) = (res, m', out')"
  obtains n where "m' = m" "out' = out @ take n (unlogged (md_last_logged m) m)"
  | "unlogged (md_last_logged m) m \<noteq> []" "m' = m\<lparr>md_last_logged := al_seq (last (unlogged (md_last_logged m) m))\<rparr>"
    "out' = out @ unlogged (md_last_logged m) m"
proof -
  let ?u = "unlogged (md_last_logged m) m"
  have "out' = out @ take 0 ?u \<and> m' = m \<or> (\<exists>n. out' = out @ take n ?u \<and> m' = m) \<or> out' = out @ take (length ?u) ?u \<and> m' = m \<or>
      ?u \<noteq> [] \<and> m' = m\<lparr>md_last_logged := al_seq (last ?u)\<rparr> \<and> out' = out @ ?u"
    using assms by (auto simp: log_batch_def Let_def split: if_split_asm option.split_asm)
  then show ?thesis using that by blast
qed

lemma run_ids:
  "monitor_run t m out \<Longrightarrow> distinct (map dr_id (md_deps m)) \<and> (\<forall>a \<in> set (md_alerts m). \<forall>i. al_dep a = Some i \<longrightarrow> i \<in> dr_id ` set (md_deps m))"
proof (induction rule: monitor_run.induct)
  case (classified m out i "from" r at pt b m')
  obtain row s as where row: "keyed dr_id i (md_deps m) = Some row"
    and deps: "md_deps m' = map (\<lambda>x. if dr_id x = i then x\<lparr>dr_status := stored s, dr_from := from, dr_recorded := at, dr_date := vd_date r\<rparr> else x) (md_deps m)"
    and al: "md_alerts m' = md_alerts m @ new_alerts row s at (Suc (length (md_alerts m))) as"
    using record_class_ok [OF classified.hyps(2)] .
  have "map dr_id (md_deps m') = map dr_id (md_deps m)" by (simp add: deps)
  then have "dr_id ` set (md_deps m') = dr_id ` set (md_deps m)" by (metis set_map)
  moreover have "dr_id row \<in> dr_id ` set (md_deps m)" using keyed_Some [OF row] by blast
  moreover have "al_dep a = Some (dr_id row)" if "a \<in> set (new_alerts row s at (Suc (length (md_alerts m))) as)" for a
    using new_alerts_each [OF that] by blast
  ultimately have "\<forall>a \<in> set (md_alerts m'). \<forall>i. al_dep a = Some i \<longrightarrow> i \<in> dr_id ` set (md_deps m')"
    using classified.IH unfolding al by (simp add: ball_Un)
  then show ?case using classified.IH \<open>map dr_id (md_deps m') = _\<close> by simp
next
  case (seeded m out i d r began at m')
  then show ?case by (cases rule: seed_cases [OF seeded.hyps(2)]) auto
next
  case (watched m out now at b m')
  then show ?case by (cases rule: watchdog_cases [OF watched.hyps(2)]) auto
next
  case (logged m out k res m' out')
  then show ?case by (cases rule: log_batch_cases [OF logged.hyps(2)]) auto
qed (auto simp: completed_def progress_def)

lemma run_stalled:
  "monitor_run t m out \<Longrightarrow> 0 \<le> tm_interval t \<Longrightarrow>
   spaced (stale t) (stalled_times m) \<and> (\<forall>y \<in> set (stalled_times m). \<exists>l. md_last_stalled m = Some l \<and> y \<le> l)"
proof (induction rule: monitor_run.induct)
  case (classified m out i "from" r at pt b m')
  obtain row s as where d: "decide t row r at m = (s, as)" and ls: "md_last_stalled m' = md_last_stalled m"
    and al: "md_alerts m' = md_alerts m @ new_alerts row s at (Suc (length (md_alerts m))) as"
    using record_class_ok [OF classified.hyps(2)] .
  obtain s0 ks where "transition (dr_status row) r at t = (s0, ks)" and as: "as = alerts_for (references (dr_id row) m) ks @
       (let names = unwarned (references (dr_id row) m) (warned_of (dr_id row) (micro (sx_deletion_observed s)) m) in
        if sx_reason s = DeletionScheduled \<and> names \<noteq> [] then [(KindDeletion, names)] else [])"
    using decide_parts [OF d] .
  then have "KindStalled \<notin> fst ` set as" using transition_kinds by (auto simp: alerts_for_def Let_def)
  then have "filter (\<lambda>a. al_kind a = KindStalled) (new_alerts row s at n as) = []" for n
    using new_alerts_kind by (metis (mono_tags, lifting) filter_empty_conv)
  then have "stalled_times m' = stalled_times m" by (simp add: stalled_times_def al)
  then show ?case using classified.IH classified.prems ls by simp
next
  case (seeded m out i d r began at m')
  then show ?case by (cases rule: seed_cases [OF seeded.hyps(2)]) (auto simp: stalled_times_def)
next
  case (watched m out now at b m')
  show ?case
  proof (cases rule: watchdog_cases [OF watched.hyps(2)])
    case 2
    have "\<forall>l. md_last_stalled m = Some l \<longrightarrow> l + stale t \<le> at" using 2(3) by (auto simp: stall_due_def)
    moreover have "0 \<le> stale t" using watched.prems by (simp add: stale_def stall_intervals_def)
    ultimately show ?thesis using 2 watched.IH [OF watched.prems] by (fastforce simp: stalled_times_def spaced_snoc)
  qed (use watched in simp)
next
  case (logged m out k res m' out')
  then show ?case by (cases rule: log_batch_cases [OF logged.hyps(2)]) (auto simp: stalled_times_def)
qed (auto simp: stalled_times_def completed_def progress_def)

lemma decide_alerts:
  assumes "decide t row r at m = (s, as)"
  shows "filter (\<lambda>x. fst x = KindPersistent) as = [] \<or> (\<exists>rels. filter (\<lambda>x. fst x = KindPersistent) as = [(KindPersistent, rels)])"
    and "concat (map snd (filter (\<lambda>x. fst x = KindDeletion) as)) =
      (if sx_reason s = DeletionScheduled
       then unwarned (references (dr_id row) m) (warned_of (dr_id row) (micro (sx_deletion_observed s)) m) else [])"
proof -
  obtain s0 ks where tr: "transition (dr_status row) r at t = (s0, ks)" and as: "as = alerts_for (references (dr_id row) m) ks @
       (let names = unwarned (references (dr_id row) m) (warned_of (dr_id row) (micro (sx_deletion_observed s)) m) in
        if sx_reason s = DeletionScheduled \<and> names \<noteq> [] then [(KindDeletion, names)] else [])"
    using decide_parts [OF assms] .
  have f: "filter (\<lambda>x. fst x = k) (alerts_for rels ks) = map (\<lambda>k. (k, rels)) (filter (\<lambda>x. x = k) ks)" for k rels
    by (simp add: alerts_for_def filter_map o_def)
  show "filter (\<lambda>x. fst x = KindPersistent) as = [] \<or> (\<exists>rels. filter (\<lambda>x. fst x = KindPersistent) as = [(KindPersistent, rels)])"
    using transition_kinds(3) [OF tr] by (auto simp: as f Let_def)
  have "filter (\<lambda>x. x = KindDeletion) ks = []" using transition_kinds(1) [OF tr] by (auto simp: filter_empty_conv)
  then show "concat (map snd (filter (\<lambda>x. fst x = KindDeletion) as)) =
      (if sx_reason s = DeletionScheduled
       then unwarned (references (dr_id row) m) (warned_of (dr_id row) (micro (sx_deletion_observed s)) m) else [])"
    by (auto simp: as f Let_def)
qed

text \<open>A recording adds to the warnings of its dependency's deletion the releases not warned of it yet.\<close>

lemma record_warned:
  assumes "record_class t i from r at pt m = Inr (b, m')"
  shows "warned_of j d m' = warned_of j d m @
    (if j = i \<and> vd_reason r = DeletionScheduled \<and> d = micro (vd_deletion r) then unwarned (references i m) (warned_of i d m) else [])"
proof -
  obtain row s as where row: "keyed dr_id i (md_deps m) = Some row" and d: "decide t row r at m = (s, as)"
    and al: "md_alerts m' = md_alerts m @ new_alerts row s at (Suc (length (md_alerts m))) as"
    using record_class_ok [OF assms] .
  obtain s0 ks where "transition (dr_status row) r at t = (s0, ks)" "sx_deletion_observed s = sx_deletion_observed s0" "sx_reason s = sx_reason s0"
    using decide_parts [OF d] .
  then have r: "sx_reason s = vd_reason r" "vd_reason r = DeletionScheduled \<Longrightarrow> sx_deletion_observed s = vd_deletion r"
    by (auto simp: transition_def Let_def split: dclass.split_asm if_split_asm)
  have "dr_id row = i" using keyed_Some [OF row] by simp
  then show ?thesis
    using decide_alerts(2) [OF d] r by (simp add: warned_of_def [of _ _ m'] al new_alerts_warned) (auto simp: warned_of_def)
qed

lemma run_warned: "monitor_run t m out \<Longrightarrow> \<forall>i d. distinct (warned_of i d m)"
proof (induction rule: monitor_run.induct)
  case (classified m out i "from" r at pt b m')
  then show ?case by (auto simp: record_warned [OF classified.hyps(2)] unwarned_def references_def)
next
  case (seeded m out i d r began at m')
  then show ?case by (cases rule: seed_cases [OF seeded.hyps(2)]) (auto simp: warned_of_def)
next
  case (watched m out now at b m')
  then show ?case by (cases rule: watchdog_cases [OF watched.hyps(2)]) (auto simp: warned_of_def)
next
  case (logged m out k res m' out')
  then show ?case by (cases rule: log_batch_cases [OF logged.hyps(2)]) (auto simp: warned_of_def)
qed (auto simp: warned_of_def completed_def progress_def)

text \<open>A recording's row, with its anchor and its persistent alerts.\<close>

lemma recorded_row:
  assumes "record_class t i from r at pt m = Inr (b, m')" and prod: "\<not> tm_no_last_alert t" "0 < tm_persistent t"
    and clock: "0 < at" "\<And>row. keyed dr_id i (md_deps m) = Some row \<Longrightarrow> dr_recorded row \<le> at"
    and x: "x \<in> set (md_deps m)" "dr_id x = i" "row_spaced t m x" and ids: "distinct (map dr_id (md_deps m))"
    and x': "x' \<in> set (md_deps m')" "dr_id x' = i"
  shows "row_spaced t m' x'"
proof -
  obtain row s as where row: "keyed dr_id i (md_deps m) = Some row" and d: "decide t row r at m = (s, as)"
    and deps: "md_deps m' = map (\<lambda>x. if dr_id x = i then x\<lparr>dr_status := stored s, dr_from := from, dr_recorded := at, dr_date := vd_date r\<rparr> else x) (md_deps m)"
    and al: "md_alerts m' = md_alerts m @ new_alerts row s at (Suc (length (md_alerts m))) as"
    using record_class_ok [OF assms(1)] .
  have "inj_on dr_id (set (md_deps m))" using ids by (simp add: distinct_map)
  then have xr: "x = row" using keyed_Some [OF row] x by (auto dest: inj_onD)
  obtain y where y: "y \<in> set (md_deps m)" "dr_id y = i" "x' = y\<lparr>dr_status := stored s, dr_from := from, dr_recorded := at, dr_date := vd_date r\<rparr>"
    using x' unfolding deps by (auto split: if_split_asm)
  then have st: "dr_status x' = stored s" "dr_recorded x' = at" by simp_all
  obtain s0 ks where tr: "transition (dr_status row) r at t = (s0, ks)" and w: "sx_class s = sx_class s0" "sx_persistent_at s = sx_persistent_at s0"
      "sx_unknown_since s = sx_unknown_since s0"
    and as: "as = alerts_for (references (dr_id row) m) ks @
       (let names = unwarned (references (dr_id row) m) (warned_of (dr_id row) (micro (sx_deletion_observed s)) m) in
        if sx_reason s = DeletionScheduled \<and> names \<noteq> [] then [(KindDeletion, names)] else [])"
    using decide_parts [OF d] .
  have old: "dr_recorded row \<le> at" "anchor row \<le> dr_recorded row" using clock(2) row x(3) xr by (auto simp: row_spaced_def)
  note tr_anchor = transition_anchor [OF tr prod clock(1) old st(1,2)]
  have anc: "KindPersistent \<in> set ks \<Longrightarrow> anchor row + tm_persistent t \<le> at \<and> anchor x' = at" "anchor row \<le> anchor x'" "anchor x' \<le> at"
    "sx_class s = Unknown \<Longrightarrow> at < anchor x' + tm_persistent t"
    using tr_anchor w by (simp_all add: stored_def)
  have ri: "dr_id row = i" using keyed_Some [OF row] by simp
  have "filter (\<lambda>a. fst a = KindPersistent) as = map (\<lambda>k. (k, references (dr_id row) m)) (filter (\<lambda>k. k = KindPersistent) ks)"
    by (simp add: as alerts_for_def filter_map o_def Let_def)
  then have pt: "persistent_times i m' = persistent_times i m @ (if KindPersistent \<in> set ks then [at] else [])"
    using transition_kinds(3) [OF tr] by (simp add: persistent_times_def al new_alerts_times ri)
  have "spaced (tm_persistent t) (persistent_times i m) \<and> (\<forall>y \<in> set (persistent_times i m). y \<le> anchor row)"
    using x(2,3) xr by (simp add: row_spaced_def)
  then show ?thesis
    using anc st x'(2) by (auto simp: row_spaced_def pt spaced_snoc stored_def)
qed

lemma run_spaced:
  "monitor_run t m out \<Longrightarrow> \<not> tm_no_last_alert t \<Longrightarrow> 0 < tm_persistent t \<Longrightarrow> \<forall>x \<in> set (md_deps m). row_spaced t m x"
proof (induction rule: monitor_run.induct)
  case (classified m out i "from" r at pt b m')
  have ids: "distinct (map dr_id (md_deps m))" using run_ids [OF classified.hyps(1)] by blast
  obtain row s as where row: "keyed dr_id i (md_deps m) = Some row"
    and deps: "md_deps m' = map (\<lambda>x. if dr_id x = i then x\<lparr>dr_status := stored s, dr_from := from, dr_recorded := at, dr_date := vd_date r\<rparr> else x) (md_deps m)"
    and al: "md_alerts m' = md_alerts m @ new_alerts row s at (Suc (length (md_alerts m))) as"
    using record_class_ok [OF classified.hyps(2)] .
  show ?case
  proof
    fix x'
    assume x': "x' \<in> set (md_deps m')"
    show "row_spaced t m' x'"
    proof (cases "dr_id x' = i")
      case True
      then show ?thesis using recorded_row [OF classified.hyps(2) classified.prems classified.hyps(3,4) _ _ _ ids x'] keyed_Some [OF row]
          classified.IH [OF classified.prems] by blast
    next
      case False
      then have "x' \<in> set (md_deps m)" using x' by (auto simp: deps split: if_split_asm)
      moreover have "persistent_times (dr_id x') m' = persistent_times (dr_id x') m"
        using False keyed_Some [OF row] by (simp add: persistent_times_def al new_alerts_times)
      ultimately show ?thesis using classified.IH [OF classified.prems] by (simp add: row_spaced_def)
    qed
  qed
next
  case (seeded m out i d r began at m')
  show ?case
  proof (cases rule: seed_cases [OF seeded.hyps(2)])
    case (2 row)
    have "persistent_times i m = []" using run_ids [OF seeded.hyps(1)] 2(3) by (auto simp: persistent_times_def filter_empty_conv)
    then have "row_spaced t m row" using 2(2,4) by (simp add: row_spaced_def anchor_def)
    then show ?thesis using 2(1) seeded.IH [OF seeded.prems] by (simp add: row_spaced_def persistent_times_def)
  qed (use seeded in simp)
next
  case (watched m out now at b m')
  then show ?case by (cases rule: watchdog_cases [OF watched.hyps(2)]) (auto simp: row_spaced_def persistent_times_def)
next
  case (logged m out k res m' out')
  then show ?case by (cases rule: log_batch_cases [OF logged.hyps(2)]) (auto simp: row_spaced_def persistent_times_def)
qed (auto simp: row_spaced_def persistent_times_def completed_def progress_def)

section \<open>The log\<close>

text \<open>The alerts are in their sequence's order.\<close>

definition in_order :: "monitor_db \<Rightarrow> bool" where
  "in_order m \<longleftrightarrow> map al_seq (md_alerts m) = [1..<Suc (length (md_alerts m))]"

definition pending :: "nat \<Rightarrow> monitor_db \<Rightarrow> alert list" where
  "pending n m = filter (\<lambda>a. n < al_seq a) (md_alerts m)"

lemma pending_sorted: "in_order m \<Longrightarrow> sorted_wrt (<) (map al_seq (pending n m))"
proof -
  assume "in_order m"
  then have "sorted_wrt (<) (map al_seq (md_alerts m))" by (metis in_order_def sorted_wrt_upt)
  then show ?thesis unfolding pending_def sorted_wrt_map by (rule sorted_wrt_filter)
qed

lemma unlogged_pending: "in_order m \<Longrightarrow> unlogged n m = take batch (pending n m)"
  unfolding unlogged_def pending_def [symmetric]
  using sort_key_id_if_sorted [OF strict_sorted_imp_sorted [OF pending_sorted]] by simp

lemma take_sorted:
  fixes f :: "'a \<Rightarrow> nat"
  assumes "sorted_wrt (<) (map f xs)" and "take n xs \<noteq> []" and "a \<in> set xs"
  shows "f a \<le> f (last (take n xs)) \<longleftrightarrow> a \<in> set (take n xs)"
proof -
  have s: "sorted_wrt (\<lambda>x y. f x < f y) (take n xs @ drop n xs)" using assms(1) by (simp add: sorted_wrt_map)
  have "f a \<le> f (last (take n xs))" if "a \<in> set (take n xs)"
  proof -
    obtain ys z where "take n xs = ys @ [z]" using assms(2) by (cases "take n xs" rule: rev_cases) auto
    then show ?thesis using s that by (auto simp: sorted_wrt_append intro: less_imp_le)
  qed
  moreover have "f (last (take n xs)) < f a" if "a \<in> set (drop n xs)"
    using s that assms(2) last_in_set unfolding sorted_wrt_append by blast
  moreover have "a \<in> set (take n xs) \<or> a \<in> set (drop n xs)" using assms(3) by (metis Un_iff append_take_drop_id set_append)
  ultimately show ?thesis using leD by blast
qed

lemma pending_after:
  assumes "in_order m" and "take k (pending n m) \<noteq> []"
  shows "pending (al_seq (last (take k (pending n m)))) m = drop k (pending n m)"
proof -
  let ?p = "pending n m" and ?l = "al_seq (last (take k (pending n m)))"
  have sorted: "sorted_wrt (\<lambda>x y. al_seq x < al_seq y) (take k ?p @ drop k ?p)"
    using pending_sorted [OF assms(1), of n] by (simp add: sorted_wrt_map)
  have "last (take k ?p) \<in> set (take k ?p)" using assms(2) by (rule last_in_set)
  then have "n < ?l" by (auto simp: pending_def dest: in_set_takeD)
  then have "pending ?l m = filter (\<lambda>a. ?l < al_seq a) ?p" by (auto simp: pending_def intro!: filter_cong)
  also have "\<dots> = filter (\<lambda>a. ?l < al_seq a) (take k ?p) @ filter (\<lambda>a. ?l < al_seq a) (drop k ?p)"
    by (metis append_take_drop_id filter_append)
  also have "filter (\<lambda>a. ?l < al_seq a) (take k ?p) = []"
  proof -
    have "\<not> ?l < al_seq a" if "a \<in> set (take k ?p)" for a
      using take_sorted [OF pending_sorted [OF assms(1)] assms(2) in_set_takeD [OF that]] that by simp
    then show ?thesis by (simp add: filter_empty_conv)
  qed
  also have "filter (\<lambda>a. ?l < al_seq a) (drop k ?p) = drop k ?p"
    using sorted \<open>last (take k ?p) \<in> _\<close> unfolding sorted_wrt_append by (intro filter_True) blast
  finally show ?thesis by simp
qed

lemma run_log:
  "monitor_run t m out \<Longrightarrow> in_order m \<and> (\<forall>a \<in> set (md_alerts m). al_seq a \<le> md_last_logged m \<longrightarrow> a \<in> set out) \<and> set out \<subseteq> set (md_alerts m) \<and>
    md_last_logged m \<le> length (md_alerts m)"
proof (induction rule: monitor_run.induct)
  case (classified m out i "from" r at pt b m')
  obtain row s as where al: "md_alerts m' = md_alerts m @ new_alerts row s at (Suc (length (md_alerts m))) as" and ll: "md_last_logged m' = md_last_logged m"
    using record_class_ok [OF classified.hyps(2)] .
  have "[1..<Suc (length (md_alerts m)) + length as] = [1..<Suc (length (md_alerts m))] @ [Suc (length (md_alerts m))..<Suc (length (md_alerts m)) + length as]"
    by (rule upt_add_eq_append) simp
  then have "in_order m'" using classified.IH unfolding in_order_def al map_append new_alerts_seq by simp
  moreover have "\<not> al_seq a \<le> md_last_logged m" if "a \<in> set (new_alerts row s at (Suc (length (md_alerts m))) as)" for a
    using new_alerts_each [OF that] classified.IH by simp
  ultimately show ?case using classified.IH ll by (auto simp: al)
next
  case (seeded m out i d r began at m')
  then show ?case by (cases rule: seed_cases [OF seeded.hyps(2)]) (auto simp: in_order_def)
next
  case (watched m out now at b m')
  then show ?case by (cases rule: watchdog_cases [OF watched.hyps(2)]) (auto simp: in_order_def)
next
  case (logged m out k res m' out')
  let ?u = "unlogged (md_last_logged m) m"
  have sub: "set ?u \<subseteq> set (md_alerts m)" using unlogged_members by blast
  show ?case
  proof (cases rule: log_batch_cases [OF logged.hyps(2)])
    case (1 n)
    then show ?thesis using logged.IH sub by (auto dest: in_set_takeD)
  next
    case 2
    have p: "?u = take batch (pending (md_last_logged m) m)" using logged.IH unlogged_pending by blast
    have "a \<in> set (out @ ?u)" if a: "a \<in> set (md_alerts m)" "al_seq a \<le> al_seq (last ?u)" for a
    proof (cases "al_seq a \<le> md_last_logged m")
      case False
      then have "a \<in> set (pending (md_last_logged m) m)" using a by (simp add: pending_def)
      moreover have "in_order m" "take batch (pending (md_last_logged m) m) \<noteq> []" using logged.IH 2(1) p by simp_all
      ultimately show ?thesis using take_sorted [OF pending_sorted] a(2) p by fastforce
    qed (use logged.IH a in auto)
    moreover have "al_seq (last ?u) \<le> length (md_alerts m)"
    proof -
      have "al_seq (last ?u) \<in> set (map al_seq (md_alerts m))" using sub last_in_set [OF 2(1)] by auto
      moreover have "set (map al_seq (md_alerts m)) = {1..<Suc (length (md_alerts m))}"
        using logged.IH unfolding in_order_def by (metis set_upt)
      ultimately show ?thesis by simp
    qed
    ultimately show ?thesis using 2 logged.IH sub by (auto simp: in_order_def)
  qed
qed (auto simp: in_order_def completed_def progress_def)

definition open_sink :: sink where
  "open_sink = \<lparr>sk_lock = True, sk_fails = None, sk_commit = True\<rparr>"

lemma open_sink_batch:
  assumes "in_order m"
  shows "log_batch open_sink (m, out) =
    (if pending (md_last_logged m) m = [] then (Inr 0, m, out)
     else (Inr (length (take batch (pending (md_last_logged m) m))),
           m\<lparr>md_last_logged := al_seq (last (take batch (pending (md_last_logged m) m)))\<rparr>, out @ take batch (pending (md_last_logged m) m)))"
  using unlogged_pending [OF assms, of "md_last_logged m"] by (simp add: log_batch_def open_sink_def batch_def Let_def)

lemma log_alerts_all:
  "in_order m \<Longrightarrow> log_alerts (\<lambda>_. open_sink) i (m, out) =
     (m\<lparr>md_last_logged := (if pending (md_last_logged m) m = [] then md_last_logged m else al_seq (last (pending (md_last_logged m) m)))\<rparr>,
      out @ pending (md_last_logged m) m)"
proof (induction "length (pending (md_last_logged m) m)" arbitrary: m out i rule: less_induct)
  case less
  let ?p = "pending (md_last_logged m) m"
  show ?case
  proof (cases "?p = []")
    case True
    then show ?thesis using open_sink_batch [OF less.prems, of out] by (simp add: log_alerts.simps [of _ i] batch_def)
  next
    case ne: False
    let ?m = "m\<lparr>md_last_logged := al_seq (last (take batch ?p))\<rparr>"
    have b: "log_batch open_sink (m, out) = (Inr (length (take batch ?p)), ?m, out @ take batch ?p)"
      using open_sink_batch [OF less.prems, of out] ne by simp
    show ?thesis
    proof (cases "length ?p < batch")
      case True
      then show ?thesis using b ne by (simp add: log_alerts.simps [of _ i])
    next
      case False
      have tk: "take batch ?p \<noteq> []" using ne by (simp add: batch_def)
      have ord: "in_order ?m" using less.prems by (simp add: in_order_def)
      have rest: "pending (md_last_logged ?m) ?m = drop batch ?p"
        using pending_after [OF less.prems tk] by (simp add: pending_def)
      have "log_alerts (\<lambda>_. open_sink) i (m, out) = log_alerts (\<lambda>_. open_sink) (Suc i) (?m, out @ take batch ?p)"
        using b False by (simp add: log_alerts.simps [of _ i])
      also have "\<dots> = (?m\<lparr>md_last_logged := (if drop batch ?p = [] then md_last_logged ?m else al_seq (last (drop batch ?p)))\<rparr>,
          (out @ take batch ?p) @ drop batch ?p)"
        using less.hyps [OF _ ord, of "Suc i" "out @ take batch ?p"] rest ne by (simp add: batch_def)
      also have "(if drop batch ?p = [] then md_last_logged ?m else al_seq (last (drop batch ?p))) = al_seq (last ?p)"
        by (metis append_Nil2 append_take_drop_id last_appendR monitor_db.select_convs(7) monitor_db.surjective monitor_db.update_convs(7))
      finally show ?thesis using ne by simp
    qed
  qed
qed

section \<open>A run\<close>

definition mo_dep :: dependency where
  "mo_dep = \<lparr>dp_provider = KV, dp_object = ''gen/c/i/v'', dp_version = 1, dp_created = 5\<rparr>"

definition mo0 :: monitor_db where
  "mo0 = \<lparr>md_deps = [], md_refs = [], md_alerts = [], md_progress = 1, md_last_pass = None, md_last_stalled = None, md_last_logged = 0\<rparr>"
definition mo1 :: monitor_db where "mo1 = projr (seed_status ''d1'' mo_dep (judged Retained NoReason) 9 10 mo0)"
definition mo2 :: monitor_db where "mo2 = mo1\<lparr>md_refs := md_refs mo1 @ [(''r1'', ''d1'')]\<rparr>"
definition mo3 :: monitor_db where
  "mo3 = snd (projr (record_class defaults ''d1'' 99 (judged Unknown Unreachable) 100 101 mo2))"
definition mo4 :: monitor_db where
  "mo4 = snd (projr (record_class defaults ''d1'' (901 * second) (judged Unknown Unreachable) (902 * second) (902 * second) mo3))"

lemma mo_runs: "monitor_run defaults mo2 []" "monitor_run defaults mo3 []" "monitor_run defaults mo4 []"
proof -
  have "seed_status ''d1'' mo_dep (judged Retained NoReason) 9 10 mo0 = Inr mo1" unfolding mo1_def by code_simp
  then show 2: "monitor_run defaults mo2 []" unfolding mo2_def by (intro referenced seeded [OF fresh]) (simp_all add: mo0_def)
  have "\<not> isl (record_class defaults ''d1'' 99 (judged Unknown Unreachable) 100 101 mo2)" by code_simp
  then have 3: "record_class defaults ''d1'' 99 (judged Unknown Unreachable) 100 101 mo2 = Inr (fst (projr (record_class defaults ''d1'' 99 (judged Unknown Unreachable) 100 101 mo2)), mo3)"
    unfolding mo3_def by simp
  have "map dr_recorded (md_deps mo2) = [10]" by code_simp
  then have c2: "keyed dr_id ''d1'' (md_deps mo2) = Some row \<Longrightarrow> dr_recorded row \<le> 100" for row
    by (auto dest!: keyed_Some split: list.split_asm simp: map_eq_Cons_conv)
  show 31: "monitor_run defaults mo3 []" by (rule classified [OF 2 3]) (use c2 in auto)
  have "\<not> isl (record_class defaults ''d1'' (901 * second) (judged Unknown Unreachable) (902 * second) (902 * second) mo3)" by code_simp
  then have 4: "record_class defaults ''d1'' (901 * second) (judged Unknown Unreachable) (902 * second) (902 * second) mo3 =
      Inr (fst (projr (record_class defaults ''d1'' (901 * second) (judged Unknown Unreachable) (902 * second) (902 * second) mo3)), mo4)"
    unfolding mo4_def by simp
  have "map dr_recorded (md_deps mo3) = [100]" by code_simp
  then have c3: "keyed dr_id ''d1'' (md_deps mo3) = Some row \<Longrightarrow> dr_recorded row \<le> 902 * second" for row
    by (auto dest!: keyed_Some split: list.split_asm simp: map_eq_Cons_conv second_def)
  show "monitor_run defaults mo4 []" by (rule classified [OF 31 4]) (use c3 in \<open>auto simp: second_def\<close>)
qed

section \<open>Properties\<close>



text \<open>C29. A scheduled deletion is announced to each release once: in every run no release is warned twice of
  one dependency's deletion at one time, and once a classification that finds the deletion scheduled is
  recorded, every release that references the dependency has been.\<close>

theorem deletion_warned_once:
  assumes "monitor_run t m out" and "record_class t i from r at pt m = Inr (b, m')" and "vd_reason r = DeletionScheduled"
  shows "distinct (warned_of j d m) \<and> set (references i m) \<subseteq> set (warned_of i (micro (vd_deletion r)) m')"
  using run_warned [OF assms(1)] assms(3) record_warned [OF assms(2), of i "micro (vd_deletion r)"]
  by (auto simp: unwarned_def)

theorem deletion_warned_once_witness:
  "set (references ''d1'' mo3) \<subseteq> set (warned_of ''d1'' 9000 (snd (projr (record_class defaults ''d1'' 199
     ((judged Retained DeletionScheduled)\<lparr>vd_deletion := 9001\<rparr>) 200 201 mo3))))"
proof -
  let ?v = "(judged Retained DeletionScheduled)\<lparr>vd_deletion := 9001\<rparr>"
  have "\<not> isl (record_class defaults ''d1'' 199 ?v 200 201 mo3)" by code_simp
  then have "record_class defaults ''d1'' 199 ?v 200 201 mo3 =
      Inr (fst (projr (record_class defaults ''d1'' 199 ?v 200 201 mo3)), snd (projr (record_class defaults ''d1'' 199 ?v 200 201 mo3)))" by simp
  from deletion_warned_once [OF mo_runs(2) this] show ?thesis by (simp add: judged_def micro_def)
qed

text \<open>C30. Alerts are logged at least once and none is passed over: in every run the log holds every alert up to
  the last logged one, and the logger, when it gets its lock and its sink takes the lines, ends with
  every alert written, those not yet logged once and in order.\<close>

theorem every_alert_is_logged:
  assumes "monitor_run t m out"
  shows "{a \<in> set (md_alerts m). al_seq a \<le> md_last_logged m} \<subseteq> set out \<and>
    snd (log_alerts (\<lambda>_. open_sink) i (m, out)) = out @ pending (md_last_logged m) m \<and>
    set (md_alerts m) \<subseteq> set (snd (log_alerts (\<lambda>_. open_sink) i (m, out)))"
proof -
  have l: "in_order m" "\<forall>a \<in> set (md_alerts m). al_seq a \<le> md_last_logged m \<longrightarrow> a \<in> set out" using run_log [OF assms] by auto
  then have "snd (log_alerts (\<lambda>_. open_sink) i (m, out)) = out @ pending (md_last_logged m) m" using log_alerts_all by simp
  moreover have "set (md_alerts m) \<subseteq> set out \<union> set (pending (md_last_logged m) m)" using l(2) by (auto simp: pending_def)
  ultimately show ?thesis using l(2) by auto
qed

theorem every_alert_is_logged_witness:
  "snd (log_alerts (\<lambda>_. open_sink) 0 (mo4, [])) = pending 0 mo4 \<and> length (pending 0 mo4) = 2"
proof -
  have "length (pending 0 mo4) = 2" "md_last_logged mo4 = 0" by code_simp+
  then show ?thesis using every_alert_is_logged [OF mo_runs(3), of 0] by simp
qed

end
