(* ===== verification/Release_Digest.thy ===== *)
theory Release_Digest
  imports Dispatch_DB
begin

text \<open>
  What the digest of a release covers and its encoding (\<^verbatim>\<open>releaseContent\<close> and \<^verbatim>\<open>digest\<close> of
  \<^verbatim>\<open>internal/api/publish.go\<close>). A string of Go is a list of its bytes, an \<^verbatim>\<open>int\<close> a 64-bit word. SHA-256 is
  an argument of the definitions that use it; the theorem is about the bytes it hashes.
\<close>

section \<open>The encoding\<close>

text \<open>\<^verbatim>\<open>binary.Write(h, binary.BigEndian, uint64(n))\<close>.\<close>

definition be64 :: "64 word \<Rightarrow> string" where
  "be64 w = map (\<lambda>i. char_of (unat (ucast (drop_bit (8 * i) w) :: 8 word))) [7, 6, 5, 4, 3, 2, 1, 0]"

definition put :: "string \<Rightarrow> string" where
  "put s = be64 (word_of_nat (length s)) @ s"

definition count :: "int \<Rightarrow> string" where
  "count n = be64 (word_of_int n)"

record content_source =
  cs_kind :: string
  cs_key :: string
  cs_revision :: string

record content_machine =
  cm_machine :: string
  cm_base :: string
  cm_assignment :: string
  cm_mode :: string
  cm_configuration :: string

record renderer =
  rn_contract :: string
  rn_machinery :: string
  rn_checksum :: string
  rn_kubernetes :: string

record release_content =
  rc_cluster :: string
  rc_draft :: string
  rc_draft_rev :: int
  rc_renderer :: renderer
  rc_sources :: "content_source list"
  rc_machines :: "content_machine list"

definition put_source :: "content_source \<Rightarrow> string" where
  "put_source s = put (cs_kind s) @ put (cs_key s) @ put (cs_revision s)"

definition put_machine :: "content_machine \<Rightarrow> string" where
  "put_machine m = put (cm_machine m) @ put (cm_base m) @ put (cm_assignment m) @ put (cm_mode m) @ put (cm_configuration m)"

definition encode :: "release_content \<Rightarrow> string" where
  "encode c =
     (let sources = sort_key (\<lambda>s. (cs_kind s, cs_key s)) (rc_sources c);
          machines = sort_key cm_machine (rc_machines c); r = rc_renderer c in
      put ''bronzeward-release-digest/1'' @ put (rc_cluster c) @ put (rc_draft c) @ count (rc_draft_rev c) @
      put (rn_contract r) @ put (rn_machinery r) @ put (rn_checksum r) @ put (rn_kubernetes r) @
      count (int (length sources)) @ concat (map put_source sources) @
      count (int (length machines)) @ concat (map put_machine machines))"

definition content_digest :: "(string \<Rightarrow> digest) \<Rightarrow> release_content \<Rightarrow> digest" where
  "content_digest sha c = sha (encode c)"

section \<open>No two contents share an encoding\<close>

lemma be64_length [simp]: "length (be64 w) = 8"
  by (simp add: be64_def)

lemma be64_inj: "be64 v = be64 w \<Longrightarrow> v = w"
proof (rule bit_word_eqI)
  fix n assume eq: "be64 v = be64 w" and "n < LENGTH(64)"
  then have n: "n < 64" by simp
  have byte: "(ucast (drop_bit (8 * i) v) :: 8 word) = ucast (drop_bit (8 * i) w)" if "i \<in> {0, 1, 2, 3, 4, 5, 6, 7}" for i
  proof -
    have "char_of (unat (ucast (drop_bit (8 * i) v) :: 8 word)) = (char_of (unat (ucast (drop_bit (8 * i) w) :: 8 word)) :: char)"
      using eq that by (simp only: be64_def map_eq_conv set_simps) blast
    moreover have "unat (x :: 8 word) < 256" for x using unsigned_less [of x] by simp
    ultimately have "unat (ucast (drop_bit (8 * i) v) :: 8 word) = unat (ucast (drop_bit (8 * i) w) :: 8 word)"
      by (metis of_char_of mod_less)
    then show ?thesis by (simp add: word_unat_eq_iff)
  qed
  have "n div 8 < 8" using n by simp
  then have "n div 8 \<in> {0, 1, 2, 3, 4, 5, 6, 7}" by auto
  from byte [OF this] have "bit (ucast (drop_bit (8 * (n div 8)) v) :: 8 word) (n mod 8) = bit (ucast (drop_bit (8 * (n div 8)) w) :: 8 word) (n mod 8)"
    by simp
  then show "bit v n = bit w n" by (simp add: bit_ucast_iff bit_drop_bit_eq)
qed

definition short :: "string \<Rightarrow> bool" where
  "short s \<longleftrightarrow> length s < 2 ^ 63"

lemma put_append: "short s \<Longrightarrow> short s' \<Longrightarrow> put s @ r = put s' @ r' \<Longrightarrow> s = s' \<and> r = r'"
proof -
  assume sh: "short s" "short s'" and eq: "put s @ r = put s' @ r'"
  then have b: "be64 (word_of_nat (length s)) = be64 (word_of_nat (length s'))" and rest: "s @ r = s' @ r'"
    by (simp_all add: put_def)
  have "length s < 2 ^ 64" "length s' < 2 ^ 64" using sh by (simp_all add: short_def)
  then have "length s = length s'" using be64_inj [OF b] by (simp add: word_of_nat_eq_iff take_bit_nat_eq_self)
  then show ?thesis using rest by simp
qed

lemma count_append: "count n @ r = count n' @ r' \<Longrightarrow> (word_of_int n :: 64 word) = word_of_int n' \<and> r = r'"
  using be64_inj by (simp add: count_def)

lemma word_of_int_small:
  assumes "(word_of_int a :: 64 word) = word_of_int b" "- (2 ^ 63) \<le> a" "a < 2 ^ 63" "- (2 ^ 63) \<le> b" "b < 2 ^ 63"
  shows "a = b"
proof -
  have "a mod 2 ^ 64 = b mod 2 ^ 64" using assms(1) by (simp add: word_of_int_eq_iff take_bit_eq_mod)
  then have "2 ^ 64 dvd a - b" by (simp add: mod_eq_dvd_iff)
  then obtain k where k: "a - b = 2 ^ 64 * k" by (rule dvdE)
  then have "k = 0" using assms(2-5) by simp
  then show ?thesis using k by simp
qed

text \<open>A code whose words, followed by anything, say what they stand for and where they end.\<close>

locale prefix_code =
  fixes f :: "'a \<Rightarrow> string"
    and ok :: "'a \<Rightarrow> bool"
  assumes unique: "ok x \<Longrightarrow> ok y \<Longrightarrow> f x @ r = f y @ r' \<Longrightarrow> x = y \<and> r = r'"
begin

lemma unique_concat:
  "length xs = length ys \<Longrightarrow> list_all ok xs \<Longrightarrow> list_all ok ys \<Longrightarrow>
    concat (map f xs) @ r = concat (map f ys) @ r' \<Longrightarrow> xs = ys \<and> r = r'"
proof (induction xs ys rule: list_induct2)
  case (Cons x xs y ys)
  then have "x = y \<and> concat (map f xs) @ r = concat (map f ys) @ r'"
    by (intro unique) simp_all
  then show ?case using Cons by simp
qed simp

end

interpretation strings: prefix_code put short
  by unfold_locales (rule put_append)

interpretation counts: prefix_code count "\<lambda>n. - (2 ^ 63) \<le> n \<and> n < 2 ^ 63"
  by unfold_locales (blast dest: count_append intro: word_of_int_small)

lemma prefix_code_pair:
  assumes "prefix_code f p" and "prefix_code g q"
  shows "prefix_code (\<lambda>(x, y). f x @ g y) (\<lambda>(x, y). p x \<and> q y)"
proof (unfold_locales, safe)
  fix x y x' y' r r'
  assume ok: "p x" "q y" "p x'" "q y'" and eq: "(f x @ g y) @ r = (f x' @ g y') @ r'"
  have x: "x = x' \<and> g y @ r = g y' @ r'"
    using eq by (intro prefix_code.unique [OF assms(1) ok(1,3)]) simp
  have "y = y' \<and> r = r'" by (rule prefix_code.unique [OF assms(2) ok(2,4) conjunct2 [OF x]])
  with x show "x = x'" "y = y'" "r = r'" by blast+
qed

text \<open>A code of the members, through an injective tupling, is a code of the record.\<close>

lemma prefix_code_via:
  assumes "prefix_code f p" and "\<And>x. g x = f (h x)" and "\<And>x. q x = p (h x)" and "\<And>x y. h x = h y \<Longrightarrow> x = y"
  shows "prefix_code g q"
proof
  fix x y r r' assume "q x" "q y" "g x @ r = g y @ r'"
  then have "h x = h y \<and> r = r'" using assms(2,3) by (intro prefix_code.unique [OF assms(1)]) simp_all
  then show "x = y \<and> r = r'" using assms(4) by blast
qed

lemmas code_of_strings = prefix_code_pair [OF strings.prefix_code_axioms]

definition short_source :: "content_source \<Rightarrow> bool" where
  "short_source s \<longleftrightarrow> short (cs_kind s) \<and> short (cs_key s) \<and> short (cs_revision s)"

definition short_machine :: "content_machine \<Rightarrow> bool" where
  "short_machine m \<longleftrightarrow> short (cm_machine m) \<and> short (cm_base m) \<and> short (cm_assignment m) \<and> short (cm_mode m) \<and> short (cm_configuration m)"

interpretation sources: prefix_code put_source short_source
proof (rule prefix_code_via [where h = "\<lambda>s. (cs_kind s, cs_key s, cs_revision s)",
      OF code_of_strings [OF code_of_strings [OF strings.prefix_code_axioms]]])
qed (simp_all add: put_source_def short_source_def)

interpretation machines: prefix_code put_machine short_machine
proof (rule prefix_code_via [where h = "\<lambda>m. (cm_machine m, cm_base m, cm_assignment m, cm_mode m, cm_configuration m)",
      OF code_of_strings [OF code_of_strings [OF code_of_strings [OF code_of_strings [OF strings.prefix_code_axioms]]]]])
qed (simp_all add: put_machine_def short_machine_def)

text \<open>A content as Go can hold it (no string or slice reaches \<open>2^63\<close> bytes, an \<^verbatim>\<open>int\<close> has 64 bits), with
  one source of a kind and name and one machine of an id, as the schema's keys keep them.\<close>

definition content_ok :: "release_content \<Rightarrow> bool" where
  "content_ok c \<longleftrightarrow> short (rc_cluster c) \<and> short (rc_draft c) \<and> - (2 ^ 63) \<le> rc_draft_rev c \<and> rc_draft_rev c < 2 ^ 63 \<and>
     short (rn_contract (rc_renderer c)) \<and> short (rn_machinery (rc_renderer c)) \<and> short (rn_checksum (rc_renderer c)) \<and>
     short (rn_kubernetes (rc_renderer c)) \<and>
     list_all short_source (rc_sources c) \<and> list_all short_machine (rc_machines c) \<and>
     int (length (rc_sources c)) < 2 ^ 63 \<and> int (length (rc_machines c)) < 2 ^ 63 \<and>
     distinct (map (\<lambda>s. (cs_kind s, cs_key s)) (rc_sources c)) \<and> distinct (map cm_machine (rc_machines c))"

definition same_content :: "release_content \<Rightarrow> release_content \<Rightarrow> bool" where
  "same_content c d \<longleftrightarrow> rc_cluster c = rc_cluster d \<and> rc_draft c = rc_draft d \<and> rc_draft_rev c = rc_draft_rev d \<and>
     rc_renderer c = rc_renderer d \<and> set (rc_sources c) = set (rc_sources d) \<and> set (rc_machines c) = set (rc_machines d)"

text \<open>A sort by a key that is unique depends on the set of elements only.\<close>

lemma sort_key_set:
  assumes "distinct (map f xs)" "distinct (map f ys)" "set xs = set ys"
  shows "sort_key f xs = sort_key f ys"
proof (rule map_inj_on)
  have "distinct (map f (sort_key f xs))" "distinct (map f (sort_key f ys))"
    using assms by (simp_all add: distinct_map)
  moreover have "sorted (map f (sort_key f xs))" "sorted (map f (sort_key f ys))" by simp_all
  ultimately show "map f (sort_key f xs) = map f (sort_key f ys)"
    using assms(3) by (intro sorted_distinct_set_unique) simp_all
  show "inj_on f (set (sort_key f xs) \<union> set (sort_key f ys))" using assms by (simp add: distinct_map)
qed

text \<open>The fixed part of the encoding is a code of its own.\<close>

definition put_head :: "release_content \<Rightarrow> string" where
  "put_head c = put (rc_cluster c) @ put (rc_draft c) @ count (rc_draft_rev c) @ put (rn_contract (rc_renderer c)) @
     put (rn_machinery (rc_renderer c)) @ put (rn_checksum (rc_renderer c)) @ put (rn_kubernetes (rc_renderer c))"

lemma put_head_unique:
  assumes "content_ok c" "content_ok d" "put_head c @ r = put_head d @ r'"
  shows "rc_cluster c = rc_cluster d \<and> rc_draft c = rc_draft d \<and> rc_draft_rev c = rc_draft_rev d \<and> rc_renderer c = rc_renderer d \<and> r = r'"
proof -
  let ?h = "\<lambda>c. (rc_cluster c, rc_draft c, rc_draft_rev c, rn_contract (rc_renderer c), rn_machinery (rc_renderer c),
      rn_checksum (rc_renderer c), rn_kubernetes (rc_renderer c))"
  note code = code_of_strings [OF code_of_strings [OF prefix_code_pair [OF counts.prefix_code_axioms
      code_of_strings [OF code_of_strings [OF code_of_strings [OF strings.prefix_code_axioms]]]]]]
  have "?h c = ?h d \<and> r = r'"
    using assms by (intro prefix_code.unique [OF code]) (simp_all add: content_ok_def put_head_def)
  then show ?thesis by (auto intro: renderer.equality)
qed

text \<open>C14. The digest of a release covers its content: two contents have the same encoding exactly when they
  are of the same cluster, draft revision and renderer and name the same sources and the same
  machines, in whatever order.\<close>

theorem encoding_is_the_content:
  assumes "content_ok c" and "content_ok d"
  shows "encode c = encode d \<longleftrightarrow> same_content c d"
proof
  assume "same_content c d"
  then show "encode c = encode d" using assms sort_key_set [of "\<lambda>s. (cs_kind s, cs_key s)" "rc_sources c" "rc_sources d"]
      sort_key_set [of cm_machine "rc_machines c" "rc_machines d"]
    by (simp add: encode_def same_content_def content_ok_def Let_def)
next
  let ?ss = "\<lambda>c. sort_key (\<lambda>s. (cs_kind s, cs_key s)) (rc_sources c)" and ?ms = "\<lambda>c. sort_key cm_machine (rc_machines c)"
  let ?m = "\<lambda>c. count (int (length (?ms c))) @ concat (map put_machine (?ms c))"
  let ?s = "\<lambda>c. count (int (length (?ss c))) @ concat (map put_source (?ss c)) @ ?m c"
  assume eq: "encode c = encode d"
  have enc: "encode x = put ''bronzeward-release-digest/1'' @ put_head x @ ?s x" for x
    by (simp add: encode_def put_head_def Let_def)
  have h: "rc_cluster c = rc_cluster d \<and> rc_draft c = rc_draft d \<and> rc_draft_rev c = rc_draft_rev d \<and>
      rc_renderer c = rc_renderer d \<and> ?s c = ?s d"
    using eq unfolding enc by (intro put_head_unique assms) simp
  note ok = assms [unfolded content_ok_def]
  have "int (length (?ss c)) = int (length (?ss d)) \<and> concat (map put_source (?ss c)) @ ?m c = concat (map put_source (?ss d)) @ ?m d"
    using h ok by (intro counts.unique) auto
  then have s: "?ss c = ?ss d \<and> ?m c = ?m d"
    using ok by (intro sources.unique_concat) (auto simp: list_all_iff)
  have "int (length (?ms c)) = int (length (?ms d)) \<and> concat (map put_machine (?ms c)) = concat (map put_machine (?ms d))"
    using s ok by (intro counts.unique) auto
  then have "?ms c = ?ms d \<and> [] = ([] :: string)"
    using ok by (intro machines.unique_concat) (auto simp: list_all_iff)
  then have "set (?ss c) = set (?ss d) \<and> set (?ms c) = set (?ms d)" using s by simp
  then show "same_content c d" using h by (simp add: same_content_def)
qed

definition content_example :: "bool \<Rightarrow> release_content" where
  "content_example flip = \<lparr>rc_cluster = ''cl_a'', rc_draft = ''drf_a'', rc_draft_rev = 3,
     rc_renderer = \<lparr>rn_contract = ''v1.9'', rn_machinery = ''v1.9.1'', rn_checksum = ''h1:x'', rn_kubernetes = ''v1.31.0''\<rparr>,
     rc_sources = (if flip then rev else id) [\<lparr>cs_kind = ''profile'', cs_key = ''base'', cs_revision = ''prv_a''\<rparr>,
       \<lparr>cs_kind = ''fragment'', cs_key = ''net'', cs_revision = ''''\<rparr>],
     rc_machines = [\<lparr>cm_machine = ''m_a'', cm_base = ''ibr_a'', cm_assignment = '''', cm_mode = ''metal'', cm_configuration = ''0''\<rparr>]\<rparr>"

theorem encoding_is_the_content_witness:
  "encode (content_example False) = encode (content_example True) \<and>
   encode (content_example False) \<noteq> encode ((content_example True)\<lparr>rc_draft := ''drf_b''\<rparr>)"
proof -
  have ok: "content_ok (content_example False)" "content_ok (content_example True)"
      "content_ok ((content_example True)\<lparr>rc_draft := ''drf_b''\<rparr>)"
    by (simp_all add: content_ok_def content_example_def short_def short_source_def short_machine_def)
  have "same_content (content_example False) (content_example True)"
      "\<not> same_content (content_example False) ((content_example True)\<lparr>rc_draft := ''drf_b''\<rparr>)"
    by (auto simp: same_content_def content_example_def)
  then show ?thesis
    using encoding_is_the_content [OF ok(1) ok(2)] encoding_is_the_content [OF ok(1) ok(3)] by blast
qed

end
