(* ===== verification/Publish_Decl.thy ===== *)
theory Publish_Decl
  imports Node_Path Dep_Classify Release_Digest
begin

text \<open>
  What a compiled release hands to the publication commit, and the check of its dependency and provenance
  records against the declarations of the sources it composes (\<^verbatim>\<open>releaseUnit\<close> and its parts of
  \<^verbatim>\<open>internal/api/publish.go\<close>, \<^verbatim>\<open>disagreement\<close> of \<^verbatim>\<open>publish_declarations.go\<close>, \<^verbatim>\<open>storedPath\<close> of
  \<^verbatim>\<open>releases.go\<close>, \<^verbatim>\<open>Record\<close> and \<^verbatim>\<open>Origin\<close> of \<^verbatim>\<open>internal/compile/records.go\<close>). SHA-256 is an argument.

  The check answers the first clause on which the records and the sources disagree. \<open>records_agree\<close>
  says the same without an order or a tally, and the theorem is that the check finds nothing exactly
  then.
\<close>

section \<open>The unit\<close>

record origin =
  og_revision :: string
  og_digest :: string

record prov_record =
  pv_reference :: string
  pv_version :: int
  pv_kind :: string
  pv_encoding :: string
  pv_member :: int
  pv_members :: int
  pv_source :: origin
  pv_path :: string
  pv_occurrence :: int
  pv_output :: string
  pv_overridden :: "origin option"

record unit_dependency =
  ud_reference :: string
  ud_object :: string
  ud_version :: int
  ud_created :: time
  ud_source :: string
  ud_digest :: digest
  ud_path :: string
  ud_occurrence :: int

record unit_machine =
  um_machine :: string
  um_base :: string
  um_assignment :: string
  um_mode :: string
  um_observation :: string
  um_ciphertext :: string
  um_configuration :: digest
  um_redacted :: "string option"
  um_provenance :: "prov_record list"
  um_effective :: "unit_dependency list"
  um_reproduction :: "unit_dependency list"
  um_encryption :: unit_dependency

section \<open>The sources\<close>

record decl_row =
  dn_kind :: string
  dn_version :: int
  dn_encoding :: string
  dn_generation :: string

text \<open>The digest of a stored text, and its declarations by name, in order.\<close>

record declared_source =
  so_digest :: digest
  so_declarations :: "(string \<times> decl_row) list"

type_synonym composition = "(string \<times> bool) list" \<comment> \<open>source revision, is the import base\<close>
type_synonym sources = "string \<rightharpoonup> declared_source"

text \<open>Every composed revision was read before (\<open>check_declarations\<close> answers an error otherwise).\<close>

definition source_of :: "sources \<Rightarrow> string \<Rightarrow> declared_source" where
  "source_of ss r = (case ss r of Some s \<Rightarrow> s | None \<Rightarrow> \<lparr>so_digest = [], so_declarations = []\<rparr>)"

definition declared :: "sources \<Rightarrow> string \<Rightarrow> string \<Rightarrow> decl_row option" where
  "declared ss r name = map_of (so_declarations (source_of ss r)) name"

definition hex_digit :: "nat \<Rightarrow> char" where
  "hex_digit n = (if n < 10 then char_of (48 + n) else char_of (87 + n))"

definition hex :: "digest \<Rightarrow> string" where
  "hex d = concat (map (\<lambda>b. [hex_digit (unat b div 16), hex_digit (unat b mod 16)]) d)"

definition stored_path :: "string \<Rightarrow> bool" where
  "stored_path s \<longleftrightarrow> s = ''<redacted>'' \<or> parse_path s \<noteq> None"

section \<open>The check\<close>

type_synonym occurrence = "string \<times> string \<times> string \<times> int" \<comment> \<open>source, reference, path, position\<close>

definition at_clause :: "string \<Rightarrow> string \<Rightarrow> string \<Rightarrow> string" where
  "at_clause clause source reference = clause @ '' (source '' @ source @ '', reference '' @ reference @ '')''"

definition occ_of_dep :: "unit_dependency \<Rightarrow> occurrence" where
  "occ_of_dep d = (ud_source d, ud_reference d, ud_path d, ud_occurrence d)"

definition occ_of_rec :: "prov_record \<Rightarrow> occurrence" where
  "occ_of_rec r = (og_revision (pv_source r), pv_reference r, pv_path r, pv_occurrence r)"

definition reproduction_clause :: "composition \<Rightarrow> sources \<Rightarrow> unit_dependency \<Rightarrow> string option" where
  "reproduction_clause co ss d =
     (if ud_source d \<notin> fst ` set co then Some ''reproduction source outside the composition''
      else case declared ss (ud_source d) (ud_reference d) of
        None \<Rightarrow> Some ''reproduction names no declaration''
      | Some n \<Rightarrow>
          if ud_version d \<noteq> dn_version n then Some ''reproduction version differs from the declaration''
          else if ud_object d \<noteq> dn_generation n then Some ''reproduction object differs from the declared generation''
          else if ud_digest d \<noteq> so_digest (source_of ss (ud_source d)) then Some ''reproduction source digest differs''
          else None)"

text \<open>The sources of the reproduction dependencies in order of first use, each with its occurrences.\<close>

definition numbered :: "unit_dependency list \<Rightarrow> string \<Rightarrow> bool" where
  "numbered ds source \<longleftrightarrow>
     (let o' = sort (map ud_occurrence (filter (\<lambda>d. ud_source d = source) ds)) in o' = map int [0..<length o'])"

definition sources_used :: "unit_dependency list \<Rightarrow> string list" where
  "sources_used ds = rev (remdups (rev (map ud_source ds)))"

definition record_clause :: "composition \<Rightarrow> sources \<Rightarrow> prov_record \<Rightarrow> string option" where
  "record_clause co ss r =
     (let rv = og_revision (pv_source r) in
      if rv \<notin> fst ` set co then Some ''provenance source outside the composition''
      else if og_digest (pv_source r) \<noteq> hex (so_digest (source_of ss rv)) then Some ''provenance source digest differs''
      else case declared ss rv (pv_reference r) of
        None \<Rightarrow> Some ''provenance names no declaration''
      | Some n \<Rightarrow>
          if pv_version r \<noteq> dn_version n then Some ''provenance version differs from the declaration''
          else if pv_encoding r \<noteq> dn_encoding n then Some ''provenance encoding differs from the declaration''
          else if dn_kind n = ''mapping'' \<and> (pv_member r < 0 \<or> pv_member r \<ge> pv_members r) \<or>
                  dn_kind n \<noteq> ''mapping'' \<and> (pv_member r \<noteq> - 1 \<or> pv_members r \<noteq> 0)
          then Some ''provenance member does not fit the declared kind''
          else if pv_kind r \<noteq> dn_kind n then Some ''provenance kind differs from the declaration''
          else if (pv_output r = '''') = (pv_overridden r = None) then Some ''provenance record without exactly one outcome''
          else if \<not> stored_path (pv_path r) \<or> pv_output r \<noteq> '''' \<and> \<not> stored_path (pv_output r)
          then Some ''provenance path is not a stored path''
          else case pv_overridden r of
            None \<Rightarrow> None
          | Some by' \<Rightarrow>
              if map_of (rev co) (og_revision by') \<noteq> Some False
              then Some ''provenance override is not a fragment of the composition''
              else if og_digest by' \<noteq> hex (so_digest (source_of ss (og_revision by')))
              then Some ''provenance override digest differs''
              else None)"

text \<open>What the pass over the provenance records has seen.\<close>

record tally =
  ty_overridden :: "(occurrence \<times> int) set"
  ty_output :: "(occurrence \<times> int) set"
  ty_members :: "occurrence \<rightharpoonup> int"
  ty_covered :: "occurrence \<Rightarrow> int"

definition no_tally :: tally where
  "no_tally = \<lparr>ty_overridden = {}, ty_output = {}, ty_members = Map.empty, ty_covered = (\<lambda>_. 0)\<rparr>"

definition tally_clause :: "prov_record \<Rightarrow> tally \<Rightarrow> string option" where
  "tally_clause r t =
     (let oc = occ_of_rec r; k = (oc, pv_member r) in
      if k \<in> ty_overridden t \<or> pv_overridden r \<noteq> None \<and> k \<in> ty_output t then Some ''provenance outcome repeated''
      else if (case ty_members t oc of Some n \<Rightarrow> n \<noteq> max (pv_members r) 1 | None \<Rightarrow> False)
      then Some ''provenance member count differs within an occurrence''
      else None)"

definition tally_add :: "prov_record \<Rightarrow> tally \<Rightarrow> tally" where
  "tally_add r t =
     (let oc = occ_of_rec r; k = (oc, pv_member r);
          t1 = t\<lparr>ty_members := (ty_members t)(oc \<mapsto> max (pv_members r) 1),
                 ty_covered := (if k \<in> ty_output t then ty_covered t else (ty_covered t)(oc := ty_covered t oc + 1))\<rparr> in
      if pv_overridden r \<noteq> None then t1\<lparr>ty_overridden := insert k (ty_overridden t1)\<rparr>
      else t1\<lparr>ty_output := insert k (ty_output t1)\<rparr>)"

fun pass_records :: "composition \<Rightarrow> sources \<Rightarrow> prov_record list \<Rightarrow> tally \<Rightarrow> (string, tally) res" where
  "pass_records co ss [] t = Inr t"
| "pass_records co ss (r # rs) t =
     (case record_clause co ss r of
        Some cl \<Rightarrow> Inl (at_clause cl (og_revision (pv_source r)) (pv_reference r))
      | None \<Rightarrow>
          (case tally_clause r t of
             Some cl \<Rightarrow> Inl (at_clause cl (og_revision (pv_source r)) (pv_reference r))
           | None \<Rightarrow> pass_records co ss rs (tally_add r t)))"

text \<open>The first of a list that a test names a clause for.\<close>

definition first_clause :: "('a \<Rightarrow> string option) \<Rightarrow> 'a list \<Rightarrow> string option" where
  "first_clause f xs = (case List.map_filter f xs of [] \<Rightarrow> None | c # _ \<Rightarrow> Some c)"

definition unused_clause :: "unit_machine \<Rightarrow> sources \<Rightarrow> string \<Rightarrow> string option" where
  "unused_clause m ss source =
     first_clause (\<lambda>name.
       if (source, name) \<notin> (\<lambda>d. (ud_source d, ud_reference d)) ` set (um_reproduction m)
       then Some (at_clause ''declaration without a reproduction dependency'' source name)
       else if (source, name) \<notin> (\<lambda>r. (og_revision (pv_source r), pv_reference r)) ` set (um_provenance m)
       then Some (at_clause ''declaration without a provenance record'' source name)
       else None) (map fst (so_declarations (source_of ss source)))"

fun or_else :: "string option \<Rightarrow> string option \<Rightarrow> string option" where
  "or_else (Some c) _ = Some c"
| "or_else None r = r"

definition rec_at :: "string \<Rightarrow> prov_record \<Rightarrow> string" where
  "rec_at clause r = at_clause clause (og_revision (pv_source r)) (pv_reference r)"

definition disagreement :: "composition \<Rightarrow> sources \<Rightarrow> unit_machine \<Rightarrow> string option" where
  "disagreement co ss m =
     or_else (first_clause (\<lambda>d. map_option (\<lambda>c. at_clause c (ud_source d) (ud_reference d)) (reproduction_clause co ss d)) (um_reproduction m))
     (or_else (first_clause (\<lambda>source. if numbered (um_reproduction m) source then None
         else Some (at_clause ''reproduction occurrences are not numbered from 0'' source '''')) (sources_used (um_reproduction m)))
     (case pass_records co ss (um_provenance m) no_tally of
        Inl c \<Rightarrow> Some c
      | Inr t \<Rightarrow>
          or_else (first_clause (unused_clause m ss) (sort (remdups (map fst co))))
          (or_else (first_clause (\<lambda>r. if ty_members t (occ_of_rec r) \<noteq> Some (ty_covered t (occ_of_rec r))
              then Some (rec_at ''provenance occurrence without an outcome for every member'' r) else None) (um_provenance m))
          (or_else (first_clause (\<lambda>r. if occ_of_rec r \<notin> occ_of_dep ` set (um_reproduction m)
              then Some (rec_at ''provenance occurrence without a reproduction dependency'' r) else None) (um_provenance m))
          (first_clause (\<lambda>d. if occ_of_dep d \<notin> occ_of_rec ` set (um_provenance m)
              then Some (at_clause ''reproduction dependency without a provenance record'' (ud_source d) (ud_reference d)) else None)
            (um_reproduction m))))))"

section \<open>What agreement is\<close>

definition dep_agrees :: "composition \<Rightarrow> sources \<Rightarrow> unit_dependency \<Rightarrow> bool" where
  "dep_agrees co ss d \<longleftrightarrow> ud_source d \<in> fst ` set co \<and> ud_digest d = so_digest (source_of ss (ud_source d)) \<and>
     (\<exists>n. declared ss (ud_source d) (ud_reference d) = Some n \<and> ud_version d = dn_version n \<and> ud_object d = dn_generation n)"

definition member_fits :: "prov_record \<Rightarrow> decl_row \<Rightarrow> bool" where
  "member_fits r n \<longleftrightarrow> (if dn_kind n = ''mapping'' then 0 \<le> pv_member r \<and> pv_member r < pv_members r
     else pv_member r = - 1 \<and> pv_members r = 0)"

definition rec_agrees :: "composition \<Rightarrow> sources \<Rightarrow> prov_record \<Rightarrow> bool" where
  "rec_agrees co ss r \<longleftrightarrow>
     og_revision (pv_source r) \<in> fst ` set co \<and>
     og_digest (pv_source r) = hex (so_digest (source_of ss (og_revision (pv_source r)))) \<and>
     (\<exists>n. declared ss (og_revision (pv_source r)) (pv_reference r) = Some n \<and> pv_version r = dn_version n \<and>
        pv_encoding r = dn_encoding n \<and> pv_kind r = dn_kind n \<and> member_fits r n) \<and>
     stored_path (pv_path r) \<and>
     (case pv_overridden r of
        None \<Rightarrow> pv_output r \<noteq> '''' \<and> stored_path (pv_output r)
      | Some y \<Rightarrow> pv_output r = '''' \<and> map_of (rev co) (og_revision y) = Some False \<and>
          og_digest y = hex (so_digest (source_of ss (og_revision y))))"

text \<open>Two records of one occurrence count its members alike, and of one member both name an output.\<close>

definition compatible :: "prov_record \<Rightarrow> prov_record \<Rightarrow> bool" where
  "compatible r x \<longleftrightarrow> (occ_of_rec r = occ_of_rec x \<longrightarrow> max (pv_members r) 1 = max (pv_members x) 1 \<and>
     (pv_member r = pv_member x \<longrightarrow> pv_overridden r = None \<and> pv_overridden x = None))"

definition members_of :: "prov_record list \<Rightarrow> occurrence \<Rightarrow> int set" where
  "members_of rs oc = pv_member ` {r \<in> set rs. occ_of_rec r = oc}"

definition records_agree :: "composition \<Rightarrow> sources \<Rightarrow> unit_machine \<Rightarrow> bool" where
  "records_agree co ss m \<longleftrightarrow>
     (\<forall>d \<in> set (um_reproduction m). dep_agrees co ss d) \<and>
     (\<forall>d \<in> set (um_reproduction m). numbered (um_reproduction m) (ud_source d)) \<and>
     (\<forall>r \<in> set (um_provenance m). rec_agrees co ss r) \<and> sorted_wrt compatible (um_provenance m) \<and>
     (\<forall>r \<in> set (um_provenance m). int (card (members_of (um_provenance m) (occ_of_rec r))) = max (pv_members r) 1) \<and>
     (\<forall>source \<in> fst ` set co. \<forall>name \<in> fst ` set (so_declarations (source_of ss source)).
        (\<exists>d \<in> set (um_reproduction m). ud_source d = source \<and> ud_reference d = name) \<and>
        (\<exists>r \<in> set (um_provenance m). og_revision (pv_source r) = source \<and> pv_reference r = name)) \<and>
     occ_of_rec ` set (um_provenance m) = occ_of_dep ` set (um_reproduction m)"

section \<open>The check finds what agreement is\<close>

lemma pair_in_image: "(a, b) \<in> (\<lambda>x. (f x, g x)) ` S \<longleftrightarrow> (\<exists>x \<in> S. f x = a \<and> g x = b)"
  by auto

lemma first_clause_None: "first_clause f xs = None \<longleftrightarrow> (\<forall>x \<in> set xs. f x = None)"
  by (induction xs) (auto simp: first_clause_def List.map_filter_def split: option.splits list.splits)

lemma or_else_None: "or_else a b = None \<longleftrightarrow> a = None \<and> b = None"
  by (cases a) auto

lemma reproduction_clause_None: "reproduction_clause co ss d = None \<longleftrightarrow> dep_agrees co ss d"
  by (auto simp: reproduction_clause_def dep_agrees_def split: option.splits)

lemma record_clause_None: "record_clause co ss r = None \<longleftrightarrow> rec_agrees co ss r"
  by (cases "declared ss (og_revision (pv_source r)) (pv_reference r)"; cases "pv_overridden r")
    (auto simp: record_clause_def rec_agrees_def member_fits_def Let_def)

text \<open>The tally of the records passed.\<close>

definition tallied :: "prov_record list \<Rightarrow> tally \<Rightarrow> bool" where
  "tallied rs t \<longleftrightarrow>
     ty_overridden t = (\<lambda>r. (occ_of_rec r, pv_member r)) ` {r \<in> set rs. pv_overridden r \<noteq> None} \<and>
     ty_output t = (\<lambda>r. (occ_of_rec r, pv_member r)) ` {r \<in> set rs. pv_overridden r = None} \<and>
     (\<forall>oc. ty_members t oc = None \<longleftrightarrow> oc \<notin> occ_of_rec ` set rs) \<and>
     (\<forall>r \<in> set rs. ty_members t (occ_of_rec r) = Some (max (pv_members r) 1)) \<and>
     (\<forall>oc. ty_covered t oc = int (card (members_of rs oc)))"

lemma tallied_covered: "tallied rs t \<Longrightarrow> ty_covered t oc = int (card (members_of rs oc))"
  unfolding tallied_def by blast

lemma tallied_members: "tallied rs t \<Longrightarrow> r \<in> set rs \<Longrightarrow> ty_members t (occ_of_rec r) = Some (max (pv_members r) 1)"
  unfolding tallied_def by blast

lemma tallied_empty: "tallied [] no_tally"
  by (simp add: tallied_def no_tally_def members_of_def)

lemma tallied_none: "tallied rs t \<Longrightarrow> ty_members t oc = None \<longleftrightarrow> oc \<notin> occ_of_rec ` set rs"
  unfolding tallied_def by blast

lemma tallied_outcomes:
  assumes "tallied rs t"
  shows "(oc, k) \<in> ty_overridden t \<longleftrightarrow> (\<exists>x \<in> set rs. occ_of_rec x = oc \<and> pv_member x = k \<and> pv_overridden x \<noteq> None)"
    and "(oc, k) \<in> ty_output t \<longleftrightarrow> (\<exists>x \<in> set rs. occ_of_rec x = oc \<and> pv_member x = k \<and> pv_overridden x = None)"
proof -
  have "ty_overridden t = (\<lambda>r. (occ_of_rec r, pv_member r)) ` {r \<in> set rs. pv_overridden r \<noteq> None}"
      "ty_output t = (\<lambda>r. (occ_of_rec r, pv_member r)) ` {r \<in> set rs. pv_overridden r = None}"
    using assms unfolding tallied_def by blast+
  then show "(oc, k) \<in> ty_overridden t \<longleftrightarrow> (\<exists>x \<in> set rs. occ_of_rec x = oc \<and> pv_member x = k \<and> pv_overridden x \<noteq> None)"
      "(oc, k) \<in> ty_output t \<longleftrightarrow> (\<exists>x \<in> set rs. occ_of_rec x = oc \<and> pv_member x = k \<and> pv_overridden x = None)"
    by (simp_all only: pair_in_image mem_Collect_eq) blast+
qed

lemma none_of:
  "\<not> ((\<exists>x \<in> S. A x) \<or> p \<and> (\<exists>x \<in> S. B x)) \<and> \<not> (\<exists>x \<in> S. C x) \<longleftrightarrow> (\<forall>x \<in> S. \<not> A x \<and> \<not> (p \<and> B x) \<and> \<not> C x)"
  by blast

lemma compatible_iff:
  "compatible x r \<longleftrightarrow> \<not> (occ_of_rec x = occ_of_rec r \<and> pv_member x = pv_member r \<and> pv_overridden x \<noteq> None) \<and>
     \<not> (pv_overridden r \<noteq> None \<and> occ_of_rec x = occ_of_rec r \<and> pv_member x = pv_member r \<and> pv_overridden x = None) \<and>
     \<not> (occ_of_rec x = occ_of_rec r \<and> max (pv_members x) 1 \<noteq> max (pv_members r) 1)"
  by (cases "occ_of_rec x = occ_of_rec r"; cases "pv_member x = pv_member r"; cases "pv_overridden x"; cases "pv_overridden r";
      simp add: compatible_def)

lemma tally_clause_None:
  assumes "tallied rs t"
  shows "tally_clause r t = None \<longleftrightarrow> (\<forall>x \<in> set rs. compatible x r)"
proof -
  have m: "(case ty_members t (occ_of_rec r) of Some n \<Rightarrow> n \<noteq> max (pv_members r) 1 | None \<Rightarrow> False) \<longleftrightarrow>
      (\<exists>x \<in> set rs. occ_of_rec x = occ_of_rec r \<and> max (pv_members x) 1 \<noteq> max (pv_members r) 1)"
  proof (cases "ty_members t (occ_of_rec r)")
    case None
    then have "\<forall>x \<in> set rs. occ_of_rec x \<noteq> occ_of_rec r" using tallied_none [OF assms, of "occ_of_rec r"] by (metis imageI)
    then show ?thesis using None by simp
  next
    case (Some n)
    then obtain y where y: "y \<in> set rs" "occ_of_rec y = occ_of_rec r" using tallied_none [OF assms, of "occ_of_rec r"] by auto
    have n: "max (pv_members x) 1 = n" if "x \<in> set rs" "occ_of_rec x = occ_of_rec r" for x
      using tallied_members [OF assms that(1)] that(2) Some by simp
    have "n \<noteq> max (pv_members r) 1 \<longleftrightarrow>
        (\<exists>x \<in> set rs. occ_of_rec x = occ_of_rec r \<and> max (pv_members x) 1 \<noteq> max (pv_members r) 1)"
    proof
      assume "n \<noteq> max (pv_members r) 1"
      then show "\<exists>x \<in> set rs. occ_of_rec x = occ_of_rec r \<and> max (pv_members x) 1 \<noteq> max (pv_members r) 1"
        using y n [OF y] by (intro bexI [of _ y]) simp_all
    next
      assume "\<exists>x \<in> set rs. occ_of_rec x = occ_of_rec r \<and> max (pv_members x) 1 \<noteq> max (pv_members r) 1"
      then obtain x where "x \<in> set rs" "occ_of_rec x = occ_of_rec r" "max (pv_members x) 1 \<noteq> max (pv_members r) 1" by (elim bexE conjE)
      then show "n \<noteq> max (pv_members r) 1" using n [of x] by simp
    qed
    then show ?thesis unfolding Some option.case .
  qed
  have "tally_clause r t = None \<longleftrightarrow> \<not> ((occ_of_rec r, pv_member r) \<in> ty_overridden t \<or>
      pv_overridden r \<noteq> None \<and> (occ_of_rec r, pv_member r) \<in> ty_output t) \<and>
      \<not> (\<exists>x \<in> set rs. occ_of_rec x = occ_of_rec r \<and> max (pv_members x) 1 \<noteq> max (pv_members r) 1)"
    unfolding tally_clause_def Let_def m by simp
  then show ?thesis unfolding tallied_outcomes [OF assms] compatible_iff none_of .
qed

lemma tallied_add:
  assumes "tallied rs t" and "\<forall>x \<in> set rs. compatible x r"
  shows "tallied (rs @ [r]) (tally_add r t)"
proof -
  let ?k = "(occ_of_rec r, pv_member r)"
  have mem: "members_of (rs @ [r]) oc = (if oc = occ_of_rec r then insert (pv_member r) (members_of rs oc) else members_of rs oc)" for oc
    by (auto simp: members_of_def)
  have out: "?k \<in> ty_output t \<longleftrightarrow> pv_member r \<in> members_of rs (occ_of_rec r)"
    using assms by (auto simp: tallied_def members_of_def compatible_def image_iff)
  have fin: "finite (members_of rs oc)" for oc by (simp add: members_of_def)
  have cov: "ty_covered (tally_add r t) oc = int (card (members_of (rs @ [r]) oc))" for oc
    using out fin tallied_covered [OF assms(1)] unfolding tally_add_def Let_def by (simp add: mem insert_absorb)
  have sets: "ty_overridden (tally_add r t) = (\<lambda>r. (occ_of_rec r, pv_member r)) ` {x \<in> set (rs @ [r]). pv_overridden x \<noteq> None}"
      "ty_output (tally_add r t) = (\<lambda>r. (occ_of_rec r, pv_member r)) ` {x \<in> set (rs @ [r]). pv_overridden x = None}"
    using assms(1) by (auto simp: tally_add_def Let_def tallied_def)
  have ms: "ty_members (tally_add r t) = (ty_members t)(occ_of_rec r \<mapsto> max (pv_members r) 1)"
    by (simp add: tally_add_def Let_def)
  show ?thesis unfolding tallied_def sets cov ms using assms
    by (auto simp: tallied_def compatible_def)
qed

lemma pass_records_ok:
  assumes "tallied before t"
  shows "(\<exists>t'. pass_records co ss rs t = Inr t') \<longleftrightarrow>
      (\<forall>r \<in> set rs. rec_agrees co ss r) \<and> (\<forall>x \<in> set before. \<forall>r \<in> set rs. compatible x r) \<and> sorted_wrt compatible rs"
    and "pass_records co ss rs t = Inr t' \<Longrightarrow> tallied (before @ rs) t'"
  using assms
proof (induction rs arbitrary: before t t')
  case (Cons r rs)
  { case 1
    show ?case
    proof (cases "record_clause co ss r = None \<and> tally_clause r t = None")
      case True
      then have ok: "rec_agrees co ss r" "\<forall>x \<in> set before. compatible x r"
        using record_clause_None tally_clause_None [OF 1] by blast+
      then have "tallied (before @ [r]) (tally_add r t)" using tallied_add [OF 1] by blast
      from Cons.IH(1) [OF this] show ?thesis using True ok by auto
    next
      case False
      then have "\<not> (rec_agrees co ss r \<and> (\<forall>x \<in> set before. compatible x r))"
        using record_clause_None [of co ss r] tally_clause_None [OF 1, of r] by blast
      moreover have "\<not> (\<exists>t'. pass_records co ss (r # rs) t = Inr t')"
        using False by (auto split: option.split)
      ultimately show ?thesis by auto
    qed }
  { case 2
    then have n: "record_clause co ss r = None" "tally_clause r t = None" "pass_records co ss rs (tally_add r t) = Inr t'"
      by (auto split: option.split_asm)
    then have "\<forall>x \<in> set before. compatible x r" using tally_clause_None [OF 2(2)] by blast
    from Cons.IH(2) [OF n(3) tallied_add [OF 2(2) this]] show ?case by simp }
qed simp_all

text \<open>C15. The check of a compiled machine's records finds no disagreement exactly when its records agree with the
  sources it composes: each record names a declaration of a composed source at its version, generation
  and digest, the occurrences of a source are numbered from 0, each member of an occurrence has one
  outcome, every declaration is used, and both kinds of record name the same occurrences.\<close>

theorem disagreement_iff:
  "disagreement co ss m = None \<longleftrightarrow> records_agree co ss m"
proof -
  have used: "set (sources_used ds) = ud_source ` set ds" for ds by (simp add: sources_used_def)
  have num: "(\<forall>source \<in> set (sources_used ds). numbered ds source) \<longleftrightarrow> (\<forall>d \<in> set ds. numbered ds (ud_source d))" for ds
    by (simp add: used)
  show ?thesis
  proof (cases "pass_records co ss (um_provenance m) no_tally")
    case (Inl c)
    then have "\<not> ((\<forall>r \<in> set (um_provenance m). rec_agrees co ss r) \<and> sorted_wrt compatible (um_provenance m))"
      using pass_records_ok(1) [OF tallied_empty, of co ss "um_provenance m"] by auto
    moreover have "disagreement co ss m \<noteq> None" using Inl by (simp add: disagreement_def or_else_None)
    ultimately show ?thesis unfolding records_agree_def by blast
  next
    case (Inr t)
    then have ok: "(\<forall>r \<in> set (um_provenance m). rec_agrees co ss r) \<and> sorted_wrt compatible (um_provenance m)"
      using pass_records_ok(1) [OF tallied_empty, of co ss "um_provenance m"] by auto
    have t: "tallied (um_provenance m) t" using pass_records_ok(2) [OF tallied_empty Inr] by simp
    then have cov: "ty_members t (occ_of_rec r) = Some (ty_covered t (occ_of_rec r)) \<longleftrightarrow>
        int (card (members_of (um_provenance m) (occ_of_rec r))) = max (pv_members r) 1" if "r \<in> set (um_provenance m)" for r
      using tallied_members [OF t that] tallied_covered [OF t] by auto
    have none: "disagreement co ss m = None \<longleftrightarrow>
        (\<forall>d \<in> set (um_reproduction m). dep_agrees co ss d) \<and> (\<forall>d \<in> set (um_reproduction m). numbered (um_reproduction m) (ud_source d)) \<and>
        (\<forall>source \<in> fst ` set co. unused_clause m ss source = None) \<and>
        (\<forall>r \<in> set (um_provenance m). ty_members t (occ_of_rec r) = Some (ty_covered t (occ_of_rec r))) \<and>
        (\<forall>r \<in> set (um_provenance m). occ_of_rec r \<in> occ_of_dep ` set (um_reproduction m)) \<and>
        (\<forall>d \<in> set (um_reproduction m). occ_of_dep d \<in> occ_of_rec ` set (um_provenance m))"
      unfolding disagreement_def Inr sum.case or_else_None first_clause_None
      by (simp add: reproduction_clause_None num [symmetric])
    have occs: "(\<forall>r \<in> set (um_provenance m). occ_of_rec r \<in> occ_of_dep ` set (um_reproduction m)) \<and>
        (\<forall>d \<in> set (um_reproduction m). occ_of_dep d \<in> occ_of_rec ` set (um_provenance m)) \<longleftrightarrow>
        occ_of_rec ` set (um_provenance m) = occ_of_dep ` set (um_reproduction m)" by blast
    have uses: "unused_clause m ss source = None \<longleftrightarrow> (\<forall>name \<in> fst ` set (so_declarations (source_of ss source)).
        (\<exists>d \<in> set (um_reproduction m). ud_source d = source \<and> ud_reference d = name) \<and>
        (\<exists>r \<in> set (um_provenance m). og_revision (pv_source r) = source \<and> pv_reference r = name))" for source
      unfolding unused_clause_def first_clause_None pair_in_image set_map by (auto split: if_split_asm)
    have counts: "(\<forall>r \<in> set (um_provenance m). ty_members t (occ_of_rec r) = Some (ty_covered t (occ_of_rec r))) \<longleftrightarrow>
        (\<forall>r \<in> set (um_provenance m). int (card (members_of (um_provenance m) (occ_of_rec r))) = max (pv_members r) 1)"
      using cov by (rule ball_cong [OF refl])
    have all: "Ball (set (um_provenance m)) (rec_agrees co ss)" "sorted_wrt compatible (um_provenance m)"
      using ok by blast+
    show ?thesis unfolding none uses counts records_agree_def occs [symmetric] by (simp only: all [THEN eqTrueI] simp_thms conj_ac)
  qed
qed

end
