(* ===== verification/Publish.thy ===== *)
theory Publish
  imports Recovery Dep_Monitor Publish_Decl
begin

text \<open>
  Publication (\<^verbatim>\<open>internal/api/publications.go\<close>, \<^verbatim>\<open>worker.go\<close>, \<^verbatim>\<open>publish.go\<close>, \<^verbatim>\<open>publish_declarations.go\<close> and the
  evidence check of \<^verbatim>\<open>publication_observation.go\<close>): a request queues a publish job for a draft revision; a
  worker claims it under a generation, extends its lease while it compiles, and ends it with the
  publication commit or its failure.

  The tables are those of recovery mode, which hold the jobs, those of the dependency monitor, and the
  drafts, heads, revisions and releases. A table of the dispatch that has more columns here is split:
  \<open>rels\<close> and \<open>rel_machs\<close> hold what the dispatch does not read of a release, \<open>heads\<close> what it does not read
  of an assignment. The three head tables are one, by kind.

  A transaction holds the rows it writes, so it runs in one step, from the state in which it has its
  last lock. The draft's entries and the heads they name are read before any lock: \<open>s0\<close> is the state
  of that read. Random identifiers and tokens, and the clock, are arguments (\<open>draws\<close>). The compiled unit
  is an argument: the compiler is not modelled. A foreign key or a check of the schema on a column that
  the model does not read is taken as met. A KV creation time is the time itself and not its text; the
  stored provenance keeps a record whole, with the kind and member count that its JSON leaves out. The form
  of the draft's identifier in the path, the wake of the worker and its log are not modelled.
\<close>

section \<open>The tables\<close>

datatype draft_state = DraftOpen | DraftPublished | DraftDiscarded

record draft_row =
  df_id :: string
  df_cluster :: string
  df_state :: draft_state
  df_revision :: int
  df_token :: string
  df_release :: "string option"

record draft_base_row =
  db_draft :: string
  db_machine :: string
  db_base :: string

datatype hkind = HFragment | HProfile | HAssignment

record draft_source_row =
  ds_draft :: string
  ds_cluster :: string
  ds_kind :: hkind
  ds_key :: string \<comment> \<open>the name, or the machine\<close>
  ds_revision :: "string option"
  ds_base :: "int option"

record head_row =
  hd_kind :: hkind
  hd_id :: string
  hd_cluster :: string
  hd_key :: string
  hd_current :: "string option"
  hd_revision :: int
  hd_token :: string

record revision_row =
  rv_kind :: hkind
  rv_id :: string
  rv_cluster :: string
  rv_key :: string

record rel_row =
  rw_id :: string
  rw_cluster :: string
  rw_draft :: string
  rw_draft_rev :: int
  rw_digest :: digest
  rw_renderer :: renderer
  rw_operation :: string
  rw_by :: string
  rw_role :: string
  rw_epoch :: string
  rw_at :: int

record rel_machine_row =
  rmx_release :: string
  rmx_machine :: string
  rmx_base :: string
  rmx_assignment :: "string option"
  rmx_mode :: string
  rmx_ciphertext :: string
  rmx_configuration :: digest
  rmx_redacted :: "string option"
  rmx_provenance :: "prov_record list"
  rmx_observation :: string

record rel_source_row =
  rs_release :: string
  rs_kind :: hkind
  rs_head :: string
  rs_key :: string
  rs_revision :: "string option"
  rs_head_revision :: int

datatype dep_kind = DepEffective | DepReproduction | DepEncryption

record dependency_row =
  dy_release :: string
  dy_machine :: string
  dy_kind :: dep_kind
  dy_dep :: dependency
  dy_reference :: "string option"
  dy_source :: "(string \<times> digest \<times> string \<times> int) option" \<comment> \<open>revision, digest, path, occurrence\<close>

record publish_db =
  rec :: recovery_db
  mon :: monitor_db
  drafts :: "draft_row list"
  draft_bases :: "draft_base_row list"
  draft_sources :: "draft_source_row list"
  heads :: "head_row list"
  revisions :: "revision_row list"
  documents :: "(string \<times> string) list" \<comment> \<open>import base and fragment revisions, with their texts\<close>
  ref_rows :: "(string \<times> string \<times> decl_row) list" \<comment> \<open>revision, name\<close>
  profile_fragments :: "(string \<times> string) list" \<comment> \<open>profile revision, fragment revision\<close>
  assignment_profiles :: "(string \<times> string) list" \<comment> \<open>assignment revision, profile name\<close>
  assignment_fragments :: "(string \<times> string) list" \<comment> \<open>assignment revision, fragment name\<close>
  rels :: "rel_row list"
  rel_machs :: "rel_machine_row list"
  rel_sources :: "rel_source_row list"
  rel_deps :: "dependency_row list"

abbreviation dsp :: "publish_db \<Rightarrow> dispatch_db" where
  "dsp s \<equiv> disp (rec s)"

section \<open>Errors, refusals and draws\<close>

datatype conflict =
    HeadMoved string "int option" int \<comment> \<open>expected (\<open>None\<close>: absent), actual\<close>
  | BaseMoved string "string option" "string option"

record refusal_doc =
  rf_status :: nat
  rf_code :: string
  rf_with :: "(string \<times> string) list"
  rf_conflicts :: "conflict list"

datatype pub_error =
    PubFenced
  | PubSuperseded
  | PubNoRows
  | PubDefect \<comment> \<open>the unit or the stored rows are not what the code relies on\<close>
  | PubConstraint \<comment> \<open>an integrity constraint (SQLSTATE 23)\<close>
  | PubKilled \<comment> \<open>an interruption, a lost connection: the outcome is not known to the caller\<close>
  | PubRefused refusal_doc

definition pub_refuse :: "nat \<Rightarrow> string \<Rightarrow> (string \<times> string) list \<Rightarrow> pub_error" where
  "pub_refuse status code ws = PubRefused \<lparr>rf_status = status, rf_code = code, rf_with = ws, rf_conflicts = []\<rparr>"

record draws =
  dw_id :: string \<comment> \<open>the release\<close>
  dw_head :: "hkind \<Rightarrow> string \<Rightarrow> string" \<comment> \<open>the head of a name the draft introduces\<close>
  dw_token :: "string \<Rightarrow> string" \<comment> \<open>the token of the row of an identifier\<close>
  dw_status :: "nat \<Rightarrow> string"
  dw_status_at :: "nat \<Rightarrow> time"
  dw_text :: "time \<Rightarrow> string" \<comment> \<open>\<^verbatim>\<open>createdText\<close>, the text of a time\<close>
  dw_at :: int \<comment> \<open>\<^verbatim>\<open>now()\<close>\<close>
  dw_clock :: int \<comment> \<open>\<^verbatim>\<open>clock_timestamp()\<close> where the lease is compared\<close>

text \<open>The publishing process: its owner name and epoch, and the lease it takes.\<close>

record publisher =
  pu_id :: string
  pu_epoch :: string
  pu_lease :: int

record job =
  jb_op :: string
  jb_draft :: string
  jb_cluster :: string
  jb_draft_rev :: int
  jb_gen :: int

record unit_status =
  us_provider :: provider
  us_object :: string
  us_version :: int
  us_verdict :: verdict
  us_began :: time

record used_head =
  uh_kind :: hkind
  uh_head :: string
  uh_revision :: string
  uh_head_revision :: int

record release_unit =
  ru_renderer :: renderer
  ru_unchanged :: "used_head list"
  ru_machines :: "unit_machine list"
  ru_statuses :: "unit_status list"

section \<open>Jobs\<close>

definition job_row :: "string \<Rightarrow> publish_db \<Rightarrow> publish_job option" where
  "job_row op s = keyed pj_id op (jobs (rec s))"

definition update_job :: "(publish_job \<Rightarrow> bool) \<Rightarrow> (publish_job \<Rightarrow> publish_job) \<Rightarrow> publish_db \<Rightarrow> publish_db" where
  "update_job p f s = s\<lparr>rec := (rec s)\<lparr>jobs := sql_update p f (jobs (rec s))\<rparr>\<rparr>"

definition add_job_event :: "string \<Rightarrow> int \<Rightarrow> string \<Rightarrow> job_entry \<Rightarrow> int \<Rightarrow> publish_db \<Rightarrow> (pub_error, publish_db) res" where
  "add_job_event op n ep e at s =
     (if \<exists>x \<in> set (job_events (rec s)). je_operation x = op \<and> je_number x = n then Inl PubConstraint
      else Inr (s\<lparr>rec := (rec s)\<lparr>job_events := job_events (rec s) @
        [\<lparr>je_operation = op, je_number = n, je_epoch = ep, je_entry = e, je_at = at\<rparr>]\<rparr>\<rparr>))"

text \<open>\<^verbatim>\<open>etag\<close> of a draft is its revision and its token.\<close>

definition draft_etag :: "draft_row \<Rightarrow> int \<times> string" where
  "draft_etag d = (df_revision d, df_token d)"

definition active_job :: "publish_job \<Rightarrow> bool" where
  "active_job j \<longleftrightarrow> pj_state j = JobQueued \<or> pj_state j = JobRunning"

text \<open>The request: the caller's principal and role, its epoch, the identifier drawn and the sequence number.\<close>

definition request_publication :: "bool \<Rightarrow> string \<Rightarrow> (int \<times> string) \<Rightarrow> string \<Rightarrow> string \<Rightarrow> string \<Rightarrow> string \<Rightarrow> int \<Rightarrow> int \<Rightarrow> publish_db
    \<Rightarrow> (pub_error, string \<times> publish_db) res" where
  "request_publication configured draft if_match ep who role new seq at s =
     (if \<not> configured then Inl (pub_refuse 503 ''dependency-unavailable'' [])
      else case keyed df_id draft (drafts s) of
        None \<Rightarrow> Inl (pub_refuse 404 ''not-found'' [(''draft'', draft)])
      | Some d \<Rightarrow>
          if df_state d = DraftPublished then
            Inl (pub_refuse 409 ''conflict'' [(''draft'', draft), (''release'', case df_release d of Some r \<Rightarrow> r | None \<Rightarrow> '''')])
          else if df_state d \<noteq> DraftOpen then Inl (pub_refuse 409 ''conflict'' [(''draft'', draft)])
          else if draft_etag d \<noteq> if_match then Inl (pub_refuse 412 ''precondition-failed'' [(''draft'', draft)])
          else (case sql_row (\<lambda>j. pj_draft j = draft \<and> pj_draft_rev j = df_revision d \<and> active_job j) (jobs (rec s)) of
            Some j \<Rightarrow> Inr (pj_id j, s)
          | None \<Rightarrow>
              if new \<in> pj_id ` set (jobs (rec s)) \<or> seq \<in> pj_seq ` set (jobs (rec s)) then Inl PubConstraint
              else and_then (add_job_event new 1 ep JQueued at (s\<lparr>rec := (rec s)\<lparr>jobs := jobs (rec s) @
                [\<lparr>pj_id = new, pj_seq = seq, pj_draft = draft, pj_draft_rev = df_revision d, pj_by = who, pj_role = role,
                  pj_state = JobQueued, pj_gen = 0, pj_owner = None, pj_owner_epoch = None, pj_lease = None, pj_last = 1,
                  pj_result = None, pj_error = None\<rparr>]\<rparr>\<rparr>)) (\<lambda>s1. Inr (new, s1))))"

definition job_eligible :: "int \<Rightarrow> publish_job \<Rightarrow> bool" where
  "job_eligible now j \<longleftrightarrow> pj_state j = JobQueued \<or>
     pj_state j = JobRunning \<and> (case pj_lease j of Some t \<Rightarrow> t < now | None \<Rightarrow> False)"

text \<open>The oldest eligible job, locked, and taken if it is eligible still: \<open>now\<close> is the clock of the read, \<open>now'\<close>
  that of the update.\<close>

definition claim_publish :: "publisher \<Rightarrow> int \<Rightarrow> int \<Rightarrow> int \<Rightarrow> publish_db \<Rightarrow> (pub_error, job option \<times> publish_db) res" where
  "claim_publish w now now' at s =
     (if inst_epoch (dsp s) \<noteq> pu_epoch w then Inl PubSuperseded
      else case sort_key pj_seq (filter (job_eligible now) (jobs (rec s))) of
        [] \<Rightarrow> Inr (None, s)
      | j # _ \<Rightarrow>
          if \<not> job_eligible now' j then Inr (None, s)
          else case keyed df_id (pj_draft j) (drafts s) of
            None \<Rightarrow> Inl PubNoRows
          | Some d \<Rightarrow>
              and_then (add_job_event (pj_id j) (pj_last j + 1) (pu_epoch w) (JClaimed (pj_gen j + 1)) at
                (update_job (\<lambda>x. pj_id x = pj_id j)
                  (\<lambda>x. x\<lparr>pj_state := JobRunning, pj_owner := Some (pu_id w), pj_gen := pj_gen x + 1,
                     pj_owner_epoch := Some (pu_epoch w), pj_lease := Some (now' + pu_lease w), pj_last := pj_last x + 1\<rparr>) s))
                (\<lambda>s1. Inr (Some \<lparr>jb_op = pj_id j, jb_draft = pj_draft j, jb_cluster = df_cluster d,
                   jb_draft_rev = pj_draft_rev j, jb_gen = pj_gen j + 1\<rparr>, s1)))"

text \<open>The fence of every write of an owner: its job running under its name, generation and epoch, its
  lease live.\<close>

definition holds_job :: "publisher \<Rightarrow> job \<Rightarrow> int \<Rightarrow> publish_job \<Rightarrow> bool" where
  "holds_job w j now x \<longleftrightarrow> pj_id x = jb_op j \<and> pj_owner x = Some (pu_id w) \<and> pj_gen x = jb_gen j \<and>
     pj_owner_epoch x = Some (pu_epoch w) \<and> pj_state x = JobRunning \<and> (case pj_lease x of Some t \<Rightarrow> now < t | None \<Rightarrow> False)"

definition extend_publish :: "publisher \<Rightarrow> job \<Rightarrow> int \<Rightarrow> int \<Rightarrow> publish_db \<Rightarrow> (pub_error, publish_db) res" where
  "extend_publish w j now now' s =
     (if inst_epoch (dsp s) \<noteq> pu_epoch w then Inl PubSuperseded
      else if rows_affected (holds_job w j now) (jobs (rec s)) \<noteq> 1 then Inl PubFenced
      else Inr (update_job (holds_job w j now) (\<lambda>x. x\<lparr>pj_lease := Some (now' + pu_lease w)\<rparr>) s))"

definition finish_publish :: "publisher \<Rightarrow> job \<Rightarrow> job_state \<Rightarrow> string option \<Rightarrow> string option \<Rightarrow> job_entry \<Rightarrow> int \<Rightarrow> int \<Rightarrow> publish_db
    \<Rightarrow> (pub_error, publish_db) res" where
  "finish_publish w j st result err e now at s =
     (if inst_epoch (dsp s) \<noteq> pu_epoch w then Inl PubFenced
      else case hit (holds_job w j now) (jobs (rec s)) of
        None \<Rightarrow> Inl PubFenced
      | Some x \<Rightarrow>
          add_job_event (jb_op j) (pj_last x + 1) (pu_epoch w) e at
            (update_job (holds_job w j now) (\<lambda>x. x\<lparr>pj_state := st, pj_result := result, pj_error := err, pj_owner := None,
               pj_owner_epoch := None, pj_lease := None, pj_last := pj_last x + 1\<rparr>) s))"

text \<open>\<^verbatim>\<open>lockPublication\<close>: a publication's read of a machine of its cluster is its owner's, its job held.\<close>

definition lock_publication :: "publisher \<Rightarrow> string \<Rightarrow> observe_for \<Rightarrow> int \<Rightarrow> publish_db \<Rightarrow> (pub_error, unit) res" where
  "lock_publication w m f now s =
     (if of_purpose f \<noteq> Publication then Inr ()
      else and_then (found PubFenced (Option.bind (of_operation f) (\<lambda>op. job_row op s))) (\<lambda>x.
        let j = \<lparr>jb_op = pj_id x, jb_draft = pj_draft x, jb_cluster = '''', jb_draft_rev = pj_draft_rev x, jb_gen = of_generation f\<rparr> in
        if holds_job w j now x \<and> (case (keyed df_id (pj_draft x) (drafts s), keyed m_id m (machines (dsp s))) of
             (Some d, Some r) \<Rightarrow> m_cluster r = df_cluster d | _ \<Rightarrow> False)
        then Inr () else Inl PubFenced))"

section \<open>Heads and inputs\<close>

record source_head =
  sh_kind :: hkind
  sh_key :: string
  sh_head :: string
  sh_revision :: string
  sh_base :: int
  sh_actual :: int
  sh_changed :: bool

definition or_empty :: "string option \<Rightarrow> string" where
  "or_empty x = (case x of Some v \<Rightarrow> v | None \<Rightarrow> '''')"

definition null_empty :: "string \<Rightarrow> string option" where
  "null_empty v = (if v = '''' then None else Some v)"

text \<open>A name is unique in its cluster, an assignment's machine everywhere.\<close>

definition head_named :: "hkind \<Rightarrow> string \<Rightarrow> string \<Rightarrow> head_row \<Rightarrow> bool" where
  "head_named kind cluster key h \<longleftrightarrow> hd_kind h = kind \<and> hd_key h = key \<and> (kind = HAssignment \<or> hd_cluster h = cluster)"

definition draft_head :: "publish_db \<Rightarrow> draft_source_row \<Rightarrow> source_head" where
  "draft_head s e = \<lparr>sh_kind = ds_kind e, sh_key = ds_key e,
     sh_head = (case sql_row (head_named (ds_kind e) (ds_cluster e) (ds_key e)) (heads s) of Some h \<Rightarrow> hd_id h | None \<Rightarrow> ''''),
     sh_revision = or_empty (ds_revision e), sh_base = (case ds_base e of Some n \<Rightarrow> n | None \<Rightarrow> 0), sh_actual = 0, sh_changed = True\<rparr>"

definition draft_heads :: "string \<Rightarrow> publish_db \<Rightarrow> source_head list" where
  "draft_heads draft s = map (draft_head s) (filter (\<lambda>e. ds_draft e = draft) (draft_sources s))"

definition unchanged_head :: "used_head \<Rightarrow> source_head" where
  "unchanged_head h = \<lparr>sh_kind = uh_kind h, sh_key = '''', sh_head = uh_head h, sh_revision = uh_revision h,
     sh_base = uh_head_revision h, sh_actual = 0, sh_changed = False\<rparr>"

definition lock_head :: "publish_db \<Rightarrow> source_head \<Rightarrow> (pub_error, source_head) res" where
  "lock_head s h =
     (if sh_head h = '''' then Inr h
      else case sql_row (\<lambda>r. hd_kind r = sh_kind h \<and> hd_id r = sh_head h) (heads s) of
        None \<Rightarrow> Inl PubNoRows
      | Some r \<Rightarrow> Inr (h\<lparr>sh_key := hd_key r, sh_actual := hd_revision r\<rparr>))"

fun map_res :: "('a \<Rightarrow> ('e, 'b) res) \<Rightarrow> 'a list \<Rightarrow> ('e, 'b list) res" where
  "map_res f [] = Inr []"
| "map_res f (x # xs) = and_then (f x) (\<lambda>y. and_then (map_res f xs) (\<lambda>ys. Inr (y # ys)))"

text \<open>The heads with what their rows hold, in the order the release names them; a head is used once.\<close>

definition lock_heads :: "publish_db \<Rightarrow> source_head list \<Rightarrow> (pub_error, source_head list) res" where
  "lock_heads s hs = and_then (map_res (lock_head s) hs) (\<lambda>hs'.
     if distinct (filter (\<lambda>i. i \<noteq> '''') (map sh_head hs')) then Inr hs' else Inl PubDefect)"

definition covered :: "release_unit \<Rightarrow> string list" where
  "covered u = sort (map um_machine (ru_machines u))"

definition base_of :: "string \<Rightarrow> publish_db \<Rightarrow> machine_state_row \<Rightarrow> string" where
  "base_of draft s x =
     (case sql_row (\<lambda>e. db_draft e = draft \<and> db_machine e = ms_machine x) (draft_bases s) of
        Some e \<Rightarrow> db_base e
      | None \<Rightarrow>
          (case ms_applied x of
             None \<Rightarrow> ''''
           | Some rel \<Rightarrow>
               (case sql_row (\<lambda>r. rmx_release r = rel \<and> rmx_machine r = ms_machine x) (rel_machs s) of
                  Some r \<Rightarrow> rmx_base r | None \<Rightarrow> '''')))"

definition cluster_bases :: "string \<Rightarrow> string \<Rightarrow> publish_db \<Rightarrow> (string \<times> string) list" where
  "cluster_bases cluster draft s =
     map (\<lambda>x. (ms_machine x, base_of draft s x))
       (sort_key ms_machine (filter (\<lambda>x. \<exists>m \<in> set (machines (dsp s)). m_id m = ms_machine x \<and> m_cluster m = cluster) (mstates (dsp s))))"

definition scope_holder :: "string \<Rightarrow> publish_db \<Rightarrow> string option" where
  "scope_holder m s = (case filter (\<lambda>x. o_machine x = m \<and> o_kind x = ApplyConfig \<and> holding (o_state x)) (operations (dsp s)) of
     [] \<Rightarrow> None | xs \<Rightarrow> Some (o_id (last xs)))"

definition head_conflict :: "source_head \<Rightarrow> conflict option" where
  "head_conflict h =
     (if sh_head h = '''' then None
      else if sh_changed h \<and> sh_base h = 0 then Some (HeadMoved (sh_head h) None (sh_actual h))
      else if sh_actual h \<noteq> sh_base h then Some (HeadMoved (sh_head h) (Some (sh_base h)) (sh_actual h))
      else None)"

definition base_conflict :: "(string \<times> string) list \<Rightarrow> unit_machine \<Rightarrow> conflict option" where
  "base_conflict bs m =
     (let b = or_empty (map_of bs (um_machine m)) in
      if b \<noteq> um_base m then Some (BaseMoved (um_machine m) (Some (um_base m)) (null_empty b)) else None)"

definition uncovered_conflict :: "release_unit \<Rightarrow> string \<times> string \<Rightarrow> conflict option" where
  "uncovered_conflict u mb =
     (if snd mb \<noteq> '''' \<and> fst mb \<notin> um_machine ` set (ru_machines u) then Some (BaseMoved (fst mb) None (Some (snd mb))) else None)"

definition conflicts_of :: "release_unit \<Rightarrow> source_head list \<Rightarrow> (string \<times> string) list \<Rightarrow> conflict list" where
  "conflicts_of u hs bs =
     List.map_filter head_conflict (sort_key sh_head hs) @
     List.map_filter (base_conflict bs) (sort_key um_machine (ru_machines u)) @
     List.map_filter (uncovered_conflict u) bs"

definition assignment_change :: "release_unit \<Rightarrow> publish_db \<Rightarrow> source_head \<Rightarrow> (pub_error, unit) res" where
  "assignment_change u s h =
     (if \<not> sh_changed h \<or> sh_kind h \<noteq> HAssignment then Inr ()
      else if sh_key h \<notin> set (covered u) then Inl PubDefect
      else case (scope_holder (sh_key h) s, keyed m_id (sh_key h) (machines (dsp s))) of
        (Some op, _) \<Rightarrow> Inl (pub_refuse 409 ''scope-busy'' [(''scope'', sh_key h), (''operation'', op)])
      | (None, Some m) \<Rightarrow>
          if recovery_mode (dsp s) \<and> m_scope m \<noteq> ScopeReleased
          then Inl (pub_refuse 409 ''recovery-mode-active'' [(''scope'', sh_key h)]) else Inr ()
      | (None, None) \<Rightarrow> Inl PubDefect)"

definition check_inputs :: "job \<Rightarrow> release_unit \<Rightarrow> draft_row \<Rightarrow> source_head list \<Rightarrow> publish_db \<Rightarrow> (pub_error, unit) res" where
  "check_inputs j u d hs s =
     (if df_state d \<noteq> DraftOpen \<or> df_revision d \<noteq> jb_draft_rev j then Inl (pub_refuse 409 ''conflict'' [(''draft'', jb_draft j)])
      else
        let cs = conflicts_of u hs (cluster_bases (jb_cluster j) (jb_draft j) s) in
        if cs \<noteq> [] then Inl (PubRefused \<lparr>rf_status = 409, rf_code = ''stale-input'', rf_with = [], rf_conflicts = cs\<rparr>)
        else and_then (map_res (assignment_change u s) hs) (\<lambda>_. Inr ()))"

section \<open>The evidence of a covered machine\<close>

definition is_endpoint_change :: "entry \<Rightarrow> bool" where
  "is_endpoint_change e \<longleftrightarrow> e = EOther ''endpoint-change''"

definition usable_read :: "observation_row \<Rightarrow> bool" where
  "usable_read ob \<longleftrightarrow> ob_access ob \<noteq> None \<and> ob_node ob \<noteq> None \<and> ob_cluster ob \<noteq> None \<and> ob_version ob \<noteq> None \<and>
     value_read ''identity'' ob \<and> value_read ''runningVersion'' ob"

definition evidence_refusal :: "nat \<Rightarrow> string \<Rightarrow> string \<Rightarrow> string \<Rightarrow> string \<Rightarrow> pub_error" where
  "evidence_refusal status m obs rule cause =
     pub_refuse status (if status = 503 then ''dependency-unavailable'' else if status = 409 then ''stale-input'' else ''validation-failed'')
       [(''machine'', m), (''observation'', obs), (''rule'', rule), (''cause'', cause)]"

text \<open>The rows an observation's evidence joins: its start, its machine and cluster, and the entries of both.\<close>

definition evidence_rows :: "string \<Rightarrow> string \<Rightarrow> dispatch_db
    \<Rightarrow> (observation_row \<times> obs_start_row \<times> machine_row \<times> cluster_row \<times> event \<times> event) option" where
  "evidence_rows m obs db =
     Option.bind (sql_row (\<lambda>ob. ob_id ob = obs \<and> ob_machine ob = m) (observations db)) (\<lambda>ob.
     Option.bind (sql_row (\<lambda>st. st_machine st = m \<and> st_revision st = ob_basis ob) (obs_starts db)) (\<lambda>st.
     Option.bind (keyed m_id m (machines db)) (\<lambda>r.
     Option.bind (keyed cl_id (m_cluster r) (clusters db)) (\<lambda>cl.
     Option.bind (event_at m (st_revision st) db) (\<lambda>se.
     Option.bind (event_at m (ob_revision ob) db) (\<lambda>oe. Some (ob, st, r, cl, se, oe)))))))"

definition publication_evidence :: "publisher \<Rightarrow> job \<Rightarrow> string \<Rightarrow> string \<Rightarrow> string \<Rightarrow> bool \<Rightarrow> dispatch_db \<Rightarrow> (pub_error, unit) res" where
  "publication_evidence w j m obs contract commit db =
     (case evidence_rows m obs db of
        None \<Rightarrow> Inl (evidence_refusal 409 m obs ''publication-evidence'' ''missing-observation'')
      | Some (ob, st, r, cl, se, oe) \<Rightarrow>
          if \<not> (st_purpose st = Publication \<and> st_operation st = Some (jb_op j) \<and> st_generation st = Some (jb_gen j) \<and>
                st_controller st = pu_id w \<and> ev_epoch se = pu_epoch w \<and> ev_epoch oe = pu_epoch w \<and> m_cluster r = jb_cluster j)
          then Inl (evidence_refusal 409 m obs ''publication-evidence'' ''superseded-observation'')
          else if \<not> (usable_read ob \<and> map_option fst (ob_access ob) = Some (''access/talos/'' @ m_cluster r))
          then Inl (evidence_refusal 503 m obs ''publication-evidence'' ''unreadable-identity-or-version'')
          else if \<not> identity_match ob r cl then Inl (evidence_refusal 422 m obs ''publication-identity'' ''identity-mismatch'')
          else if \<not> minor_match ob contract then Inl (evidence_refusal 422 m obs ''publication-version'' ''minor-mismatch'')
          else if \<not> commit then Inr ()
          else if st_endpoint st \<noteq> m_endpoint r \<or>
                  (\<exists>e \<in> set (timeline db). ev_machine e = m \<and> ob_basis ob < ev_revision e \<and> is_endpoint_change (ev_entry e))
          then Inl (evidence_refusal 409 m obs ''publication-evidence'' ''endpoint-changed'')
          else if \<exists>x \<in> set (observations db). ob_machine x = m \<and> ob_basis ob < ob_basis x \<and>
                  (\<not> usable_read x \<or> \<not> identity_match x r cl \<or> \<not> minor_match x contract)
          then Inl (evidence_refusal 409 m obs ''publication-evidence'' ''newer-observation'')
          else Inr ())"

section \<open>Dependency statuses\<close>

definition status_dep :: "unit_status \<Rightarrow> dependency" where
  "status_dep x = \<lparr>dp_provider = us_provider x, dp_object = us_object x, dp_version = us_version x, dp_created = vd_created (us_verdict x)\<rparr>"

definition provider_text :: "provider \<Rightarrow> string" where
  "provider_text p = (case p of KV \<Rightarrow> ''kv'' | Transit \<Rightarrow> ''transit'' | OtherProvider \<Rightarrow> '''')"

definition monitor_failure :: "monitor_error \<Rightarrow> pub_error" where
  "monitor_failure e = (case e of ConstraintViolated \<Rightarrow> PubConstraint | _ \<Rightarrow> PubDefect)"

fun seed_each :: "draws \<Rightarrow> nat \<Rightarrow> unit_status list \<Rightarrow> monitor_db \<Rightarrow> (pub_error, monitor_db) res" where
  "seed_each dw n [] m = Inr m"
| "seed_each dw n (x # xs) m =
     (case seed_status (dw_status dw n) (status_dep x) (us_verdict x) (us_began x) (dw_status_at dw n) m of
        Inl e \<Rightarrow> Inl (monitor_failure e)
      | Inr m' \<Rightarrow> seed_each dw (Suc n) xs m')"

definition seed_statuses :: "draws \<Rightarrow> unit_status list \<Rightarrow> monitor_db \<Rightarrow> (pub_error, monitor_db) res" where
  "seed_statuses dw xs m =
     seed_each dw 0 (sort_key (\<lambda>x. (provider_text (us_provider x), us_object x, us_version x, dw_text dw (vd_created (us_verdict x)))) xs) m"

definition dep_named :: "provider \<Rightarrow> unit_dependency \<Rightarrow> dependency" where
  "dep_named p d = \<lparr>dp_provider = p, dp_object = ud_object d, dp_version = ud_version d, dp_created = ud_created d\<rparr>"

definition machine_deps :: "unit_machine \<Rightarrow> dependency list" where
  "machine_deps m = map (dep_named KV) (um_effective m @ um_reproduction m) @ [dep_named Transit (um_encryption m)]"

definition began_of :: "unit_status list \<Rightarrow> dependency \<Rightarrow> time option" where
  "began_of xs d = map_of (rev (map (\<lambda>x. (status_dep x, us_began x)) xs)) d"

text \<open>The versions a unit names, each under one creation time and with the time its classification began.\<close>

fun name_deps :: "unit_status list \<Rightarrow> dependency list \<Rightarrow> (dependency \<times> time) list \<Rightarrow> (pub_error, (dependency \<times> time) list) res" where
  "name_deps xs [] named = Inr named"
| "name_deps xs (d # ds) named =
     (case began_of xs d of
        None \<Rightarrow> Inl PubDefect
      | Some b \<Rightarrow>
          (case List.find (\<lambda>(e, _). names_version e d) named of
             Some (e, _) \<Rightarrow> if dp_created e \<noteq> dp_created d then Inl PubDefect else name_deps xs ds named
           | None \<Rightarrow> name_deps xs ds (named @ [(d, b)])))"

definition recheck :: "release_unit \<Rightarrow> monitor_db \<Rightarrow> (pub_error, unit) res" where
  "recheck u m =
     and_then (name_deps (ru_statuses u) (concat (map machine_deps (ru_machines u))) []) (\<lambda>named.
       case recheck_statuses named m of None \<Rightarrow> Inr () | Some r \<Rightarrow> Inl (pub_refuse 422 ''validation-failed'' []))"

section \<open>What the commit writes\<close>

definition kind_text :: "hkind \<Rightarrow> string" where
  "kind_text k = (case k of HFragment \<Rightarrow> ''fragment'' | HProfile \<Rightarrow> ''profile'' | HAssignment \<Rightarrow> ''assignment'')"

definition byte_string :: "digest \<Rightarrow> string" where
  "byte_string d = map (\<lambda>b. char_of (unat b)) d"

definition content_of :: "job \<Rightarrow> release_unit \<Rightarrow> source_head list \<Rightarrow> release_content" where
  "content_of j u hs = \<lparr>rc_cluster = jb_cluster j, rc_draft = jb_draft j, rc_draft_rev = jb_draft_rev j, rc_renderer = ru_renderer u,
     rc_sources = map (\<lambda>h. \<lparr>cs_kind = kind_text (sh_kind h), cs_key = sh_key h, cs_revision = sh_revision h\<rparr>) hs,
     rc_machines = map (\<lambda>m. \<lparr>cm_machine = um_machine m, cm_base = um_base m, cm_assignment = um_assignment m, cm_mode = um_mode m,
       cm_configuration = byte_string (um_configuration m)\<rparr>) (ru_machines u)\<rparr>"

text \<open>\<^verbatim>\<open>releaseDigest\<close>: the content as the stored rows give it.\<close>

definition stored_content :: "string \<Rightarrow> publish_db \<Rightarrow> release_content option" where
  "stored_content rel s = map_option (\<lambda>r. \<lparr>rc_cluster = rw_cluster r, rc_draft = rw_draft r, rc_draft_rev = rw_draft_rev r,
     rc_renderer = rw_renderer r,
     rc_sources = map (\<lambda>x. \<lparr>cs_kind = kind_text (rs_kind x), cs_key = rs_key x, cs_revision = or_empty (rs_revision x)\<rparr>)
       (filter (\<lambda>x. rs_release x = rel) (rel_sources s)),
     rc_machines = map (\<lambda>x. \<lparr>cm_machine = rmx_machine x, cm_base = rmx_base x, cm_assignment = or_empty (rmx_assignment x),
       cm_mode = rmx_mode x, cm_configuration = byte_string (rmx_configuration x)\<rparr>)
       (filter (\<lambda>x. rmx_release x = rel) (rel_machs s))\<rparr>) (keyed rw_id rel (rels s))"

definition release_digest :: "(string \<Rightarrow> digest) \<Rightarrow> string \<Rightarrow> publish_db \<Rightarrow> (pub_error, digest) res" where
  "release_digest sha rel s = and_then (found PubNoRows (stored_content rel s)) (\<lambda>c. Inr (content_digest sha c))"

text \<open>\<^verbatim>\<open>vault:v<version>:<base64>\<close>: the generated column of the key version.\<close>

definition key_version :: "string \<Rightarrow> int option" where
  "key_version ct =
     (let ds = takeWhile digit (drop 7 ct); n = int (dec_val ds) in
      if take 7 ct = ''vault:v'' \<and> ds \<noteq> [] \<and> length ds \<le> 19 \<and> hd ds \<noteq> CHR ''0'' \<and>
         take 1 (dropWhile digit (drop 7 ct)) = '':'' \<and> n < 2 ^ 63
      then Some n else None)"

definition insert_release :: "(string \<Rightarrow> digest) \<Rightarrow> job \<Rightarrow> release_unit \<Rightarrow> source_head list \<Rightarrow> publish_job \<Rightarrow> draws \<Rightarrow> publish_db
    \<Rightarrow> (pub_error, publish_db) res" where
  "insert_release sha j u hs x dw s =
     (let rel = dw_id dw in
      if rel \<in> rw_id ` set (rels s) \<or> rel \<in> rl_id ` set (releases (dsp s)) \<or> jb_op j \<in> rw_operation ` set (rels s) \<or>
         pj_role x \<noteq> ''publisher'' \<or> pj_draft x \<noteq> jb_draft j \<or> pj_draft_rev x \<noteq> jb_draft_rev j
      then Inl PubConstraint
      else Inr (s\<lparr>rels := rels s @ [\<lparr>rw_id = rel, rw_cluster = jb_cluster j, rw_draft = jb_draft j, rw_draft_rev = jb_draft_rev j,
          rw_digest = content_digest sha (content_of j u hs), rw_renderer = ru_renderer u, rw_operation = jb_op j,
          rw_by = pj_by x, rw_role = pj_role x, rw_epoch = inst_epoch (dsp s), rw_at = dw_at dw\<rparr>],
        rec := (rec s)\<lparr>disp := (dsp s)\<lparr>releases := releases (dsp s) @ [\<lparr>rl_id = rel, rl_contract = rn_contract (ru_renderer u)\<rparr>]\<rparr>\<rparr>\<rparr>))"

definition insert_release_machine :: "string \<Rightarrow> unit_machine \<Rightarrow> publish_db \<Rightarrow> (pub_error, publish_db) res" where
  "insert_release_machine rel m s =
     (case key_version (um_ciphertext m) of
        None \<Rightarrow> Inl PubConstraint
      | Some v \<Rightarrow>
          if \<exists>x \<in> set (rel_machs s). rmx_release x = rel \<and> rmx_machine x = um_machine m then Inl PubConstraint
          else Inr (s\<lparr>rel_machs := rel_machs s @ [\<lparr>rmx_release = rel, rmx_machine = um_machine m, rmx_base = um_base m,
              rmx_assignment = null_empty (um_assignment m), rmx_mode = um_mode m, rmx_ciphertext = um_ciphertext m,
              rmx_configuration = um_configuration m, rmx_redacted = um_redacted m, rmx_provenance = um_provenance m,
              rmx_observation = um_observation m\<rparr>],
            rec := (rec s)\<lparr>disp := (dsp s)\<lparr>release_machines := release_machines (dsp s) @
              [\<lparr>rm_release = rel, rm_machine = um_machine m, rm_digest = um_configuration m,
                rm_key = ud_object (um_encryption m), rm_version = v\<rparr>]\<rparr>\<rparr>\<rparr>))"

text \<open>The head of an assignment is also the row the dispatch reads.\<close>

definition point_assignment :: "string \<Rightarrow> string option \<Rightarrow> dispatch_db \<Rightarrow> dispatch_db" where
  "point_assignment m rv db =
     (if m \<in> as_machine ` set (assignments db)
      then db\<lparr>assignments := sql_update (\<lambda>a. as_machine a = m) (\<lambda>a. a\<lparr>as_head := rv\<rparr>) (assignments db)\<rparr>
      else db\<lparr>assignments := assignments db @ [\<lparr>as_machine = m, as_head = rv\<rparr>]\<rparr>)"

definition point_head :: "source_head \<Rightarrow> string option \<Rightarrow> publish_db \<Rightarrow> publish_db" where
  "point_head h rv s =
     (if sh_kind h = HAssignment then s\<lparr>rec := (rec s)\<lparr>disp := point_assignment (sh_key h) rv (dsp s)\<rparr>\<rparr> else s)"

definition stale_name :: "head_row \<Rightarrow> pub_error" where
  "stale_name o' = PubRefused \<lparr>rf_status = 409, rf_code = ''stale-input'', rf_with = [],
     rf_conflicts = [HeadMoved (hd_id o') None (hd_revision o')]\<rparr>"

definition insert_head :: "string \<Rightarrow> draws \<Rightarrow> source_head \<Rightarrow> publish_db \<Rightarrow> (pub_error, source_head \<times> publish_db) res" where
  "insert_head cluster dw h s =
     (case sql_row (\<lambda>r. rv_kind r = sh_kind h \<and> rv_id r = sh_revision h) (revisions s) of
        None \<Rightarrow> Inl PubDefect
      | Some r \<Rightarrow>
          let new = dw_head dw (sh_kind h) (sh_key h) in
          if new \<in> hd_id ` set (heads s) \<or> new = '''' then Inl PubConstraint
          else case sql_row (head_named (sh_kind h) (rv_cluster r) (rv_key r)) (heads s) of
            Some _ \<Rightarrow>
              (case sql_row (head_named (sh_kind h) cluster (sh_key h)) (heads s) of
                 Some o' \<Rightarrow> Inl (stale_name o') | None \<Rightarrow> Inl PubConstraint)
          | None \<Rightarrow>
              Inr (h\<lparr>sh_head := new, sh_base := 1\<rparr>,
                point_head h (Some (sh_revision h)) (s\<lparr>heads := heads s @ [\<lparr>hd_kind = sh_kind h, hd_id = new, hd_cluster = rv_cluster r,
                  hd_key = rv_key r, hd_current = Some (rv_id r), hd_revision = 1, hd_token = dw_token dw new\<rparr>]\<rparr>)))"

definition move_head :: "string \<Rightarrow> draws \<Rightarrow> source_head \<Rightarrow> publish_db \<Rightarrow> (pub_error, source_head \<times> publish_db) res" where
  "move_head cluster dw h s =
     (if \<not> sh_changed h then Inr (h, s)
      else if sh_head h = '''' then insert_head cluster dw h s
      else
        let p = (\<lambda>r. hd_kind r = sh_kind h \<and> hd_id r = sh_head h \<and> hd_revision r = sh_base h) in
        case hit p (heads s) of
          None \<Rightarrow> Inl PubNoRows
        | Some r \<Rightarrow>
            Inr (h\<lparr>sh_base := hd_revision r + 1\<rparr>,
              point_head h (null_empty (sh_revision h)) (s\<lparr>heads := sql_update p (\<lambda>r. r\<lparr>hd_current := null_empty (sh_revision h),
                hd_revision := hd_revision r + 1, hd_token := dw_token dw (hd_id r)\<rparr>) (heads s)\<rparr>)))"

fun move_heads :: "string \<Rightarrow> draws \<Rightarrow> source_head list \<Rightarrow> publish_db \<Rightarrow> (pub_error, source_head list \<times> publish_db) res" where
  "move_heads cluster dw [] s = Inr ([], s)"
| "move_heads cluster dw (h # hs) s =
     and_then (move_head cluster dw h s) (\<lambda>(h', s1).
     and_then (move_heads cluster dw hs s1) (\<lambda>(hs', s2). Inr (h' # hs', s2)))"

definition source_row :: "string \<Rightarrow> source_head \<Rightarrow> rel_source_row" where
  "source_row rel h = \<lparr>rs_release = rel, rs_kind = sh_kind h, rs_head = sh_head h, rs_key = sh_key h,
     rs_revision = null_empty (sh_revision h), rs_head_revision = sh_base h\<rparr>"

definition insert_sources :: "string \<Rightarrow> source_head list \<Rightarrow> publish_db \<Rightarrow> publish_db" where
  "insert_sources rel hs s = s\<lparr>rel_sources := rel_sources s @ map (source_row rel) hs\<rparr>"

text \<open>What a covered machine composes, and the sources of every composition.\<close>

definition composition_of :: "string \<Rightarrow> rel_machine_row \<Rightarrow> publish_db \<Rightarrow> composition" where
  "composition_of rel x s =
     (let rs = filter (\<lambda>r. rs_release r = rel) (rel_sources s); asr = or_empty (rmx_assignment x) in
      remdups ((rmx_base x, True) #
        concat (map (\<lambda>(_, p). concat (map (\<lambda>r. map (\<lambda>(_, f). (f, False))
            (filter (\<lambda>(pr, _). rs_revision r = Some pr) (profile_fragments s)))
          (filter (\<lambda>r. rs_kind r = HProfile \<and> rs_key r = p) rs))) (filter (\<lambda>(a, _). a = asr \<and> asr \<noteq> '''') (assignment_profiles s))) @
        concat (map (\<lambda>(_, f). map (\<lambda>r. (or_empty (rs_revision r), False))
          (filter (\<lambda>r. rs_kind r = HFragment \<and> rs_key r = f \<and> rs_revision r \<noteq> None) rs))
          (filter (\<lambda>(a, _). a = asr \<and> asr \<noteq> '''') (assignment_fragments s)))))"

definition declared_sources :: "(string \<Rightarrow> digest) \<Rightarrow> publish_db \<Rightarrow> sources" where
  "declared_sources sha s rv = map_option (\<lambda>doc. \<lparr>so_digest = sha doc,
     so_declarations = sort_key fst (map snd (filter (\<lambda>(r, _). r = rv) (ref_rows s)))\<rparr>) (map_of (documents s) rv)"

definition check_declarations :: "(string \<Rightarrow> digest) \<Rightarrow> string \<Rightarrow> release_unit \<Rightarrow> publish_db \<Rightarrow> (pub_error, string option) res" where
  "check_declarations sha rel u s =
     (let rows = filter (\<lambda>x. rmx_release x = rel) (rel_machs s); ss = declared_sources sha s in
      if \<not> list_all (\<lambda>x. list_all (\<lambda>(rv, _). ss rv \<noteq> None) (composition_of rel x s)) rows then Inl PubDefect
      else Inr (first_clause (\<lambda>m.
        map_option (\<lambda>c. ''machine '' @ um_machine m @ '': '' @ c)
          (disagreement (case sql_row (\<lambda>x. rmx_machine x = um_machine m) rows of Some x \<Rightarrow> composition_of rel x s | None \<Rightarrow> []) ss m))
        (ru_machines u)))"

definition dep_row_of :: "string \<Rightarrow> string \<Rightarrow> dep_kind \<Rightarrow> provider \<Rightarrow> unit_dependency \<Rightarrow> dependency_row" where
  "dep_row_of rel m k p d = \<lparr>dy_release = rel, dy_machine = m, dy_kind = k, dy_dep = dep_named p d,
     dy_reference = null_empty (ud_reference d),
     dy_source = (if k = DepReproduction then Some (ud_source d, ud_digest d, ud_path d, ud_occurrence d) else None)\<rparr>"

definition machine_dep_rows :: "string \<Rightarrow> unit_machine \<Rightarrow> dependency_row list" where
  "machine_dep_rows rel m =
     map (dep_row_of rel (um_machine m) DepEffective KV) (um_effective m) @
     map (dep_row_of rel (um_machine m) DepReproduction KV) (um_reproduction m) @
     [dep_row_of rel (um_machine m) DepEncryption Transit (um_encryption m)]"

text \<open>A dependency names the status of its identity; the reference is what the monitor reads.\<close>

definition insert_dependency :: "dependency_row \<Rightarrow> publish_db \<Rightarrow> (pub_error, publish_db) res" where
  "insert_dependency y s =
     (case sql_row (\<lambda>x. dr_dep x = dy_dep y) (md_deps (mon s)) of
        None \<Rightarrow> Inl PubConstraint
      | Some x \<Rightarrow> Inr (s\<lparr>rel_deps := rel_deps s @ [y],
          mon := (mon s)\<lparr>md_refs := md_refs (mon s) @ [(dy_release y, dr_id x)]\<rparr>\<rparr>))"

definition set_desired :: "string list \<Rightarrow> string \<Rightarrow> publish_db \<Rightarrow> publish_db" where
  "set_desired ms rel s = s\<lparr>rec := (rec s)\<lparr>disp := (dsp s)\<lparr>mstates :=
     sql_update (\<lambda>x. ms_machine x \<in> set ms) (\<lambda>x. x\<lparr>ms_desired := Some rel, ms_revision := ms_revision x + 1\<rparr>) (mstates (dsp s))\<rparr>\<rparr>\<rparr>"

definition close_draft :: "string \<Rightarrow> string \<Rightarrow> draws \<Rightarrow> publish_db \<Rightarrow> publish_db" where
  "close_draft draft rel dw s = s\<lparr>drafts := sql_update (\<lambda>d. df_id d = draft)
     (\<lambda>d. d\<lparr>df_state := DraftPublished, df_release := Some rel, df_revision := df_revision d + 1, df_token := dw_token dw draft\<rparr>) (drafts s)\<rparr>"

section \<open>The publication commit\<close>

definition internal_error :: pub_error where
  "internal_error = pub_refuse 500 ''internal-error'' []"

definition finish_with :: "publisher \<Rightarrow> job \<Rightarrow> string \<Rightarrow> draws \<Rightarrow> publish_db \<Rightarrow> (pub_error, string \<times> publish_db) res" where
  "finish_with w j rel dw s =
     and_then (finish_publish w j JobSucceeded (Some rel) None (JSucceeded rel) (dw_clock dw) (dw_at dw) s) (\<lambda>s1. Inr (rel, s1))"

text \<open>The release, its machines, the heads moved, its sources, its dependencies, the covered machines' Desired
  and the draft; then the digest read back.\<close>

definition write_release :: "(string \<Rightarrow> digest) \<Rightarrow> job \<Rightarrow> release_unit \<Rightarrow> source_head list \<Rightarrow> publish_job \<Rightarrow> draws \<Rightarrow> publish_db
    \<Rightarrow> (pub_error, publish_db) res" where
  "write_release sha j u hs x dw s =
     (let rel = dw_id dw in
      and_then (insert_release sha j u hs x dw s) (\<lambda>s1.
      and_then (each_row (insert_release_machine rel) (ru_machines u) s1) (\<lambda>s2.
      and_then (move_heads (jb_cluster j) dw hs s2) (\<lambda>(hs', s3).
      let s4 = insert_sources rel hs' s3 in
      and_then (check_declarations sha rel u s4) (\<lambda>mismatch.
        if mismatch \<noteq> None then Inl internal_error
        else and_then (each_row insert_dependency (concat (map (machine_dep_rows rel) (ru_machines u))) s4) (\<lambda>s5.
          let s6 = close_draft (jb_draft j) rel dw (set_desired (covered u) rel s5) in
          and_then (release_digest sha rel s6) (\<lambda>dg.
            if dg \<noteq> content_digest sha (content_of j u hs) then Inl PubDefect else Inr s6)))))))"

definition unit_covers :: "job \<Rightarrow> release_unit \<Rightarrow> publish_db \<Rightarrow> bool" where
  "unit_covers j u s \<longleftrightarrow> distinct (covered u) \<and> set (covered u) \<subseteq> m_id ` set (machines (dsp s)) \<and>
     set (covered u) \<subseteq> fst ` set (cluster_bases (jb_cluster j) (jb_draft j) s)"

definition release_of :: "string \<Rightarrow> int \<Rightarrow> publish_db \<Rightarrow> rel_row option" where
  "release_of draft n s = sql_row (\<lambda>r. rw_draft r = draft \<and> rw_draft_rev r = n) (rels s)"

definition new_release :: "(string \<Rightarrow> digest) \<Rightarrow> publisher \<Rightarrow> job \<Rightarrow> release_unit \<Rightarrow> source_head list \<Rightarrow> draft_row \<Rightarrow> publish_job \<Rightarrow> draws
    \<Rightarrow> publish_db \<Rightarrow> (pub_error, string \<times> publish_db) res" where
  "new_release sha w j u hs d x dw s =
     and_then (check_inputs j u d hs s) (\<lambda>_.
     and_then (map_res (\<lambda>m. publication_evidence w j (um_machine m) (um_observation m) (rn_contract (ru_renderer u)) True (dsp s))
       (ru_machines u)) (\<lambda>_.
     and_then (seed_statuses dw (ru_statuses u) (mon s)) (\<lambda>m1.
     and_then (recheck u m1) (\<lambda>_.
     and_then (write_release sha j u hs x dw (s\<lparr>mon := m1\<rparr>)) (finish_with w j (dw_id dw) dw)))))"

definition commit_release :: "(string \<Rightarrow> digest) \<Rightarrow> publisher \<Rightarrow> job \<Rightarrow> release_unit \<Rightarrow> draws \<Rightarrow> publish_db \<Rightarrow> publish_db
    \<Rightarrow> (pub_error, string \<times> publish_db) res" where
  "commit_release sha w j u dw s0 s =
     (if inst_epoch (dsp s) \<noteq> pu_epoch w then Inl PubFenced
      else if \<not> unit_covers j u s then Inl PubDefect
      else
        and_then (lock_heads s (draft_heads (jb_draft j) s0 @ map unchanged_head (ru_unchanged u))) (\<lambda>hs.
        and_then (found PubNoRows (keyed df_id (jb_draft j) (drafts s))) (\<lambda>d.
        and_then (found PubFenced (job_row (jb_op j) s)) (\<lambda>x.
          case release_of (jb_draft j) (jb_draft_rev j) s of
            Some r \<Rightarrow>
              if rw_digest r \<noteq> content_digest sha (content_of j u hs)
              then Inl (pub_refuse 409 ''conflict'' [(''release'', rw_id r)])
              else if pj_state x = JobSucceeded \<and> pj_result x = Some (rw_id r) then Inr (rw_id r, s)
              else finish_with w j (rw_id r) dw s
          | None \<Rightarrow> new_release sha w j u hs d x dw s))))"

text \<open>The failure transaction of a refused publication, in the state \<open>s\<close> it meets.\<close>

definition fail_job :: "publisher \<Rightarrow> job \<Rightarrow> refusal_doc \<Rightarrow> int \<Rightarrow> int \<Rightarrow> publish_db \<Rightarrow> (pub_error, publish_db) res" where
  "fail_job w j ref now at s = finish_publish w j JobFailed None (Some (rf_code ref)) (JFailed (rf_code ref)) now at s"

datatype commit_fault = NoFault | Deadlocked | CommitRejected | Killed | ReplyLost bool \<comment> \<open>the commit landed\<close>

definition fail_answer :: "publisher \<Rightarrow> job \<Rightarrow> pub_error \<Rightarrow> int \<Rightarrow> int \<Rightarrow> publish_db \<Rightarrow> (pub_error, string) res \<times> publish_db" where
  "fail_answer w j e now at s =
     (case e of
        PubRefused ref \<Rightarrow>
          (case fail_job w j ref now at s of Inl e' \<Rightarrow> (Inl e', s) | Inr s' \<Rightarrow> (Inl e, s'))
      | _ \<Rightarrow> (Inl e, s))"

text \<open>\<open>other\<close> is what the other processes commit between the rolled back commit and its failure transaction.\<close>

definition publish_commit :: "(string \<Rightarrow> digest) \<Rightarrow> publisher \<Rightarrow> job \<Rightarrow> release_unit \<Rightarrow> draws \<Rightarrow> commit_fault \<Rightarrow> (publish_db \<Rightarrow> publish_db)
    \<Rightarrow> int \<Rightarrow> int \<Rightarrow> publish_db \<Rightarrow> publish_db \<Rightarrow> (pub_error, string) res \<times> publish_db" where
  "publish_commit sha w j u dw fault other now at s0 s =
     (if fault = Deadlocked then fail_answer w j (pub_refuse 503 ''transient-conflict'' []) now at (other s)
      else case commit_release sha w j u dw s0 s of
        Inl e \<Rightarrow> fail_answer w j (if e = PubConstraint then internal_error else e) now at (other s)
      | Inr (rel, s') \<Rightarrow>
          (case fault of
             CommitRejected \<Rightarrow> fail_answer w j internal_error now at (other s)
           | Killed \<Rightarrow> (Inl PubKilled, s)
           | ReplyLost landed \<Rightarrow> (Inl PubKilled, if landed then s' else s)
           | _ \<Rightarrow> (Inr rel, s')))"

text \<open>The heartbeat while a job runs: it extends the lease until an extension is fenced or superseded, which stops
  the run; another error leaves the next beat to try again. \<open>bt_env\<close> is what other processes commit before the
  beat, \<open>bt_lost\<close> that the database could not be asked.\<close>

record publish_beat =
  bt_env :: "publish_db \<Rightarrow> publish_db"
  bt_lost :: bool
  bt_now :: int
  bt_set :: int

fun publish_heartbeat :: "publisher \<Rightarrow> job \<Rightarrow> publish_beat list \<Rightarrow> publish_db \<Rightarrow> bool \<times> publish_db" where
  "publish_heartbeat w j [] s = (False, s)"
| "publish_heartbeat w j (b # bs) s =
     (let s1 = bt_env b s in
      if bt_lost b then publish_heartbeat w j bs s1
      else case extend_publish w j (bt_now b) (bt_set b) s1 of
        Inl e \<Rightarrow> if e = PubFenced \<or> e = PubSuperseded then (True, s1) else publish_heartbeat w j bs s1
      | Inr s2 \<Rightarrow> publish_heartbeat w j bs s2)"

text \<open>One turn of the worker: the claim, the beats until the job is built, what the build answers (\<open>built\<close>) and the
  commit with the fault it meets; \<open>tn_env\<close>, \<open>tn_mid\<close> and \<open>tn_other\<close> are what other processes commit before the claim,
  while the commit waits for its locks, and before the failure transaction.\<close>

datatype built = BuildStopped | BuildRefused refusal_doc | Built release_unit

record publish_turn =
  tn_env :: "publish_db \<Rightarrow> publish_db"
  tn_lost :: bool
  tn_now :: int
  tn_claim :: int
  tn_at :: int
  tn_beats :: "publish_beat list"
  tn_built :: built
  tn_mid :: "publish_db \<Rightarrow> publish_db"
  tn_draws :: draws
  tn_fault :: commit_fault
  tn_other :: "publish_db \<Rightarrow> publish_db"
  tn_fail :: int

definition run_publish :: "(string \<Rightarrow> digest) \<Rightarrow> publisher \<Rightarrow> job \<Rightarrow> publish_turn \<Rightarrow> publish_db \<Rightarrow> publish_db" where
  "run_publish sha w j t s =
     (case publish_heartbeat w j (tn_beats t) s of
        (True, s1) \<Rightarrow> s1
      | (False, s1) \<Rightarrow>
          (case tn_built t of
             BuildStopped \<Rightarrow> s1
           | BuildRefused ref \<Rightarrow> snd (fail_answer w j (PubRefused ref) (tn_fail t) (tn_fail t) s1)
           | Built u \<Rightarrow> snd (publish_commit sha w j u (tn_draws t) (tn_fault t) (tn_other t) (tn_fail t) (tn_fail t) s1 (tn_mid t s1))))"

text \<open>The worker's loop over its turns: a superseded epoch ends it.\<close>

fun publish_loop :: "(string \<Rightarrow> digest) \<Rightarrow> publisher \<Rightarrow> publish_turn list \<Rightarrow> publish_db \<Rightarrow> publish_db" where
  "publish_loop sha w [] s = s"
| "publish_loop sha w (t # ts) s =
     (let s1 = tn_env t s in
      if tn_lost t then publish_loop sha w ts s1
      else case claim_publish w (tn_now t) (tn_claim t) (tn_at t) s1 of
        Inl e \<Rightarrow> if e = PubSuperseded then s1 else publish_loop sha w ts s1
      | Inr (None, s2) \<Rightarrow> publish_loop sha w ts s2
      | Inr (Some j, s2) \<Rightarrow> publish_loop sha w ts (run_publish sha w j t s2))"

end
