(* ===== verification/Publish_System.thy ===== *)
theory Publish_System
  imports Publish Recovery_System
begin

text \<open>
  The publication as a system: the steps of requests, workers, recovery mode, the dispatch, the authors and the
  monitor over one database, what each does to the jobs and the releases, and what holds of every
  state they reach.
\<close>

section \<open>What each operation does to the jobs\<close>

lemma add_job_event_ok:
  "add_job_event op n ep e at s = Inr s' \<Longrightarrow>
     s' = s\<lparr>rec := (rec s)\<lparr>job_events := job_events (rec s) @
       [\<lparr>je_operation = op, je_number = n, je_epoch = ep, je_entry = e, je_at = at\<rparr>]\<rparr>\<rparr>"
  by (simp add: add_job_event_def split: if_split_asm)

interpretation owned: keyed_update pj_id "jb_op j" "holds_job w j now" "\<lambda>x. x\<lparr>pj_lease := Some t\<rparr>" for w j now t
  by unfold_locales (simp_all add: holds_job_def)

definition job_ended :: "job_state \<Rightarrow> string option \<Rightarrow> string option \<Rightarrow> publish_job \<Rightarrow> publish_job" where
  "job_ended st result err x = x\<lparr>pj_state := st, pj_result := result, pj_error := err, pj_owner := None,
     pj_owner_epoch := None, pj_lease := None, pj_last := pj_last x + 1\<rparr>"

interpretation ending: keyed_update pj_id "jb_op j" "holds_job w j now" "job_ended st result err" for w j now st result err
  by unfold_locales (simp_all add: holds_job_def job_ended_def)

definition job_taken :: "publisher \<Rightarrow> int \<Rightarrow> publish_job \<Rightarrow> publish_job" where
  "job_taken w now x = x\<lparr>pj_state := JobRunning, pj_owner := Some (pu_id w), pj_gen := pj_gen x + 1,
     pj_owner_epoch := Some (pu_epoch w), pj_lease := Some (now + pu_lease w), pj_last := pj_last x + 1\<rparr>"

interpretation taking: keyed_update pj_id op "\<lambda>x. pj_id x = op" "job_taken w now" for op w now
  by unfold_locales (simp_all add: job_taken_def)

lemma extend_publish_ok:
  assumes "extend_publish w j now now' s = Inr s'"
  shows "s' = update_job (holds_job w j now) (\<lambda>x. x\<lparr>pj_lease := Some (now' + pu_lease w)\<rparr>) s"
    and "inst_epoch (dsp s) = pu_epoch w" and "rows_affected (holds_job w j now) (jobs (rec s)) = 1"
  using assms by (auto simp: extend_publish_def split: if_split_asm)

lemma finish_publish_ok:
  assumes "finish_publish w j st result err e now at s = Inr s'"
  obtains x where "hit (holds_job w j now) (jobs (rec s)) = Some x" and "inst_epoch (dsp s) = pu_epoch w"
    and "s' = s\<lparr>rec := (rec s)\<lparr>jobs := sql_update (holds_job w j now) (job_ended st result err) (jobs (rec s)),
      job_events := job_events (rec s) @ [\<lparr>je_operation = jb_op j, je_number = pj_last x + 1, je_epoch = pu_epoch w, je_entry = e, je_at = at\<rparr>]\<rparr>\<rparr>"
proof -
  have ep: "inst_epoch (dsp s) = pu_epoch w" using assms by (simp add: finish_publish_def split: if_split_asm)
  then obtain x where x: "hit (holds_job w j now) (jobs (rec s)) = Some x"
    and "add_job_event (jb_op j) (pj_last x + 1) (pu_epoch w) e at (update_job (holds_job w j now) (job_ended st result err) s) = Inr s'"
    using assms unfolding finish_publish_def job_ended_def by (auto split: option.split_asm)
  then have "s' = s\<lparr>rec := (rec s)\<lparr>jobs := sql_update (holds_job w j now) (job_ended st result err) (jobs (rec s)),
      job_events := job_events (rec s) @ [\<lparr>je_operation = jb_op j, je_number = pj_last x + 1, je_epoch = pu_epoch w, je_entry = e, je_at = at\<rparr>]\<rparr>\<rparr>"
    by (auto dest!: add_job_event_ok simp: update_job_def)
  with x ep show ?thesis by (rule that)
qed

lemma claim_publish_ok:
  assumes "claim_publish w now now' at s = Inr (c, s')"
  obtains "c = None" and "s' = s"
    | x d where "x \<in> set (jobs (rec s))" and "job_eligible now' x" and "inst_epoch (dsp s) = pu_epoch w"
      and "keyed df_id (pj_draft x) (drafts s) = Some d"
      and "c = Some \<lparr>jb_op = pj_id x, jb_draft = pj_draft x, jb_cluster = df_cluster d, jb_draft_rev = pj_draft_rev x, jb_gen = pj_gen x + 1\<rparr>"
      and "s' = s\<lparr>rec := (rec s)\<lparr>jobs := sql_update (\<lambda>y. pj_id y = pj_id x) (job_taken w now') (jobs (rec s)),
        job_events := job_events (rec s) @ [\<lparr>je_operation = pj_id x, je_number = pj_last x + 1, je_epoch = pu_epoch w,
          je_entry = JClaimed (pj_gen x + 1), je_at = at\<rparr>]\<rparr>\<rparr>"
proof (cases "sort_key pj_seq (filter (job_eligible now) (jobs (rec s)))")
  case Nil
  then show ?thesis using assms that(1) by (auto simp: claim_publish_def split: if_split_asm)
next
  case (Cons x xs)
  then have "x \<in> set (sort_key pj_seq (filter (job_eligible now) (jobs (rec s))))" by simp
  then have x: "x \<in> set (jobs (rec s))" by simp
  show ?thesis
  proof (cases "job_eligible now' x")
    case False
    then show ?thesis using assms Cons that(1) by (auto simp: claim_publish_def split: if_split_asm)
  next
    case True
    have ep: "inst_epoch (dsp s) = pu_epoch w" using assms by (simp add: claim_publish_def split: if_split_asm)
    obtain d where d: "keyed df_id (pj_draft x) (drafts s) = Some d"
      using assms Cons True ep by (cases "keyed df_id (pj_draft x) (drafts s)") (simp_all add: claim_publish_def)
    have e: "and_then (add_job_event (pj_id x) (pj_last x + 1) (pu_epoch w) (JClaimed (pj_gen x + 1)) at
          (update_job (\<lambda>y. pj_id y = pj_id x) (job_taken w now') s))
        (\<lambda>s1. Inr (Some \<lparr>jb_op = pj_id x, jb_draft = pj_draft x, jb_cluster = df_cluster d, jb_draft_rev = pj_draft_rev x, jb_gen = pj_gen x + 1\<rparr>, s1)) = Inr (c, s')"
      using assms unfolding claim_publish_def job_taken_def by (simp add: Cons True ep d)
    from e have "c = Some \<lparr>jb_op = pj_id x, jb_draft = pj_draft x, jb_cluster = df_cluster d, jb_draft_rev = pj_draft_rev x, jb_gen = pj_gen x + 1\<rparr>"
      and "s' = s\<lparr>rec := (rec s)\<lparr>jobs := sql_update (\<lambda>y. pj_id y = pj_id x) (job_taken w now') (jobs (rec s)),
        job_events := job_events (rec s) @ [\<lparr>je_operation = pj_id x, je_number = pj_last x + 1, je_epoch = pu_epoch w,
          je_entry = JClaimed (pj_gen x + 1), je_at = at\<rparr>]\<rparr>\<rparr>"
      by (auto simp: and_then_ok update_job_def dest!: add_job_event_ok)
    then show ?thesis by (rule that(2) [OF x True ep d])
  qed
qed

lemma request_publication_ok:
  assumes "request_publication cfg draft im ep who role new seq at s = Inr (op, s')"
  obtains x where "x \<in> set (jobs (rec s))" and "pj_id x = op" and "s' = s"
    | d where "keyed df_id draft (drafts s) = Some d" and "df_state d = DraftOpen" and "op = new" and "new \<notin> pj_id ` set (jobs (rec s))"
      and "\<forall>x \<in> set (jobs (rec s)). pj_draft x = draft \<longrightarrow> pj_draft_rev x = df_revision d \<longrightarrow> \<not> active_job x"
      and "s' = s\<lparr>rec := (rec s)\<lparr>jobs := jobs (rec s) @ [\<lparr>pj_id = new, pj_seq = seq, pj_draft = draft, pj_draft_rev = df_revision d,
          pj_by = who, pj_role = role, pj_state = JobQueued, pj_gen = 0, pj_owner = None, pj_owner_epoch = None, pj_lease = None,
          pj_last = 1, pj_result = None, pj_error = None\<rparr>],
        job_events := job_events (rec s) @ [\<lparr>je_operation = new, je_number = 1, je_epoch = ep, je_entry = JQueued, je_at = at\<rparr>]\<rparr>\<rparr>"
proof -
  obtain d where d: "keyed df_id draft (drafts s) = Some d" "df_state d = DraftOpen"
    using assms by (auto simp: request_publication_def split: if_split_asm option.split_asm)
  show ?thesis
  proof (cases "sql_row (\<lambda>j. pj_draft j = draft \<and> pj_draft_rev j = df_revision d \<and> active_job j) (jobs (rec s))")
    case (Some x)
    have "x \<in> set (jobs (rec s))" using sql_row_Some [OF Some] by blast
    moreover have "pj_id x = op" "s' = s"
      using assms d Some by (auto simp: request_publication_def split: if_split_asm)
    ultimately show ?thesis by (rule that(1))
  next
    case None
    then have free: "\<forall>x \<in> set (jobs (rec s)). pj_draft x = draft \<longrightarrow> pj_draft_rev x = df_revision d \<longrightarrow> \<not> active_job x"
      by (auto simp: sql_row_None)
    have n: "new \<notin> pj_id ` set (jobs (rec s))" "op = new"
      using assms d None by (auto simp: request_publication_def and_then_ok split: if_split_asm)
    have "s' = s\<lparr>rec := (rec s)\<lparr>jobs := jobs (rec s) @ [\<lparr>pj_id = new, pj_seq = seq, pj_draft = draft, pj_draft_rev = df_revision d,
          pj_by = who, pj_role = role, pj_state = JobQueued, pj_gen = 0, pj_owner = None, pj_owner_epoch = None, pj_lease = None,
          pj_last = 1, pj_result = None, pj_error = None\<rparr>],
        job_events := job_events (rec s) @ [\<lparr>je_operation = new, je_number = 1, je_epoch = ep, je_entry = JQueued, je_at = at\<rparr>]\<rparr>\<rparr>"
      using assms d None by (auto simp: request_publication_def and_then_ok split: if_split_asm dest!: add_job_event_ok)
    then show ?thesis by (rule that(2) [OF d n(2) n(1) free])
  qed
qed

section \<open>What the commit writes\<close>

definition machine_row_of :: "string \<Rightarrow> unit_machine \<Rightarrow> rel_machine_row" where
  "machine_row_of rel m = \<lparr>rmx_release = rel, rmx_machine = um_machine m, rmx_base = um_base m,
     rmx_assignment = null_empty (um_assignment m), rmx_mode = um_mode m, rmx_ciphertext = um_ciphertext m,
     rmx_configuration = um_configuration m, rmx_redacted = um_redacted m, rmx_provenance = um_provenance m,
     rmx_observation = um_observation m\<rparr>"

lemma machines_loop:
  "each_row (insert_release_machine rel) ms s = Inr s' \<Longrightarrow>
   \<exists>ys. s' = s\<lparr>rel_machs := rel_machs s @ map (machine_row_of rel) ms,
     rec := (rec s)\<lparr>disp := (dsp s)\<lparr>release_machines := release_machines (dsp s) @ ys\<rparr>\<rparr>\<rparr>"
proof (induction ms arbitrary: s)
  case Nil
  then show ?case by (intro exI [of _ "[]"]) simp
next
  case (Cons m ms)
  then obtain s1 where 1: "insert_release_machine rel m s = Inr s1" and 2: "each_row (insert_release_machine rel) ms s1 = Inr s'"
    by (auto simp: and_then_ok)
  from 1 obtain y where s1: "s1 = s\<lparr>rel_machs := rel_machs s @ [machine_row_of rel m],
      rec := (rec s)\<lparr>disp := (dsp s)\<lparr>release_machines := release_machines (dsp s) @ [y]\<rparr>\<rparr>\<rparr>"
    by (auto simp: insert_release_machine_def machine_row_of_def split: option.split_asm if_split_asm)
  from Cons.IH [OF 2] obtain ys where "s' = s1\<lparr>rel_machs := rel_machs s1 @ map (machine_row_of rel) ms,
      rec := (rec s1)\<lparr>disp := (dsp s1)\<lparr>release_machines := release_machines (dsp s1) @ ys\<rparr>\<rparr>\<rparr>" by blast
  then show ?case unfolding s1 by (intro exI [of _ "y # ys"]) simp
qed

lemma dependencies_loop:
  "each_row insert_dependency ys s = Inr s' \<Longrightarrow>
   \<exists>zs. s' = s\<lparr>rel_deps := rel_deps s @ ys, mon := (mon s)\<lparr>md_refs := md_refs (mon s) @ zs\<rparr>\<rparr> \<and>
     (\<forall>y \<in> set ys. \<exists>x \<in> set (md_deps (mon s)). dr_dep x = dy_dep y \<and> (dy_release y, dr_id x) \<in> set zs)"
proof (induction ys arbitrary: s)
  case Nil
  then show ?case by (intro exI [of _ "[]"]) simp
next
  case (Cons y ys)
  then obtain s1 where 1: "insert_dependency y s = Inr s1" and 2: "each_row insert_dependency ys s1 = Inr s'"
    by (auto simp: and_then_ok)
  from 1 obtain x where x: "sql_row (\<lambda>x. dr_dep x = dy_dep y) (md_deps (mon s)) = Some x"
    and s1: "s1 = s\<lparr>rel_deps := rel_deps s @ [y], mon := (mon s)\<lparr>md_refs := md_refs (mon s) @ [(dy_release y, dr_id x)]\<rparr>\<rparr>"
    by (auto simp: insert_dependency_def split: option.split_asm)
  from Cons.IH [OF 2] obtain zs where z: "s' = s1\<lparr>rel_deps := rel_deps s1 @ ys, mon := (mon s1)\<lparr>md_refs := md_refs (mon s1) @ zs\<rparr>\<rparr>"
      "\<forall>y \<in> set ys. \<exists>x \<in> set (md_deps (mon s1)). dr_dep x = dy_dep y \<and> (dy_release y, dr_id x) \<in> set zs" by blast
  have "x \<in> set (md_deps (mon s)) \<and> dr_dep x = dy_dep y" using sql_row_Some [OF x] by blast
  then show ?case using z unfolding s1 by (intro exI [of _ "(dy_release y, dr_id x) # zs"]) auto
qed

lemma point_head_ok: "\<exists>a. point_head h rv s = s\<lparr>rec := (rec s)\<lparr>disp := (dsp s)\<lparr>assignments := a\<rparr>\<rparr>\<rparr>"
proof (cases "sh_kind h = HAssignment")
  case True
  then show ?thesis by (auto simp: point_head_def point_assignment_def)
next
  case False
  then show ?thesis by (intro exI [of _ "assignments (dsp s)"]) (simp add: point_head_def)
qed

lemma move_head_frame:
  assumes "move_head cluster dw h s = Inr (h', s')"
  shows "\<exists>hs a. s' = s\<lparr>heads := hs, rec := (rec s)\<lparr>disp := (dsp s)\<lparr>assignments := a\<rparr>\<rparr>\<rparr>"
    and "sh_kind h' = sh_kind h" and "sh_key h' = sh_key h" and "sh_revision h' = sh_revision h" and "sh_changed h' = sh_changed h"
proof -
  have "\<exists>hs rv. s' = (if sh_changed h then point_head h rv (s\<lparr>heads := hs\<rparr>) else s)"
    using assms by (auto simp: move_head_def insert_head_def Let_def split: if_split_asm option.split_asm)
  then show "\<exists>hs a. s' = s\<lparr>heads := hs, rec := (rec s)\<lparr>disp := (dsp s)\<lparr>assignments := a\<rparr>\<rparr>\<rparr>"
  proof (elim exE)
    fix hs rv assume s': "s' = (if sh_changed h then point_head h rv (s\<lparr>heads := hs\<rparr>) else s)"
    show ?thesis
    proof (cases "sh_changed h")
      case True
      obtain a where "point_head h rv (s\<lparr>heads := hs\<rparr>) = s\<lparr>heads := hs, rec := (rec s)\<lparr>disp := (dsp s)\<lparr>assignments := a\<rparr>\<rparr>\<rparr>"
        using point_head_ok [of h rv "s\<lparr>heads := hs\<rparr>"] by auto
      then show ?thesis using s' True by auto
    next
      case False
      then show ?thesis using s' by (intro exI [of _ "heads s"] exI [of _ "assignments (dsp s)"]) simp
    qed
  qed
  show "sh_kind h' = sh_kind h" "sh_key h' = sh_key h" "sh_revision h' = sh_revision h" "sh_changed h' = sh_changed h"
    using assms by (auto simp: move_head_def insert_head_def Let_def split: if_split_asm option.split_asm)
qed

lemma move_heads_frame:
  "move_heads cluster dw hs s = Inr (hs', s') \<Longrightarrow>
   (\<exists>h a. s' = s\<lparr>heads := h, rec := (rec s)\<lparr>disp := (dsp s)\<lparr>assignments := a\<rparr>\<rparr>\<rparr>) \<and>
   map (\<lambda>h. (sh_kind h, sh_key h, sh_revision h, sh_changed h)) hs' = map (\<lambda>h. (sh_kind h, sh_key h, sh_revision h, sh_changed h)) hs"
proof (induction hs arbitrary: s hs')
  case Nil
  then show ?case by (intro conjI exI [of _ "heads s"] exI [of _ "assignments (dsp s)"]) simp_all
next
  case (Cons h hs)
  then obtain h1 s1 hs1 where 1: "move_head cluster dw h s = Inr (h1, s1)" and 2: "move_heads cluster dw hs s1 = Inr (hs1, s')"
    and hs': "hs' = h1 # hs1" by (auto simp: and_then_ok)
  obtain x a where s1: "s1 = s\<lparr>heads := x, rec := (rec s)\<lparr>disp := (dsp s)\<lparr>assignments := a\<rparr>\<rparr>\<rparr>" using move_head_frame(1) [OF 1] by blast
  from Cons.IH [OF 2] obtain y b where s': "s' = s1\<lparr>heads := y, rec := (rec s1)\<lparr>disp := (dsp s1)\<lparr>assignments := b\<rparr>\<rparr>\<rparr>"
    and m: "map (\<lambda>h. (sh_kind h, sh_key h, sh_revision h, sh_changed h)) hs1 = map (\<lambda>h. (sh_kind h, sh_key h, sh_revision h, sh_changed h)) hs" by blast
  have "s' = s\<lparr>heads := y, rec := (rec s)\<lparr>disp := (dsp s)\<lparr>assignments := b\<rparr>\<rparr>\<rparr>" unfolding s' s1 by simp
  then show ?case using m move_head_frame(2-5) [OF 1] unfolding hs' by auto
qed

text \<open>The parts of an accepted write.\<close>

lemma write_release_ok:
  assumes "write_release sha j u hs x dw s = Inr s'"
  obtains hs' h a ys zs s2 where
    "move_heads (jb_cluster j) dw hs s2 = Inr (hs', s2\<lparr>heads := h, rec := (rec s2)\<lparr>disp := (dsp s2)\<lparr>assignments := a\<rparr>\<rparr>\<rparr>)"
    and "s2 = s\<lparr>rels := rels s2, rel_machs := rel_machs s2, rec := (rec s)\<lparr>disp := (dsp s)\<lparr>releases := releases (dsp s2), release_machines := release_machines (dsp s2)\<rparr>\<rparr>\<rparr>"
    and "dw_id dw \<notin> rw_id ` set (rels s)" and "jb_op j \<notin> rw_operation ` set (rels s)"
    and "pj_draft x = jb_draft j" and "pj_draft_rev x = jb_draft_rev j"
    and "\<forall>y \<in> set ys. \<exists>x \<in> set (md_deps (mon s)). dr_dep x = dy_dep y \<and> (dy_release y, dr_id x) \<in> set zs"
    and "ys = concat (map (machine_dep_rows (dw_id dw)) (ru_machines u))"
    and "s' = close_draft (jb_draft j) (dw_id dw) dw (set_desired (covered u) (dw_id dw)
      (s\<lparr>rels := rels s @ [\<lparr>rw_id = dw_id dw, rw_cluster = jb_cluster j, rw_draft = jb_draft j, rw_draft_rev = jb_draft_rev j,
          rw_digest = content_digest sha (content_of j u hs), rw_renderer = ru_renderer u, rw_operation = jb_op j,
          rw_by = pj_by x, rw_role = pj_role x, rw_epoch = inst_epoch (dsp s), rw_at = dw_at dw\<rparr>],
        rel_machs := rel_machs s @ map (machine_row_of (dw_id dw)) (ru_machines u),
        rel_sources := rel_sources s @ map (source_row (dw_id dw)) hs', rel_deps := rel_deps s @ ys,
        heads := h, mon := (mon s)\<lparr>md_refs := md_refs (mon s) @ zs\<rparr>,
        rec := (rec s)\<lparr>disp := (dsp s)\<lparr>releases := releases (dsp s2), release_machines := release_machines (dsp s2), assignments := a\<rparr>\<rparr>\<rparr>))"
proof -
  let ?rel = "dw_id dw"
  from assms obtain s1 s2 hs' s3 s5 where
    1: "insert_release sha j u hs x dw s = Inr s1" and 2: "each_row (insert_release_machine ?rel) (ru_machines u) s1 = Inr s2"
    and 3: "move_heads (jb_cluster j) dw hs s2 = Inr (hs', s3)"
    and 5: "each_row insert_dependency (concat (map (machine_dep_rows ?rel) (ru_machines u))) (insert_sources ?rel hs' s3) = Inr s5"
    and s': "s' = close_draft (jb_draft j) ?rel dw (set_desired (covered u) ?rel s5)"
    unfolding write_release_def Let_def by (auto simp: and_then_ok split: if_split_asm)
  from 1 have new: "?rel \<notin> rw_id ` set (rels s)" "jb_op j \<notin> rw_operation ` set (rels s)" "pj_draft x = jb_draft j" "pj_draft_rev x = jb_draft_rev j"
    and s1: "s1 = s\<lparr>rels := rels s @ [\<lparr>rw_id = ?rel, rw_cluster = jb_cluster j, rw_draft = jb_draft j, rw_draft_rev = jb_draft_rev j,
          rw_digest = content_digest sha (content_of j u hs), rw_renderer = ru_renderer u, rw_operation = jb_op j,
          rw_by = pj_by x, rw_role = pj_role x, rw_epoch = inst_epoch (dsp s), rw_at = dw_at dw\<rparr>],
        rec := (rec s)\<lparr>disp := (dsp s)\<lparr>releases := releases (dsp s) @ [\<lparr>rl_id = ?rel, rl_contract = rn_contract (ru_renderer u)\<rparr>]\<rparr>\<rparr>\<rparr>"
    by (simp_all add: insert_release_def Let_def split: if_split_asm)
  from machines_loop [OF 2] obtain rms where s2: "s2 = s1\<lparr>rel_machs := rel_machs s1 @ map (machine_row_of ?rel) (ru_machines u),
      rec := (rec s1)\<lparr>disp := (dsp s1)\<lparr>release_machines := release_machines (dsp s1) @ rms\<rparr>\<rparr>\<rparr>" by blast
  from move_heads_frame [OF 3] obtain h a where s3: "s3 = s2\<lparr>heads := h, rec := (rec s2)\<lparr>disp := (dsp s2)\<lparr>assignments := a\<rparr>\<rparr>\<rparr>" by blast
  from dependencies_loop [OF 5] obtain zs where z: "s5 = (insert_sources ?rel hs' s3)\<lparr>rel_deps := rel_deps (insert_sources ?rel hs' s3) @
        concat (map (machine_dep_rows ?rel) (ru_machines u)),
      mon := (mon (insert_sources ?rel hs' s3))\<lparr>md_refs := md_refs (mon (insert_sources ?rel hs' s3)) @ zs\<rparr>\<rparr>"
    and zd: "\<forall>y \<in> set (concat (map (machine_dep_rows ?rel) (ru_machines u))).
      \<exists>x \<in> set (md_deps (mon (insert_sources ?rel hs' s3))). dr_dep x = dy_dep y \<and> (dy_release y, dr_id x) \<in> set zs" by blast
  have m: "mon (insert_sources ?rel hs' s3) = mon s" by (simp add: insert_sources_def s3 s2 s1)
  have f2: "s2 = s\<lparr>rels := rels s2, rel_machs := rel_machs s2, rec := (rec s)\<lparr>disp := (dsp s)\<lparr>releases := releases (dsp s2), release_machines := release_machines (dsp s2)\<rparr>\<rparr>\<rparr>"
    by (simp add: s2 s1)
  have e: "s5 = s\<lparr>rels := rels s @ [\<lparr>rw_id = ?rel, rw_cluster = jb_cluster j, rw_draft = jb_draft j, rw_draft_rev = jb_draft_rev j,
          rw_digest = content_digest sha (content_of j u hs), rw_renderer = ru_renderer u, rw_operation = jb_op j,
          rw_by = pj_by x, rw_role = pj_role x, rw_epoch = inst_epoch (dsp s), rw_at = dw_at dw\<rparr>],
        rel_machs := rel_machs s @ map (machine_row_of ?rel) (ru_machines u),
        rel_sources := rel_sources s @ map (source_row ?rel) hs', rel_deps := rel_deps s @ concat (map (machine_dep_rows ?rel) (ru_machines u)),
        heads := h, mon := (mon s)\<lparr>md_refs := md_refs (mon s) @ zs\<rparr>,
        rec := (rec s)\<lparr>disp := (dsp s)\<lparr>releases := releases (dsp s2), release_machines := release_machines (dsp s2), assignments := a\<rparr>\<rparr>\<rparr>"
    unfolding z by (simp add: insert_sources_def s3 s2 s1)
  show ?thesis by (rule that [OF 3 [unfolded s3] f2 new zd [unfolded m] refl s' [unfolded e]])
qed

lemma finish_with_ok:
  "finish_with w j r dw s = Inr (rel, s') \<Longrightarrow>
    rel = r \<and> finish_publish w j JobSucceeded (Some r) None (JSucceeded r) (dw_clock dw) (dw_at dw) s = Inr s'"
  by (auto simp: finish_with_def and_then_ok)

lemma commit_release_ok:
  assumes "commit_release sha w j u dw s0 s = Inr (rel, s')"
  obtains (again) x r where "job_row (jb_op j) s = Some x" and "pj_result x = Some rel" and "s' = s"
      and "release_of (jb_draft j) (jb_draft_rev j) s = Some r" and "rw_id r = rel"
    | (named) r where "release_of (jb_draft j) (jb_draft_rev j) s = Some r" and "rw_id r = rel" and "finish_with w j rel dw s = Inr (rel, s')"
    | (fresh) hs d x m1 s1 where "release_of (jb_draft j) (jb_draft_rev j) s = None" and "rel = dw_id dw"
      and "inst_epoch (dsp s) = pu_epoch w" and "unit_covers j u s"
      and "lock_heads s (draft_heads (jb_draft j) s0 @ map unchanged_head (ru_unchanged u)) = Inr hs"
      and "keyed df_id (jb_draft j) (drafts s) = Some d" and "job_row (jb_op j) s = Some x"
      and "check_inputs j u d hs s = Inr ()"
      and "seed_statuses dw (ru_statuses u) (mon s) = Inr m1" and "recheck u m1 = Inr ()"
      and "write_release sha j u hs x dw (s\<lparr>mon := m1\<rparr>) = Inr s1" and "finish_with w j rel dw s1 = Inr (rel, s')"
proof -
  from assms have ep: "inst_epoch (dsp s) = pu_epoch w" and cov: "unit_covers j u s"
    by (auto simp: commit_release_def split: if_split_asm)
  from assms ep cov obtain hs d x where hs: "lock_heads s (draft_heads (jb_draft j) s0 @ map unchanged_head (ru_unchanged u)) = Inr hs"
    and d: "keyed df_id (jb_draft j) (drafts s) = Some d" and x: "job_row (jb_op j) s = Some x"
    and c: "(case release_of (jb_draft j) (jb_draft_rev j) s of
            Some r \<Rightarrow>
              if rw_digest r \<noteq> content_digest sha (content_of j u hs)
              then Inl (pub_refuse 409 ''conflict'' [(''release'', rw_id r)])
              else if pj_state x = JobSucceeded \<and> pj_result x = Some (rw_id r) then Inr (rw_id r, s)
              else finish_with w j (rw_id r) dw s
          | None \<Rightarrow> new_release sha w j u hs d x dw s) = Inr (rel, s')"
    by (auto simp: commit_release_def and_then_ok found_ok)
  show ?thesis
  proof (cases "release_of (jb_draft j) (jb_draft_rev j) s")
    case (Some r)
    show ?thesis
    proof (cases "pj_state x = JobSucceeded \<and> pj_result x = Some (rw_id r)")
      case True
      then have "pj_result x = Some rel" "s' = s" "rw_id r = rel" using c Some by (auto split: if_split_asm)
      then show ?thesis using again [OF x _ _ Some] by blast
    next
      case False
      then have "finish_with w j (rw_id r) dw s = Inr (rel, s')" using c Some by (auto split: if_split_asm)
      then show ?thesis using named [OF Some] finish_with_ok by metis
    qed
  next
    case None
    then have n: "new_release sha w j u hs d x dw s = Inr (rel, s')" using c by simp
    then obtain m1 s1 where "check_inputs j u d hs s = Inr ()" "seed_statuses dw (ru_statuses u) (mon s) = Inr m1"
        "recheck u m1 = Inr ()" "write_release sha j u hs x dw (s\<lparr>mon := m1\<rparr>) = Inr s1" "finish_with w j (dw_id dw) dw s1 = Inr (rel, s')"
      unfolding new_release_def and_then_ok by auto
    moreover from this have "rel = dw_id dw" using finish_with_ok by blast
    ultimately show ?thesis using fresh [OF None _ ep cov hs d x] by simp
  qed
qed

section \<open>Steps\<close>

text \<open>A job as its worker holds it names the row it was claimed from.\<close>

definition job_bound :: "job \<Rightarrow> publish_db \<Rightarrow> bool" where
  "job_bound j s \<longleftrightarrow> (\<exists>x \<in> set (jobs (rec s)). pj_id x = jb_op j \<and> pj_draft x = jb_draft j \<and> pj_draft_rev x = jb_draft_rev j \<and>
     jb_gen j \<le> pj_gen x)"

text \<open>What authors and the draft transactions do: drafts are added, edited and discarded while open; sources,
  revisions and texts change; no draft becomes published, and no published one changes.\<close>

definition draft_edit :: "publish_db \<Rightarrow> publish_db \<Rightarrow> bool" where
  "draft_edit s s' \<longleftrightarrow> rec s' = rec s \<and> mon s' = mon s \<and> rels s' = rels s \<and> rel_machs s' = rel_machs s \<and>
     rel_sources s' = rel_sources s \<and> rel_deps s' = rel_deps s \<and> heads s' = heads s \<and> distinct (map df_id (drafts s')) \<and>
     (\<forall>d. df_state d = DraftPublished \<longrightarrow> (d \<in> set (drafts s') \<longleftrightarrow> d \<in> set (drafts s)))"

inductive publish_step :: "publish_db \<Rightarrow> publish_db \<Rightarrow> bool" where
  request: "request_publication cfg draft im ep who role new seq at s = Inr (op, s') \<Longrightarrow> publish_step s s'"
| claim: "claim_publish w now now' at s = Inr (c, s') \<Longrightarrow> publish_step s s'"
| extend: "extend_publish w j now now' s = Inr s' \<Longrightarrow> publish_step s s'"
| commit: "commit_release sha w j u dw s0 s = Inr (rel, s') \<Longrightarrow> job_bound j s \<Longrightarrow> publish_step s s'"
| fail: "fail_job w j ref now at s = Inr s' \<Longrightarrow> publish_step s s'"
| enter: "enter_recovery c start a ep rq at clk (rec s) = Inr (b, r) \<Longrightarrow> publish_step s (s\<lparr>rec := r\<rparr>)"
| other: "recovery_step (rec s) r \<Longrightarrow> jobs r = jobs (rec s) \<Longrightarrow> job_events r = job_events (rec s) \<Longrightarrow> publish_step s (s\<lparr>rec := r\<rparr>)"
| edit: "draft_edit s s' \<Longrightarrow> publish_step s s'"
| monitor: "publish_step s (s\<lparr>mon := m\<rparr>)"

text \<open>The life of a job: queued, claimed any number of times, each under the next generation, and ended once.\<close>

inductive job_life :: "(job_state \<times> int \<times> string option) option \<Rightarrow> (job_state \<times> int \<times> string option) option \<Rightarrow> bool" where
  queued: "job_life None (Some (JobQueued, 0, None))"
| claimed: "st = JobQueued \<or> st = JobRunning \<Longrightarrow> job_life (Some (st, g, None)) (Some (JobRunning, g + 1, None))"
| succeeded: "job_life (Some (JobRunning, g, None)) (Some (JobSucceeded, g, Some rel))"
| failed: "st = JobQueued \<or> st = JobRunning \<Longrightarrow> job_life (Some (st, g, None)) (Some (JobFailed, g, None))"

definition abs_job :: "publish_job \<Rightarrow> job_state \<times> int \<times> string option" where
  "abs_job x = (pj_state x, pj_gen x, pj_result x)"

definition life_of :: "string \<Rightarrow> publish_db \<Rightarrow> (job_state \<times> int \<times> string option) option" where
  "life_of op s = map_option abs_job (job_row op s)"

text \<open>What every reachable state keeps.\<close>

definition job_ok :: "rel_row list \<Rightarrow> publish_job \<Rightarrow> bool" where
  "job_ok rs x \<longleftrightarrow> (pj_state x = JobSucceeded \<longleftrightarrow> pj_result x \<noteq> None) \<and>
     (\<forall>r. pj_result x = Some r \<longrightarrow> (\<exists>y \<in> set rs. rw_id y = r \<and> rw_draft y = pj_draft x \<and> rw_draft_rev y = pj_draft_rev x))"

definition publish_inv :: "publish_db \<Rightarrow> bool" where
  "publish_inv s \<longleftrightarrow>
     distinct (map pj_id (jobs (rec s))) \<and> list_all (job_ok (rels s)) (jobs (rec s)) \<and>
     distinct (map (\<lambda>x. (pj_draft x, pj_draft_rev x)) (filter active_job (jobs (rec s)))) \<and>
     distinct (map rw_id (rels s)) \<and> distinct (map (\<lambda>r. (rw_draft r, rw_draft_rev r)) (rels s)) \<and>
     (\<forall>r \<in> set (rels s). \<exists>x \<in> set (jobs (rec s)). pj_id x = rw_operation r \<and> pj_result x = Some (rw_id r)) \<and>
     distinct (map df_id (drafts s)) \<and>
     (\<forall>d \<in> set (drafts s). df_state d = DraftPublished \<longrightarrow> (\<exists>r \<in> set (rels s). df_release d = Some (rw_id r) \<and> rw_draft r = df_id d))"

definition publish_start :: "publish_db \<Rightarrow> bool" where
  "publish_start s \<longleftrightarrow> jobs (rec s) = [] \<and> rels s = [] \<and> distinct (map df_id (drafts s)) \<and>
     (\<forall>d \<in> set (drafts s). df_state d \<noteq> DraftPublished)"

lemma publish_start_inv: "publish_start s \<Longrightarrow> publish_inv s"
  by (simp add: publish_start_def publish_inv_def)

section \<open>What a step keeps\<close>

lemma in_update: "x \<in> set xs \<Longrightarrow> \<not> p x \<Longrightarrow> x \<in> set (sql_update p f xs)" "x \<in> set xs \<Longrightarrow> p x \<Longrightarrow> f x \<in> set (sql_update p f xs)"
  using in_sql_updateI [of x xs p f] by simp_all

lemma keyed_Nil: "keyed k i [] = None"
  by (simp add: keyed_def sql_row_def)

definition same_job :: "publish_job \<Rightarrow> publish_job \<Rightarrow> bool" where
  "same_job x y \<longleftrightarrow> pj_id y = pj_id x \<and> pj_draft y = pj_draft x \<and> pj_draft_rev y = pj_draft_rev x \<and> pj_gen x \<le> pj_gen y"

definition pub_effect :: "publish_db \<Rightarrow> publish_db \<Rightarrow> bool" where
  "pub_effect s s' \<longleftrightarrow> publish_inv s' \<and> (\<forall>op. life_of op s' = life_of op s \<or> job_life (life_of op s) (life_of op s')) \<and>
     (\<forall>x \<in> set (jobs (rec s)). \<exists>y \<in> set (jobs (rec s')). same_job x y) \<and> set (rels s) \<subseteq> set (rels s')"

lemma same_job_refl [simp]: "same_job x x"
  by (simp add: same_job_def)

lemma pub_effect_same:
  assumes "publish_inv s'" and "jobs (rec s') = jobs (rec s)" and "rels s' = rels s"
  shows "pub_effect s s'"
proof -
  have "\<forall>x \<in> set (jobs (rec s)). \<exists>y \<in> set (jobs (rec s)). same_job x y" by (meson same_job_refl)
  then show ?thesis using assms unfolding pub_effect_def life_of_def job_row_def by simp
qed

lemma publish_inv_cong:
  "jobs (rec s') = jobs (rec s) \<Longrightarrow> rels s' = rels s \<Longrightarrow> drafts s' = drafts s \<Longrightarrow> publish_inv s \<Longrightarrow> publish_inv s'"
  by (simp add: publish_inv_def)

lemma job_ok_mono: "job_ok rs x \<Longrightarrow> set rs \<subseteq> set rs' \<Longrightarrow> job_ok rs' x"
  unfolding job_ok_def by blast

lemma active_no_result: "job_ok rs x \<Longrightarrow> active_job x \<Longrightarrow> pj_result x = None"
  by (auto simp: job_ok_def active_job_def)

text \<open>An update of rows that keeps what a job is, beside releases and drafts that stay well formed.\<close>

definition drafts_ok :: "publish_db \<Rightarrow> bool" where
  "drafts_ok s \<longleftrightarrow> distinct (map df_id (drafts s)) \<and>
     (\<forall>d \<in> set (drafts s). df_state d = DraftPublished \<longrightarrow> (\<exists>r \<in> set (rels s). df_release d = Some (rw_id r) \<and> rw_draft r = df_id d))"

lemma jobs_updated:
  assumes inv: "publish_inv s" and s': "jobs (rec s') = sql_update p f (jobs (rec s))"
    and rel: "set (rels s) \<subseteq> set (rels s')" "distinct (map rw_id (rels s'))" "distinct (map (\<lambda>r. (rw_draft r, rw_draft_rev r)) (rels s'))"
      "\<forall>r \<in> set (rels s') - set (rels s). \<exists>x \<in> set (jobs (rec s')). pj_id x = rw_operation r \<and> pj_result x = Some (rw_id r)"
    and dr: "drafts_ok s'"
    and key: "\<And>x. p x \<Longrightarrow> pj_id (f x) = pj_id x"
    and row: "\<And>x. x \<in> set (jobs (rec s)) \<Longrightarrow> p x \<Longrightarrow> same_job x (f x) \<and> job_ok (rels s') (f x) \<and> active_job x \<and>
      (abs_job (f x) = abs_job x \<or> job_life (Some (abs_job x)) (Some (abs_job (f x))))"
  shows "pub_effect s s'"
proof -
  have old: "distinct (map pj_id (jobs (rec s)))" "list_all (job_ok (rels s)) (jobs (rec s))"
      "distinct (map (\<lambda>x. (pj_draft x, pj_draft_rev x)) (filter active_job (jobs (rec s))))"
      "\<forall>r \<in> set (rels s). \<exists>x \<in> set (jobs (rec s)). pj_id x = rw_operation r \<and> pj_result x = Some (rw_id r)"
    using inv by (simp_all add: publish_inv_def)
  have keys: "map pj_id (jobs (rec s')) = map pj_id (jobs (rec s))" unfolding s' by (rule map_key_sql_update) (rule key)
  have oks: "list_all (job_ok (rels s')) (jobs (rec s'))"
    using old(2) row job_ok_mono [OF _ rel(1)] unfolding s' list_all_iff by (auto elim!: in_sql_updateE)
  have act: "distinct (map (\<lambda>x. (pj_draft x, pj_draft_rev x)) (filter active_job (jobs (rec s'))))"
  proof -
    have "distinct (map (\<lambda>x. (pj_draft x, pj_draft_rev x)) (filter active_job (sql_update p f xs)))"
      if "distinct (map (\<lambda>x. (pj_draft x, pj_draft_rev x)) (filter active_job xs))" "set xs \<subseteq> set (jobs (rec s))" for xs
      using that
    proof (induction xs)
      case (Cons x xs)
      have sub: "(\<lambda>x. (pj_draft x, pj_draft_rev x)) ` set (filter active_job (sql_update p f xs)) \<subseteq>
          (\<lambda>x. (pj_draft x, pj_draft_rev x)) ` set (filter active_job xs)"
      proof
        fix k assume "k \<in> (\<lambda>x. (pj_draft x, pj_draft_rev x)) ` set (filter active_job (sql_update p f xs))"
        then obtain y where y: "y \<in> set (sql_update p f xs)" "active_job y" "k = (pj_draft y, pj_draft_rev y)" by auto
        from y(1) show "k \<in> (\<lambda>x. (pj_draft x, pj_draft_rev x)) ` set (filter active_job xs)"
        proof (cases rule: in_sql_updateE)
          case (1 r)
          then have "same_job r (f r)" "active_job r" using row [of r] Cons.prems(2) by auto
          then show ?thesis using 1 y by (auto simp: same_job_def intro!: image_eqI [of _ _ r])
        next
          case (2 r)
          then show ?thesis using y by auto
        qed
      qed
      have xs: "distinct (map (\<lambda>x. (pj_draft x, pj_draft_rev x)) (filter active_job (sql_update p f xs)))" using Cons by (simp split: if_split_asm)
      show ?case
      proof (cases "p x")
        case True
        then have "active_job x" "same_job x (f x)" using row [of x] Cons.prems(2) by auto
        then show ?thesis using xs sub Cons.prems(1) True by (auto simp: same_job_def)
      next
        case False
        then show ?thesis using xs sub Cons.prems(1) by auto
      qed
    qed simp
    then show ?thesis using old(3) unfolding s' by blast
  qed
  have res: "\<exists>x \<in> set (jobs (rec s')). pj_id x = rw_operation r \<and> pj_result x = Some (rw_id r)" if r: "r \<in> set (rels s')" for r
  proof (cases "r \<in> set (rels s)")
    case r: True
    obtain x where x: "x \<in> set (jobs (rec s))" "pj_id x = rw_operation r" "pj_result x = Some (rw_id r)"
      using old(4) r by blast
    then have "\<not> active_job x" using old(2) active_no_result [of "rels s" x] by (auto simp: list_all_iff)
    then have "\<not> p x" using row [of x] x(1) by blast
    then show ?thesis using x in_update(1) [of x "jobs (rec s)" p f] unfolding s' by blast
  qed (use rel(4) r in blast)
  have "publish_inv s'" using old(1) keys oks act res rel(2,3) dr unfolding publish_inv_def drafts_ok_def by simp
  moreover have "life_of op s' = life_of op s \<or> job_life (life_of op s) (life_of op s')" for op
  proof -
    have k: "keyed pj_id op (jobs (rec s')) = map_option (\<lambda>r. if p r then f r else r) (keyed pj_id op (jobs (rec s)))"
      unfolding s' by (rule keyed_sql_update) (rule key)
    show ?thesis
    proof (cases "keyed pj_id op (jobs (rec s))")
      case (Some x)
      then have "x \<in> set (jobs (rec s))" using keyed_Some by metis
      then show ?thesis using Some k row [of x] by (auto simp: life_of_def job_row_def)
    qed (use k in \<open>simp add: life_of_def job_row_def\<close>)
  qed
  moreover have "\<exists>y \<in> set (jobs (rec s')). same_job x y" if "x \<in> set (jobs (rec s))" for x
    using that row [of x] in_update [of x "jobs (rec s)" p f] unfolding s' by (cases "p x") (blast intro: same_job_refl)+
  ultimately show ?thesis using rel(1) by (simp add: pub_effect_def)
qed

lemma jobs_updated_only:
  assumes "publish_inv s" "jobs (rec s') = sql_update p f (jobs (rec s))" "rels s' = rels s" "drafts s' = drafts s"
    "\<And>x. p x \<Longrightarrow> pj_id (f x) = pj_id x"
    "\<And>x. x \<in> set (jobs (rec s)) \<Longrightarrow> p x \<Longrightarrow> same_job x (f x) \<and> job_ok (rels s) (f x) \<and> active_job x \<and>
      (abs_job (f x) = abs_job x \<or> job_life (Some (abs_job x)) (Some (abs_job (f x))))"
  shows "pub_effect s s'"
  using assms by (intro jobs_updated [of s s' p f]) (simp_all add: publish_inv_def drafts_ok_def)

lemma inv_row: "publish_inv s \<Longrightarrow> x \<in> set (jobs (rec s)) \<Longrightarrow> job_ok (rels s) x"
  by (simp add: publish_inv_def list_all_iff)

lemma inv_same_id: "publish_inv s \<Longrightarrow> x \<in> set (jobs (rec s)) \<Longrightarrow> y \<in> set (jobs (rec s)) \<Longrightarrow> pj_id x = pj_id y \<Longrightarrow> x = y"
  by (auto simp: publish_inv_def distinct_map dest: inj_onD)

lemma effect_claim:
  assumes inv: "publish_inv s" and c: "claim_publish w now now' at s = Inr (c, s')"
  shows "pub_effect s s'"
  using c
proof (cases rule: claim_publish_ok)
  case 1
  then show ?thesis using pub_effect_same [OF inv] by simp
next
  case (2 x d)
  have x: "active_job x" using 2(2) by (auto simp: job_eligible_def active_job_def)
  then have r: "pj_result x = None" using active_no_result [OF inv_row [OF inv 2(1)]] by blast
  have "same_job y (job_taken w now' y) \<and> job_ok (rels s) (job_taken w now' y) \<and> active_job y \<and>
      (abs_job (job_taken w now' y) = abs_job y \<or> job_life (Some (abs_job y)) (Some (abs_job (job_taken w now' y))))"
    if "y \<in> set (jobs (rec s))" "pj_id y = pj_id x" for y
  proof -
    have y: "y = x" using inv_same_id [OF inv that(1) 2(1) that(2)] .
    show ?thesis unfolding y using x r
      by (auto simp: job_taken_def same_job_def job_ok_def abs_job_def active_job_def intro: job_life.claimed)
  qed
  then show ?thesis using inv unfolding 2
    by (intro jobs_updated_only [of s _ "\<lambda>y. pj_id y = pj_id x" "job_taken w now'"]) (simp_all add: job_taken_def)
qed

lemma holds_active: "holds_job w j now x \<Longrightarrow> active_job x \<and> pj_state x = JobRunning"
  by (simp add: holds_job_def active_job_def)

lemma effect_extend:
  assumes inv: "publish_inv s" and "extend_publish w j now now' s = Inr s'"
  shows "pub_effect s s'"
proof -
  have s': "s' = update_job (holds_job w j now) (\<lambda>x. x\<lparr>pj_lease := Some (now' + pu_lease w)\<rparr>) s" by (rule extend_publish_ok(1) [OF assms(2)])
  show ?thesis unfolding s' update_job_def using inv
    by (intro jobs_updated_only [of s _ "holds_job w j now" "\<lambda>x. x\<lparr>pj_lease := Some (now' + pu_lease w)\<rparr>"])
      (auto simp: same_job_def abs_job_def job_ok_def dest: holds_active inv_row [OF inv])
qed

lemma ended_row:
  assumes "job_ok rs x" "holds_job w j now x" "st = JobFailed \<and> result = None \<or> st = JobSucceeded \<and> result = Some rel \<and>
    (\<exists>y \<in> set rs'. rw_id y = rel \<and> rw_draft y = pj_draft x \<and> rw_draft_rev y = pj_draft_rev x)"
  shows "same_job x (job_ended st result err x) \<and> job_ok rs' (job_ended st result err x) \<and> active_job x \<and>
      (abs_job (job_ended st result err x) = abs_job x \<or> job_life (Some (abs_job x)) (Some (abs_job (job_ended st result err x))))"
proof -
  have a: "active_job x" "pj_state x = JobRunning" using holds_active [OF assms(2)] by auto
  have r: "pj_result x = None" by (rule active_no_result [OF assms(1) a(1)])
  then have "abs_job x = (JobRunning, pj_gen x, None)" "abs_job (job_ended st result err x) = (st, pj_gen x, result)"
    using a by (simp_all add: abs_job_def job_ended_def)
  then have "job_life (Some (abs_job x)) (Some (abs_job (job_ended st result err x)))"
    using assms(3) by (auto intro: job_life.intros)
  then show ?thesis using a assms(3) by (auto simp: same_job_def job_ended_def job_ok_def)
qed

lemma ended_id: "pj_id (job_ended st result err x) = pj_id x"
  by (simp add: job_ended_def)

lemma effect_fail:
  assumes inv: "publish_inv s" and "fail_job w j ref now at s = Inr s'"
  shows "pub_effect s s'"
  using assms(2) unfolding fail_job_def
proof (cases rule: finish_publish_ok)
  case (1 x)
  have row: "same_job y (job_ended JobFailed None err y) \<and> job_ok (rels s) (job_ended JobFailed None err y) \<and> active_job y \<and>
      (abs_job (job_ended JobFailed None err y) = abs_job y \<or> job_life (Some (abs_job y)) (Some (abs_job (job_ended JobFailed None err y))))"
    if "y \<in> set (jobs (rec s))" "holds_job w j now y" for y err
    by (rule ended_row [OF inv_row [OF inv that(1)] that(2)]) simp
  show ?thesis by (rule jobs_updated_only [OF inv _ _ _ ended_id row]) (simp_all add: 1(3))
qed

lemma effect_request:
  assumes inv: "publish_inv s" and r: "request_publication cfg draft im ep who role new seq at s = Inr (op, s')"
  shows "pub_effect s s'"
  using r
proof (cases rule: request_publication_ok)
  case (1 x)
  then show ?thesis using pub_effect_same [OF inv] by simp
next
  case (2 d)
  have old: "distinct (map pj_id (jobs (rec s)))" "list_all (job_ok (rels s)) (jobs (rec s))"
      "distinct (map (\<lambda>x. (pj_draft x, pj_draft_rev x)) (filter active_job (jobs (rec s))))"
      "\<forall>r \<in> set (rels s). \<exists>x \<in> set (jobs (rec s)). pj_id x = rw_operation r \<and> pj_result x = Some (rw_id r)"
    using inv by (simp_all add: publish_inv_def)
  have "publish_inv s'" using inv 2(4,5) old unfolding 2(6) publish_inv_def by (auto simp: job_ok_def active_job_def)
  moreover have "life_of op' s' = life_of op' s \<or> job_life (life_of op' s) (life_of op' s')" for op'
  proof (cases "keyed pj_id op' (jobs (rec s))")
    case None
    then show ?thesis unfolding 2(6)
      by (auto simp: life_of_def job_row_def keyed_append keyed_Cons keyed_Nil abs_job_def intro: job_life.queued)
  next
    case (Some x)
    then show ?thesis unfolding 2(6) by (simp add: life_of_def job_row_def keyed_append)
  qed
  moreover have "\<forall>x \<in> set (jobs (rec s)). \<exists>y \<in> set (jobs (rec s')). same_job x y"
    unfolding 2(6) by (auto intro: same_job_refl)
  ultimately show ?thesis unfolding pub_effect_def 2(6) by simp
qed

text \<open>Recovery entry fails every active job.\<close>

definition entry_failed :: "publish_job \<Rightarrow> publish_job" where
  "entry_failed x = x\<lparr>pj_state := JobFailed, pj_error := Some ''recovery-mode-entered'', pj_owner := None,
     pj_owner_epoch := None, pj_lease := None, pj_last := pj_last x + 1\<rparr>"

lemma fail_each:
  "each_row (fail_on_entry ep clk) js s = Inr s' \<Longrightarrow> distinct (map pj_id js) \<Longrightarrow>
   jobs s' = sql_update (\<lambda>x. pj_id x \<in> pj_id ` set js) entry_failed (jobs s)"
proof (induction js arbitrary: s)
  case (Cons j js)
  then obtain s1 where 1: "fail_on_entry ep clk j s = Inr s1" and 2: "each_row (fail_on_entry ep clk) js s1 = Inr s'"
    by (auto simp: and_then_ok)
  have "jobs s1 = sql_update (\<lambda>x. pj_id x = pj_id j) entry_failed (jobs s)"
    using 1 by (auto simp: fail_on_entry_def Let_def entry_failed_def [abs_def] split: if_split_asm)
  then have "jobs s' = sql_update (\<lambda>x. pj_id x \<in> pj_id ` set js) entry_failed (sql_update (\<lambda>x. pj_id x = pj_id j) entry_failed (jobs s))"
    using Cons.IH [OF 2] Cons.prems(2) by simp
  also have "\<dots> = sql_update (\<lambda>x. pj_id x \<in> pj_id ` set (j # js)) entry_failed (jobs s)"
    using Cons.prems(2) by (auto simp: sql_update_def entry_failed_def)
  finally show ?case .
qed (simp add: sql_update_def)

lemma entry_jobs:
  assumes "enter_recovery c start a ep rq at clk r = Inr (b, r')" and "distinct (map pj_id (jobs r))"
  shows "jobs r' = sql_update active_job entry_failed (jobs r)"
proof -
  define s1 where "s1 = r\<lparr>epochs := epochs r @ [\<lparr>ep_id = ep, ep_at = at, ep_by = Some (w_principal a),
      ep_reason = Some (en_reason rq), ep_stopped = Some (en_stopped rq)\<rparr>],
    restores := restores r @ map (Pair ep) (en_restored rq), disp := (disp r)\<lparr>inst_epoch := ep, recovery_mode := True\<rparr>\<rparr>"
  from assms(1) obtain s2 db4 where 2: "each_row (fail_on_entry ep clk) (to_fail r) s1 = Inr s2" and r': "r' = s2\<lparr>disp := db4\<rparr>"
    unfolding enter_recovery_def Let_def s1_def [symmetric] by (auto simp: and_then_ok split: if_split_asm)
  have 1: "jobs s1 = jobs r" by (simp add: s1_def)
  have d: "distinct (map pj_id (to_fail r))"
    using assms(2) by (simp add: to_fail_def distinct_map inj_on_def)
  have "set (to_fail r) = {x \<in> set (jobs r). active_job x}" by (auto simp: to_fail_def active_job_def)
  then have m: "pj_id x \<in> pj_id ` set (to_fail r) \<longleftrightarrow> active_job x" if "x \<in> set (jobs r)" for x
    using assms(2) that by (auto simp: distinct_map dest: inj_onD)
  have "jobs r' = sql_update (\<lambda>x. pj_id x \<in> pj_id ` set (to_fail r)) entry_failed (jobs r)"
    using fail_each [OF 2 d] r' 1 by simp
  also have "\<dots> = sql_update active_job entry_failed (jobs r)" using m by (simp add: sql_update_def)
  finally show ?thesis .
qed

lemma effect_publish_enter:
  assumes inv: "publish_inv s" and "enter_recovery c start a ep rq at clk (rec s) = Inr (b, r)"
  shows "pub_effect s (s\<lparr>rec := r\<rparr>)"
proof (rule jobs_updated_only [OF inv])
  show "jobs (rec (s\<lparr>rec := r\<rparr>)) = sql_update active_job entry_failed (jobs (rec s))"
    using entry_jobs [OF assms(2)] inv by (simp add: publish_inv_def)
  fix x assume x: "x \<in> set (jobs (rec s))" "active_job x"
  have "pj_result x = None" by (rule active_no_result [OF inv_row [OF inv x(1)] x(2)])
  then show "same_job x (entry_failed x) \<and> job_ok (rels s) (entry_failed x) \<and> active_job x \<and>
      (abs_job (entry_failed x) = abs_job x \<or> job_life (Some (abs_job x)) (Some (abs_job (entry_failed x))))"
    using x(2) by (auto simp: same_job_def entry_failed_def job_ok_def abs_job_def active_job_def intro: job_life.failed)
qed (simp_all add: entry_failed_def)

lemma set_desired_frame [simp]:
  "jobs (rec (set_desired ms rel s)) = jobs (rec s)" "rels (set_desired ms rel s) = rels s" "drafts (set_desired ms rel s) = drafts s"
  "mon (set_desired ms rel s) = mon s" "heads (set_desired ms rel s) = heads s" "rel_deps (set_desired ms rel s) = rel_deps s"
  by (simp_all add: set_desired_def)

lemma close_draft_frame [simp]:
  "rec (close_draft dft rel dw s) = rec s" "rels (close_draft dft rel dw s) = rels s" "mon (close_draft dft rel dw s) = mon s"
  "heads (close_draft dft rel dw s) = heads s" "rel_deps (close_draft dft rel dw s) = rel_deps s"
  by (simp_all add: close_draft_def)

lemma effect_commit:
  assumes inv: "publish_inv s" and c: "commit_release sha w j u dw s0 s = Inr (rel, s')" and b: "job_bound j s"
  shows "pub_effect s s'"
  using c
proof (cases rule: commit_release_ok)
  case (again x r)
  then show ?thesis using pub_effect_same [OF inv] by simp
next
  case (named r)
  have r: "r \<in> set (rels s)" "rw_draft r = jb_draft j" "rw_draft_rev r = jb_draft_rev j"
    using named(1) sql_row_Some unfolding release_of_def by fast+
  from finish_with_ok [OF named(3)]
  have fin: "finish_publish w j JobSucceeded (Some rel) None (JSucceeded rel) (dw_clock dw) (dw_at dw) s = Inr s'" by blast
  from fin show ?thesis
  proof (cases rule: finish_publish_ok)
    case (1 x)
    have row: "same_job y (job_ended JobSucceeded (Some rel) None y) \<and> job_ok (rels s) (job_ended JobSucceeded (Some rel) None y) \<and> active_job y \<and>
        (abs_job (job_ended JobSucceeded (Some rel) None y) = abs_job y \<or> job_life (Some (abs_job y)) (Some (abs_job (job_ended JobSucceeded (Some rel) None y))))"
      if y: "y \<in> set (jobs (rec s))" "holds_job w j (dw_clock dw) y" for y
    proof -
      obtain z where z: "z \<in> set (jobs (rec s))" "pj_id z = jb_op j" "pj_draft z = jb_draft j" "pj_draft_rev z = jb_draft_rev j"
        using b by (auto simp: job_bound_def)
      have "pj_id y = jb_op j" using y(2) by (simp add: holds_job_def)
      then have "y = z" using inv_same_id [OF inv y(1) z(1)] z(2) by simp
      then show ?thesis using z r named(2) by (intro ended_row [OF inv_row [OF inv y(1)] y(2)]) auto
    qed
    show ?thesis by (rule jobs_updated_only [OF inv _ _ _ ended_id row]) (simp_all add: 1(3))
  qed
next
  case (fresh hs d x m1 s1)
  from fresh(7) have x: "x \<in> set (jobs (rec s))" "pj_id x = jb_op j" using keyed_Some unfolding job_row_def by metis+
  from fresh(11) show ?thesis
  proof (cases rule: write_release_ok)
    case w: (1 hs' h a ys zs s2)
    let ?row = "\<lparr>rw_id = dw_id dw, rw_cluster = jb_cluster j, rw_draft = jb_draft j, rw_draft_rev = jb_draft_rev j,
          rw_digest = content_digest sha (content_of j u hs), rw_renderer = ru_renderer u, rw_operation = jb_op j,
          rw_by = pj_by x, rw_role = pj_role x, rw_epoch = inst_epoch (dsp s), rw_at = dw_at dw\<rparr>"
    have s1: "jobs (rec s1) = jobs (rec s)" "rels s1 = rels s @ [?row]"
        "drafts s1 = sql_update (\<lambda>d. df_id d = jb_draft j) (\<lambda>d. d\<lparr>df_state := DraftPublished, df_release := Some (dw_id dw),
          df_revision := df_revision d + 1, df_token := dw_token dw (jb_draft j)\<rparr>) (drafts s)"
      unfolding w(9) by (simp_all add: close_draft_def set_desired_def)
    from finish_with_ok [OF fresh(12)]
    have "finish_publish w j JobSucceeded (Some rel) None (JSucceeded rel) (dw_clock dw) (dw_at dw) s1 = Inr s'" by blast
    then show ?thesis
    proof (cases rule: finish_publish_ok)
      case f: (1 z)
      have s': "jobs (rec s') = sql_update (holds_job w j (dw_clock dw)) (job_ended JobSucceeded (Some rel) None) (jobs (rec s))"
          "rels s' = rels s @ [?row]" "drafts s' = drafts s1" by (simp_all add: f(3) s1)
      have z: "z \<in> set (jobs (rec s))" "holds_job w j (dw_clock dw) z" using hit_Some [OF f(1)] s1(1) by auto
      have zx: "y = x" if "y \<in> set (jobs (rec s))" "holds_job w j (dw_clock dw) y" for y
        using inv_same_id [OF inv that(1) x(1)] that(2) x(2) by (simp add: holds_job_def)
      show ?thesis
      proof (rule jobs_updated [OF inv s'(1)])
        show "set (rels s) \<subseteq> set (rels s')" by (auto simp: s')
        show "distinct (map rw_id (rels s'))" using inv w(3) by (auto simp: s' publish_inv_def)
        show "distinct (map (\<lambda>r. (rw_draft r, rw_draft_rev r)) (rels s'))"
          using inv fresh(1) by (auto simp: s' publish_inv_def release_of_def sql_row_None)
        have "job_ended JobSucceeded (Some rel) None z \<in> set (jobs (rec s'))" 
          using in_update(2) [of z "jobs (rec s)" "holds_job w j (dw_clock dw)" "job_ended JobSucceeded (Some rel) None"] z unfolding s' by blast
        moreover have "pj_id (job_ended JobSucceeded (Some rel) None z) = jb_op j" "pj_result (job_ended JobSucceeded (Some rel) None z) = Some (dw_id dw)"
          using z(2) fresh(2) by (simp_all add: job_ended_def holds_job_def)
        ultimately show "\<forall>r \<in> set (rels s') - set (rels s). \<exists>x \<in> set (jobs (rec s')). pj_id x = rw_operation r \<and> pj_result x = Some (rw_id r)"
          unfolding s'(2) by auto
        show "drafts_ok s'"
          using inv unfolding drafts_ok_def s' s1 publish_inv_def
          by (auto simp: map_key_sql_update elim!: in_sql_updateE)
        show "same_job y (job_ended JobSucceeded (Some rel) None y) \<and> job_ok (rels s') (job_ended JobSucceeded (Some rel) None y) \<and> active_job y \<and>
            (abs_job (job_ended JobSucceeded (Some rel) None y) = abs_job y \<or> job_life (Some (abs_job y)) (Some (abs_job (job_ended JobSucceeded (Some rel) None y))))"
          if y: "y \<in> set (jobs (rec s))" "holds_job w j (dw_clock dw) y" for y
          using zx [OF y] w(5,6) fresh(2) unfolding s'(2) by (intro ended_row [OF inv_row [OF inv y(1)] y(2)]) auto
      qed (rule ended_id)
    qed
  qed
qed

lemma effect_step:
  assumes "publish_step s s'" and "publish_inv s"
  shows "pub_effect s s'"
  using assms
proof (cases rule: publish_step.cases)
  case (other r)
  then show ?thesis using assms(2) publish_inv_cong [of "s\<lparr>rec := r\<rparr>" s] by (intro pub_effect_same) simp_all
next
  case edit
  then have d: "distinct (map df_id (drafts s'))" "\<And>d. df_state d = DraftPublished \<Longrightarrow> d \<in> set (drafts s') \<longleftrightarrow> d \<in> set (drafts s)"
    by (simp_all add: draft_edit_def)
  have "publish_inv s'" using assms(2) edit d unfolding publish_inv_def draft_edit_def by simp blast
  then show ?thesis using edit by (intro pub_effect_same) (simp_all add: draft_edit_def)
next
  case (monitor m)
  then show ?thesis using assms(2) publish_inv_cong [of "s\<lparr>mon := m\<rparr>" s] by (intro pub_effect_same) simp_all
next
  case request
  then show ?thesis using effect_request [OF assms(2)] by blast
next
  case claim
  then show ?thesis using effect_claim [OF assms(2)] by blast
next
  case extend
  then show ?thesis using effect_extend [OF assms(2)] by blast
next
  case commit
  then show ?thesis using effect_commit [OF assms(2)] by blast
next
  case fail
  then show ?thesis using effect_fail [OF assms(2)] by blast
next
  case enter
  then show ?thesis using effect_publish_enter [OF assms(2)] by blast
qed

lemma effect_run:
  assumes "publish_step\<^sup>*\<^sup>* s s'" and "publish_inv s"
  shows "publish_inv s' \<and> (\<forall>op. job_life\<^sup>*\<^sup>* (life_of op s) (life_of op s')) \<and>
    (\<forall>x \<in> set (jobs (rec s)). \<exists>y \<in> set (jobs (rec s')). same_job x y) \<and> set (rels s) \<subseteq> set (rels s')"
  using assms
proof (induction rule: rtranclp_induct)
  case base
  then show ?case by (auto intro: same_job_refl)
next
  case (step t s')
  then have e: "pub_effect t s'" using effect_step by blast
  have "job_life\<^sup>*\<^sup>* (life_of op s) (life_of op s')" for op
  proof -
    have "job_life\<^sup>*\<^sup>* (life_of op s) (life_of op t)" using step by blast
    moreover have "life_of op s' = life_of op t \<or> job_life (life_of op t) (life_of op s')" using e by (simp add: pub_effect_def)
    ultimately show ?thesis by (metis rtranclp.rtrancl_into_rtrancl)
  qed
  moreover have "\<exists>y \<in> set (jobs (rec s')). same_job x y" if x: "x \<in> set (jobs (rec s))" for x
  proof -
    obtain z where z: "z \<in> set (jobs (rec t))" "same_job x z" using step x by blast
    obtain y where "y \<in> set (jobs (rec s'))" "same_job z y" using e z(1) unfolding pub_effect_def by blast
    then show ?thesis using z(2) by (auto simp: same_job_def intro!: bexI [of _ y])
  qed
  ultimately show ?case using e step unfolding pub_effect_def by blast
qed

end
