(* ===== verification/Publish_Example.thy ===== *)
theory Publish_Example
  imports Publish_System Recovery_Example
begin

text \<open>
  A publication evaluated: a draft that assigns its machine another revision is requested, claimed, its machine
  read, and committed; then the job is claimed a second time before it ends.
\<close>

definition px_start :: publish_db where
  "px_start = \<lparr>rec = (rx_on ex_db0)\<lparr>jobs := []\<rparr>,
     mon = \<lparr>md_deps = [], md_refs = [], md_alerts = [], md_progress = 0, md_last_pass = None, md_last_stalled = None, md_last_logged = 0\<rparr>,
     drafts = [\<lparr>df_id = ''drf_a'', df_cluster = ''k1'', df_state = DraftOpen, df_revision = 4, df_token = ''t'', df_release = None\<rparr>],
     draft_bases = [\<lparr>db_draft = ''drf_a'', db_machine = ''m1'', db_base = ''b1''\<rparr>],
     draft_sources = [\<lparr>ds_draft = ''drf_a'', ds_cluster = ''k1'', ds_kind = HAssignment, ds_key = ''m1'', ds_revision = Some ''a2'', ds_base = Some 3\<rparr>],
     heads = [\<lparr>hd_kind = HAssignment, hd_id = ''h1'', hd_cluster = ''k1'', hd_key = ''m1'', hd_current = Some ''a1'', hd_revision = 3, hd_token = ''u''\<rparr>],
     revisions = [\<lparr>rv_kind = HAssignment, rv_id = ''a2'', rv_cluster = ''k1'', rv_key = ''m1''\<rparr>],
     documents = [(''b1'', ''machine: {}'')], ref_rows = [], profile_fragments = [], assignment_profiles = [], assignment_fragments = [],
     rels = [], rel_machs = [], rel_sources = [], rel_deps = []\<rparr>"

definition px_worker :: "string \<Rightarrow> publisher" where
  "px_worker i = \<lparr>pu_id = i, pu_epoch = ''e1'', pu_lease = 60\<rparr>"

definition px_sha :: "string \<Rightarrow> digest" where
  "px_sha text = [word_of_int (int (length text))]"

definition px_dep :: "string \<Rightarrow> int \<Rightarrow> unit_dependency" where
  "px_dep obj v = \<lparr>ud_reference = '''', ud_object = obj, ud_version = v, ud_created = 5, ud_source = '''', ud_digest = [], ud_path = '''', ud_occurrence = 0\<rparr>"

definition px_status :: "provider \<Rightarrow> string \<Rightarrow> int \<Rightarrow> unit_status" where
  "px_status p obj v = \<lparr>us_provider = p, us_object = obj, us_version = v,
     us_verdict = \<lparr>vd_class = Retained, vd_reason = NoReason, vd_created = 5, vd_deletion = 0, vd_date = 6\<rparr>, us_began = 7\<rparr>"

definition px_unit :: release_unit where
  "px_unit = \<lparr>ru_renderer = \<lparr>rn_contract = ''v1.9'', rn_machinery = ''v1.9.1'', rn_checksum = ''h1'', rn_kubernetes = ''1.32''\<rparr>, ru_unchanged = [],
     ru_machines = [\<lparr>um_machine = ''m1'', um_base = ''b1'', um_assignment = ''a2'', um_mode = ''full'', um_observation = ''o1'',
       um_ciphertext = ''vault:v1:eA'', um_configuration = [9], um_redacted = None, um_provenance = [],
       um_effective = [px_dep ''kv/a'' 2], um_reproduction = [], um_encryption = px_dep ''key'' 1\<rparr>],
     ru_statuses = [px_status Transit ''key'' 1, px_status KV ''kv/a'' 2]\<rparr>"

definition px_draws :: draws where
  "px_draws = \<lparr>dw_id = ''rel_a'', dw_head = (\<lambda>_ k. ''hd_'' @ k), dw_token = (\<lambda>i. ''tok_'' @ i), dw_status = (\<lambda>n. replicate (Suc n) CHR ''s''),
     dw_status_at = (\<lambda>n. 20), dw_text = (\<lambda>t. ''''), dw_at = 30, dw_clock = 30\<rparr>"

definition px_requested :: publish_db where
  "px_requested = snd (projr (request_publication True ''drf_a'' (4, ''t'') ''e1'' ''bob'' ''publisher'' ''j1'' 1 10 px_start))"

definition px_job :: job where
  "px_job = \<lparr>jb_op = ''j1'', jb_draft = ''drf_a'', jb_cluster = ''k1'', jb_draft_rev = 4, jb_gen = 1\<rparr>"

definition px_claimed :: publish_db where
  "px_claimed = snd (projr (claim_publish (px_worker ''c1'') 11 11 11 px_requested))"

definition px_for :: observe_for where
  "px_for = \<lparr>of_purpose = Publication, of_plan = None, of_operation = Some ''j1'', of_paced = False, of_generation = 1\<rparr>"

definition px_started :: publish_db where
  "px_started = px_claimed\<lparr>rec := (rec px_claimed)\<lparr>disp := snd (projr (start_observation ex_ctl ''m1'' px_for None 12 12 (dsp px_claimed)))\<rparr>\<rparr>"

definition px_read :: publish_db where
  "px_read = px_started\<lparr>rec := (rec px_started)\<lparr>disp := projr (record_observation ex_ctl ''m1'' px_for None
     ((ex_read ''o1'' 1 [1])\<lparr>ob_access := Some (''access/talos/k1'', 1, ''t'')\<rparr>) 13 13 (dsp px_started))\<rparr>\<rparr>"

definition px_published :: publish_db where
  "px_published = snd (projr (commit_release px_sha (px_worker ''c1'') px_job px_unit px_draws px_read px_read))"

definition px_turn :: publish_turn where
  "px_turn = \<lparr>tn_env = id, tn_lost = False, tn_now = 11, tn_claim = 11, tn_at = 11,
     tn_beats = [\<lparr>bt_env = id, bt_lost = False, bt_now = 12, bt_set = 12\<rparr>], tn_built = Built px_unit, tn_mid = id, tn_draws = px_draws,
     tn_fault = NoFault, tn_other = id, tn_fail = 31\<rparr>"

lemma answered: "map_sum id fst r = Inr a \<Longrightarrow> r = Inr (a, snd (projr r))"
  by (cases r) auto

lemma px_requests: "request_publication True ''drf_a'' (4, ''t'') ''e1'' ''bob'' ''publisher'' ''j1'' 1 10 px_start = Inr (''j1'', px_requested)"
  unfolding px_requested_def by (rule answered) code_simp

lemma px_claims: "claim_publish (px_worker ''c1'') 11 11 11 px_requested = Inr (Some px_job, px_claimed)"
  unfolding px_claimed_def by (rule answered) code_simp

lemma px_reads: "\<not> isl (start_observation ex_ctl ''m1'' px_for None 12 12 (dsp px_claimed))"
  "\<not> isl (record_observation ex_ctl ''m1'' px_for None
     ((ex_read ''o1'' 1 [1])\<lparr>ob_access := Some (''access/talos/k1'', 1, ''t'')\<rparr>) 13 13 (dsp px_started))"
  by code_simp+

lemma px_outcome:
  "map_sum id (\<lambda>(rel, s). (rel, map (\<lambda>r. (rw_id r, rw_draft r, rw_draft_rev r, rw_operation r)) (rels s), life_of ''j1'' s,
     keyed as_machine ''m1'' (assignments (dsp s)))) (commit_release px_sha (px_worker ''c1'') px_job px_unit px_draws px_read px_read) =
   Inr (''rel_a'', [(''rel_a'', ''drf_a'', 4, ''j1'')], Some (JobSucceeded, 1, Some ''rel_a''), Some \<lparr>as_machine = ''m1'', as_head = Some ''a2''\<rparr>)"
  by code_simp

lemma px_commits: "commit_release px_sha (px_worker ''c1'') px_job px_unit px_draws px_read px_read = Inr (''rel_a'', px_published)"
  using px_outcome unfolding px_published_def
  by (cases "commit_release px_sha (px_worker ''c1'') px_job px_unit px_draws px_read px_read") auto

section \<open>The states are reachable\<close>

lemma px_installed: "publish_start px_start" "installed (rec px_start)"
proof -
  show "publish_start px_start" by (simp add: publish_start_def px_start_def)
  show "installed (rec px_start)" using rx_installed by (simp add: px_start_def installed_def rx0_def rx_on_def)
qed

lemma px_work:
  assumes "dispatch_step (dsp s) db'" and "scopes_kept (dsp s) db'"
  shows "publish_step s (s\<lparr>rec := (rec s)\<lparr>disp := db'\<rparr>\<rparr>)"
  by (rule publish_step.other [OF recovery_step.work [OF assms]]) simp_all

lemma px_step_started: "publish_step px_claimed px_started"
  unfolding px_started_def
  by (rule px_work, rule dispatch_step.start_observation [OF Inr_projr_pair [OF px_reads(1)]]) code_simp

lemma px_step_read: "publish_step px_started px_read"
  unfolding px_read_def
  by (rule px_work, rule dispatch_step.record_observation [OF Inr_projr [OF px_reads(2)]]) code_simp

lemma px_bound: "job_bound px_job px_read"
proof -
  have "map (\<lambda>x. (pj_id x, pj_draft x, pj_draft_rev x, pj_gen x)) (jobs (rec px_read)) = [(''j1'', ''drf_a'', 4, 1)]" by code_simp
  then obtain x where "x \<in> set (jobs (rec px_read))" "pj_id x = ''j1''" "pj_draft x = ''drf_a''" "pj_draft_rev x = 4" "pj_gen x = 1" by auto
  then show ?thesis by (auto simp: job_bound_def px_job_def)
qed

lemma px_to_requested: "publish_step\<^sup>*\<^sup>* px_start px_requested"
  using publish_step.request [OF px_requests] by blast

lemma px_to_claimed: "publish_step\<^sup>*\<^sup>* px_start px_claimed"
  using px_to_requested publish_step.claim [OF px_claims] by (rule rtranclp.rtrancl_into_rtrancl)

lemma px_to_read: "publish_step\<^sup>*\<^sup>* px_start px_read"
  using px_to_claimed px_step_started px_step_read by (meson rtranclp.rtrancl_into_rtrancl)

lemma px_to_published: "publish_step\<^sup>*\<^sup>* px_start px_published"
  using px_to_read publish_step.commit [OF px_commits px_bound] by (rule rtranclp.rtrancl_into_rtrancl)

text \<open>The lease of the first worker ends, and a second one claims the job.\<close>

definition px_again :: publish_db where
  "px_again = snd (projr (claim_publish (px_worker ''c2'') 100 100 100 px_claimed))"

lemma px_claims_again: "claim_publish (px_worker ''c2'') 100 100 100 px_claimed = Inr (Some (px_job\<lparr>jb_gen := 2\<rparr>), px_again)"
  unfolding px_again_def by (rule answered) code_simp

lemma px_before:
  "(keyed as_machine ''m1'' (assignments (dsp px_read)), release_of ''drf_a'' 4 px_read) =
   (Some \<lparr>as_machine = ''m1'', as_head = Some ''a1''\<rparr>, None)"
  by code_simp

lemma px_facts:
  "map (\<lambda>r. (rw_id r, rw_draft r, rw_draft_rev r, rw_operation r)) (rels px_published) = [(''rel_a'', ''drf_a'', 4, ''j1'')]"
  "life_of ''j1'' px_published = Some (JobSucceeded, 1, Some ''rel_a'')"
  "keyed as_machine ''m1'' (assignments (dsp px_published)) = Some \<lparr>as_machine = ''m1'', as_head = Some ''a2''\<rparr>"
  "keyed as_machine ''m1'' (assignments (dsp px_read)) = Some \<lparr>as_machine = ''m1'', as_head = Some ''a1''\<rparr>"
  "release_of (jb_draft px_job) (jb_draft_rev px_job) px_read = None"
  using px_outcome px_before unfolding px_commits by (simp_all add: px_job_def)

end
