(* ===== verification/Publish_Props.thy ===== *)
theory Publish_Props
  imports Publish_System Publish_Example
begin

text \<open>
  The publication's properties: a draft revision is published once, a job's life, superseded workers, what a
  publication answers, and what its commit writes.
\<close>

section \<open>Runs\<close>

interpretation publish_life: forward_sim publish_step publish_inv job_life "life_of op" for op
  by unfold_locales (auto dest!: effect_step simp: pub_effect_def)

lemma publish_run_inv: "publish_start s0 \<Longrightarrow> publish_step\<^sup>*\<^sup>* s0 s \<Longrightarrow> publish_inv s"
  using effect_run publish_start_inv by blast

lemma publish_inv_run: "publish_inv s \<Longrightarrow> publish_step\<^sup>*\<^sup>* s s' \<Longrightarrow> publish_inv s'"
  using effect_run by blast

lemma bound_kept:
  assumes "publish_step\<^sup>*\<^sup>* s s'" and "publish_inv s" and "job_bound j s"
  shows "job_bound j s'"
proof -
  obtain x where x: "x \<in> set (jobs (rec s))" "pj_id x = jb_op j" "pj_draft x = jb_draft j" "pj_draft_rev x = jb_draft_rev j" "jb_gen j \<le> pj_gen x"
    using assms(3) by (auto simp: job_bound_def)
  then obtain y where "y \<in> set (jobs (rec s'))" "same_job x y" using effect_run [OF assms(1,2)] by blast
  then show ?thesis using x by (auto simp: job_bound_def same_job_def intro!: bexI [of _ y])
qed

lemma claimed_row:
  assumes "claim_publish w now now' at s = Inr (Some j, s')"
  obtains x where "x \<in> set (jobs (rec s))" and "pj_id x = jb_op j" and "jb_gen j = pj_gen x + 1"
    and "job_taken w now' x \<in> set (jobs (rec s'))" and "job_bound j s'"
  using assms
proof (cases rule: claim_publish_ok)
  case (2 x d)
  have t: "job_taken w now' x \<in> set (jobs (rec s'))"
    using in_update(2) [of x "jobs (rec s)" "\<lambda>y. pj_id y = pj_id x" "job_taken w now'"] 2(1) by (simp add: 2(6))
  have j: "jb_op j = pj_id x" "jb_draft j = pj_draft x" "jb_draft_rev j = pj_draft_rev x" "jb_gen j = pj_gen x + 1" using 2(5) by simp_all
  have "job_bound j s'" unfolding job_bound_def using t j by (intro bexI [OF _ t]) (simp add: job_taken_def)
  then show ?thesis using that 2(1) j t by simp
qed simp

section \<open>Releases and jobs\<close>

lemma distinct_same: "distinct (map f xs) \<Longrightarrow> x \<in> set xs \<Longrightarrow> y \<in> set xs \<Longrightarrow> f x = f y \<Longrightarrow> x = y"
  by (auto simp: distinct_map dest: inj_onD)

text \<open>C6. A draft revision is published once: in every state that requests, workers, recovery mode, the dispatch,
  authors and the monitor reach, two releases of one draft revision are one release; a job succeeded exactly
  when it names a release, and that release is of its draft revision; the operation of a release is a job that
  succeeded with it; at most one job of a draft revision is queued or running; and a published draft names a
  release of its own.
\<close>

theorem published_once:
  assumes "publish_start s0" and "publish_step\<^sup>*\<^sup>* s0 s"
  shows "(\<forall>r \<in> set (rels s). \<forall>r' \<in> set (rels s). rw_draft r = rw_draft r' \<and> rw_draft_rev r = rw_draft_rev r' \<longrightarrow> r = r') \<and>
    (\<forall>x \<in> set (jobs (rec s)). pj_state x = JobSucceeded \<longleftrightarrow>
       (\<exists>r \<in> set (rels s). pj_result x = Some (rw_id r) \<and> rw_draft r = pj_draft x \<and> rw_draft_rev r = pj_draft_rev x)) \<and>
    (\<forall>r \<in> set (rels s). \<exists>x \<in> set (jobs (rec s)). pj_id x = rw_operation r \<and> pj_state x = JobSucceeded \<and> pj_result x = Some (rw_id r)) \<and>
    (\<forall>x \<in> set (jobs (rec s)). \<forall>y \<in> set (jobs (rec s)).
       active_job x \<and> active_job y \<and> pj_draft x = pj_draft y \<and> pj_draft_rev x = pj_draft_rev y \<longrightarrow> x = y) \<and>
    (\<forall>d \<in> set (drafts s). df_state d = DraftPublished \<longrightarrow> (\<exists>r \<in> set (rels s). df_release d = Some (rw_id r) \<and> rw_draft r = df_id d))"
proof (intro conjI)
  have i: "publish_inv s" by (rule publish_run_inv [OF assms])
  then have jo: "job_ok (rels s) x" if "x \<in> set (jobs (rec s))" for x using inv_row [OF _ that] by blast
  show "\<forall>r \<in> set (rels s). \<forall>r' \<in> set (rels s). rw_draft r = rw_draft r' \<and> rw_draft_rev r = rw_draft_rev r' \<longrightarrow> r = r'"
    using i distinct_same [of "\<lambda>r. (rw_draft r, rw_draft_rev r)" "rels s"] unfolding publish_inv_def by blast
  show "\<forall>x \<in> set (jobs (rec s)). pj_state x = JobSucceeded \<longleftrightarrow>
       (\<exists>r \<in> set (rels s). pj_result x = Some (rw_id r) \<and> rw_draft r = pj_draft x \<and> rw_draft_rev r = pj_draft_rev x)"
    using jo unfolding job_ok_def by (metis not_None_eq)
  show "\<forall>r \<in> set (rels s). \<exists>x \<in> set (jobs (rec s)). pj_id x = rw_operation r \<and> pj_state x = JobSucceeded \<and> pj_result x = Some (rw_id r)"
    using i jo unfolding publish_inv_def job_ok_def by (metis option.distinct(1))
  show "\<forall>x \<in> set (jobs (rec s)). \<forall>y \<in> set (jobs (rec s)).
       active_job x \<and> active_job y \<and> pj_draft x = pj_draft y \<and> pj_draft_rev x = pj_draft_rev y \<longrightarrow> x = y"
    using i distinct_same [of "\<lambda>x. (pj_draft x, pj_draft_rev x)" "filter active_job (jobs (rec s))"] unfolding publish_inv_def by simp
  show "\<forall>d \<in> set (drafts s). df_state d = DraftPublished \<longrightarrow> (\<exists>r \<in> set (rels s). df_release d = Some (rw_id r) \<and> rw_draft r = df_id d)"
    using i unfolding publish_inv_def by blast
qed

theorem published_once_witness:
  "\<exists>x. x \<in> set (jobs (rec px_published)) \<and> pj_id x = ''j1'' \<and> pj_state x = JobSucceeded \<and> pj_result x = Some ''rel_a''"
proof -
  obtain r where "r \<in> set (rels px_published)" "rw_id r = ''rel_a''" "rw_operation r = ''j1''" using px_facts(1) by auto
  then show ?thesis using published_once [OF px_installed(1) px_to_published] by metis
qed



lemma stale_generation:
  assumes inv: "publish_inv s" and y: "y \<in> set (jobs (rec s))" "pj_id y = jb_op j" "jb_gen j < pj_gen y"
  shows "isl (extend_publish w j now now' s)" and "isl (finish_publish w j st result err e now at s)"
    and "hit (holds_job w j now) (jobs (rec s)) = None"
proof -
  have no: "\<forall>x \<in> set (jobs (rec s)). \<not> holds_job w j now x"
    using inv_same_id [OF inv y(1)] y(2,3) unfolding holds_job_def by (metis less_irrefl)
  then have "rows_affected (holds_job w j now) (jobs (rec s)) = 0" by (simp add: rows_affected_0_iff)
  then show "isl (extend_publish w j now now' s)" by (simp add: extend_publish_def)
  show "hit (holds_job w j now) (jobs (rec s)) = None" using no hit_Some by (metis not_None_eq)
  then show "isl (finish_publish w j st result err e now at s)" by (simp add: finish_publish_def)
qed

text \<open>C8. Once its job has been claimed again, a worker writes nothing: in every later state it can neither extend
  its lease nor fail the job nor begin or record a read of a machine, and its commit is refused or answers a release that exists and changes nothing.
\<close>

theorem superseded_worker_writes_nothing:
  assumes "publish_start s0" and "publish_step\<^sup>*\<^sup>* s0 s1" and "claim_publish w t t' at s1 = Inr (Some j, s2)"
    and "publish_step\<^sup>*\<^sup>* s2 s3" and "claim_publish w' u u' at' s3 = Inr (Some j', s4)" and "jb_op j' = jb_op j"
    and "publish_step\<^sup>*\<^sup>* s4 s"
  shows "isl (extend_publish w j now now' s) \<and> isl (fail_job w j ref now at'' s) \<and>
    (of_purpose f = Publication \<and> of_operation f = Some (jb_op j) \<and> of_generation f = jb_gen j \<longrightarrow> isl (lock_publication w m f now s)) \<and>
    (\<forall>rel s'. commit_release sha w j un dw sr s = Inr (rel, s') \<longrightarrow> s' = s \<and> (\<exists>r \<in> set (rels s). rw_id r = rel))"
proof -
  have i1: "publish_inv s1" by (rule publish_run_inv [OF assms(1,2)])
  have i2: "publish_inv s2" using effect_claim [OF i1 assms(3)] by (simp add: pub_effect_def)
  have i3: "publish_inv s3" by (rule publish_inv_run [OF i2 assms(4)])
  have i4: "publish_inv s4" using effect_claim [OF i3 assms(5)] by (simp add: pub_effect_def)
  have i5: "publish_inv s" by (rule publish_inv_run [OF i4 assms(7)])
  have "job_bound j s2" using claimed_row [OF assms(3)] by blast
  then have b3: "job_bound j s3" by (rule bound_kept [OF assms(4) i2])
  obtain x where x: "x \<in> set (jobs (rec s3))" "pj_id x = jb_op j'" "jb_gen j' = pj_gen x + 1" "job_bound j' s4"
    using claimed_row [OF assms(5)] by metis
  obtain z where "z \<in> set (jobs (rec s3))" "pj_id z = jb_op j" "jb_gen j \<le> pj_gen z" using b3 by (auto simp: job_bound_def)
  then have "jb_gen j < jb_gen j'" using inv_same_id [OF i3 x(1)] x(2,3) assms(6) by fastforce
  moreover have "job_bound j' s" by (rule bound_kept [OF assms(7) i4 x(4)])
  ultimately obtain y where y: "y \<in> set (jobs (rec s))" "pj_id y = jb_op j" "jb_gen j < pj_gen y"
    using assms(6) by (auto simp: job_bound_def)
  note st = stale_generation [OF i5 y]
  have "s' = s \<and> (\<exists>r \<in> set (rels s). rw_id r = rel)" if c: "commit_release sha w j un dw sr s = Inr (rel, s')" for rel s'
    using c
  proof (cases rule: commit_release_ok)
    case (again v r)
    have "r \<in> set (rels s)" using sql_row_Some [OF again(4) [unfolded release_of_def]] by blast
    then show ?thesis using again(3,5) by blast
  next
    case (named r)
    then show ?thesis using finish_with_ok [OF named(3)] st(2) by (metis sum.disc(2))
  next
    case (fresh hs d x m1 s1')
    have "jobs (rec s1') = jobs (rec s)" using fresh(11) by (auto elim!: write_release_ok simp: set_desired_def)
    then have "isl (finish_publish w j JobSucceeded (Some rel) None (JSucceeded rel) (dw_clock dw) (dw_at dw) s1')"
      using st(3) by (simp add: finish_publish_def)
    then show ?thesis using finish_with_ok [OF fresh(12)] by auto
  qed
  moreover have "isl (lock_publication w m f now s)"
    if "of_purpose f = Publication" "of_operation f = Some (jb_op j)" "of_generation f = jb_gen j"
  proof (cases "job_row (jb_op j) s")
    case None
    then show ?thesis using that by (simp add: lock_publication_def found_def)
  next
    case (Some x)
    then have "x = y" using inv_same_id [OF i5 _ y(1)] keyed_Some y(2) unfolding job_row_def by metis
    then have "pj_gen x \<noteq> of_generation f" using y(3) that(3) by simp
    then show ?thesis using that Some by (simp add: lock_publication_def found_def holds_job_def Let_def)
  qed
  ultimately show ?thesis using st by (simp add: fail_job_def)
qed

theorem superseded_worker_writes_nothing_witness: "isl (extend_publish (px_worker ''c1'') px_job 101 101 px_again)"
  using superseded_worker_writes_nothing [OF px_installed(1) px_to_requested px_claims rtranclp.rtrancl_refl px_claims_again _ rtranclp.rtrancl_refl]
  by (simp add: px_job_def)

section \<open>What a publication answers\<close>

lemma finished_row:
  assumes inv: "publish_inv s" and "finish_publish w j st result err e now at s = Inr s'"
  obtains x where "job_row (jb_op j) s' = Some x" and "pj_state x = st" and "pj_result x = result" and "pj_error x = err" and "pj_owner x = None"
  using assms(2)
proof (cases rule: finish_publish_ok)
  case (1 x)
  have d: "distinct (map pj_id (jobs (rec s)))" using inv by (simp add: publish_inv_def)
  have "keyed pj_id (jb_op j) (jobs (rec s)) = Some x" "holds_job w j now x" using ending.hit_iff [OF d] 1(1) by blast+
  then have "job_row (jb_op j) s' = Some (job_ended st result err x)"
    using ending.own_row [of j w now st result err "jobs (rec s)"] by (simp add: job_row_def 1(3))
  then show ?thesis by (rule that) (simp_all add: job_ended_def)
qed

lemma fail_answer_cases:
  assumes inv: "publish_inv s" and "fail_answer w j e now at s = (a, s')"
  obtains (refused) ref x where "e = PubRefused ref" and "a = Inl e" and "job_row (jb_op j) s' = Some x" and "pj_state x = JobFailed"
      and "pj_error x = Some (rf_code ref)"
    | (kept) e' where "a = Inl e'" and "s' = s" and "\<forall>ref. e' \<noteq> PubRefused ref"
proof (cases e)
  case (PubRefused ref)
  show ?thesis
  proof (cases "fail_job w j ref now at s")
    case (Inl e')
    then have "\<forall>ref. e' \<noteq> PubRefused ref"
      by (auto simp: fail_job_def finish_publish_def add_job_event_def split: if_split_asm option.split_asm)
    moreover have "a = Inl e'" "s' = s" using assms(2) PubRefused Inl by (simp_all add: fail_answer_def)
    ultimately show ?thesis by (intro kept) simp_all
  next
    case (Inr t)
    then have a: "a = Inl e" "s' = t" using assms(2) PubRefused by (simp_all add: fail_answer_def)
    from finished_row [OF inv Inr [unfolded fail_job_def]] obtain x where
      "job_row (jb_op j) t = Some x" "pj_state x = JobFailed" "pj_error x = Some (rf_code ref)" by blast
    then show ?thesis using refused [OF PubRefused] a by blast
  qed
qed (use assms(2) kept in \<open>auto simp: fail_answer_def\<close>)

lemma commit_row:
  assumes inv: "publish_inv s" and b: "job_bound j s" and c: "commit_release sha w j u dw s0 s = Inr (rel, s')"
  shows "(\<exists>x. job_row (jb_op j) s' = Some x \<and> pj_state x = JobSucceeded \<and> pj_result x = Some rel)"
    and "\<exists>r. release_of (jb_draft j) (jb_draft_rev j) s' = Some r \<and> rw_id r = rel"
proof -
  have inv': "publish_inv s'" using effect_commit [OF inv c b] by (simp add: pub_effect_def)
  show row: "\<exists>x. job_row (jb_op j) s' = Some x \<and> pj_state x = JobSucceeded \<and> pj_result x = Some rel"
    using c
  proof (cases rule: commit_release_ok)
    case (again x r)
    have "x \<in> set (jobs (rec s))" using again(1) keyed_Some unfolding job_row_def by metis
    then have "pj_state x = JobSucceeded" using inv_row [OF inv] again(2) by (auto simp: job_ok_def)
    then show ?thesis using again by blast
  next
    case (named r)
    then show ?thesis using finish_with_ok [OF named(3)] finished_row [OF inv] by metis
  next
    case (fresh hs d x m1 s1)
    from finish_with_ok [OF fresh(12)] have "finish_publish w j JobSucceeded (Some rel) None (JSucceeded rel) (dw_clock dw) (dw_at dw) s1 = Inr s'" by blast
    then show ?thesis
    proof (cases rule: finish_publish_ok)
      case (1 z)
      have js: "jobs (rec s1) = jobs (rec s)" using fresh(11) by (auto elim!: write_release_ok simp: set_desired_def)
      have d: "distinct (map pj_id (jobs (rec s)))" using inv by (simp add: publish_inv_def)
      have "keyed pj_id (jb_op j) (jobs (rec s)) = Some z" "holds_job w j (dw_clock dw) z" using ending.hit_iff [OF d] 1(1) js by metis+
      then have "job_row (jb_op j) s' = Some (job_ended JobSucceeded (Some rel) None z)"
        using ending.own_row [of j w "dw_clock dw" JobSucceeded "Some rel" None "jobs (rec s)"] by (simp add: job_row_def 1(3) js)
      then show ?thesis by (simp add: job_ended_def)
    qed
  qed
  obtain x where x: "job_row (jb_op j) s' = Some x" "pj_result x = Some rel" using row by blast
  then have xs: "x \<in> set (jobs (rec s'))" "pj_id x = jb_op j" using keyed_Some unfolding job_row_def by metis+
  obtain r where r: "r \<in> set (rels s')" "rw_id r = rel" "rw_draft r = pj_draft x" "rw_draft_rev r = pj_draft_rev x"
    using inv_row [OF inv' xs(1)] x(2) by (auto simp: job_ok_def)
  obtain y where y: "y \<in> set (jobs (rec s))" "pj_id y = jb_op j" "pj_draft y = jb_draft j" "pj_draft_rev y = jb_draft_rev j"
    using b by (auto simp: job_bound_def)
  then obtain z where z: "z \<in> set (jobs (rec s'))" "same_job y z" using effect_commit [OF inv c b] unfolding pub_effect_def by blast
  then have "z = x" using inv_same_id [OF inv' z(1) xs(1)] y(2) xs(2) by (simp add: same_job_def)
  then have k: "rw_draft r = jb_draft j" "rw_draft_rev r = jb_draft_rev j" using r y z(2) by (simp_all add: same_job_def)
  then obtain q where q: "release_of (jb_draft j) (jb_draft_rev j) s' = Some q"
    using r(1) by (cases "release_of (jb_draft j) (jb_draft_rev j) s'") (auto simp: release_of_def sql_row_None)
  then have "q \<in> set (rels s')" "rw_draft q = jb_draft j" "rw_draft_rev q = jb_draft_rev j" using sql_row_Some unfolding release_of_def by fast+
  then have "q = r" using distinct_same [of "\<lambda>r. (rw_draft r, rw_draft_rev r)" "rels s'" q r] inv' r(1) k by (simp add: publish_inv_def)
  then show "\<exists>r. release_of (jb_draft j) (jb_draft_rev j) s' = Some r \<and> rw_id r = rel" using q r(2) by blast
qed

text \<open>C20. What a publication answers is what it did, whatever fault it meets: a release it names is the release of
  its draft revision and the job succeeded with it; a refusal is the job's recorded failure; any other error
  left no write of this publication behind, except where the commit's reply was lost.
\<close>

theorem publication_answer:
  assumes "publish_inv s" and "job_bound j s" and "publish_step\<^sup>*\<^sup>* s (other s)"
    and "publish_commit sha w j u dw fault other now at s0 s = (a, s')"
  shows "case a of
      Inr rel \<Rightarrow> (\<exists>x r. job_row (jb_op j) s' = Some x \<and> pj_state x = JobSucceeded \<and> pj_result x = Some rel \<and>
        release_of (jb_draft j) (jb_draft_rev j) s' = Some r \<and> rw_id r = rel)
    | Inl (PubRefused ref) \<Rightarrow> (\<exists>x. job_row (jb_op j) s' = Some x \<and> pj_state x = JobFailed \<and> pj_error x = Some (rf_code ref))
    | Inl e \<Rightarrow> s' = s \<or> s' = other s \<or>
        fault = ReplyLost True \<and> (\<exists>rel. commit_release sha w j u dw s0 s = Inr (rel, s'))"
proof -
  have io: "publish_inv (other s)" by (rule publish_inv_run [OF assms(1,3)])
  have fa: ?thesis if "fail_answer w j e now at (other s) = (a, s')" for e
    using that by (cases rule: fail_answer_cases [OF io]) (auto split: pub_error.split)
  show ?thesis
  proof (cases "fault = Deadlocked")
    case True
    then show ?thesis using fa assms(4) by (simp add: publish_commit_def)
  next
    case False
    show ?thesis
    proof (cases "commit_release sha w j u dw s0 s")
      case (Inl e)
      then show ?thesis using fa assms(4) False by (simp add: publish_commit_def)
    next
      case (Inr p)
      then obtain rel t where t: "commit_release sha w j u dw s0 s = Inr (rel, t)" by (cases p) auto
      show ?thesis
      proof (cases fault)
        case CommitRejected
        then show ?thesis using fa assms(4) t by (simp add: publish_commit_def)
      next
        case NoFault
        then have "a = Inr rel" "s' = t" using assms(4) t by (auto simp: publish_commit_def)
        then show ?thesis using commit_row [OF assms(1,2) t] by auto
      next
        case (ReplyLost b)
        then show ?thesis using assms(4) t by (auto simp: publish_commit_def)
      qed (use False assms(4) t in \<open>auto simp: publish_commit_def\<close>)
    qed
  qed
qed

theorem publication_answer_witness:
  "\<exists>x. job_row ''j1'' px_published = Some x \<and> pj_state x = JobSucceeded \<and> pj_result x = Some ''rel_a''"
proof -
  have c: "publish_commit px_sha (px_worker ''c1'') px_job px_unit px_draws NoFault id 30 30 px_read px_read = (Inr ''rel_a'', px_published)"
    by (simp add: publish_commit_def px_commits)
  have "publish_step\<^sup>*\<^sup>* px_read (id px_read)" by simp
  from publication_answer [OF publish_run_inv [OF px_installed(1) px_to_read] px_bound this c] show ?thesis by (auto simp: px_job_def)
qed

section \<open>What a publication rests on\<close>

lemma map_res_ok: "map_res f xs = Inr ys \<Longrightarrow> list_all2 (\<lambda>x y. f x = Inr y) xs ys"
  by (induction xs arbitrary: ys) (auto simp: and_then_ok)

lemma map_filter_Nil: "List.map_filter f xs = [] \<longleftrightarrow> (\<forall>x \<in> set xs. f x = None)"
  by (auto simp: List.map_filter_def filter_empty_conv)

lemma check_inputs_ok:
  assumes "check_inputs j u d hs s = Inr ()"
  shows "df_state d = DraftOpen" and "df_revision d = jb_draft_rev j"
    and "\<forall>h \<in> set hs. head_conflict h = None"
    and "\<forall>m \<in> set (ru_machines u). base_conflict (cluster_bases (jb_cluster j) (jb_draft j) s) m = None"
    and "\<forall>b \<in> set (cluster_bases (jb_cluster j) (jb_draft j) s). uncovered_conflict u b = None"
    and "\<forall>h \<in> set hs. assignment_change u s h = Inr ()"
proof -
  show 1: "df_state d = DraftOpen" "df_revision d = jb_draft_rev j" using assms by (simp_all add: check_inputs_def split: if_split_asm)
  have c: "conflicts_of u hs (cluster_bases (jb_cluster j) (jb_draft j) s) = []"
    using assms 1 by (simp add: check_inputs_def Let_def split: if_split_asm)
  then show "\<forall>h \<in> set hs. head_conflict h = None"
    "\<forall>m \<in> set (ru_machines u). base_conflict (cluster_bases (jb_cluster j) (jb_draft j) s) m = None"
    "\<forall>b \<in> set (cluster_bases (jb_cluster j) (jb_draft j) s). uncovered_conflict u b = None"
    by (simp_all add: conflicts_of_def map_filter_Nil)
  obtain ys where ys: "map_res (assignment_change u s) hs = Inr ys"
    using assms 1 c by (auto simp: check_inputs_def Let_def and_then_ok)
  show "\<forall>h \<in> set hs. assignment_change u s h = Inr ()" using map_res_ok [OF ys] by (auto simp: list_all2_conv_all_nth in_set_conv_nth)
qed

lemma locked_head:
  assumes "lock_heads s hs0 = Inr hs" and "h0 \<in> set hs0"
  shows "\<exists>h \<in> set hs. lock_head s h0 = Inr h"
proof -
  obtain ys where "map_res (lock_head s) hs0 = Inr ys" "ys = hs" using assms(1) by (auto simp: lock_heads_def and_then_ok split: if_split_asm)
  then have "list_all2 (\<lambda>x y. lock_head s x = Inr y) hs0 hs" using map_res_ok by blast
  then show ?thesis using assms(2) by (auto simp: list_all2_conv_all_nth in_set_conv_nth)
qed

lemma head_as_compiled:
  assumes "lock_heads s hs0 = Inr hs" and "h0 \<in> set hs0" and "\<forall>h \<in> set hs. head_conflict h = None" and "sh_head h0 \<noteq> ''''"
  shows "\<exists>r \<in> set (heads s). hd_kind r = sh_kind h0 \<and> hd_id r = sh_head h0 \<and> hd_revision r = sh_base h0 \<and> (sh_changed h0 \<longrightarrow> sh_base h0 \<noteq> 0)"
proof -
  obtain h where h: "h \<in> set hs" "lock_head s h0 = Inr h" using locked_head [OF assms(1,2)] by blast
  then obtain r where r: "sql_row (\<lambda>r. hd_kind r = sh_kind h0 \<and> hd_id r = sh_head h0) (heads s) = Some r"
    and e: "h = h0\<lparr>sh_key := hd_key r, sh_actual := hd_revision r\<rparr>"
    using assms(4) by (auto simp: lock_head_def split: option.split_asm)
  have "head_conflict h = None" using assms(3) h(1) by blast
  then have "hd_revision r = sh_base h0 \<and> (sh_changed h0 \<longrightarrow> sh_base h0 \<noteq> 0)"
    using assms(4) by (auto simp: e head_conflict_def split: if_split_asm)
  then show ?thesis using sql_row_Some [OF r] by blast
qed

text \<open>C21. A new release rests on inputs that had not moved: its draft is open at the job's revision; every head the
  draft changes, and every other head the unit was compiled from, is at the revision it was read at; every
  covered machine's base is the one compiled, and no machine of the cluster with a base is left out.
\<close>

theorem publication_inputs_current:
  assumes "commit_release sha w j u dw s0 s = Inr (rel, s')" and "release_of (jb_draft j) (jb_draft_rev j) s = None"
  shows "(\<exists>d. keyed df_id (jb_draft j) (drafts s) = Some d \<and> df_state d = DraftOpen \<and> df_revision d = jb_draft_rev j) \<and>
    (\<forall>e \<in> set (draft_sources s0). ds_draft e = jb_draft j \<longrightarrow> sh_head (draft_head s0 e) \<noteq> '''' \<longrightarrow>
       (\<exists>r \<in> set (heads s). hd_kind r = ds_kind e \<and> hd_id r = sh_head (draft_head s0 e) \<and> ds_base e = Some (hd_revision r))) \<and>
    (\<forall>h \<in> set (ru_unchanged u). uh_head h \<noteq> '''' \<longrightarrow>
       (\<exists>r \<in> set (heads s). hd_kind r = uh_kind h \<and> hd_id r = uh_head h \<and> hd_revision r = uh_head_revision h)) \<and>
    (\<forall>m \<in> set (ru_machines u). or_empty (map_of (cluster_bases (jb_cluster j) (jb_draft j) s) (um_machine m)) = um_base m) \<and>
    (\<forall>(m, b) \<in> set (cluster_bases (jb_cluster j) (jb_draft j) s). b \<noteq> '''' \<longrightarrow> m \<in> set (covered u))"
  using assms(1)
proof (cases rule: commit_release_ok)
  case (fresh hs d x m1 s1)
  note c = check_inputs_ok [OF fresh(8)]
  have e: "\<exists>r \<in> set (heads s). hd_kind r = ds_kind e \<and> hd_id r = sh_head (draft_head s0 e) \<and> ds_base e = Some (hd_revision r)"
    if e: "e \<in> set (draft_sources s0)" "ds_draft e = jb_draft j" "sh_head (draft_head s0 e) \<noteq> ''''" for e
  proof -
    have m: "draft_head s0 e \<in> set (draft_heads (jb_draft j) s0 @ map unchanged_head (ru_unchanged u))"
      using e by (simp add: draft_heads_def)
    obtain r where r: "r \<in> set (heads s)" "hd_kind r = sh_kind (draft_head s0 e)" "hd_id r = sh_head (draft_head s0 e)"
        "hd_revision r = sh_base (draft_head s0 e)" "sh_base (draft_head s0 e) \<noteq> 0"
      using head_as_compiled [OF fresh(5) m c(3) e(3)] by (auto simp: draft_head_def)
    then have "ds_base e = Some (hd_revision r)" by (cases "ds_base e") (simp_all add: draft_head_def)
    then show ?thesis using r by (intro bexI [OF _ r(1)]) (simp add: draft_head_def)
  qed
  have un: "\<exists>r \<in> set (heads s). hd_kind r = uh_kind h \<and> hd_id r = uh_head h \<and> hd_revision r = uh_head_revision h"
    if h: "h \<in> set (ru_unchanged u)" "uh_head h \<noteq> ''''" for h
    using head_as_compiled [OF fresh(5) _ c(3), of "unchanged_head h"] h by (simp add: unchanged_head_def)
  have b: "or_empty (map_of (cluster_bases (jb_cluster j) (jb_draft j) s) (um_machine m)) = um_base m" if "m \<in> set (ru_machines u)" for m
    using c(4) that by (auto simp: base_conflict_def Let_def split: if_split_asm)
  have k: "m \<in> set (covered u)" if "(m, b) \<in> set (cluster_bases (jb_cluster j) (jb_draft j) s)" "b \<noteq> ''''" for m b
    using c(5) that by (fastforce simp: uncovered_conflict_def covered_def split: if_split_asm)
  show ?thesis using fresh(6) c(1,2) e un b k by blast
qed (use assms(2) in simp_all)

theorem publication_inputs_current_witness:
  "\<exists>d. keyed df_id ''drf_a'' (drafts px_read) = Some d \<and> df_state d = DraftOpen \<and> df_revision d = 4"
  using publication_inputs_current [OF px_commits px_facts(5)] by (simp add: px_job_def)

interpretation assigned: keyed_update as_machine k "\<lambda>a. as_machine a = k" "\<lambda>a. a\<lparr>as_head := rv\<rparr>" for k rv
  by unfold_locales simp_all

lemma move_head_assignment:
  assumes "move_head cluster dw h s = Inr (h', s')" and "\<not> (sh_changed h \<and> sh_kind h = HAssignment \<and> sh_key h = m)"
  shows "keyed as_machine m (assignments (dsp s')) = keyed as_machine m (assignments (dsp s))"
proof -
  have "\<exists>hs rv. s' = (if sh_changed h then point_head h rv (s\<lparr>heads := hs\<rparr>) else s)"
    using assms(1) by (auto simp: move_head_def insert_head_def Let_def split: if_split_asm option.split_asm)
  then obtain hs rv where s': "s' = (if sh_changed h then point_head h rv (s\<lparr>heads := hs\<rparr>) else s)" by blast
  show ?thesis
  proof (cases "sh_changed h \<and> sh_kind h = HAssignment")
    case True
    then have "m \<noteq> sh_key h" using assms(2) by blast
    then have "keyed as_machine m (assignments (point_assignment (sh_key h) rv db)) = keyed as_machine m (assignments db)" for db
      by (simp add: point_assignment_def assigned.other_row keyed_append keyed_Cons keyed_Nil split: option.split)
    then show ?thesis using True by (simp add: s' point_head_def)
  qed (auto simp: s' point_head_def)
qed

lemma move_heads_assignment:
  "move_heads cluster dw hs s = Inr (hs', s') \<Longrightarrow> \<forall>h \<in> set hs. \<not> (sh_changed h \<and> sh_kind h = HAssignment \<and> sh_key h = m) \<Longrightarrow>
   keyed as_machine m (assignments (dsp s')) = keyed as_machine m (assignments (dsp s))"
proof (induction hs arbitrary: s hs')
  case (Cons h hs)
  then obtain h1 s1 hs1 where 1: "move_head cluster dw h s = Inr (h1, s1)" and 2: "move_heads cluster dw hs s1 = Inr (hs1, s')"
    by (auto simp: and_then_ok)
  show ?case using Cons.IH [OF 2] move_head_assignment [OF 1] Cons.prems(2) by simp
qed simp

text \<open>C10. A publication never changes what is assigned to a machine under way: where the assignment of a machine
  changes, the release covers the machine, no apply operation on it has still to end, and in recovery mode its
  scope has been released.
\<close>

theorem assignment_changes_are_admitted:
  assumes "commit_release sha w j u dw s0 s = Inr (rel, s')"
    and "keyed as_machine m (assignments (dsp s')) \<noteq> keyed as_machine m (assignments (dsp s))"
  shows "m \<in> set (covered u) \<and>
    (\<forall>op \<in> set (operations (dsp s)). o_machine op = m \<and> o_kind op = ApplyConfig \<longrightarrow> \<not> holding (o_state op)) \<and>
    (\<exists>r. keyed m_id m (machines (dsp s)) = Some r \<and> (recovery_mode (dsp s) \<longrightarrow> m_scope r = ScopeReleased))"
  using assms(1)
proof (cases rule: commit_release_ok)
  case (again x r)
  then show ?thesis using assms(2) by simp
next
  case (named r)
  from finish_with_ok [OF named(3)]
  have "finish_publish w j JobSucceeded (Some rel) None (JSucceeded rel) (dw_clock dw) (dw_at dw) s = Inr s'" by blast
  then have "dsp s' = dsp s" by (rule finish_publish_ok) simp
  then show ?thesis using assms(2) by simp
next
  case (fresh hs d x m1 s1)
  from finish_with_ok [OF fresh(12)]
  have "finish_publish w j JobSucceeded (Some rel) None (JSucceeded rel) (dw_clock dw) (dw_at dw) s1 = Inr s'" by blast
  then have d1: "dsp s' = dsp s1" by (rule finish_publish_ok) simp
  from fresh(11) obtain h where h: "h \<in> set hs" "sh_changed h" "sh_kind h = HAssignment" "sh_key h = m"
  proof (cases rule: write_release_ok)
    case (1 hs' h a ys zs s2)
    have as: "assignments (dsp s1) = a" unfolding 1(9) by (simp add: set_desired_def)
    have "assignments (dsp s2) = assignments (dsp s)" by (subst 1(2)) simp
    then have "\<not> (\<forall>h \<in> set hs. \<not> (sh_changed h \<and> sh_kind h = HAssignment \<and> sh_key h = m))"
      using move_heads_assignment [OF 1(1), of m] assms(2) d1 as by auto
    then show ?thesis using that by blast
  qed
  have ch: "assignment_change u s h = Inr ()" using check_inputs_ok(6) [OF fresh(8)] h(1) by blast
  then have cov: "m \<in> set (covered u)" and hd: "scope_holder m s = None"
    using h by (auto simp: assignment_change_def split: if_split_asm option.split_asm)
  from ch h hd obtain r where "keyed m_id m (machines (dsp s)) = Some r" "recovery_mode (dsp s) \<longrightarrow> m_scope r = ScopeReleased"
    by (auto simp: assignment_change_def split: if_split_asm option.split_asm)
  moreover have "\<forall>op \<in> set (operations (dsp s)). o_machine op = m \<and> o_kind op = ApplyConfig \<longrightarrow> \<not> holding (o_state op)"
    using hd by (auto simp: scope_holder_def filter_empty_conv split: list.split_asm)
  ultimately show ?thesis using cov by blast
qed

theorem assignment_changes_are_admitted_witness: "''m1'' \<in> set (covered px_unit)"
  using assignment_changes_are_admitted [OF px_commits, of "''m1''"] px_facts(3,4) by simp

section \<open>What a publication writes\<close>

lemma write_release_digest:
  "write_release sha j u hs x dw s = Inr s' \<Longrightarrow> release_digest sha (dw_id dw) s' = Inr (content_digest sha (content_of j u hs))"
  unfolding write_release_def Let_def by (auto simp: and_then_ok split: if_split_asm)

lemma dep_rows: "dy_dep ` set (machine_dep_rows rel m) = set (machine_deps m)" "y \<in> set (machine_dep_rows rel m) \<Longrightarrow> dy_release y = rel"
  by (auto simp: machine_dep_rows_def machine_deps_def dep_row_of_def image_Un image_image)

lemma desired_row:
  "keyed ms_machine m (sql_update (\<lambda>x. ms_machine x \<in> S) (\<lambda>x. x\<lparr>ms_desired := d, ms_revision := ms_revision x + 1\<rparr>) xs) =
   map_option (\<lambda>x. if m \<in> S then x\<lparr>ms_desired := d, ms_revision := ms_revision x + 1\<rparr> else x) (keyed ms_machine m xs)"
proof -
  have "keyed ms_machine m (sql_update (\<lambda>x. ms_machine x \<in> S) (\<lambda>x. x\<lparr>ms_desired := d, ms_revision := ms_revision x + 1\<rparr>) xs) =
      map_option (\<lambda>x. if ms_machine x \<in> S then x\<lparr>ms_desired := d, ms_revision := ms_revision x + 1\<rparr> else x) (keyed ms_machine m xs)"
    by (rule keyed_sql_update) simp
  also have "\<dots> = map_option (\<lambda>x. if m \<in> S then x\<lparr>ms_desired := d, ms_revision := ms_revision x + 1\<rparr> else x) (keyed ms_machine m xs)"
    by (cases "keyed ms_machine m xs") (auto dest: keyed_Some)
  finally show ?thesis .
qed

text \<open>C22. What a new release leaves: the covered machines desire it, each at its next revision, and no other machine
  state changes; the draft is published as it; the digest of its row is the one its stored rows give; its
  machines are those of the unit; and every secret version a machine depends on has a status, of which the
  monitor knows that the release refers to it.
\<close>

theorem publication_writes:
  assumes "commit_release sha w j u dw s0 s = Inr (rel, s')" and "release_of (jb_draft j) (jb_draft_rev j) s = None"
  shows "(\<forall>m. keyed ms_machine m (mstates (dsp s')) = map_option (\<lambda>x. if m \<in> set (covered u)
        then x\<lparr>ms_desired := Some rel, ms_revision := ms_revision x + 1\<rparr> else x) (keyed ms_machine m (mstates (dsp s)))) \<and>
    (\<exists>d. keyed df_id (jb_draft j) (drafts s') = Some d \<and> df_state d = DraftPublished \<and> df_release d = Some rel \<and>
       df_revision d = jb_draft_rev j + 1) \<and>
    (\<exists>r \<in> set (rels s'). rw_id r = rel \<and> rw_operation r = jb_op j \<and> release_digest sha rel s' = Inr (rw_digest r)) \<and>
    map (\<lambda>x. (rmx_machine x, rmx_configuration x)) (drop (length (rel_machs s)) (rel_machs s')) =
      map (\<lambda>m. (um_machine m, um_configuration m)) (ru_machines u) \<and>
    (\<forall>m \<in> set (ru_machines u). \<forall>d \<in> set (machine_deps m).
       \<exists>x \<in> set (md_deps (mon s')). dr_dep x = d \<and> (rel, dr_id x) \<in> set (md_refs (mon s')))"
  using assms(1)
proof (cases rule: commit_release_ok)
  case (fresh hs d x m1 s1)
  from finish_with_ok [OF fresh(12)]
  have "finish_publish w j JobSucceeded (Some rel) None (JSucceeded rel) (dw_clock dw) (dw_at dw) s1 = Inr s'" by blast
  then have f: "s' = s1\<lparr>rec := rec s'\<rparr>" "dsp s' = dsp s1" by (rule finish_publish_ok, simp)+
  have eq: "mon s' = mon s1" "drafts s' = drafts s1" "rels s' = rels s1" "rel_machs s' = rel_machs s1" "rel_sources s' = rel_sources s1"
    by (subst f(1), simp)+
  have dg: "release_digest sha rel s' = Inr (content_digest sha (content_of j u hs))"
    using write_release_digest [OF fresh(11)] fresh(2) by (simp add: release_digest_def stored_content_def eq)
  from fresh(11) show ?thesis
  proof (cases rule: write_release_ok)
    case (1 hs' h a ys zs s2)
    have ms: "mstates (dsp s1) = sql_update (\<lambda>x. ms_machine x \<in> set (covered u)) (\<lambda>x. x\<lparr>ms_desired := Some rel, ms_revision := ms_revision x + 1\<rparr>)
        (mstates (dsp s))" unfolding 1(9) by (simp add: set_desired_def fresh(2))
    have dr: "drafts s1 = sql_update (\<lambda>d. df_id d = jb_draft j) (\<lambda>d. d\<lparr>df_state := DraftPublished, df_release := Some rel,
        df_revision := df_revision d + 1, df_token := dw_token dw (jb_draft j)\<rparr>) (drafts s)"
      unfolding 1(9) by (simp add: close_draft_def set_desired_def fresh(2))
    have "df_id d = jb_draft j" using keyed_Some [OF fresh(6)] by blast
    then have "keyed df_id (jb_draft j) (drafts s1) = Some (d\<lparr>df_state := DraftPublished, df_release := Some rel,
        df_revision := df_revision d + 1, df_token := dw_token dw (jb_draft j)\<rparr>)"
      unfolding dr using fresh(6) by (simp add: keyed_sql_update)
    then have p: "\<exists>d. keyed df_id (jb_draft j) (drafts s') = Some d \<and> df_state d = DraftPublished \<and> df_release d = Some rel \<and> df_revision d = jb_draft_rev j + 1"
      using check_inputs_ok(2) [OF fresh(8)] by (simp add: eq)
    have r: "\<exists>r \<in> set (rels s'). rw_id r = rel \<and> rw_operation r = jb_op j \<and> release_digest sha rel s' = Inr (rw_digest r)"
      unfolding dg unfolding eq 1(9) by (simp add: close_draft_def set_desired_def fresh(2))
    have rm: "rel_machs s' = rel_machs s @ map (machine_row_of rel) (ru_machines u)"
      unfolding eq 1(9) by (simp add: close_draft_def set_desired_def fresh(2))
    have mm: "md_deps (mon s') = md_deps m1" "md_refs (mon s') = md_refs m1 @ zs"
      unfolding eq 1(9) by (simp_all add: close_draft_def set_desired_def)
    have dep: "\<exists>x \<in> set (md_deps (mon s')). dr_dep x = e \<and> (rel, dr_id x) \<in> set (md_refs (mon s'))"
      if e: "m \<in> set (ru_machines u)" "e \<in> set (machine_deps m)" for m e
    proof -
      have "e \<in> dy_dep ` set (machine_dep_rows rel m)" using e(2) by (simp only: dep_rows(1))
      then obtain y where y: "y \<in> set (machine_dep_rows rel m)" "dy_dep y = e" by (auto simp only: image_iff)
      then have "y \<in> set ys" "dy_release y = rel" using 1(8) e(1) fresh(2) dep_rows(2) by auto
      then obtain x where "x \<in> set (md_deps m1)" "dr_dep x = e" "(rel, dr_id x) \<in> set zs" using 1(7) y(2) by auto
      then show ?thesis unfolding mm by auto
    qed
    have mc: "map (\<lambda>x. (rmx_machine x, rmx_configuration x)) (drop (length (rel_machs s)) (rel_machs s')) =
        map (\<lambda>m. (um_machine m, um_configuration m)) (ru_machines u)" by (simp add: rm machine_row_of_def)
    have dm: "\<forall>m. keyed ms_machine m (mstates (dsp s')) = map_option (\<lambda>x. if m \<in> set (covered u)
        then x\<lparr>ms_desired := Some rel, ms_revision := ms_revision x + 1\<rparr> else x) (keyed ms_machine m (mstates (dsp s)))"
      unfolding f(2) ms by (rule allI) (rule desired_row)
    show ?thesis by (intro conjI) (use dm p r mc dep in blast)+
  qed
qed (use assms(2) in simp_all)

theorem publication_writes_witness:
  "\<exists>d. keyed df_id ''drf_a'' (drafts px_published) = Some d \<and> df_state d = DraftPublished \<and> df_release d = Some ''rel_a'' \<and> df_revision d = 5"
  using publication_writes [OF px_commits px_facts(5)] by (simp add: px_job_def)

section \<open>Publication beside recovery mode and the dispatch\<close>

lemma job_table_step: "r' = (rec s)\<lparr>jobs := js, job_events := es\<rparr> \<Longrightarrow> recovery_step\<^sup>*\<^sup>* (rec s) r'"
  using recovery_step.job by blast

lemma finish_is_a_job_step: "finish_publish w j st result err e now at s = Inr s' \<Longrightarrow> recovery_step\<^sup>*\<^sup>* (rec s) (rec s')"
  by (erule finish_publish_ok) (rule job_table_step, simp)

lemma write_is_work:
  assumes "write_release sha j u hs x dw s = Inr s'" and "recovery_inv (rec s)"
  shows "recovery_step (rec s) (rec s')"
  using assms(1)
proof (cases rule: write_release_ok)
  case (1 hs' h a ys zs s2)
  have r: "rec s' = (rec s)\<lparr>disp := dsp s'\<rparr>" unfolding 1(9) by (simp add: set_desired_def)
  have "distinct (map p_id (plans (dsp s)))" "distinct (map s_plan (plan_states (dsp s)))"
    using assms(2) by (simp_all add: recovery_inv_def dispatch_inv_def core_ok_def ops_ok_def pstates_ok_def)
  then have "env_change (dsp s) (dsp s')" unfolding 1(9) by (simp add: env_change_def set_desired_def)
  moreover have "scopes_kept (dsp s) (dsp s')" unfolding 1(9) by (simp add: scopes_kept_def set_desired_def)
  ultimately have "recovery_step (rec s) ((rec s)\<lparr>disp := dsp s'\<rparr>)" by (intro recovery_step.work dispatch_step.env)
  then show ?thesis using r by simp
qed

lemma publish_step_recovery:
  assumes "publish_step s s'" and "recovery_inv (rec s)"
  shows "recovery_step\<^sup>*\<^sup>* (rec s) (rec s')"
  using assms(1)
proof (cases rule: publish_step.cases)
  case (request cfg draft im ep who role new seq at op)
  from request show ?thesis by (cases rule: request_publication_ok) (auto intro: job_table_step)
next
  case (claim w now now' at c)
  from claim show ?thesis by (cases rule: claim_publish_ok) (auto intro: job_table_step)
next
  case (extend w j now now')
  have "rec s' = (rec s)\<lparr>jobs := jobs (rec s'), job_events := job_events (rec s)\<rparr>" using extend_publish_ok(1) [OF extend] by (simp add: update_job_def)
  then show ?thesis by (rule job_table_step)
next
  case (fail w j ref now at)
  then show ?thesis using finish_is_a_job_step unfolding fail_job_def by blast
next
  case (commit sha w j u dw s0 rel)
  from commit(1) show ?thesis
  proof (cases rule: commit_release_ok)
    case (named r)
    then show ?thesis using finish_is_a_job_step finish_with_ok by blast
  next
    case (fresh hs d x m1 s1)
    have "recovery_step (rec s) (rec s1)" using write_is_work [OF fresh(11)] assms(2) by simp
    moreover have "recovery_step\<^sup>*\<^sup>* (rec s1) (rec s')" using finish_is_a_job_step finish_with_ok [OF fresh(12)] by blast
    ultimately show ?thesis by (rule converse_rtranclp_into_rtranclp)
  qed simp
next
  case (enter c start a ep rq at clk b r)
  then show ?thesis using recovery_step.enter by auto
next
  case edit
  then show ?thesis by (simp add: draft_edit_def)
qed auto

lemma publish_run_recovery:
  assumes "publish_step\<^sup>*\<^sup>* s0 s" and "recovery_inv (rec s0)"
  shows "recovery_step\<^sup>*\<^sup>* (rec s0) (rec s)"
  using assms
proof (induction rule: rtranclp_induct)
  case (step t s)
  then have r: "recovery_step\<^sup>*\<^sup>* (rec s0) (rec t)" by blast
  have "recovery_inv (rec t)" by (rule scope_life.inv_run [OF r step.prems])
  then show ?case using r publish_step_recovery [OF step.hyps(2)] by (meson rtranclp_trans)
qed simp

text \<open>C9. Publication composes with the rest: whatever requests, workers and their commits do, interleaved with
  recovery mode and the dispatch, is for those a run of their own steps, so that every machine's scope follows
  the recovery machine and every operation the dispatch's, as if nothing were published.
\<close>

theorem publication_is_a_recovery_run:
  assumes "installed (rec s0)" and "publish_step\<^sup>*\<^sup>* s0 s"
  shows "recovery_step\<^sup>*\<^sup>* (rec s0) (rec s) \<and> recovery_reachable (rec s) \<and>
    (\<forall>m. scope_step\<^sup>*\<^sup>* (scope_of m (dsp s0)) (scope_of m (dsp s)))"
proof -
  have r: "recovery_step\<^sup>*\<^sup>* (rec s0) (rec s)" by (rule publish_run_recovery [OF assms(2) installed_inv [OF assms(1)]])
  then have "recovery_reachable (rec s)" using assms(1) unfolding recovery_reachable_def by blast
  moreover have "scope_step\<^sup>*\<^sup>* (scope_of m (dsp s0)) (scope_of m (dsp s))" for m
    using scope_life.sim_run [OF r installed_inv [OF assms(1)]] .
  ultimately show ?thesis using r by blast
qed

theorem publication_is_a_recovery_run_witness: "recovery_reachable (rec px_published)"
  using publication_is_a_recovery_run [OF px_installed(2) px_to_published] by blast

section \<open>The worker\<close>

definition turn_ok :: "publish_turn \<Rightarrow> bool" where
  "turn_ok t \<longleftrightarrow> (\<forall>s. publish_step\<^sup>*\<^sup>* s (tn_env t s) \<and> publish_step\<^sup>*\<^sup>* s (tn_mid t s) \<and> publish_step\<^sup>*\<^sup>* s (tn_other t s)) \<and>
     (\<forall>b \<in> set (tn_beats t). \<forall>s. publish_step\<^sup>*\<^sup>* s (bt_env b s))"

lemma heartbeat_run:
  "publish_heartbeat w j bs s = (x, s') \<Longrightarrow> \<forall>b \<in> set bs. \<forall>s. publish_step\<^sup>*\<^sup>* s (bt_env b s) \<Longrightarrow> publish_step\<^sup>*\<^sup>* s s'"
proof (induction w j bs s rule: publish_heartbeat.induct)
  case (2 w j b bs s)
  have e: "publish_step\<^sup>*\<^sup>* s (bt_env b s)" using 2(5) by simp
  show ?case
  proof (cases "bt_lost b")
    case True
    then show ?thesis using 2(1) [OF refl True] 2(4,5) e by (auto simp: Let_def intro: rtranclp_trans)
  next
    case lost: False
    show ?thesis
    proof (cases "extend_publish w j (bt_now b) (bt_set b) (bt_env b s)")
      case (Inl a)
      then show ?thesis using 2(2) [OF refl lost Inl] 2(4,5) e lost by (auto simp: Let_def split: if_split_asm intro: rtranclp_trans)
    next
      case (Inr s2)
      have "publish_step\<^sup>*\<^sup>* s2 s'" using 2(3) [OF refl lost Inr] 2(4,5) Inr lost by (simp add: Let_def)
      then show ?thesis using e publish_step.extend [OF Inr] by (meson converse_rtranclp_into_rtranclp rtranclp_trans)
    qed
  qed
qed simp

lemma fail_answer_run: "fail_answer w j e now at s = (a, s') \<Longrightarrow> publish_step\<^sup>*\<^sup>* s s'"
  by (auto simp: fail_answer_def split: pub_error.split_asm sum.split_asm dest: publish_step.fail)

lemma commit_run:
  assumes "publish_commit sha w j u dw fault other now at s0 s = (a, s')" and "job_bound j s" and "publish_step\<^sup>*\<^sup>* s (other s)"
  shows "publish_step\<^sup>*\<^sup>* s s'"
proof -
  have fa: "publish_step\<^sup>*\<^sup>* s s'" if "fail_answer w j e now at (other s) = (a, s')" for e
    using fail_answer_run [OF that] assms(3) by (rule rtranclp_trans [rotated])
  show ?thesis
  proof (cases "commit_release sha w j u dw s0 s")
    case (Inl e)
    then show ?thesis using fa assms(1) by (auto simp: publish_commit_def split: if_split_asm)
  next
    case (Inr p)
    then obtain rel t where t: "commit_release sha w j u dw s0 s = Inr (rel, t)" by (cases p) auto
    have st: "publish_step s t" by (rule publish_step.commit [OF t assms(2)])
    have "(\<exists>e. fail_answer w j e now at (other s) = (a, s')) \<or> s' = s \<or> s' = t"
      using assms(1) t by (cases fault) (auto simp: publish_commit_def split: if_split_asm)
    then show ?thesis using fa st by blast
  qed
qed

lemma run_publish_run:
  assumes "publish_inv s" and "job_bound j s" and "turn_ok t"
  shows "publish_step\<^sup>*\<^sup>* s (run_publish sha w j t s)"
proof -
  obtain stopped s1 where h: "publish_heartbeat w j (tn_beats t) s = (stopped, s1)" by (cases "publish_heartbeat w j (tn_beats t) s")
  have 1: "publish_step\<^sup>*\<^sup>* s s1" by (rule heartbeat_run [OF h]) (use assms(3) in \<open>simp add: turn_ok_def\<close>)
  have m: "publish_step\<^sup>*\<^sup>* s1 (tn_mid t s1)" "publish_step\<^sup>*\<^sup>* (tn_mid t s1) (tn_other t (tn_mid t s1))"
    using assms(3) by (simp_all add: turn_ok_def)
  have b: "job_bound j (tn_mid t s1)" by (rule bound_kept [OF rtranclp_trans [OF 1 m(1)] assms(1,2)])
  show ?thesis
  proof (cases stopped)
    case True
    then show ?thesis using 1 h by (simp add: run_publish_def)
  next
    case False
    show ?thesis
    proof (cases "tn_built t")
      case BuildStopped
      then show ?thesis using 1 h False by (simp add: run_publish_def)
    next
      case (BuildRefused ref)
      have "publish_step\<^sup>*\<^sup>* s1 (snd (fail_answer w j (PubRefused ref) (tn_fail t) (tn_fail t) s1))"
        using fail_answer_run by (metis prod.collapse)
      then show ?thesis using 1 h False BuildRefused by (simp add: run_publish_def)
    next
      case (Built u)
      obtain a s2 where c: "publish_commit sha w j u (tn_draws t) (tn_fault t) (tn_other t) (tn_fail t) (tn_fail t) s1 (tn_mid t s1) = (a, s2)"
        by (cases "publish_commit sha w j u (tn_draws t) (tn_fault t) (tn_other t) (tn_fail t) (tn_fail t) s1 (tn_mid t s1)")
      have "publish_step\<^sup>*\<^sup>* (tn_mid t s1) s2" by (rule commit_run [OF c b m(2)])
      then show ?thesis using 1 m(1) h False Built c by (simp add: run_publish_def)
    qed
  qed
qed



end
