(* ===== verification/Spec2Isabelle.thy ===== *)
theory Spec2Isabelle
  imports Staging_Claim Text_Diff Ident Node_Path Dispatch_Props Dispatch_Guards Recovery_Props Recovery_Staging Executor_Props Mutation_Props Dep_Monitor_Props Publish_Props
begin

text \<open>
  Bronzeward keeps the configuration of Talos machines in PostgreSQL and applies it. A person ingests
  documents under a \<^emph>\<open>staging claim\<close>, publishes a release whose secrets are \<^emph>\<open>dependencies\<close> on a provider,
  plans an apply, and approves the plan; a controller commits it to one \<^emph>\<open>operation\<close>, records an
  \<^emph>\<open>attempt\<close> before each send, and settles the outcome. After a restore the installation is in
  \<^emph>\<open>recovery mode\<close> until every machine's scope is accounted for. Every mutating request passes one
  idempotent transaction. The state is in the database: a component is modelled as functions on its
  tables, each transaction one function, and concurrency as the order of transactions.

  \<^bold>\<open>Prelude.\<close> \<open>BW_Prelude\<close>: results as sums, tables as lists of rows (\<open>sql_update\<close>, \<open>keyed\<close>), decimal
  integers, and the locale of a keyed table.

  \<^bold>\<open>Ingestion.\<close>
  \<^item> \<open>Staging_Claim\<close> (internal/staging): \<open>create\<close>, the owner statements, \<open>take_over\<close>, the sweep, over
    \<open>staging_db\<close>. Every run follows the abstract machine of generations; a stale owner is fenced.
  \<^item> \<open>Node_Path\<close> (internal/ingest: path.go, walk.go, parse.go): \<open>parse_path\<close>, \<open>path_string\<close>, \<open>resolve\<close>,
    \<open>walk_stream\<close>, \<open>parse\<close>. Text and path correspond one to one; of an accepted stream every value has a
    path that parses back and resolves to it.

  \<^bold>\<open>Identifiers and evidence.\<close> \<open>Ident\<close> (internal/id) and \<open>Text_Diff\<close> (internal/textdiff): the parser accepts
  what the generator makes; the search returns a shortest script without leaving its arrays.

  \<^bold>\<open>Dispatch\<close> (internal/api: observe.go, drift.go, the plan acts, commit.go, attempt.go, outcome.go, settle.go).
  \<open>Dispatch_DB\<close> holds the tables and shared helpers, \<open>Drift\<close>, \<open>Plan_Acts\<close>, \<open>Plan_Commit\<close>, \<open>Attempt\<close>,
  \<open>Outcome\<close> and \<open>Settle\<close> one group of transactions each. \<open>Dispatch_Tables\<close> states what the schema demands,
  \<open>Dispatch_Moves\<close> and \<open>Dispatch_Run\<close> that every transaction keeps it and moves each operation along
  \<open>op_life\<close>, \<open>Dispatch_System\<close> the step relation of any interleaving, \<open>Dispatch_Example\<close> an evaluated run.
  \<open>Dispatch_Props\<close> has the properties of runs (one operation per scope, attempts numbered and bounded,
  a takeover fences), \<open>Dispatch_Guards\<close> those of single transactions (what admits them, what a refusal
  names).

  \<^bold>\<open>Executor\<close> (executor.go, dispatch.go). \<open>Executor\<close> writes the loop, its passes and the dispatch of one plan as
  sequences of database accesses between which the world moves; \<open>Executor_Run\<close> shows that whatever they
  commit is a run of the dispatch, \<open>Executor_Props\<close> the properties. The loop is given a number of passes:
  a process is stopped from outside, so every theorem is for every number.

  \<^bold>\<open>Recovery mode\<close> (recovery_*.go, inventory.go). \<open>Recovery\<close> has the entry, the accounting, mark, release, exit
  and the recovery acts over \<open>recovery_db\<close>; \<open>Recovery_System\<close> the step relation and the invariant, with
  the locale \<open>row_loop\<close> for the loops; \<open>Recovery_Staging\<close> what the entry does to claims; \<open>Recovery_Props\<close> and
  this theory the properties: the gate, the fence of earlier epochs, what entry and exit leave.

  \<^bold>\<open>Requests\<close> (api.go, tx.go, idempotency.go). \<open>Mutation\<close> has \<open>handle\<close>, \<open>lookup\<close>, \<open>attempt_act\<close>, \<open>run\<close>,
  \<open>resolve_commit\<close>, \<open>answer\<close> and \<open>mutate\<close> over any route's effect; what the database reports of each
  statement and what others commit in between are arguments. \<open>Mutation_Props\<close>: the locale \<open>keyed_effect\<close> is
  the contract of an effect, interpreted by the freeze and the recovery entry; the effect is applied at
  most once, the reply tells the truth, a retry is replayed, deadlocks are survived within the four
  attempts of the code.

  \<^bold>\<open>Dependency monitor\<close> (internal/classify, internal/monitor, the statuses of publish.go). \<open>Dep_Classify\<close> has the
  classification, retained and lost exactly on evidence; \<open>Dep_Monitor\<close> the transition, the recording
  transaction, the pass, the watchdog and the logger, whose loop terminates because every full batch
  moves the cursor; \<open>Dep_Monitor_Props\<close> the spacing of alerts, the warnings and the log over every run.

  \<^bold>\<open>Publication\<close> (publications.go, worker.go, publish.go, publish_declarations.go, publication_observation.go).
  \<open>Release_Digest\<close> has the encoding the release's digest hashes; the locale \<open>prefix_code\<close> states when a part
  can be read off the front of what follows, and gives that no two contents share an encoding.
  \<open>Publish_Decl\<close> has the check of a compiled machine's records, equivalent to its declarative statement.
  \<open>Publish\<close> has the tables and transactions: the request, the worker's claim, lease, heartbeat and loop, the
  evidence of a machine, and the publication commit, over the tables of recovery mode, of the dispatch and
  of the monitor. \<open>Publish_System\<close> has the step relation of all of them together, the abstract life of a job
  and what every step keeps; \<open>Publish_Example\<close> an evaluated publication; \<open>Publish_Props\<close> the properties: a draft
  revision is published once, a superseded worker writes nothing, an answer is what was done, what a
  release rests on and what it writes, and that for recovery mode and the dispatch a publication is a run
  of their own steps.

  \<^bold>\<open>Bounds.\<close> There is no fuel but the executor's number of passes and the publication worker's turns; every
  other loop of the code is structural or has a termination proof. Times and revisions are \<open>int\<close>, lengths \<open>nat\<close>: they stay far from the width
  of an int64, and the bounds the code checks are in the definitions.

  \<^bold>\<open>Not modelled.\<close> HTTP and JSON: decoding of bodies, headers of answers, paged reads and event streams; the
  members of an event or a problem document that no transaction reads again; a refusal's wording. The
  end of a context, and the loss of a connection except at the COMMIT of a request, of a response and of a
  publication.
  Authentication, the provider's and the node's clients, the snapshot and build of a release (pipeline.go)
  with the compiler and the Talos machinery, the making of a plan (plans.go), YAML decoding: the parts of the system that call them take their results as arguments. The command-line
  programs, migrations, generated types, experiments and test support.
\<close>

section \<open>The recovery entry of the whole installation\<close>

text \<open>\<^verbatim>\<open>enterRecovery\<close>'s one transaction over the dispatch's and the staging claims' tables, which share
  the installation's epoch.\<close>

definition enter_installation :: "controller \<Rightarrow> string \<Rightarrow> actor \<Rightarrow> string \<Rightarrow> entry_request \<Rightarrow> int \<Rightarrow> (nat \<Rightarrow> int)
    \<Rightarrow> recovery_db \<Rightarrow> staging_db \<Rightarrow> (api_error, entry_body \<times> recovery_db \<times> staging_db) res" where
  "enter_installation c began w ep rq te clk s d =
     and_then (enter_recovery c began w ep rq te clk s) (\<lambda>(b, s1).
       case enter_staging ep clk d of Inl _ \<Rightarrow> Inl ErrTaken | Inr d1 \<Rightarrow> Inr (b, s1, d1))"

lemma enter_installation_ok:
  "enter_installation c began w ep rq te clk s d = Inr (b, s1, d1) \<longleftrightarrow>
     enter_recovery c began w ep rq te clk s = Inr (b, s1) \<and> enter_staging ep clk d = Inr d1"
  by (auto simp: enter_installation_def and_then_ok split: sum.split_asm)

text \<open>C11. The entry stops everything that ran before it: in every later state of the dispatch and of the
  staging claims, the executor of a process of an earlier epoch ends at its next access with nothing
  committed, and every owner statement on a claim of before the entry is refused.\<close>

theorem installation_entry_stops_earlier_work:
  assumes "recovery_reachable s" and "staging_inv d" and "enter_installation c began w ep rq te clk s d = Inr (b, s1, d1)"
    and "recovery_step\<^sup>*\<^sup>* s1 s2" and "staging_step\<^sup>*\<^sup>* d1 d2"
    and "ctl_epoch old \<in> ep_id ` set (epochs s)" and "w_other v n db = disp s2"
    and "g_id g \<in> c_id ` set (claims d)" and "owner_statement ow g t st"
  shows "(\<exists>xs'. executor_loop old lease k v xs (n, db) = (False, xs', (Suc n, disp s2))) \<and> (\<exists>e. st d2 = Inl e)"
proof
  have e: "enter_recovery c began w ep rq te clk s = Inr (b, s1)" "enter_staging ep clk d = Inr d1"
    using assms(3) by (simp_all add: enter_installation_ok)
  have "superseded old (w_other v n db)" using entry_epoch_gone [OF assms(1) e(1) assms(4,6)] assms(7) by simp
  from superseded_loop [OF this] show "\<exists>xs'. executor_loop old lease k v xs (n, db) = (False, xs', (Suc n, disp s2))"
    by (simp add: assms(7))
  show "\<exists>e. st d2 = Inl e" by (rule no_statement_after_entry [OF assms(2) e(2) assms(5,8,9)])
qed

theorem installation_entry_stops_earlier_work_witness:
  "(\<exists>xs'. executor_loop ex_ctl 5 2 xx_world fresh_executor (7, disp rx_flight) = (False, xs', (8, disp rx_flight))) \<and>
   (\<exists>e. release (ex_owner ''a/1/x'') ex_claim 10 (projr (enter_staging ''e2'' (\<lambda>n. 41 + int n) Staging_Claim.ex_db)) = Inl e)"
proof -
  let ?d = "projr (enter_staging ''e2'' (\<lambda>n. 41 + int n) Staging_Claim.ex_db)"
  have r: "\<not> isl (enter_recovery ex_ctl ''e1'' (rx_who ''act1'') ''e2'' rx_request 40 (\<lambda>n. 41 + int n) (rx_on ex_db5))" by code_simp
  have d: "\<not> isl (enter_staging ''e2'' (\<lambda>n. 41 + int n) Staging_Claim.ex_db)" by code_simp
  obtain b where b: "enter_installation ex_ctl ''e1'' (rx_who ''act1'') ''e2'' rx_request 40 (\<lambda>n. 41 + int n) (rx_on ex_db5) Staging_Claim.ex_db
      = Inr (b, rx_flight, ?d)"
    unfolding enter_installation_ok rx_flight_def using Inr_projr_pair [OF r] Inr_projr [OF d] by blast
  have "ctl_epoch ex_ctl \<in> ep_id ` set (epochs (rx_on ex_db5))" by (simp add: ex_ctl_def rx_on_def rx_epoch1_def)
  moreover have "w_other xx_world 7 (disp rx_flight) = disp rx_flight" by (simp add: xx_world_def)
  moreover have "g_id ex_claim \<in> c_id ` set (claims Staging_Claim.ex_db)"
    by (simp add: ex_claim_def Staging_Claim.ex_db_def ex_row_def)
  moreover have "owner_statement (ex_owner ''a/1/x'') ex_claim 10 (release (ex_owner ''a/1/x'') ex_claim 10)"
    by (auto simp: owner_statement_def)
  ultimately show ?thesis
    using installation_entry_stops_earlier_work [OF rx_flight_reachable(2) ex_inv(1) b rtranclp.rtrancl_refl rtranclp.rtrancl_refl,
        where lease = 5 and k = 2 and xs = fresh_executor and n = 7] by simp
qed

end
